(* ===== verification/Prelude.thy ===== *)
theory Prelude
  imports Main "HOL-Library.Word" "HOL-Library.Monad_Syntax"
begin

unbundle bit_operations_syntax

text \<open>
  Shared vocabulary of the development: the machine integer types of the Rust sources,
  the convention for panics, Rust's checked operators, array access, little-endian byte
  conversion, and the generic word lemmas the component theories rest on.

  Conventions used by every theory.
  \<^item> \<open>u8\<close>, \<open>u16\<close>, \<open>u32\<close>, \<open>u64\<close>, \<open>u128\<close> are words of that width; \<open>i64\<close> and \<open>i32\<close> are the
    two's-complement words, so that a Rust \<open>as\<close> cast between \<open>i64\<close> and \<open>u64\<close> is the identity
    and \<open>sint\<close> reads the signed value. \<open>usize\<close> is \<open>nat\<close>.
  \<^item> A Rust computation that can panic (a failed \<open>assert!\<close>, an index out of bounds, an
    arithmetic overflow or an oversized shift under overflow checks) has type \<open>'a option\<close>,
    with \<open>None\<close> for the panic. A computation that is shown never to panic therefore also
    behaves the same in the release profile, where those checks are compiled out.
  \<^item> A Rust \<open>Result\<close> is a sum, with \<open>Inl\<close> for the error.
\<close>

type_synonym u8 = "8 word"
type_synonym u16 = "16 word"
type_synonym u32 = "32 word"
type_synonym u64 = "64 word"
type_synonym u128 = "128 word"
type_synonym i32 = "32 word"
type_synonym i64 = "64 word"
type_synonym bytes = "8 word list"

named_theorems decode_ok
  \<open>equations that discharge the panic checks of a decoder\<close>
named_theorems wf_defs
  \<open>definitions of the well-formedness predicates\<close>
named_theorems model_defs
  \<open>definitions of the operations of the model\<close>


section \<open>Rust operators that can panic\<close>

definition checked_add :: "'a::len word \<Rightarrow> 'a word \<Rightarrow> 'a word option" where
  "checked_add a b = (if unat a + unat b < 2 ^ LENGTH('a) then Some (a + b) else None)"

definition checked_sub :: "'a::len word \<Rightarrow> 'a word \<Rightarrow> 'a word option" where
  "checked_sub a b = (if b \<le> a then Some (a - b) else None)"

definition checked_mul :: "'a::len word \<Rightarrow> 'a word \<Rightarrow> 'a word option" where
  "checked_mul a b = (if unat a * unat b < 2 ^ LENGTH('a) then Some (a * b) else None)"

definition saturating_add :: "'a::len word \<Rightarrow> 'a word \<Rightarrow> 'a word" where
  "saturating_add a b = (if unat a + unat b < 2 ^ LENGTH('a) then a + b else - 1)"

text \<open>The operators \<open><<\<close> and \<open>>>\<close>: the shift amount must be below the width.\<close>

definition shl_chk :: "'a::len word \<Rightarrow> nat \<Rightarrow> 'a word option" where
  "shl_chk v k = (if k < LENGTH('a) then Some (push_bit k v) else None)"

definition shr_chk :: "'a::len word \<Rightarrow> nat \<Rightarrow> 'a word option" where
  "shr_chk v k = (if k < LENGTH('a) then Some (drop_bit k v) else None)"

definition sar_chk :: "'a::len word \<Rightarrow> nat \<Rightarrow> 'a word option" where
  "sar_chk v k = (if k < LENGTH('a) then Some (signed_drop_bit k v) else None)"

text \<open>Array reads and writes: an index out of bounds panics.\<close>

definition arr_get :: "'a list \<Rightarrow> nat \<Rightarrow> 'a option" where
  "arr_get xs i = (if i < length xs then Some (xs ! i) else None)"

definition arr_set :: "'a list \<Rightarrow> nat \<Rightarrow> 'a \<Rightarrow> 'a list option" where
  "arr_set xs i v = (if i < length xs then Some (xs[i := v]) else None)"

lemma shl_chk_ok [simp]: "k < LENGTH('a) \<Longrightarrow> shl_chk (v :: 'a::len word) k = Some (push_bit k v)"
  by (simp add: shl_chk_def)

lemma shr_chk_ok [simp]: "k < LENGTH('a) \<Longrightarrow> shr_chk (v :: 'a::len word) k = Some (drop_bit k v)"
  by (simp add: shr_chk_def)

lemma sar_chk_ok [simp]:
  "k < LENGTH('a) \<Longrightarrow> sar_chk (v :: 'a::len word) k = Some (signed_drop_bit k v)"
  by (simp add: sar_chk_def)

lemma arr_get_ok [simp]: "i < length xs \<Longrightarrow> arr_get xs i = Some (xs ! i)"
  by (simp add: arr_get_def)

lemma arr_set_ok [simp]: "i < length xs \<Longrightarrow> arr_set xs i v = Some (xs[i := v])"
  by (simp add: arr_set_def)

lemma checked_add_Some_iff:
  "checked_add a b = Some c \<longleftrightarrow> unat a + unat b < 2 ^ LENGTH('a) \<and> c = (a + b :: 'a::len word)"
  by (auto simp: checked_add_def)

lemma unat_add_ok: "unat a + unat b < 2 ^ LENGTH('a) \<Longrightarrow> unat (a + b :: 'a::len word) = unat a + unat b"
  by (simp add: unat_word_ariths)

lemma checked_add_ok:
  "unat a + unat b < 2 ^ LENGTH('a) \<Longrightarrow> checked_add a b = Some (a + b :: 'a::len word)"
  by (simp add: checked_add_def)

lemma unat_sub_ok: "b \<le> a \<Longrightarrow> unat (a - b :: 'a::len word) = unat a - unat b"
  by (rule unat_sub)

lemma unat_of_nat_small: "n < 2 ^ LENGTH('a) \<Longrightarrow> unat (of_nat n :: 'a::len word) = n"
  by (simp add: take_bit_nat_eq_self_iff unat_of_nat)


section \<open>Loops\<close>

text \<open>\<open>for x in xs { .. }\<close> over a state, where the body may panic.\<close>

primrec for_each :: "'a list \<Rightarrow> ('a \<Rightarrow> 's \<Rightarrow> 's option) \<Rightarrow> 's \<Rightarrow> 's option" where
  "for_each [] f s = Some s"
| "for_each (x # xs) f s = do { s' \<leftarrow> f x s; for_each xs f s' }"

lemma for_each_append: "for_each (xs @ ys) f s = do { s' \<leftarrow> for_each xs f s; for_each ys f s' }"
  by (induction xs arbitrary: s) simp_all


section \<open>Little-endian byte conversion\<close>

text \<open>\<open>to_le k v\<close> is the first \<open>k\<close> bytes of \<open>v.to_le_bytes()\<close>; \<open>from_le\<close> is
  \<open>from_le_bytes\<close> of a buffer zero-padded to the word's width.\<close>

primrec to_le :: "nat \<Rightarrow> 'a::len word \<Rightarrow> bytes" where
  "to_le 0 v = []"
| "to_le (Suc k) v = ucast v # to_le k (drop_bit 8 v)"

primrec from_le :: "bytes \<Rightarrow> 'a::len word" where
  "from_le [] = 0"
| "from_le (b # bs) = ucast b OR push_bit 8 (from_le bs)"

lemma length_to_le [simp]: "length (to_le k v) = k"
  by (induction k arbitrary: v) simp_all

lemma from_le_to_le: "from_le (to_le k v) = take_bit (8 * k) (v :: 'a::len word)"
proof (induction k arbitrary: v)
  case 0
  show ?case by simp
next
  case (Suc k)
  show ?case
    by (rule bit_word_eqI) (auto simp: Suc.IH bit_simps)
qed

lemma from_le_to_le_full:
  "LENGTH('a) \<le> 8 * k \<Longrightarrow> from_le (to_le k v) = (v :: 'a::len word)"
  by (simp add: from_le_to_le take_bit_word_eq_self)

lemma to_le_from_le:
  "8 * length bs \<le> LENGTH('a) \<Longrightarrow> to_le (length bs) (from_le bs :: 'a::len word) = bs"
proof (induction bs)
  case Nil
  show ?case by simp
next
  case (Cons b bs)
  let ?r = "from_le bs :: 'a word"
  have "ucast (ucast b OR push_bit 8 ?r) = b"
    using Cons.prems by (intro bit_word_eqI) (auto simp: bit_simps)
  moreover have "drop_bit 8 (ucast b OR push_bit 8 ?r) = take_bit (LENGTH('a) - 8) ?r"
    by (rule bit_word_eqI) (auto simp: bit_simps dest: bit_imp_le_length)
  moreover have "to_le (length bs) (take_bit (LENGTH('a) - 8) ?r) = to_le (length bs) ?r"
  proof -
    have "to_le k (take_bit m w) = to_le k w" if "8 * k \<le> m" for k m and w :: "'a word"
      using that
    proof (induction k arbitrary: m w)
      case (Suc k)
      have "ucast (take_bit m w) = (ucast w :: u8)"
        using Suc.prems by (intro bit_word_eqI) (auto simp: bit_simps)
      moreover have "drop_bit 8 (take_bit m w) = take_bit (m - 8) (drop_bit 8 w)"
        by (simp add: drop_bit_take_bit)
      ultimately show ?case
        using Suc.prems by (simp add: Suc.IH)
    qed simp
    then show ?thesis using Cons.prems by simp
  qed
  ultimately show ?case using Cons by simp
qed


section \<open>Word lemmas\<close>

lemma mask_word_eq: "(2 :: 'a::len word) ^ n - 1 = mask n"
  by (simp add: mask_eq_exp_minus_1)

lemma and_mask_take_bit: "w AND (2 ^ n - 1) = take_bit n (w :: 'a::len word)"
  by (simp add: take_bit_eq_mask mask_eq_exp_minus_1)

lemma take_bit_word_le_mask: "unat (take_bit n (w :: 'a::len word)) < 2 ^ n"
  by (simp add: unsigned_take_bit_eq)

lemma unat_inj: "unat a = unat b \<longleftrightarrow> a = (b :: 'a::len word)"
  by (simp add: word_unat_eq_iff)

lemma unat_u8_less: "unat (b :: u8) < 256"
proof -
  have "unat b < 2 ^ LENGTH(8)" by (rule unsigned_less)
  then show ?thesis by simp
qed

lemma unat_u64_less: "unat (b :: u64) < 2 ^ 64"
proof -
  have "unat b < 2 ^ LENGTH(64)" by (rule unsigned_less)
  then show ?thesis by simp
qed

lemma unat_ucast_up:
  "LENGTH('a::len) \<le> LENGTH('b::len) \<Longrightarrow> unat (ucast (w :: 'a word) :: 'b word) = unat w"
  by (simp add: unsigned_ucast_eq take_bit_nat_eq_self_iff)
    (metis less_le_trans one_le_numeral power_increasing unsigned_less)


section \<open>Leading and trailing zeros\<close>

definition leading_zeros :: "'a::len word \<Rightarrow> nat" where
  "leading_zeros w = length (takeWhile (\<lambda>k. \<not> bit w k) (rev [0..<LENGTH('a)]))"

definition trailing_zeros :: "'a::len word \<Rightarrow> nat" where
  "trailing_zeros w = length (takeWhile (\<lambda>k. \<not> bit w k) [0..<LENGTH('a)])"

text \<open>For a non-zero word, \<open>LENGTH('a) - 1 - leading_zeros w\<close> is the position of its highest set bit.\<close>

lemma takeWhile_rev_upt:
  "\<exists>k<n. P k \<Longrightarrow>
     length (takeWhile (\<lambda>k. \<not> P k) (rev [0..<n])) < n
     \<and> P (n - 1 - length (takeWhile (\<lambda>k. \<not> P k) (rev [0..<n])))
     \<and> (\<forall>j<n. n - 1 - length (takeWhile (\<lambda>k. \<not> P k) (rev [0..<n])) < j \<longrightarrow> \<not> P j)"
proof (induction n)
  case 0
  then show ?case by simp
next
  case (Suc n)
  show ?case
  proof (cases "P n")
    case True
    then show ?thesis by simp
  next
    case False
    with Suc.prems have "\<exists>k<n. P k" using less_Suc_eq by blast
    note IH = Suc.IH [OF this]
    from False IH show ?thesis by (auto simp: less_Suc_eq)
  qed
qed

lemma highest_bit:
  assumes "w \<noteq> (0 :: 'a::len word)"
  defines "h \<equiv> LENGTH('a) - 1 - leading_zeros w"
  shows "leading_zeros w < LENGTH('a)" and "bit w h" and "\<And>j. h < j \<Longrightarrow> \<not> bit w j"
proof -
  have "\<exists>k. bit w k"
  proof (rule ccontr)
    assume "\<nexists>k. bit w k"
    then have "w = 0" by (intro bit_word_eqI) simp
    with assms show False by simp
  qed
  then have "\<exists>k<LENGTH('a). bit w k" using bit_imp_le_length by blast
  note * = takeWhile_rev_upt [OF this, folded leading_zeros_def]
  show "leading_zeros w < LENGTH('a)" and "bit w h" using * by (auto simp: h_def)
  show "\<not> bit w j" if "h < j" for j
    using * that bit_imp_le_length [of w j] by (auto simp: h_def)
qed

end
