(* ===== verification/Regs.thy ===== *)
theory Regs
  imports Prelude
begin

unbundle bit_operations_syntax

text \<open>
  Register identity, the register file and processor state
  (\<open>crates/core/src/reg.rs\<close>, \<open>pstate.rs\<close>, \<open>regfile.rs\<close>): decoded register operands, the
  stable trace ids, the \<open>NZCV\<close> and \<open>DAIF\<close> fields with their packings, and the architectural
  register file with its accessors. The locale \<open>register_bank\<close> states the contract the
  interpreter relies on; it is interpreted on the 64-bit and the 32-bit accessors.
\<close>

section \<open>Register operands (reg.rs)\<close>

datatype Gpr = Gpr_X u8 | Gpr_SP | Gpr_ZR

text \<open>\<open>Gpr::from_index_zr\<close> and \<open>Gpr::from_index_sp\<close>; the \<open>assert!\<close> is the panic branch.\<close>

definition from_index_zr :: "u8 \<Rightarrow> Gpr option" where
  "from_index_zr index =
     (if index < 32 then Some (if index = 31 then Gpr_ZR else Gpr_X index) else None)"

definition from_index_sp :: "u8 \<Rightarrow> Gpr option" where
  "from_index_sp index =
     (if index < 32 then Some (if index = 31 then Gpr_SP else Gpr_X index) else None)"

definition is_zero :: "Gpr \<Rightarrow> bool" where
  "is_zero r = (case r of Gpr_ZR \<Rightarrow> True | _ \<Rightarrow> False)"

text \<open>The derived \<open>Ord\<close> of \<open>Gpr\<close>: constructors in declaration order, \<open>X\<close> by index.\<close>

fun gpr_rank :: "Gpr \<Rightarrow> nat" where
  "gpr_rank (Gpr_X i) = unat i"
| "gpr_rank Gpr_SP = 256"
| "gpr_rank Gpr_ZR = 257"

lemma gpr_rank_inj: "gpr_rank a = gpr_rank b \<longleftrightarrow> a = b"
proof -
  have "unat (i :: u8) \<noteq> 256" "unat (i :: u8) \<noteq> 257" for i
    using unat_u8_less [of i] by auto
  then show ?thesis
    by (cases a; cases b) (auto simp: eq_commute [of 256] eq_commute [of 257] unat_inj)
qed

instantiation Gpr :: linorder
begin

definition less_eq_Gpr :: "Gpr \<Rightarrow> Gpr \<Rightarrow> bool" where
  "less_eq_Gpr a b \<longleftrightarrow> gpr_rank a \<le> gpr_rank b"

definition less_Gpr :: "Gpr \<Rightarrow> Gpr \<Rightarrow> bool" where
  "less_Gpr a b \<longleftrightarrow> gpr_rank a < gpr_rank b"

instance
  by standard (auto simp: less_eq_Gpr_def less_Gpr_def gpr_rank_inj [symmetric])

end

text \<open>A SIMD/FP register operand, \<open>struct Vec(u8)\<close>.\<close>

datatype VecReg = VecReg (vec_index: u8)

definition VEC_COUNT :: nat where "VEC_COUNT = 32"

definition vec_new :: "u8 \<Rightarrow> VecReg option" where
  "vec_new index = (if index < 32 then Some (VecReg index) else None)"

definition NUM_GPR :: nat where "NUM_GPR = 31"

text \<open>Operands the register file accepts without an out-of-bounds index.\<close>

fun gpr_wf :: "Gpr \<Rightarrow> bool" where
  "gpr_wf (Gpr_X i) \<longleftrightarrow> i < 31"
| "gpr_wf Gpr_SP \<longleftrightarrow> True"
| "gpr_wf Gpr_ZR \<longleftrightarrow> True"

definition vec_wf :: "VecReg \<Rightarrow> bool" where
  "vec_wf r \<longleftrightarrow> vec_index r < 32"

lemma index_not_31: "(i :: u8) < 32 \<Longrightarrow> i \<noteq> 31 \<Longrightarrow> i < 31"
  by unat_arith

lemma from_index_zr_wf: "from_index_zr i = Some g \<Longrightarrow> gpr_wf g"
  by (auto simp: from_index_zr_def intro: index_not_31 split: if_splits)

lemma from_index_sp_wf: "from_index_sp i = Some g \<Longrightarrow> gpr_wf g"
  by (auto simp: from_index_sp_def intro: index_not_31 split: if_splits)

lemma vec_new_wf: "vec_new i = Some v \<Longrightarrow> vec_wf v"
  by (auto simp: vec_new_def vec_wf_def split: if_splits)

text \<open>\<open>trace_reg_id\<close>: the wire ids of \<open>tests/TRACE_FORMAT.md\<close> section 5.\<close>

definition trace_X0 :: u16 where "trace_X0 = 0"
definition trace_SP :: u16 where "trace_SP = 31"
definition trace_PC :: u16 where "trace_PC = 32"
definition trace_PSTATE :: u16 where "trace_PSTATE = 33"
definition trace_FPCR :: u16 where "trace_FPCR = 34"
definition trace_FPSR :: u16 where "trace_FPSR = 35"
definition trace_V_BASE :: u16 where "trace_V_BASE = 64"
definition trace_SYS_BASE :: u16 where "trace_SYS_BASE = 256"

definition trace_gpr :: "u8 \<Rightarrow> u16 option" where
  "trace_gpr n = (if unat n < NUM_GPR then Some (trace_X0 + ucast n) else None)"

definition trace_vec_lo :: "u8 \<Rightarrow> u16 option" where
  "trace_vec_lo n = (if unat n < VEC_COUNT then Some (trace_V_BASE + 2 * ucast n) else None)"

definition trace_vec_hi :: "u8 \<Rightarrow> u16 option" where
  "trace_vec_hi n = do { lo \<leftarrow> trace_vec_lo n; Some (lo + 1) }"

lemmas trace_id_defs = trace_X0_def trace_SP_def trace_PC_def trace_PSTATE_def trace_FPCR_def
  trace_FPSR_def trace_V_BASE_def trace_SYS_BASE_def


section \<open>Processor state (pstate.rs)\<close>

datatype ExceptionLevel = EL0 | EL1

datatype StackPointerSelect = SPSel_El0 | SPSel_Elx

record Nzcv =
  nzcv_n :: bool
  nzcv_z :: bool
  nzcv_c :: bool
  nzcv_v :: bool

definition nzcv_from_bits :: "u8 \<Rightarrow> Nzcv" where
  "nzcv_from_bits b = \<lparr> nzcv_n = (b AND 8 \<noteq> 0), nzcv_z = (b AND 4 \<noteq> 0),
                        nzcv_c = (b AND 2 \<noteq> 0), nzcv_v = (b AND 1 \<noteq> 0) \<rparr>"

definition nzcv_to_bits :: "Nzcv \<Rightarrow> u8" where
  "nzcv_to_bits f = push_bit 3 (of_bool (nzcv_n f)) OR push_bit 2 (of_bool (nzcv_z f))
                  OR push_bit 1 (of_bool (nzcv_c f)) OR of_bool (nzcv_v f)"

record Daif =
  daif_d :: bool
  daif_a :: bool
  daif_i :: bool
  daif_f :: bool

definition daif_from_bits :: "u8 \<Rightarrow> Daif" where
  "daif_from_bits b = \<lparr> daif_d = (b AND 8 \<noteq> 0), daif_a = (b AND 4 \<noteq> 0),
                        daif_i = (b AND 2 \<noteq> 0), daif_f = (b AND 1 \<noteq> 0) \<rparr>"

definition daif_to_bits :: "Daif \<Rightarrow> u8" where
  "daif_to_bits f = push_bit 3 (of_bool (daif_d f)) OR push_bit 2 (of_bool (daif_a f))
                  OR push_bit 1 (of_bool (daif_i f)) OR of_bool (daif_f f)"

record Pstate =
  ps_nzcv :: Nzcv
  ps_daif :: Daif
  ps_el :: ExceptionLevel
  ps_sp_sel :: StackPointerSelect

text \<open>The enum casts \<open>self.el as u64\<close> and \<open>self.sp_sel as u64\<close>.\<close>

definition el_bits :: "ExceptionLevel \<Rightarrow> u64" where
  "el_bits e = (case e of EL0 \<Rightarrow> 0 | EL1 \<Rightarrow> 1)"

definition sp_sel_bits :: "StackPointerSelect \<Rightarrow> u64" where
  "sp_sel_bits s = (case s of SPSel_El0 \<Rightarrow> 0 | SPSel_Elx \<Rightarrow> 1)"

definition TRACE_NZCV_SHIFT :: nat where "TRACE_NZCV_SHIFT = 28"
definition TRACE_DAIF_SHIFT :: nat where "TRACE_DAIF_SHIFT = 6"
definition TRACE_EL_SHIFT :: nat where "TRACE_EL_SHIFT = 2"

definition to_trace_word :: "Pstate \<Rightarrow> u64" where
  "to_trace_word p = push_bit TRACE_NZCV_SHIFT (ucast (nzcv_to_bits (ps_nzcv p)))
     OR push_bit TRACE_DAIF_SHIFT (ucast (daif_to_bits (ps_daif p)))
     OR push_bit TRACE_EL_SHIFT (el_bits (ps_el p))
     OR sp_sel_bits (ps_sp_sel p)"

lemmas trace_shift_defs = TRACE_NZCV_SHIFT_def TRACE_DAIF_SHIFT_def TRACE_EL_SHIFT_def

lemma nzcv_roundtrip: "nzcv_from_bits (nzcv_to_bits f) = f"
  by (cases f, cases "nzcv_n f"; cases "nzcv_z f"; cases "nzcv_c f"; cases "nzcv_v f")
    (simp_all add: nzcv_from_bits_def nzcv_to_bits_def)

lemma daif_roundtrip: "daif_from_bits (daif_to_bits f) = f"
  by (cases f, cases "daif_d f"; cases "daif_a f"; cases "daif_i f"; cases "daif_f f")
    (simp_all add: daif_from_bits_def daif_to_bits_def)

lemma bit_and_pow: "(b AND 2 ^ k \<noteq> 0) = bit b k" for b :: "'a::len word"
  by (simp add: and_exp_eq_0_iff_not_bit)

lemma nzcv_from_bits_bit:
  "nzcv_from_bits b = \<lparr> nzcv_n = bit b 3, nzcv_z = bit b 2, nzcv_c = bit b 1, nzcv_v = bit b 0 \<rparr>"
  using bit_and_pow [of b 3] bit_and_pow [of b 2] bit_and_pow [of b 1] bit_and_pow [of b 0]
  by (simp add: nzcv_from_bits_def)

lemma daif_from_bits_bit:
  "daif_from_bits b = \<lparr> daif_d = bit b 3, daif_a = bit b 2, daif_i = bit b 1, daif_f = bit b 0 \<rparr>"
  using bit_and_pow [of b 3] bit_and_pow [of b 2] bit_and_pow [of b 1] bit_and_pow [of b 0]
  by (simp add: daif_from_bits_def)

lemma bit_nzcv_to_bits:
  "bit (nzcv_to_bits f) k \<longleftrightarrow>
     (k = 3 \<and> nzcv_n f \<or> k = 2 \<and> nzcv_z f \<or> k = 1 \<and> nzcv_c f \<or> k = 0 \<and> nzcv_v f)"
  by (auto simp: nzcv_to_bits_def bit_simps)

lemma bit_daif_to_bits:
  "bit (daif_to_bits f) k \<longleftrightarrow>
     (k = 3 \<and> daif_d f \<or> k = 2 \<and> daif_a f \<or> k = 1 \<and> daif_i f \<or> k = 0 \<and> daif_f f)"
  by (auto simp: daif_to_bits_def bit_simps)

lemma nzcv_bits_roundtrip: "nzcv_to_bits (nzcv_from_bits b) = take_bit 4 b"
proof (rule bit_word_eqI)
  fix k :: nat assume "k < LENGTH(8)"
  have "k < 4 \<longleftrightarrow> k = 0 \<or> k = 1 \<or> k = 2 \<or> k = 3" by auto
  then show "bit (nzcv_to_bits (nzcv_from_bits b)) k = bit (take_bit 4 b) k"
    by (auto simp: bit_nzcv_to_bits nzcv_from_bits_bit bit_simps)
qed


text \<open>Reading a trace word back, as a consumer of the stream does.\<close>

definition of_trace_word :: "u64 \<Rightarrow> Pstate" where
  "of_trace_word w = \<lparr> ps_nzcv = nzcv_from_bits (ucast (drop_bit 28 w)),
     ps_daif = daif_from_bits (ucast (drop_bit 6 w)),
     ps_el = (if bit w 2 then EL1 else EL0),
     ps_sp_sel = (if bit w 0 then SPSel_Elx else SPSel_El0) \<rparr>"

lemma bit_el_bits: "bit (el_bits e) k \<longleftrightarrow> k = 0 \<and> e = EL1"
  by (cases e) (auto simp: el_bits_def bit_1_iff)

lemma bit_sp_sel_bits: "bit (sp_sel_bits s) k \<longleftrightarrow> k = 0 \<and> s = SPSel_Elx"
  by (cases s) (auto simp: sp_sel_bits_def bit_1_iff)

lemma bit_push_field:
  "bit (push_bit 28 (ucast (b :: u8)) :: u64) k \<longleftrightarrow> 28 \<le> k \<and> bit b (k - 28)"
  "bit (push_bit 6 (ucast (b :: u8)) :: u64) k \<longleftrightarrow> 6 \<le> k \<and> bit b (k - 6)"
  "bit (push_bit 2 (w :: u64)) k \<longleftrightarrow> 2 \<le> k \<and> k < 64 \<and> bit w (k - 2)"
  using bit_imp_le_length [of b "k - 28"] bit_imp_le_length [of b "k - 6"]
  by (auto simp: bit_push_bit_iff bit_unsigned_iff possible_bit_word)

lemma bit_to_trace_word:
  "bit (to_trace_word p) k \<longleftrightarrow>
     (k \<ge> 28 \<and> bit (nzcv_to_bits (ps_nzcv p)) (k - 28)
      \<or> k \<ge> 6 \<and> bit (daif_to_bits (ps_daif p)) (k - 6)
      \<or> k = 2 \<and> ps_el p = EL1 \<or> k = 0 \<and> ps_sp_sel p = SPSel_Elx)"
  by (auto simp: to_trace_word_def trace_shift_defs bit_or_iff bit_push_field bit_el_bits bit_sp_sel_bits)

lemma of_trace_word_to_trace_word: "of_trace_word (to_trace_word p) = p"
  by (cases p, cases "ps_nzcv p", cases "ps_daif p", cases "ps_el p"; cases "ps_sp_sel p")
    (auto simp: of_trace_word_def nzcv_from_bits_bit daif_from_bits_bit bit_to_trace_word
      bit_simps bit_nzcv_to_bits bit_daif_to_bits)

text \<open>Every bit outside the four fields is zero.\<close>

lemma to_trace_word_zero_elsewhere:
  "bit (to_trace_word p) k \<Longrightarrow> k \<in> {28..31} \<union> {6..9} \<union> {2} \<union> {0}"
  by (auto simp: bit_to_trace_word bit_nzcv_to_bits bit_daif_to_bits)


section \<open>The register file (regfile.rs)\<close>

record RegFile =
  rf_x :: "u64 list"
  rf_sp :: u64
  rf_pc :: u64
  rf_v :: "u128 list"
  rf_pstate :: Pstate
  rf_fpcr :: u64
  rf_fpsr :: u64

definition regfile_new :: RegFile where
  "regfile_new = \<lparr> rf_x = replicate NUM_GPR 0, rf_sp = 0, rf_pc = 0, rf_v = replicate VEC_COUNT 0,
     rf_pstate = \<lparr> ps_nzcv = \<lparr> nzcv_n = False, nzcv_z = False, nzcv_c = False, nzcv_v = False \<rparr>,
       ps_daif = \<lparr> daif_d = False, daif_a = False, daif_i = False, daif_f = False \<rparr>,
       ps_el = EL0, ps_sp_sel = SPSel_El0 \<rparr>,
     rf_fpcr = 0, rf_fpsr = 0 \<rparr>"

fun read_x :: "RegFile \<Rightarrow> Gpr \<Rightarrow> u64 option" where
  "read_x r (Gpr_X index) = arr_get (rf_x r) (unat index)"
| "read_x r Gpr_SP = Some (rf_sp r)"
| "read_x r Gpr_ZR = Some 0"

definition read_w :: "RegFile \<Rightarrow> Gpr \<Rightarrow> u32 option" where
  "read_w r reg = map_option ucast (read_x r reg)"

fun write_x :: "RegFile \<Rightarrow> Gpr \<Rightarrow> u64 \<Rightarrow> RegFile option" where
  "write_x r (Gpr_X index) value =
     do { xs \<leftarrow> arr_set (rf_x r) (unat index) value; Some (r\<lparr>rf_x := xs\<rparr>) }"
| "write_x r Gpr_SP value = Some (r\<lparr>rf_sp := value\<rparr>)"
| "write_x r Gpr_ZR value = Some r"

definition write_w :: "RegFile \<Rightarrow> Gpr \<Rightarrow> u32 \<Rightarrow> RegFile option" where
  "write_w r reg value = write_x r reg (ucast value)"

definition read_v :: "RegFile \<Rightarrow> VecReg \<Rightarrow> u128 option" where
  "read_v r reg = arr_get (rf_v r) (unat (vec_index reg))"

definition write_v :: "RegFile \<Rightarrow> VecReg \<Rightarrow> u128 \<Rightarrow> RegFile option" where
  "write_v r reg value =
     do { vs \<leftarrow> arr_set (rf_v r) (unat (vec_index reg)) value; Some (r\<lparr>rf_v := vs\<rparr>) }"

definition pc :: "RegFile \<Rightarrow> u64" where "pc r = rf_pc r"
definition set_pc :: "RegFile \<Rightarrow> u64 \<Rightarrow> RegFile" where "set_pc r value = r\<lparr>rf_pc := value\<rparr>"
definition sp :: "RegFile \<Rightarrow> u64" where "sp r = rf_sp r"
definition set_sp :: "RegFile \<Rightarrow> u64 \<Rightarrow> RegFile" where "set_sp r value = r\<lparr>rf_sp := value\<rparr>"

definition x_reg :: "RegFile \<Rightarrow> u8 \<Rightarrow> u64 option" where
  "x_reg r index = arr_get (rf_x r) (unat index)"

text \<open>The array lengths, which Rust's types fix.\<close>

definition regs_wf :: "RegFile \<Rightarrow> bool" where
  "regs_wf r \<longleftrightarrow> length (rf_x r) = NUM_GPR \<and> length (rf_v r) = VEC_COUNT"

lemma regs_wf_new [simp]: "regs_wf regfile_new"
  by (simp add: regs_wf_def regfile_new_def)

lemma gpr_wf_index: "gpr_wf (Gpr_X i) \<longleftrightarrow> unat i < NUM_GPR"
  by (simp add: word_less_nat_alt NUM_GPR_def)

lemma vec_wf_index: "vec_wf r \<longleftrightarrow> unat (vec_index r) < VEC_COUNT"
  by (simp add: word_less_nat_alt VEC_COUNT_def vec_wf_def)

text \<open>The value a well-formed read returns, and the file a well-formed write leaves.\<close>

fun x_val :: "RegFile \<Rightarrow> Gpr \<Rightarrow> u64" where
  "x_val r (Gpr_X i) = rf_x r ! unat i"
| "x_val r Gpr_SP = rf_sp r"
| "x_val r Gpr_ZR = 0"

fun x_upd :: "RegFile \<Rightarrow> Gpr \<Rightarrow> u64 \<Rightarrow> RegFile" where
  "x_upd r (Gpr_X i) v = r\<lparr>rf_x := (rf_x r)[unat i := v]\<rparr>"
| "x_upd r Gpr_SP v = r\<lparr>rf_sp := v\<rparr>"
| "x_upd r Gpr_ZR v = r"

lemma read_x_ok: "regs_wf r \<Longrightarrow> gpr_wf g \<Longrightarrow> read_x r g = Some (x_val r g)"
  by (cases g) (simp_all add: regs_wf_def gpr_wf_index del: gpr_wf.simps(1))

lemma write_x_ok: "regs_wf r \<Longrightarrow> gpr_wf g \<Longrightarrow> write_x r g v = Some (x_upd r g v)"
  by (cases g) (simp_all add: regs_wf_def gpr_wf_index del: gpr_wf.simps(1))

lemma write_w_ok: "regs_wf r \<Longrightarrow> gpr_wf g \<Longrightarrow> write_w r g v = Some (x_upd r g (ucast v))"
  by (simp add: write_w_def write_x_ok)

lemma regs_wf_x_upd [simp]: "regs_wf (x_upd r g v) = regs_wf r"
  by (cases g) (simp_all add: regs_wf_def)

lemma regs_wf_set_pc [simp]: "regs_wf (set_pc r v) = regs_wf r"
  by (simp add: regs_wf_def set_pc_def)

lemma regs_wf_pstate [simp]: "regs_wf (r\<lparr>rf_pstate := p\<rparr>) = regs_wf r"
  by (simp add: regs_wf_def)

lemma pc_set_pc [simp]: "rf_pc (set_pc r v) = v"
  by (simp add: set_pc_def)

lemma x_val_set_pc [simp]: "x_val (set_pc r v) g = x_val r g"
  by (cases g) (simp_all add: set_pc_def)

lemma x_upd_pc [simp]: "rf_pc (x_upd r g v) = rf_pc r"
  by (cases g) simp_all

lemma x_upd_pstate [simp]: "rf_pstate (x_upd r g v) = rf_pstate r"
  by (cases g) simp_all

lemma x_val_x_upd:
  assumes "regs_wf r" "gpr_wf g"
  shows "x_val (x_upd r g v) h = (if h = g \<and> g \<noteq> Gpr_ZR then v else x_val r h)"
  using assms
  by (cases g; cases h) (auto simp: regs_wf_def gpr_wf_index nth_list_update unat_inj simp del: gpr_wf.simps(1))

text \<open>
  The contract the interpreter relies on: a bank of general-purpose registers whose reads
  and writes never fail on a well-formed operand, with the zero register discarding writes.
\<close>

locale register_bank =
  fixes rd :: "'r \<Rightarrow> Gpr \<Rightarrow> 'v::zero option"
    and wr :: "'r \<Rightarrow> Gpr \<Rightarrow> 'v \<Rightarrow> 'r option"
    and ok :: "'r \<Rightarrow> bool"
  assumes rd_total: "ok r \<Longrightarrow> gpr_wf g \<Longrightarrow> \<exists>v. rd r g = Some v"
    and wr_total: "ok r \<Longrightarrow> gpr_wf g \<Longrightarrow> \<exists>r'. wr r g v = Some r' \<and> ok r'"
    and rd_zero: "rd r Gpr_ZR = Some 0"
    and rd_wr_same: "ok r \<Longrightarrow> gpr_wf g \<Longrightarrow> g \<noteq> Gpr_ZR \<Longrightarrow> wr r g v = Some r' \<Longrightarrow> rd r' g = Some v"
    and rd_wr_other: "ok r \<Longrightarrow> gpr_wf g \<Longrightarrow> g \<noteq> h \<Longrightarrow> wr r g v = Some r' \<Longrightarrow> gpr_wf h \<Longrightarrow> rd r' h = rd r h"
begin

text \<open>Writes to different registers commute as far as any read can tell.\<close>

lemma writes_commute:
  assumes r: "ok r" and wf: "gpr_wf g" "gpr_wf h" "gpr_wf k" and ne: "g \<noteq> h"
    and gh: "wr r g a = Some r1" "wr r1 h b = Some r2"
    and hg: "wr r h b = Some s1" "wr s1 g a = Some s2"
  shows "rd r2 k = rd s2 k"
proof -
  have ok1: "ok r1" "ok s1"
    using wr_total [OF r wf(1), of a] wr_total [OF r wf(2), of b] gh hg by auto
  show ?thesis
  proof (cases "k = Gpr_ZR")
    case True
    then show ?thesis by (simp add: rd_zero)
  next
    case nz: False
    have "rd r2 k = (if k = h then Some b else rd r1 k)"
      using nz rd_wr_same [OF ok1(1) wf(2) _ gh(2)] rd_wr_other [OF ok1(1) wf(2) _ gh(2) wf(3)] by auto
    moreover have "rd r1 k = (if k = g then Some a else rd r k)"
      using nz rd_wr_same [OF r wf(1) _ gh(1)] rd_wr_other [OF r wf(1) _ gh(1) wf(3)] by auto
    moreover have "rd s2 k = (if k = g then Some a else rd s1 k)"
      using nz rd_wr_same [OF ok1(2) wf(1) _ hg(2)] rd_wr_other [OF ok1(2) wf(1) _ hg(2) wf(3)] by auto
    moreover have "rd s1 k = (if k = h then Some b else rd r k)"
      using nz rd_wr_same [OF r wf(2) _ hg(1)] rd_wr_other [OF r wf(2) _ hg(1) wf(3)] by auto
    ultimately show ?thesis using ne by auto
  qed
qed

text \<open>The last write to a register wins.\<close>

lemma write_overwrites:
  assumes "ok r" "gpr_wf g" "g \<noteq> Gpr_ZR" "wr r g a = Some r1" "wr r1 g b = Some r2"
  shows "rd r2 g = Some b"
proof -
  have "ok r1" using wr_total [OF assms(1,2), of a] assms(4) by auto
  then show ?thesis using assms rd_wr_same by blast
qed

end

interpretation xregs: register_bank read_x write_x regs_wf
proof
  fix r g h v r'
  show "regs_wf r \<Longrightarrow> gpr_wf g \<Longrightarrow> g \<noteq> Gpr_ZR \<Longrightarrow> write_x r g v = Some r' \<Longrightarrow> read_x r' g = Some v"
    by (auto simp: write_x_ok read_x_ok x_val_x_upd)
  show "regs_wf r \<Longrightarrow> gpr_wf g \<Longrightarrow> g \<noteq> h \<Longrightarrow> write_x r g v = Some r' \<Longrightarrow> gpr_wf h \<Longrightarrow> read_x r' h = read_x r h"
    by (auto simp: write_x_ok read_x_ok x_val_x_upd)
qed (auto simp: read_x_ok write_x_ok)

lemma ucast_down_up: "ucast (ucast (v :: u32) :: u64) = v"
  by (rule bit_word_eqI) (simp add: bit_simps)

interpretation wregs: register_bank read_w write_w regs_wf
proof
  fix r g h v r'
  show "regs_wf r \<Longrightarrow> gpr_wf g \<Longrightarrow> g \<noteq> Gpr_ZR \<Longrightarrow> write_w r g v = Some r' \<Longrightarrow> read_w r' g = Some v"
    by (auto simp: write_w_ok read_w_def read_x_ok x_val_x_upd ucast_down_up)
  show "regs_wf r \<Longrightarrow> gpr_wf g \<Longrightarrow> g \<noteq> h \<Longrightarrow> write_w r g v = Some r' \<Longrightarrow> gpr_wf h \<Longrightarrow> read_w r' h = read_w r h"
    by (auto simp: write_w_ok read_w_def read_x_ok x_val_x_upd)
qed (auto simp: read_x_ok write_w_ok read_w_def)

end
