(* ===== verification/Opcodes.thy ===== *)
theory Opcodes
  imports Prelude
begin

text \<open>
  The opcode axis of the decoded-instruction model (\<open>crates/core/src/decode/op.rs\<close>). The
  Rust enum \<open>Op\<close> is one flat list of 180 fieldless variants, divided by section comments;
  here each section is an enumeration of its own under the type \<open>Op\<close>, and the abbreviation
  \<open>Op_Add\<close> names the variant \<open>Op::Add\<close>.
\<close>

datatype (plugins only: code) IntOp =
  I_Add | I_Sub | I_Adc | I_Sbc | I_And | I_Orr | I_Eor | I_Bic | I_Orn | I_Eon | I_Movz
  | I_Movn | I_Movk | I_Adr | I_Adrp | I_Sbfm | I_Bfm | I_Ubfm | I_Extr | I_Lslv | I_Lsrv
  | I_Asrv | I_Rorv | I_Csel | I_Csinc | I_Csinv | I_Csneg | I_Ccmp | I_Ccmn | I_Madd
  | I_Msub | I_Smaddl | I_Smsubl | I_Umaddl | I_Umsubl | I_Smulh | I_Umulh | I_Sdiv
  | I_Udiv | I_Rbit | I_Rev16 | I_Rev32 | I_Rev | I_Clz | I_Cls

datatype (plugins only: code) BranchOp =
  B_B | B_Bl | B_Br | B_Blr | B_Ret | B_Cbz | B_Cbnz | B_Tbz | B_Tbnz | B_Svc | B_Hvc
  | B_Smc | B_Brk | B_Hlt | B_Nop | B_Wfi | B_Wfe | B_Yield | B_Dmb | B_Dsb | B_Isb | B_Msr
  | B_Mrs | B_Eret | B_Clrex | B_Sev

datatype (plugins only: code) MemOp =
  M_Ldr | M_Str | M_Ldp | M_Stp | M_Ldar | M_Stlr | M_Prfm | M_Ld1 | M_Ld2 | M_Ld3 | M_Ld4
  | M_Ld1r | M_St1 | M_St2 | M_St3 | M_St4

datatype (plugins only: code) FpOp =
  F_Fmov | F_Fadd | F_Fsub | F_Fmul | F_Fdiv | F_Fneg | F_Fabs | F_Fsqrt | F_Fmadd
  | F_Fmsub | F_Fcmp | F_Fccmp | F_Fcsel | F_Fcvt | F_Fcvtn | F_Fcvtl | F_Frint | F_Fcvts
  | F_Fcvtu | F_Fmla | F_Fmls | F_Fmax | F_Fmin | F_Fcvtzs | F_Fcvtzu | F_Scvtf | F_Ucvtf
  | F_FmovImm | F_FmovToVec | F_FmovFromVec | F_Fnmadd | F_Fnmsub | F_Fnmul | F_Fmaxnm
  | F_Fminnm | F_Fcmpe | F_Fccmpe

datatype (plugins only: code) VecOp =
  V_VecAdd | V_VecSub | V_VecAnd | V_VecOrr | V_VecEor | V_VecCmeq | V_VecMul | V_VecMla
  | V_VecMls | V_VecBsl | V_VecBit | V_VecBif | V_Uaddl | V_Saddl | V_Umull | V_Smull
  | V_Xtn | V_Shrn | V_Ushl | V_Sshl | V_Movi | V_Mvni | V_Dup | V_Ins | V_Umov | V_Smov
  | V_Tbl | V_Tbx | V_Ext | V_InsGpr | V_VecBic | V_VecOrn | V_VecNot | V_VecCmhi
  | V_VecCmhs | V_VecCmgt | V_VecCmge | V_VecShl | V_VecUshr | V_VecSshr | V_VecNeg
  | V_VecAbs | V_VecCnt | V_VecRev64 | V_VecRev16 | V_Uminv | V_Umaxv | V_Addv | V_Addp
  | V_Zip1 | V_Zip2 | V_Uzp1 | V_Uzp2 | V_Trn1 | V_Trn2

datatype Op = Op_Unallocated | Op_Int IntOp | Op_Branch BranchOp | Op_Mem MemOp | Op_Fp FpOp | Op_Vec VecOp

abbreviation "Op_Add \<equiv> Op_Int I_Add"
abbreviation "Op_Sub \<equiv> Op_Int I_Sub"
abbreviation "Op_Adc \<equiv> Op_Int I_Adc"
abbreviation "Op_Sbc \<equiv> Op_Int I_Sbc"
abbreviation "Op_And \<equiv> Op_Int I_And"
abbreviation "Op_Orr \<equiv> Op_Int I_Orr"
abbreviation "Op_Eor \<equiv> Op_Int I_Eor"
abbreviation "Op_Bic \<equiv> Op_Int I_Bic"
abbreviation "Op_Orn \<equiv> Op_Int I_Orn"
abbreviation "Op_Eon \<equiv> Op_Int I_Eon"
abbreviation "Op_Movz \<equiv> Op_Int I_Movz"
abbreviation "Op_Movn \<equiv> Op_Int I_Movn"
abbreviation "Op_Movk \<equiv> Op_Int I_Movk"
abbreviation "Op_Adr \<equiv> Op_Int I_Adr"
abbreviation "Op_Adrp \<equiv> Op_Int I_Adrp"
abbreviation "Op_Sbfm \<equiv> Op_Int I_Sbfm"
abbreviation "Op_Bfm \<equiv> Op_Int I_Bfm"
abbreviation "Op_Ubfm \<equiv> Op_Int I_Ubfm"
abbreviation "Op_Extr \<equiv> Op_Int I_Extr"
abbreviation "Op_Lslv \<equiv> Op_Int I_Lslv"
abbreviation "Op_Lsrv \<equiv> Op_Int I_Lsrv"
abbreviation "Op_Asrv \<equiv> Op_Int I_Asrv"
abbreviation "Op_Rorv \<equiv> Op_Int I_Rorv"
abbreviation "Op_Csel \<equiv> Op_Int I_Csel"
abbreviation "Op_Csinc \<equiv> Op_Int I_Csinc"
abbreviation "Op_Csinv \<equiv> Op_Int I_Csinv"
abbreviation "Op_Csneg \<equiv> Op_Int I_Csneg"
abbreviation "Op_Ccmp \<equiv> Op_Int I_Ccmp"
abbreviation "Op_Ccmn \<equiv> Op_Int I_Ccmn"
abbreviation "Op_Madd \<equiv> Op_Int I_Madd"
abbreviation "Op_Msub \<equiv> Op_Int I_Msub"
abbreviation "Op_Smaddl \<equiv> Op_Int I_Smaddl"
abbreviation "Op_Smsubl \<equiv> Op_Int I_Smsubl"
abbreviation "Op_Umaddl \<equiv> Op_Int I_Umaddl"
abbreviation "Op_Umsubl \<equiv> Op_Int I_Umsubl"
abbreviation "Op_Smulh \<equiv> Op_Int I_Smulh"
abbreviation "Op_Umulh \<equiv> Op_Int I_Umulh"
abbreviation "Op_Sdiv \<equiv> Op_Int I_Sdiv"
abbreviation "Op_Udiv \<equiv> Op_Int I_Udiv"
abbreviation "Op_Rbit \<equiv> Op_Int I_Rbit"
abbreviation "Op_Rev16 \<equiv> Op_Int I_Rev16"
abbreviation "Op_Rev32 \<equiv> Op_Int I_Rev32"
abbreviation "Op_Rev \<equiv> Op_Int I_Rev"
abbreviation "Op_Clz \<equiv> Op_Int I_Clz"
abbreviation "Op_Cls \<equiv> Op_Int I_Cls"

abbreviation "Op_B \<equiv> Op_Branch B_B"
abbreviation "Op_Bl \<equiv> Op_Branch B_Bl"
abbreviation "Op_Br \<equiv> Op_Branch B_Br"
abbreviation "Op_Blr \<equiv> Op_Branch B_Blr"
abbreviation "Op_Ret \<equiv> Op_Branch B_Ret"
abbreviation "Op_Cbz \<equiv> Op_Branch B_Cbz"
abbreviation "Op_Cbnz \<equiv> Op_Branch B_Cbnz"
abbreviation "Op_Tbz \<equiv> Op_Branch B_Tbz"
abbreviation "Op_Tbnz \<equiv> Op_Branch B_Tbnz"
abbreviation "Op_Svc \<equiv> Op_Branch B_Svc"
abbreviation "Op_Hvc \<equiv> Op_Branch B_Hvc"
abbreviation "Op_Smc \<equiv> Op_Branch B_Smc"
abbreviation "Op_Brk \<equiv> Op_Branch B_Brk"
abbreviation "Op_Hlt \<equiv> Op_Branch B_Hlt"
abbreviation "Op_Nop \<equiv> Op_Branch B_Nop"
abbreviation "Op_Wfi \<equiv> Op_Branch B_Wfi"
abbreviation "Op_Wfe \<equiv> Op_Branch B_Wfe"
abbreviation "Op_Yield \<equiv> Op_Branch B_Yield"
abbreviation "Op_Dmb \<equiv> Op_Branch B_Dmb"
abbreviation "Op_Dsb \<equiv> Op_Branch B_Dsb"
abbreviation "Op_Isb \<equiv> Op_Branch B_Isb"
abbreviation "Op_Msr \<equiv> Op_Branch B_Msr"
abbreviation "Op_Mrs \<equiv> Op_Branch B_Mrs"
abbreviation "Op_Eret \<equiv> Op_Branch B_Eret"
abbreviation "Op_Clrex \<equiv> Op_Branch B_Clrex"
abbreviation "Op_Sev \<equiv> Op_Branch B_Sev"

abbreviation "Op_Ldr \<equiv> Op_Mem M_Ldr"
abbreviation "Op_Str \<equiv> Op_Mem M_Str"
abbreviation "Op_Ldp \<equiv> Op_Mem M_Ldp"
abbreviation "Op_Stp \<equiv> Op_Mem M_Stp"
abbreviation "Op_Ldar \<equiv> Op_Mem M_Ldar"
abbreviation "Op_Stlr \<equiv> Op_Mem M_Stlr"
abbreviation "Op_Prfm \<equiv> Op_Mem M_Prfm"
abbreviation "Op_Ld1 \<equiv> Op_Mem M_Ld1"
abbreviation "Op_Ld2 \<equiv> Op_Mem M_Ld2"
abbreviation "Op_Ld3 \<equiv> Op_Mem M_Ld3"
abbreviation "Op_Ld4 \<equiv> Op_Mem M_Ld4"
abbreviation "Op_Ld1r \<equiv> Op_Mem M_Ld1r"
abbreviation "Op_St1 \<equiv> Op_Mem M_St1"
abbreviation "Op_St2 \<equiv> Op_Mem M_St2"
abbreviation "Op_St3 \<equiv> Op_Mem M_St3"
abbreviation "Op_St4 \<equiv> Op_Mem M_St4"

abbreviation "Op_Fmov \<equiv> Op_Fp F_Fmov"
abbreviation "Op_Fadd \<equiv> Op_Fp F_Fadd"
abbreviation "Op_Fsub \<equiv> Op_Fp F_Fsub"
abbreviation "Op_Fmul \<equiv> Op_Fp F_Fmul"
abbreviation "Op_Fdiv \<equiv> Op_Fp F_Fdiv"
abbreviation "Op_Fneg \<equiv> Op_Fp F_Fneg"
abbreviation "Op_Fabs \<equiv> Op_Fp F_Fabs"
abbreviation "Op_Fsqrt \<equiv> Op_Fp F_Fsqrt"
abbreviation "Op_Fmadd \<equiv> Op_Fp F_Fmadd"
abbreviation "Op_Fmsub \<equiv> Op_Fp F_Fmsub"
abbreviation "Op_Fcmp \<equiv> Op_Fp F_Fcmp"
abbreviation "Op_Fccmp \<equiv> Op_Fp F_Fccmp"
abbreviation "Op_Fcsel \<equiv> Op_Fp F_Fcsel"
abbreviation "Op_Fcvt \<equiv> Op_Fp F_Fcvt"
abbreviation "Op_Fcvtn \<equiv> Op_Fp F_Fcvtn"
abbreviation "Op_Fcvtl \<equiv> Op_Fp F_Fcvtl"
abbreviation "Op_Frint \<equiv> Op_Fp F_Frint"
abbreviation "Op_Fcvts \<equiv> Op_Fp F_Fcvts"
abbreviation "Op_Fcvtu \<equiv> Op_Fp F_Fcvtu"
abbreviation "Op_Fmla \<equiv> Op_Fp F_Fmla"
abbreviation "Op_Fmls \<equiv> Op_Fp F_Fmls"
abbreviation "Op_Fmax \<equiv> Op_Fp F_Fmax"
abbreviation "Op_Fmin \<equiv> Op_Fp F_Fmin"
abbreviation "Op_Fcvtzs \<equiv> Op_Fp F_Fcvtzs"
abbreviation "Op_Fcvtzu \<equiv> Op_Fp F_Fcvtzu"
abbreviation "Op_Scvtf \<equiv> Op_Fp F_Scvtf"
abbreviation "Op_Ucvtf \<equiv> Op_Fp F_Ucvtf"
abbreviation "Op_FmovImm \<equiv> Op_Fp F_FmovImm"
abbreviation "Op_FmovToVec \<equiv> Op_Fp F_FmovToVec"
abbreviation "Op_FmovFromVec \<equiv> Op_Fp F_FmovFromVec"
abbreviation "Op_Fnmadd \<equiv> Op_Fp F_Fnmadd"
abbreviation "Op_Fnmsub \<equiv> Op_Fp F_Fnmsub"
abbreviation "Op_Fnmul \<equiv> Op_Fp F_Fnmul"
abbreviation "Op_Fmaxnm \<equiv> Op_Fp F_Fmaxnm"
abbreviation "Op_Fminnm \<equiv> Op_Fp F_Fminnm"
abbreviation "Op_Fcmpe \<equiv> Op_Fp F_Fcmpe"
abbreviation "Op_Fccmpe \<equiv> Op_Fp F_Fccmpe"

abbreviation "Op_VecAdd \<equiv> Op_Vec V_VecAdd"
abbreviation "Op_VecSub \<equiv> Op_Vec V_VecSub"
abbreviation "Op_VecAnd \<equiv> Op_Vec V_VecAnd"
abbreviation "Op_VecOrr \<equiv> Op_Vec V_VecOrr"
abbreviation "Op_VecEor \<equiv> Op_Vec V_VecEor"
abbreviation "Op_VecCmeq \<equiv> Op_Vec V_VecCmeq"
abbreviation "Op_VecMul \<equiv> Op_Vec V_VecMul"
abbreviation "Op_VecMla \<equiv> Op_Vec V_VecMla"
abbreviation "Op_VecMls \<equiv> Op_Vec V_VecMls"
abbreviation "Op_VecBsl \<equiv> Op_Vec V_VecBsl"
abbreviation "Op_VecBit \<equiv> Op_Vec V_VecBit"
abbreviation "Op_VecBif \<equiv> Op_Vec V_VecBif"
abbreviation "Op_Uaddl \<equiv> Op_Vec V_Uaddl"
abbreviation "Op_Saddl \<equiv> Op_Vec V_Saddl"
abbreviation "Op_Umull \<equiv> Op_Vec V_Umull"
abbreviation "Op_Smull \<equiv> Op_Vec V_Smull"
abbreviation "Op_Xtn \<equiv> Op_Vec V_Xtn"
abbreviation "Op_Shrn \<equiv> Op_Vec V_Shrn"
abbreviation "Op_Ushl \<equiv> Op_Vec V_Ushl"
abbreviation "Op_Sshl \<equiv> Op_Vec V_Sshl"
abbreviation "Op_Movi \<equiv> Op_Vec V_Movi"
abbreviation "Op_Mvni \<equiv> Op_Vec V_Mvni"
abbreviation "Op_Dup \<equiv> Op_Vec V_Dup"
abbreviation "Op_Ins \<equiv> Op_Vec V_Ins"
abbreviation "Op_Umov \<equiv> Op_Vec V_Umov"
abbreviation "Op_Smov \<equiv> Op_Vec V_Smov"
abbreviation "Op_Tbl \<equiv> Op_Vec V_Tbl"
abbreviation "Op_Tbx \<equiv> Op_Vec V_Tbx"
abbreviation "Op_Ext \<equiv> Op_Vec V_Ext"
abbreviation "Op_InsGpr \<equiv> Op_Vec V_InsGpr"
abbreviation "Op_VecBic \<equiv> Op_Vec V_VecBic"
abbreviation "Op_VecOrn \<equiv> Op_Vec V_VecOrn"
abbreviation "Op_VecNot \<equiv> Op_Vec V_VecNot"
abbreviation "Op_VecCmhi \<equiv> Op_Vec V_VecCmhi"
abbreviation "Op_VecCmhs \<equiv> Op_Vec V_VecCmhs"
abbreviation "Op_VecCmgt \<equiv> Op_Vec V_VecCmgt"
abbreviation "Op_VecCmge \<equiv> Op_Vec V_VecCmge"
abbreviation "Op_VecShl \<equiv> Op_Vec V_VecShl"
abbreviation "Op_VecUshr \<equiv> Op_Vec V_VecUshr"
abbreviation "Op_VecSshr \<equiv> Op_Vec V_VecSshr"
abbreviation "Op_VecNeg \<equiv> Op_Vec V_VecNeg"
abbreviation "Op_VecAbs \<equiv> Op_Vec V_VecAbs"
abbreviation "Op_VecCnt \<equiv> Op_Vec V_VecCnt"
abbreviation "Op_VecRev64 \<equiv> Op_Vec V_VecRev64"
abbreviation "Op_VecRev16 \<equiv> Op_Vec V_VecRev16"
abbreviation "Op_Uminv \<equiv> Op_Vec V_Uminv"
abbreviation "Op_Umaxv \<equiv> Op_Vec V_Umaxv"
abbreviation "Op_Addv \<equiv> Op_Vec V_Addv"
abbreviation "Op_Addp \<equiv> Op_Vec V_Addp"
abbreviation "Op_Zip1 \<equiv> Op_Vec V_Zip1"
abbreviation "Op_Zip2 \<equiv> Op_Vec V_Zip2"
abbreviation "Op_Uzp1 \<equiv> Op_Vec V_Uzp1"
abbreviation "Op_Uzp2 \<equiv> Op_Vec V_Uzp2"
abbreviation "Op_Trn1 \<equiv> Op_Vec V_Trn1"
abbreviation "Op_Trn2 \<equiv> Op_Vec V_Trn2"

text \<open>\<open>Op::is_unallocated\<close> and \<open>Op::reads_destination\<close>.\<close>

definition is_unallocated :: "Op \<Rightarrow> bool" where
  "is_unallocated o1 \<longleftrightarrow> o1 = Op_Unallocated"

definition reads_destination :: "Op \<Rightarrow> bool" where
  "reads_destination o1 \<longleftrightarrow> o1 \<in> {Op_Movk, Op_Bfm, Op_VecBsl, Op_Fmla, Op_Ins, Op_Fmls, Op_VecMla,
     Op_VecMls, Op_VecBit, Op_VecBif, Op_InsGpr, Op_Tbx}"

end
