(* ===== verification/Instruction.thy ===== *)
theory Instruction
  imports Regs Opcodes
begin

unbundle bit_operations_syntax

text \<open>
  The operand axis of the decoded-instruction model: operand shapes
  (\<open>crates/core/src/decode/operand.rs\<close>), addressing modes (\<open>address.rs\<close>), and the instruction
  itself (\<open>instruction.rs\<close>). The predicate \<open>insn_wf\<close> collects the range promises the
  decoder makes and the interpreter relies on.
\<close>

section \<open>Operands (operand.rs)\<close>

datatype RegWidth = W32 | X64

definition from_sf :: "bool \<Rightarrow> RegWidth" where
  "from_sf sf = (if sf then X64 else W32)"

definition width_bits :: "RegWidth \<Rightarrow> nat" where
  "width_bits w = (case w of W32 \<Rightarrow> 32 | X64 \<Rightarrow> 64)"

definition width_mask :: "RegWidth \<Rightarrow> u64" where
  "width_mask w = (case w of W32 \<Rightarrow> 0xFFFFFFFF | X64 \<Rightarrow> 0xFFFFFFFFFFFFFFFF)"

datatype ShiftKind = Lsl | Lsr | Asr | Ror

record ShiftedReg =
  sr_reg :: Gpr
  sr_kind :: ShiftKind
  sr_amount :: u8

datatype ExtendKind = Uxtb | Uxth | Uxtw | Uxtx | Sxtb | Sxth | Sxtw | Sxtx

definition extend_from_option :: "u8 \<Rightarrow> ExtendKind" where
  "extend_from_option opt =
     (let f = opt AND 7 in
      if f = 0 then Uxtb else if f = 1 then Uxth else if f = 2 then Uxtw else if f = 3 then Uxtx
      else if f = 4 then Sxtb else if f = 5 then Sxth else if f = 6 then Sxtw else Sxtx)"

definition source_bits :: "ExtendKind \<Rightarrow> nat" where
  "source_bits k = (case k of Uxtb \<Rightarrow> 8 | Sxtb \<Rightarrow> 8 | Uxth \<Rightarrow> 16 | Sxth \<Rightarrow> 16
     | Uxtw \<Rightarrow> 32 | Sxtw \<Rightarrow> 32 | Uxtx \<Rightarrow> 64 | Sxtx \<Rightarrow> 64)"

definition extend_is_signed :: "ExtendKind \<Rightarrow> bool" where
  "extend_is_signed k \<longleftrightarrow> k \<in> {Sxtb, Sxth, Sxtw, Sxtx}"

record ExtendedReg =
  er_reg :: Gpr
  er_kind :: ExtendKind
  er_amount :: u8

datatype Cond = Cond_Eq | Cond_Ne | Cond_Cs | Cond_Cc | Cond_Mi | Cond_Pl | Cond_Vs | Cond_Vc
  | Cond_Hi | Cond_Ls | Cond_Ge | Cond_Lt | Cond_Gt | Cond_Le | Cond_Al | Cond_Nv

definition cond_from_bits :: "u8 \<Rightarrow> Cond" where
  "cond_from_bits bs =
     (let f = bs AND 15 in
      if f = 0 then Cond_Eq else if f = 1 then Cond_Ne else if f = 2 then Cond_Cs
      else if f = 3 then Cond_Cc else if f = 4 then Cond_Mi else if f = 5 then Cond_Pl
      else if f = 6 then Cond_Vs else if f = 7 then Cond_Vc else if f = 8 then Cond_Hi
      else if f = 9 then Cond_Ls else if f = 10 then Cond_Ge else if f = 11 then Cond_Lt
      else if f = 12 then Cond_Gt else if f = 13 then Cond_Le else if f = 14 then Cond_Al
      else Cond_Nv)"

definition cond_invert :: "Cond \<Rightarrow> Cond" where
  "cond_invert c = (case c of Cond_Eq \<Rightarrow> Cond_Ne | Cond_Ne \<Rightarrow> Cond_Eq | Cond_Cs \<Rightarrow> Cond_Cc
     | Cond_Cc \<Rightarrow> Cond_Cs | Cond_Mi \<Rightarrow> Cond_Pl | Cond_Pl \<Rightarrow> Cond_Mi | Cond_Vs \<Rightarrow> Cond_Vc
     | Cond_Vc \<Rightarrow> Cond_Vs | Cond_Hi \<Rightarrow> Cond_Ls | Cond_Ls \<Rightarrow> Cond_Hi | Cond_Ge \<Rightarrow> Cond_Lt
     | Cond_Lt \<Rightarrow> Cond_Ge | Cond_Gt \<Rightarrow> Cond_Le | Cond_Le \<Rightarrow> Cond_Gt | Cond_Al \<Rightarrow> Cond_Al
     | Cond_Nv \<Rightarrow> Cond_Nv)"

datatype ElemSize = B8 | H16 | S32 | D64 | Q128

definition elem_bits :: "ElemSize \<Rightarrow> nat" where
  "elem_bits e = (case e of B8 \<Rightarrow> 8 | H16 \<Rightarrow> 16 | S32 \<Rightarrow> 32 | D64 \<Rightarrow> 64 | Q128 \<Rightarrow> 128)"

definition elem_from_size :: "u8 \<Rightarrow> ElemSize" where
  "elem_from_size sz = (let f = sz AND 3 in
     if f = 0 then B8 else if f = 1 then H16 else if f = 2 then S32 else D64)"

text \<open>\<open>ElemSize\<close> derives \<open>Ord\<close>: declaration order, which is the order of the widths.\<close>

lemma elem_bits_inj: "elem_bits a = elem_bits b \<longleftrightarrow> a = b"
  by (cases a; cases b) (simp_all add: elem_bits_def)

instantiation ElemSize :: linorder
begin

definition less_eq_ElemSize :: "ElemSize \<Rightarrow> ElemSize \<Rightarrow> bool" where
  "less_eq_ElemSize a b \<longleftrightarrow> elem_bits a \<le> elem_bits b"

definition less_ElemSize :: "ElemSize \<Rightarrow> ElemSize \<Rightarrow> bool" where
  "less_ElemSize a b \<longleftrightarrow> elem_bits a < elem_bits b"

instance
  by standard (auto simp: less_eq_ElemSize_def less_ElemSize_def elem_bits_inj [symmetric])

end

datatype VecHalf = Half_Full | Half_Low | Half_High

datatype VecShape =
    Shape_Scalar ElemSize
  | Shape_Vector ElemSize u8 VecHalf   \<comment> \<open>\<open>elem\<close>, \<open>count\<close>, \<open>half\<close>\<close>
  | Shape_Element ElemSize u8          \<comment> \<open>\<open>elem\<close>, \<open>index\<close>\<close>

datatype RoundMode = Round_Current | Round_Nearest | Round_NearestAway | Round_Plus | Round_Minus
  | Round_Zero | Round_Odd

record VecOperand =
  vo_reg :: VecReg
  vo_shape :: VecShape


section \<open>Addressing modes (address.rs)\<close>

datatype WriteBack = WB_None | WB_Pre | WB_Post

datatype AddrMode =
    Addr_Immediate Gpr i64 WriteBack
  | Addr_Register Gpr ExtendedReg WriteBack
  | Addr_PcRelative i64
  | Addr_BaseOnly Gpr

definition addr_base :: "AddrMode \<Rightarrow> Gpr option" where
  "addr_base a = (case a of Addr_Immediate b _ _ \<Rightarrow> Some b | Addr_Register b _ _ \<Rightarrow> Some b
     | Addr_BaseOnly b \<Rightarrow> Some b | Addr_PcRelative _ \<Rightarrow> None)"

definition has_writeback :: "AddrMode \<Rightarrow> bool" where
  "has_writeback a = (case a of Addr_Immediate _ _ wb \<Rightarrow> wb = WB_Pre \<or> wb = WB_Post
     | Addr_Register _ _ wb \<Rightarrow> wb = WB_Pre \<or> wb = WB_Post | _ \<Rightarrow> False)"

record AccessSize =
  as_bytes :: u8
  as_signed :: bool

definition Access_B :: AccessSize where "Access_B = \<lparr> as_bytes = 1, as_signed = False \<rparr>"
definition Access_H :: AccessSize where "Access_H = \<lparr> as_bytes = 2, as_signed = False \<rparr>"
definition Access_W :: AccessSize where "Access_W = \<lparr> as_bytes = 4, as_signed = False \<rparr>"
definition Access_X :: AccessSize where "Access_X = \<lparr> as_bytes = 8, as_signed = False \<rparr>"
definition Access_Q :: AccessSize where "Access_Q = \<lparr> as_bytes = 16, as_signed = False \<rparr>"

lemmas access_defs = Access_B_def Access_H_def Access_W_def Access_X_def Access_Q_def

text \<open>\<open>AccessSize::scale\<close>: the trailing zeros of the byte count.\<close>

definition access_scale :: "AccessSize \<Rightarrow> nat" where
  "access_scale s = trailing_zeros (as_bytes s)"

record Ordering =
  is_acquire :: bool
  is_release :: bool
  is_exclusive :: bool

definition Ordering_PLAIN :: Ordering where
  "Ordering_PLAIN = \<lparr> is_acquire = False, is_release = False, is_exclusive = False \<rparr>"


section \<open>Instructions (instruction.rs)\<close>

datatype Form =
    Form_None
  | Form_RegImm Gpr Gpr u64                     \<comment> \<open>\<open>rd, rn, imm\<close>\<close>
  | Form_MoveWide Gpr u16 u8                    \<comment> \<open>\<open>rd, imm16, hw\<close>\<close>
  | Form_PcRelAddr Gpr i64                      \<comment> \<open>\<open>rd, offset\<close>\<close>
  | Form_RegShifted Gpr Gpr ShiftedReg          \<comment> \<open>\<open>rd, rn, rm\<close>\<close>
  | Form_RegExtended Gpr Gpr ExtendedReg        \<comment> \<open>\<open>rd, rn, rm\<close>\<close>
  | Form_ThreeSource Gpr Gpr Gpr Gpr            \<comment> \<open>\<open>rd, rn, rm, ra\<close>\<close>
  | Form_Bitfield Gpr Gpr Gpr u8 u8             \<comment> \<open>\<open>rd, rn, rm, immr, imms\<close>\<close>
  | Form_CondSelect Gpr Gpr Gpr Cond            \<comment> \<open>\<open>rd, rn, rm, cond\<close>\<close>
  | Form_CondCompare Gpr u64 u8 Cond            \<comment> \<open>\<open>rn, imm, nzcv, cond\<close>\<close>
  | Form_Branch i64                             \<comment> \<open>\<open>offset\<close>\<close>
  | Form_BranchCond i64 Cond                    \<comment> \<open>\<open>offset, cond\<close>\<close>
  | Form_BranchReg Gpr i64 u8                   \<comment> \<open>\<open>rt, offset, bit\<close>\<close>
  | Form_BranchIndirect Gpr                     \<comment> \<open>\<open>rn\<close>\<close>
  | Form_LoadStore Gpr "Gpr option" "Gpr option" AddrMode AccessSize Ordering
      \<comment> \<open>\<open>rt, rt2, rs, addr, size, ordering\<close>\<close>
  | Form_Prefetch u8 AddrMode                   \<comment> \<open>\<open>prfop, addr\<close>\<close>
  | Form_LoadStoreVec VecOperand u8 AddrMode Ordering
      \<comment> \<open>\<open>vt, count, addr, ordering\<close>\<close>
  | Form_VecData VecOperand VecOperand "VecOperand option" "VecOperand option"
      \<comment> \<open>\<open>vd, vn, vm, va\<close>\<close>
  | Form_VecImm VecOperand VecOperand u64       \<comment> \<open>\<open>vd, vn, imm\<close>\<close>
  | Form_VecCond VecOperand VecOperand VecOperand Cond
  | Form_VecCondCompare VecOperand VecOperand u8 Cond
  | Form_VecCompare VecOperand "VecOperand option"
  | Form_TableLookup VecOperand VecReg u8 VecOperand
      \<comment> \<open>\<open>vd, table, table_len, vm\<close>\<close>
  | Form_VecGprMove Gpr VecOperand              \<comment> \<open>\<open>gpr, vec\<close>\<close>
  | Form_Imm u64
  | Form_System Gpr u16                         \<comment> \<open>\<open>rt, sysreg\<close>\<close>

record Instruction =
  insn_op :: Op
  insn_form :: Form
  insn_width :: RegWidth
  insn_round :: RoundMode
  sets_flags :: bool
  insn_encoding :: u32

definition insn_new :: "u32 \<Rightarrow> Op \<Rightarrow> Form \<Rightarrow> Instruction" where
  "insn_new encoding o1 form = \<lparr> insn_op = o1, insn_form = form, insn_width = X64,
     insn_round = Round_Current, sets_flags = False, insn_encoding = encoding \<rparr>"

definition with_width :: "Instruction \<Rightarrow> RegWidth \<Rightarrow> Instruction" where
  "with_width i w = i\<lparr>insn_width := w\<rparr>"

definition with_round :: "Instruction \<Rightarrow> RoundMode \<Rightarrow> Instruction" where
  "with_round i rm = i\<lparr>insn_round := rm\<rparr>"

definition setting_flags :: "Instruction \<Rightarrow> Instruction" where
  "setting_flags i = i\<lparr>sets_flags := True\<rparr>"

definition unallocated :: "u32 \<Rightarrow> Instruction" where
  "unallocated encoding = insn_new encoding Op_Unallocated Form_None"

lemmas insn_defs = insn_new_def with_width_def with_round_def setting_flags_def unallocated_def


section \<open>Well-formed instructions\<close>

definition shifted_wf :: "RegWidth \<Rightarrow> ShiftedReg \<Rightarrow> bool" where
  "shifted_wf w s \<longleftrightarrow> gpr_wf (sr_reg s) \<and> unat (sr_amount s) < width_bits w"

definition extended_wf :: "ExtendedReg \<Rightarrow> bool" where
  "extended_wf e \<longleftrightarrow> gpr_wf (er_reg e) \<and> er_amount e \<le> 4"

fun addr_wf :: "AddrMode \<Rightarrow> bool" where
  "addr_wf (Addr_Immediate b _ _) \<longleftrightarrow> gpr_wf b"
| "addr_wf (Addr_Register b e _) \<longleftrightarrow> gpr_wf b \<and> extended_wf e"
| "addr_wf (Addr_PcRelative off) \<longleftrightarrow> take_bit 2 off = 0"
| "addr_wf (Addr_BaseOnly b) \<longleftrightarrow> gpr_wf b"

definition vop_wf :: "VecOperand \<Rightarrow> bool" where
  "vop_wf v \<longleftrightarrow> vec_wf (vo_reg v)"

definition size_wf :: "AccessSize \<Rightarrow> bool" where
  "size_wf s \<longleftrightarrow> as_bytes s \<in> {1, 2, 4, 8}"

fun form_wf :: "RegWidth \<Rightarrow> Form \<Rightarrow> bool" where
  "form_wf w Form_None \<longleftrightarrow> True"
| "form_wf w (Form_RegImm rd rn _) \<longleftrightarrow> gpr_wf rd \<and> gpr_wf rn"
| "form_wf w (Form_MoveWide rd _ hw) \<longleftrightarrow> gpr_wf rd \<and> 16 * unat hw < width_bits w"
| "form_wf w (Form_PcRelAddr rd _) \<longleftrightarrow> gpr_wf rd"
| "form_wf w (Form_RegShifted rd rn rm) \<longleftrightarrow> gpr_wf rd \<and> gpr_wf rn \<and> shifted_wf w rm"
| "form_wf w (Form_RegExtended rd rn rm) \<longleftrightarrow> gpr_wf rd \<and> gpr_wf rn \<and> extended_wf rm"
| "form_wf w (Form_ThreeSource rd rn rm ra) \<longleftrightarrow> gpr_wf rd \<and> gpr_wf rn \<and> gpr_wf rm \<and> gpr_wf ra"
| "form_wf w (Form_Bitfield rd rn rm immr imms) \<longleftrightarrow> gpr_wf rd \<and> gpr_wf rn \<and> gpr_wf rm
     \<and> unat immr < width_bits w \<and> unat imms < width_bits w"
| "form_wf w (Form_CondSelect rd rn rm _) \<longleftrightarrow> gpr_wf rd \<and> gpr_wf rn \<and> gpr_wf rm"
| "form_wf w (Form_CondCompare rn imm nzcv _) \<longleftrightarrow> gpr_wf rn \<and> imm < 32 \<and> nzcv < 16"
| "form_wf w (Form_Branch off) \<longleftrightarrow> take_bit 2 off = 0"
| "form_wf w (Form_BranchCond off _) \<longleftrightarrow> take_bit 2 off = 0"
| "form_wf w (Form_BranchReg rt off b) \<longleftrightarrow> gpr_wf rt \<and> take_bit 2 off = 0 \<and> unat b < width_bits w"
| "form_wf w (Form_BranchIndirect rn) \<longleftrightarrow> gpr_wf rn"
| "form_wf w (Form_LoadStore rt rt2 rs addr sz _) \<longleftrightarrow> gpr_wf rt \<and> pred_option gpr_wf rt2
     \<and> pred_option gpr_wf rs \<and> addr_wf addr \<and> size_wf sz"
| "form_wf w (Form_Prefetch prfop addr) \<longleftrightarrow> prfop < 32 \<and> addr_wf addr \<and> \<not> has_writeback addr"
| "form_wf w (Form_LoadStoreVec vt count addr _) \<longleftrightarrow> vop_wf vt \<and> 1 \<le> count \<and> count \<le> 4 \<and> addr_wf addr"
| "form_wf w (Form_VecData vd vn vm va) \<longleftrightarrow> vop_wf vd \<and> vop_wf vn \<and> pred_option vop_wf vm
     \<and> pred_option vop_wf va"
| "form_wf w (Form_VecImm vd vn _) \<longleftrightarrow> vop_wf vd \<and> vop_wf vn"
| "form_wf w (Form_VecCond vd vn vm _) \<longleftrightarrow> vop_wf vd \<and> vop_wf vn \<and> vop_wf vm"
| "form_wf w (Form_VecCondCompare vn vm nzcv _) \<longleftrightarrow> vop_wf vn \<and> vop_wf vm \<and> nzcv < 16"
| "form_wf w (Form_VecCompare vn vm) \<longleftrightarrow> vop_wf vn \<and> pred_option vop_wf vm"
| "form_wf w (Form_TableLookup vd tab len vm) \<longleftrightarrow> vop_wf vd \<and> vec_wf tab \<and> 1 \<le> len \<and> len \<le> 4 \<and> vop_wf vm"
| "form_wf w (Form_VecGprMove g v) \<longleftrightarrow> gpr_wf g \<and> vop_wf v"
| "form_wf w (Form_Imm imm) \<longleftrightarrow> imm < 2 ^ 16"
| "form_wf w (Form_System rt _) \<longleftrightarrow> gpr_wf rt"

definition insn_wf :: "Instruction \<Rightarrow> bool" where
  "insn_wf i \<longleftrightarrow> form_wf (insn_width i) (insn_form i)"

text \<open>The contract of a decoder: no panic, a well-formed instruction, its own encoding kept.\<close>

definition decodes_ok :: "u32 \<Rightarrow> Instruction option \<Rightarrow> bool" where
  "decodes_ok e r \<longleftrightarrow> (case r of None \<Rightarrow> False | Some i \<Rightarrow> insn_wf i \<and> insn_encoding i = e)"

lemma decodes_ok_unallocated [simp]: "decodes_ok e (Some (unallocated e))"
  by (simp add: decodes_ok_def insn_defs insn_wf_def)

lemma decodes_ok_new [simp]:
  "decodes_ok e (Some (insn_new e o1 form)) \<longleftrightarrow> form_wf X64 form"
  "decodes_ok e (Some (with_width (insn_new e o1 form) w)) \<longleftrightarrow> form_wf w form"
  "decodes_ok e (Some (setting_flags i)) \<longleftrightarrow> decodes_ok e (Some i)"
  "decodes_ok e (Some (with_round i rm)) \<longleftrightarrow> decodes_ok e (Some i)"
  by (simp_all add: decodes_ok_def insn_defs insn_wf_def)

lemma decodes_ok_if [simp]:
  "decodes_ok e (if b then x else y) \<longleftrightarrow> (b \<longrightarrow> decodes_ok e x) \<and> (\<not> b \<longrightarrow> decodes_ok e y)"
  by simp

lemma decodes_okD: "decodes_ok e r \<Longrightarrow> \<exists>i. r = Some i \<and> insn_wf i \<and> insn_encoding i = e"
  by (simp add: decodes_ok_def split: option.splits)

lemma width_bits_sf [simp]: "width_bits (from_sf b) = (if b then 64 else 32)"
  by (simp add: width_bits_def from_sf_def)

lemma from_sf_eq [simp]: "from_sf b = W32 \<longleftrightarrow> \<not> b" "from_sf b = X64 \<longleftrightarrow> b"
  by (simp_all add: from_sf_def)

lemma width_bits_simps [simp]: "width_bits W32 = 32" "width_bits X64 = 64"
  by (simp_all add: width_bits_def)

lemma width_mask_eq: "width_mask w = mask (width_bits w)"
  by (cases w) (simp_all add: width_mask_def mask_eq_exp_minus_1)

lemma and_width_mask: "v AND width_mask w = take_bit (width_bits w) v"
  by (simp add: width_mask_eq take_bit_eq_mask)

lemma cond_invert_involutive [simp]: "cond_invert (cond_invert c) = c"
  by (cases c) (simp_all add: cond_invert_def)

end
