(* ===== verification/Decode_Fields.thy ===== *)
theory Decode_Fields
  imports Instruction
begin

unbundle bit_operations_syntax

text \<open>
  The helpers every group decoder uses (\<open>crates/core/src/decode/group/mod.rs\<close>): \<open>bits\<close>
  extracts a field and \<open>sign_extend\<close> widens one. Also the facts that discharge the register
  index assertions: a five-bit field is always a valid index. Group decoders have type
  \<open>u32 \<Rightarrow> Instruction option\<close>, with \<open>None\<close> for the panic of such an assertion; the locale
  \<open>group_decoder\<close> states the contract \<open>decode\<close> relies on.
\<close>

section \<open>Bit fields (group/mod.rs)\<close>

definition bits :: "u32 \<Rightarrow> nat \<Rightarrow> nat \<Rightarrow> u32" where
  "bits encoding hi lo = drop_bit lo encoding AND (push_bit (hi - lo + 1) 1 - 1)"

text \<open>\<open>((value as i64) << shift) >> shift\<close> with \<open>shift = 64 - width\<close>.\<close>

definition sign_extend :: "u32 \<Rightarrow> nat \<Rightarrow> i64" where
  "sign_extend value width =
     (let shift = 64 - width in signed_drop_bit shift (push_bit shift (ucast value)))"

lemma bits_eq: "bits e hi lo = take_bit (hi - lo + 1) (drop_bit lo e)"
  by (simp add: bits_def take_bit_eq_mask mask_eq_exp_minus_1 push_bit_eq_mult)

lemma bit_bits: "bit (bits e hi lo) k \<longleftrightarrow> k < hi - lo + 1 \<and> bit e (lo + k)"
  by (auto simp: bits_eq bit_simps)

lemma unat_bits_less: "unat (bits e hi lo) < 2 ^ (hi - lo + 1)"
  unfolding bits_eq by (rule take_bit_word_le_mask)

lemma unat_ucast_bits:
  "hi - lo < 8 \<Longrightarrow> unat (ucast (bits e hi lo) :: u8) = unat (bits e hi lo)"
proof -
  assume "hi - lo < 8"
  then have "(2::nat) ^ (hi - lo + 1) \<le> 2 ^ 8"
    by (intro power_increasing) auto
  with unat_bits_less [of e hi lo] have "unat (bits e hi lo) < 2 ^ 8" by simp
  then show ?thesis
    by (simp add: unsigned_ucast_eq take_bit_nat_eq_self_iff)
qed

lemma ucast_bits_less:
  "hi - lo < 8 \<Longrightarrow> 2 ^ (hi - lo + 1) \<le> n \<Longrightarrow> unat (ucast (bits e hi lo) :: u8) < n"
  using unat_bits_less [of e hi lo] by (simp add: unat_ucast_bits)

text \<open>A five-bit field is always a valid register index.\<close>

definition zr_field :: "u32 \<Rightarrow> Gpr" where
  "zr_field f = (if f = 31 then Gpr_ZR else Gpr_X (ucast f))"

definition sp_field :: "u32 \<Rightarrow> Gpr" where
  "sp_field f = (if f = 31 then Gpr_SP else Gpr_X (ucast f))"

lemma field5_less: "hi = lo + 4 \<Longrightarrow> (ucast (bits e hi lo) :: u8) < 32"
  using ucast_bits_less [of hi lo 32 e] by (simp add: word_less_nat_alt)

lemma field5_eq31: "hi = lo + 4 \<Longrightarrow> (ucast (bits e hi lo) = (31 :: u8)) = (bits e hi lo = 31)"
  by (simp add: word_unat_eq_iff unat_ucast_bits)

lemma zr_field_ok [decode_ok]:
  "hi = lo + 4 \<Longrightarrow> from_index_zr (ucast (bits e hi lo)) = Some (zr_field (bits e hi lo))"
  by (simp add: from_index_zr_def zr_field_def field5_less field5_eq31)

lemma sp_field_ok [decode_ok]:
  "hi = lo + 4 \<Longrightarrow> from_index_sp (ucast (bits e hi lo)) = Some (sp_field (bits e hi lo))"
  by (simp add: from_index_sp_def sp_field_def field5_less field5_eq31)

lemma vec_field_ok [decode_ok]:
  "hi = lo + 4 \<Longrightarrow> vec_new (ucast (bits e hi lo)) = Some (VecReg (ucast (bits e hi lo)))"
  by (simp add: vec_new_def field5_less)

lemma zr_field_wf [decode_ok]: "hi = lo + 4 \<Longrightarrow> gpr_wf (zr_field (bits e hi lo))"
  using zr_field_ok from_index_zr_wf by blast

lemma sp_field_wf [decode_ok]: "hi = lo + 4 \<Longrightarrow> gpr_wf (sp_field (bits e hi lo))"
  using sp_field_ok from_index_sp_wf by blast

lemma vec_field_wf [decode_ok]: "hi = lo + 4 \<Longrightarrow> vec_wf (VecReg (ucast (bits e hi lo)))"
  using vec_field_ok vec_new_wf by blast

lemma bits_1_cases: "bits e k k = 0 \<or> bits e k k = 1"
proof -
  have "unat (bits e k k) < 2" using unat_bits_less [of e k k] by simp
  then have "unat (bits e k k) = 0 \<or> unat (bits e k k) = 1" by linarith
  then show ?thesis by (simp add: word_unat_eq_iff)
qed

lemma bits_1_eq: "bits e k k = 1 \<longleftrightarrow> bit e k"
  using bits_1_cases [of e k] bit_bits [of e k k 0] by (auto simp: bit_1_iff)

lemma bits_le: "2 ^ (hi - lo + 1) \<le> unat n + 1 \<Longrightarrow> bits e hi lo \<le> n"
  using unat_bits_less [of e hi lo] by (simp add: word_le_nat_alt)

text \<open>The decoders reject a field whose top bit does not fit the 32-bit form.\<close>

lemma top_clear:
  assumes "unat (b :: u8) < 2 ^ Suc k" "\<not> bit b k"
  shows "unat b < 2 ^ k"
proof -
  have "take_bit (Suc k) (unat b) = unat b" using assms(1) by (simp add: take_bit_nat_eq_self_iff)
  moreover have "take_bit (Suc k) (unat b) = take_bit k (unat b)"
    using assms(2) by (intro bit_eqI) (auto simp: bit_take_bit_iff less_Suc_eq bit_unsigned_iff)
  ultimately show ?thesis by (metis take_bit_nat_less_exp)
qed

lemma field_top_clear:
  "unat (b :: u8) < 4 \<Longrightarrow> b AND 2 = 0 \<Longrightarrow> unat b < 2"
  "unat (b :: u8) < 64 \<Longrightarrow> b AND 32 = 0 \<Longrightarrow> unat b < 32"
  using top_clear [of b 1] top_clear [of b 5] bit_and_pow [of b 1] bit_and_pow [of b 5] by simp_all

lemma or_and_0: "(a OR b) AND c = 0 \<longleftrightarrow> a AND c = 0 \<and> b AND (c :: 'a::len word) = 0"
  by (auto simp: bit_eq_iff bit_simps)

text \<open>\<open>sign_extend\<close> reads the field as a two's-complement number of the given width.\<close>

lemma sign_extend_bit:
  assumes "0 < width" "width \<le> 32"
  shows "bit (sign_extend v width) k \<longleftrightarrow> k < 64 \<and> bit v (min k (width - 1))"
  using assms by (auto simp: sign_extend_def Let_def bit_simps min_def not_le)

lemma sign_extend_sint:
  assumes "0 < width" "width \<le> 32"
  shows "sint (sign_extend v width) = signed_take_bit (width - 1) (uint v)"
proof (rule bit_eqI)
  fix k
  show "bit (sint (sign_extend v width)) k = bit (signed_take_bit (width - 1) (uint v)) k"
    using assms by (auto simp: bit_simps sign_extend_bit min_def)
qed

lemma take_bit_2_mult_4: "take_bit 2 (w * 4 :: 64 word) = 0"
proof -
  have "w * 4 = push_bit 2 w" by (simp add: push_bit_eq_mult)
  then show ?thesis by (simp add: take_bit_push_bit)
qed


section \<open>The contract of a group decoder\<close>

locale group_decoder =
  fixes dec :: "u32 \<Rightarrow> Instruction option"
  assumes dec_ok: "decodes_ok e (dec e)"
begin

lemma dec_total: "\<exists>i. dec e = Some i"
  using decodes_okD [OF dec_ok] by blast

lemma dec_wf: "dec e = Some i \<Longrightarrow> insn_wf i"
  using decodes_okD [OF dec_ok [of e]] by auto

lemma dec_encoding: "dec e = Some i \<Longrightarrow> insn_encoding i = e"
  using decodes_okD [OF dec_ok [of e]] by auto

text \<open>Different words never decode to the same instruction, since each carries its encoding.\<close>

lemma dec_inj: "dec e = dec e' \<Longrightarrow> e = e'"
  by (metis dec_encoding dec_total)

end

end
