(* ===== verification/Decode_Immediate.thy ===== *)
theory Decode_Immediate
  imports Decode_Fields
begin

unbundle bit_operations_syntax

text \<open>
  Data processing, immediate (\<open>crates/core/src/decode/group/dp_immediate.rs\<close>): \<open>ADR\<close>,
  add/sub and logical immediates, move wide, bitfield and extract, with the bitmask
  expansion \<open>decode_bit_masks\<close>. Shown: the group never panics and yields well-formed
  instructions; the bitmask expansion computes the architecture's rotated, replicated run
  of ones and rejects exactly the reserved encodings.
\<close>

section \<open>Data processing, immediate (dp\_immediate.rs)\<close>

definition pc_relative :: "u32 \<Rightarrow> Instruction option" where
  "pc_relative encoding =
     (let imm = push_bit 2 (bits encoding 23 5) OR bits encoding 30 29;
          is_page = (bits encoding 31 31 = 1);
          offset = sign_extend imm 21 * (if is_page then 4096 else 1)
      in do {
        rd \<leftarrow> from_index_zr (ucast (bits encoding 4 0));
        Some (insn_new encoding (if is_page then Op_Adrp else Op_Adr) (Form_PcRelAddr rd offset))
      })"

definition add_sub_immediate :: "u32 \<Rightarrow> Instruction option" where
  "add_sub_immediate encoding =
     (let shift = bits encoding 23 22 in
      if shift AND 2 \<noteq> 0 then Some (unallocated encoding)
      else
        let imm = (if shift AND 1 = 0 then ucast (bits encoding 21 10)
                   else push_bit 12 (ucast (bits encoding 21 10)));
            is_sub = (bits encoding 30 30 = 1);
            flags = (bits encoding 29 29 = 1)
        in do {
          rd \<leftarrow> (if flags then from_index_zr (ucast (bits encoding 4 0))
                 else from_index_sp (ucast (bits encoding 4 0)));
          rn \<leftarrow> from_index_sp (ucast (bits encoding 9 5));
          let insn = with_width (insn_new encoding (if is_sub then Op_Sub else Op_Add)
                       (Form_RegImm rd rn imm)) (from_sf (bits encoding 31 31 = 1));
          Some (if flags then setting_flags insn else insn)
        })"

definition mask_of :: "nat \<Rightarrow> u64 option" where
  "mask_of n = (if n \<ge> 64 then Some (- 1) else do { m \<leftarrow> shl_chk 1 n; Some (m - 1) })"

text \<open>The replication loop \<open>while filled < width.bits()\<close>; \<open>None\<close> also stands for a loop that
  does not end, which \<open>replicate_loop_correct\<close> excludes.\<close>

partial_function (option) replicate_loop :: "u64 \<Rightarrow> nat \<Rightarrow> nat \<Rightarrow> u64 option" where
  "replicate_loop value filled wbits =
     (if filled < wbits
      then do { shifted \<leftarrow> shl_chk value filled;
                replicate_loop (value OR shifted) (filled * 2) wbits }
      else Some value)"

definition decode_bit_masks :: "u8 \<Rightarrow> u8 \<Rightarrow> u8 \<Rightarrow> RegWidth \<Rightarrow> u64 option option" where
  "decode_bit_masks n immr imms width =
     (let combined = (push_bit 6 (ucast n) OR (NOT (ucast imms) AND 63) :: u32) in
      if combined = 0 then Some None
      else
        let len = 31 - leading_zeros combined in
        if width = W32 \<and> len = 6 then Some None
        else
          let esize = 2 ^ len;
              level = of_nat (esize - 1) :: u8;
              s = imms AND level
          in
          if s = level then Some None
          else
            let r = unat (immr AND level) in do {
              top \<leftarrow> shl_chk 1 (unat s + 1);
              let ones = top - 1;
              element \<leftarrow> (if r = 0 then Some ones
                          else do { lo \<leftarrow> shr_chk ones r;
                                    hi \<leftarrow> shl_chk ones (esize - r);
                                    m \<leftarrow> mask_of esize;
                                    Some ((lo OR hi) AND m) });
              value \<leftarrow> replicate_loop element esize (width_bits width);
              Some (Some (value AND width_mask width))
            })"

definition logical_immediate :: "u32 \<Rightarrow> Instruction option" where
  "logical_immediate encoding =
     (let width = from_sf (bits encoding 31 31 = 1);
          n = bits encoding 22 22
      in
      if width = W32 \<and> n = 1 then Some (unallocated encoding)
      else do {
        masks \<leftarrow> decode_bit_masks (ucast n) (ucast (bits encoding 21 16))
                   (ucast (bits encoding 15 10)) width;
        (case masks of None \<Rightarrow> Some (unallocated encoding)
         | Some imm \<Rightarrow>
           let opc = bits encoding 30 29; flags = (opc = 3) in do {
             rd \<leftarrow> (if flags then from_index_zr (ucast (bits encoding 4 0))
                    else from_index_sp (ucast (bits encoding 4 0)));
             rn \<leftarrow> from_index_zr (ucast (bits encoding 9 5));
             let o1 = (if opc = 0 \<or> opc = 3 then Op_And else if opc = 1 then Op_Orr else Op_Eor);
             let insn = with_width (insn_new encoding o1 (Form_RegImm rd rn imm)) width;
             Some (if flags then setting_flags insn else insn)
           })
      })"

definition move_wide :: "u32 \<Rightarrow> Instruction option" where
  "move_wide encoding =
     (let width = from_sf (bits encoding 31 31 = 1);
          hw = (ucast (bits encoding 22 21) :: u8)
      in
      if width = W32 \<and> hw AND 2 \<noteq> 0 then Some (unallocated encoding)
      else
        let opc = bits encoding 30 29;
            op1 = (if opc = 0 then Some Op_Movn else if opc = 2 then Some Op_Movz
                   else if opc = 3 then Some Op_Movk else None)
        in (case op1 of None \<Rightarrow> Some (unallocated encoding)
            | Some o1 \<Rightarrow> do {
                rd \<leftarrow> from_index_zr (ucast (bits encoding 4 0));
                Some (with_width (insn_new encoding o1
                  (Form_MoveWide rd (ucast (bits encoding 20 5)) hw)) width)
              }))"

definition bitfield :: "u32 \<Rightarrow> Instruction option" where
  "bitfield encoding =
     (let width = from_sf (bits encoding 31 31 = 1) in
      if bits encoding 22 22 \<noteq> bits encoding 31 31 then Some (unallocated encoding)
      else
        let immr = (ucast (bits encoding 21 16) :: u8);
            imms = (ucast (bits encoding 15 10) :: u8)
        in
        if width = W32 \<and> (immr OR imms) AND 32 \<noteq> 0 then Some (unallocated encoding)
        else
          let opc = bits encoding 30 29;
              op1 = (if opc = 0 then Some Op_Sbfm else if opc = 1 then Some Op_Bfm
                     else if opc = 2 then Some Op_Ubfm else None)
          in (case op1 of None \<Rightarrow> Some (unallocated encoding)
              | Some o1 \<Rightarrow> do {
                  rn \<leftarrow> from_index_zr (ucast (bits encoding 9 5));
                  rd \<leftarrow> from_index_zr (ucast (bits encoding 4 0));
                  Some (with_width (insn_new encoding o1 (Form_Bitfield rd rn rn immr imms)) width)
                }))"

definition extract_group :: "u32 \<Rightarrow> Instruction option" where
  "extract_group encoding =
     (let width = from_sf (bits encoding 31 31 = 1) in
      if bits encoding 30 29 \<noteq> 0 \<or> bits encoding 21 21 \<noteq> 0
         \<or> bits encoding 22 22 \<noteq> bits encoding 31 31
      then Some (unallocated encoding)
      else
        let imms = (ucast (bits encoding 15 10) :: u8) in
        if width = W32 \<and> imms AND 32 \<noteq> 0 then Some (unallocated encoding)
        else do {
          rd \<leftarrow> from_index_zr (ucast (bits encoding 4 0));
          rn \<leftarrow> from_index_zr (ucast (bits encoding 9 5));
          rm \<leftarrow> from_index_zr (ucast (bits encoding 20 16));
          Some (with_width (insn_new encoding Op_Extr (Form_Bitfield rd rn rm 0 imms)) width)
        })"

definition data_processing_immediate :: "u32 \<Rightarrow> Instruction option" where
  "data_processing_immediate encoding =
     (let f = bits encoding 25 23 in
      if f = 0 \<or> f = 1 then pc_relative encoding
      else if f = 2 then add_sub_immediate encoding
      else if f = 4 then logical_immediate encoding
      else if f = 5 then move_wide encoding
      else if f = 6 then bitfield encoding
      else if f = 7 then extract_group encoding
      else Some (unallocated encoding))"


subsection \<open>The bitmask expansion\<close>

lemma replicate_loop_correct:
  assumes "0 < filled" "wbits = filled * 2 ^ k" "wbits \<le> 64" "\<And>i. bit el i \<Longrightarrow> i < filled"
  shows "\<exists>v. replicate_loop el filled wbits = Some v
           \<and> (\<forall>i. bit v i \<longleftrightarrow> i < wbits \<and> bit el (i mod filled))"
  using assms
proof (induction k arbitrary: el filled)
  case 0
  then show ?case by (subst replicate_loop.simps) auto
next
  case (Suc k)
  let ?v = "el OR push_bit filled el"
  have "1 < (2 :: nat) ^ Suc k" by (rule one_less_power) simp_all
  then have "1 * filled < 2 ^ Suc k * filled"
    using Suc.prems(1) by (intro mult_strict_right_mono)
  then have lt: "filled < wbits" using Suc.prems(2) by (simp add: mult.commute)
  have bv: "bit ?v j \<longleftrightarrow> bit el (j mod filled)" if "j < 2 * filled" for j
  proof (cases "j < filled")
    case True
    then show ?thesis by (auto simp: bit_simps)
  next
    case False
    then have "j mod filled = j - filled"
      using that by (simp add: mod_if)
    moreover have "2 * filled \<le> 64"
    proof -
      have "wbits = 2 * (filled * 2 ^ k)" using Suc.prems(2) by simp
      moreover have "filled \<le> filled * 2 ^ k" by simp
      ultimately show ?thesis using Suc.prems(3) by linarith
    qed
    ultimately show ?thesis
      using False that Suc.prems(4) by (auto simp: bit_simps)
  qed
  have small: "i < filled * 2" if "bit ?v i" for i
    using that Suc.prems(4) [of i] Suc.prems(4) [of "i - filled"] by (auto simp: bit_simps)
  obtain v where v: "replicate_loop ?v (filled * 2) wbits = Some v"
    and b: "\<And>i. bit v i \<longleftrightarrow> i < wbits \<and> bit ?v (i mod (filled * 2))"
    using Suc.IH [of "filled * 2" ?v] Suc.prems small by (auto simp: mult.assoc)
  have "bit ?v (i mod (filled * 2)) = bit el (i mod filled)" for i
    using bv [of "i mod (filled * 2)"] Suc.prems(1) by (simp add: mod_mod_cancel mult.commute)
  then show ?case
    using v b lt Suc.prems(3) by (subst replicate_loop.simps) auto
qed

text \<open>The element: \<open>s + 1\<close> ones rotated right by \<open>r\<close> within \<open>n\<close> bits.\<close>

lemma element_bit:
  assumes "s + 1 < n" "r < n" "n \<le> 64" "r \<noteq> 0"
  shows "bit ((drop_bit r (mask (s + 1)) OR push_bit (n - r) (mask (s + 1))) AND mask n :: u64) i
           \<longleftrightarrow> i < n \<and> (i + r) mod n \<le> s"
proof (cases "i < n")
  case True
  then have "(i + r) mod n = (if i + r < n then i + r else i + r - n)"
    using assms by (simp add: mod_if)
  with True assms show ?thesis
    by (auto simp: bit_simps)
next
  case False
  then show ?thesis by (simp add: bit_simps)
qed

text \<open>
  The fields of a bitmask encoding, as the architecture reads them: \<open>len\<close> is the position of
  the highest set bit of \<open>N:NOT(imms)\<close>, \<open>S\<close> and \<open>R\<close> are the low \<open>len\<close> bits of \<open>imms\<close> and \<open>immr\<close>.
\<close>

definition bm_len :: "u8 \<Rightarrow> u8 \<Rightarrow> nat" where
  "bm_len n imms = 31 - leading_zeros (push_bit 6 (ucast n) OR (NOT (ucast imms) AND 63) :: u32)"

definition bm_valid :: "u8 \<Rightarrow> u8 \<Rightarrow> RegWidth \<Rightarrow> bool" where
  "bm_valid n imms width \<longleftrightarrow>
     (push_bit 6 (ucast n) OR (NOT (ucast imms) AND 63) :: u32) \<noteq> 0
     \<and> \<not> (width = W32 \<and> bm_len n imms = 6)
     \<and> take_bit (bm_len n imms) (unat imms) \<noteq> 2 ^ bm_len n imms - 1"

lemma bit_combined:
  assumes "(n :: u8) < 2" "bit (push_bit 6 (ucast n) OR (NOT (ucast (imms :: u8)) AND 63) :: u32) j"
  shows "j \<le> 6"
proof -
  have "(63 :: u32) = mask 6" by (simp add: mask_eq_exp_minus_1)
  moreover have "bit (mask 6 :: u32) j \<longleftrightarrow> j < 6" by (auto simp: bit_mask_iff)
  moreover have "n = 0 \<or> n = 1" using assms(1) by unat_arith
  ultimately show ?thesis
    using assms(2) by (auto simp: bit_or_iff bit_and_iff bit_push_bit_iff bit_1_iff)
qed

lemma bm_len_le:
  assumes "n < 2" "(push_bit 6 (ucast n) OR (NOT (ucast imms) AND 63) :: u32) \<noteq> 0"
  shows "bm_len n imms \<le> 6"
  using bit_combined [OF assms(1)] highest_bit(2) [OF assms(2)] by (simp add: bm_len_def)

lemma unat_and_level:
  assumes "l \<le> 6"
  shows "unat ((b :: u8) AND of_nat (2 ^ l - 1)) = take_bit l (unat b)"
proof -
  have "(of_nat (2 ^ l - 1) :: u8) = mask l"
    by (simp add: mask_eq_exp_minus_1 of_nat_diff)
  then show ?thesis by (simp add: take_bit_eq_mask [symmetric] unsigned_take_bit_eq)
qed

lemma and_level_eq_level:
  assumes "l \<le> 6"
  shows "(b :: u8) AND of_nat (2 ^ l - 1) = of_nat (2 ^ l - 1) \<longleftrightarrow> take_bit l (unat b) = 2 ^ l - 1"
proof -
  have "2 ^ l - 1 < (2 :: nat) ^ LENGTH(8)"
    using power_increasing [of l 6 "2::nat"] assms by simp
  then have "unat (of_nat (2 ^ l - 1) :: u8) = 2 ^ l - 1" by (rule unat_of_nat_small)
  then show ?thesis using unat_and_level [OF assms, of b] by (simp add: word_unat_eq_iff)
qed

lemma mask_of_ok: "0 < n \<Longrightarrow> n \<le> 64 \<Longrightarrow> mask_of n = Some (mask n)"
  by (auto simp: mask_of_def mask_eq_exp_minus_1 push_bit_eq_mult)

text \<open>The element the code rotates, for every \<open>r\<close>, and what it replicates to.\<close>

lemma element_ok:
  assumes "s + 1 < n" "r < n" "n \<le> 64"
  shows "\<exists>el. (if r = 0 then Some (mask (s + 1))
       else do { lo \<leftarrow> shr_chk (mask (s + 1)) r; hi \<leftarrow> shl_chk (mask (s + 1)) (n - r);
                 m \<leftarrow> mask_of n; Some ((lo OR hi) AND m) }) = Some (el :: u64)
     \<and> (\<forall>i. bit el i \<longleftrightarrow> i < n \<and> (i + r) mod n \<le> s)"
proof (cases "r = 0")
  case True
  then show ?thesis using assms by (auto simp: bit_mask_iff)
next
  case False
  then show ?thesis using assms element_bit [OF assms False] by (simp add: mask_of_ok)
qed

lemma width_bits_split:
  assumes "l \<le> 6" "\<not> (w = W32 \<and> l = 6)"
  shows "\<exists>k. width_bits w = 2 ^ l * 2 ^ k"
proof -
  have "\<exists>m. width_bits w = 2 ^ m \<and> l \<le> m"
    using assms by (cases w) (auto intro: exI [of _ 5] exI [of _ 6])
  then show ?thesis by (metis le_add_diff_inverse power_add)
qed

lemma decode_bit_masks_spec:
  assumes n: "n < 2"
  shows "if bm_valid n imms width
         then \<exists>v. decode_bit_masks n immr imms width = Some (Some v)
                \<and> (\<forall>i. bit v i \<longleftrightarrow> i < width_bits width
                     \<and> (i + unat immr) mod 2 ^ bm_len n imms \<le> take_bit (bm_len n imms) (unat imms))
         else decode_bit_masks n immr imms width = Some None"
proof -
  let ?c = "push_bit 6 (ucast n) OR (NOT (ucast imms) AND 63) :: u32"
  let ?l = "bm_len n imms"
  show ?thesis
  proof (cases "?c = 0 \<or> width = W32 \<and> ?l = 6")
    case True
    then show ?thesis
      by (auto simp: bm_valid_def decode_bit_masks_def Let_def bm_len_def)
  next
    case False
    then have c: "?c \<noteq> 0" and l6: "?l \<le> 6" using bm_len_le [OF n] by auto
    show ?thesis
    proof (cases "bm_valid n imms width")
      case inv: False
      with False have "take_bit ?l (unat imms) = 2 ^ ?l - 1" by (simp add: bm_valid_def)
      with inv False show ?thesis
        using and_level_eq_level [OF l6, of imms]
        by (simp add: decode_bit_masks_def Let_def bm_len_def [symmetric])
    next
      case valid: True
      let ?n = "2 ^ ?l :: nat" and ?s = "take_bit ?l (unat imms)" and ?r = "take_bit ?l (unat immr)"
      have s: "?s + 1 < ?n"
        using valid take_bit_nat_less_exp [of ?l "unat imms"]
        by (simp add: bm_valid_def del: take_bit_nat_less_exp) linarith
      have r: "?r < ?n" by simp
      have n64: "?n \<le> 64" using power_increasing [OF l6, of "2::nat"] by simp
      obtain el where el: "(if ?r = 0 then Some (mask (?s + 1))
         else do { lo \<leftarrow> shr_chk (mask (?s + 1)) ?r; hi \<leftarrow> shl_chk (mask (?s + 1)) (?n - ?r);
                   m \<leftarrow> mask_of ?n; Some ((lo OR hi) AND m) }) = Some (el :: u64)"
        and elb: "\<And>i. bit el i \<longleftrightarrow> i < ?n \<and> (i + ?r) mod ?n \<le> ?s"
        using element_ok [OF s r n64] by blast
      obtain k where k: "width_bits width = ?n * 2 ^ k"
        using width_bits_split [OF l6, of width] False by auto
      have w64: "width_bits width \<le> 64" by (cases width) simp_all
      obtain v where v: "replicate_loop el ?n (width_bits width) = Some v"
        and vb: "\<And>i. bit v i \<longleftrightarrow> i < width_bits width \<and> bit el (i mod ?n)"
        using replicate_loop_correct [of ?n "width_bits width" k el] k w64 elb by auto
      have "(i mod ?n + ?r) mod ?n = (i + unat immr) mod ?n" for i
        by (simp add: take_bit_eq_mod mod_simps)
      then have vb': "bit v i \<longleftrightarrow> i < width_bits width \<and> (i + unat immr) mod ?n \<le> ?s" for i
        using vb elb by simp
      have vm: "v AND width_mask width = v"
        by (rule bit_word_eqI) (auto simp: and_width_mask bit_take_bit_iff vb')
      have ne: "imms AND of_nat (?n - 1) \<noteq> (of_nat (?n - 1) :: u8)"
        using valid and_level_eq_level [OF l6, of imms] by (simp add: bm_valid_def)
      have "?r < 64" by (rule less_le_trans [OF r n64])
      moreover have "?s + 1 < 64" "0 < ?r \<Longrightarrow> ?n - ?r < 64" "mask_of ?n = Some (mask ?n)"
        using s n64 mask_of_ok [of ?n] by auto
      ultimately have "decode_bit_masks n immr imms width = Some (Some v)"
        using False ne el v vm unat_and_level [OF l6]
        by (simp add: decode_bit_masks_def Let_def bm_len_def [symmetric] mask_word_eq
            split: if_splits del: One_nat_def)
      with valid vb' show ?thesis by auto
    qed
  qed
qed


lemma decode_bit_masks_no_panic: "n < 2 \<Longrightarrow> decode_bit_masks n immr imms width \<noteq> None"
  using decode_bit_masks_spec [of n imms width immr] by (auto split: if_splits)


subsection \<open>The group decoder\<close>

lemma ucast_bit_less_2: "(ucast (bits e k k) :: u8) < 2"
  using ucast_bits_less [of k k 2 e] by (simp add: word_less_nat_alt)

lemma pc_relative_ok: "decodes_ok e (pc_relative e)"
  by (simp add: pc_relative_def Let_def decode_ok)

lemma add_sub_immediate_ok: "decodes_ok e (add_sub_immediate e)"
  by (simp add: add_sub_immediate_def Let_def decode_ok)

lemma logical_immediate_ok: "decodes_ok e (logical_immediate e)"
proof -
  obtain masks where "decode_bit_masks (ucast (bits e 22 22)) (ucast (bits e 21 16))
      (ucast (bits e 15 10)) (from_sf (bits e 31 31 = 1)) = Some masks"
    using decode_bit_masks_no_panic [OF ucast_bit_less_2] by blast
  then show ?thesis
    by (cases masks) (simp_all add: logical_immediate_def Let_def decode_ok)
qed

lemma move_wide_ok: "decodes_ok e (move_wide e)"
  using ucast_bits_less [of 22 21 4 e] field_top_clear(1)
  by (auto simp: move_wide_def Let_def decode_ok split: option.splits)

lemma bitfield_ok: "decodes_ok e (bitfield e)"
  using ucast_bits_less [of 21 16 64 e] ucast_bits_less [of 15 10 64 e]
    field_top_clear(2)
  by (auto simp: bitfield_def Let_def decode_ok or_and_0 split: option.splits)

lemma extract_group_ok: "decodes_ok e (extract_group e)"
  using ucast_bits_less [of 15 10 64 e] field_top_clear(2)
  by (auto simp: extract_group_def Let_def decode_ok split: option.splits)

interpretation dp_imm: group_decoder data_processing_immediate
  by unfold_locales (simp add: data_processing_immediate_def Let_def pc_relative_ok
      add_sub_immediate_ok logical_immediate_ok move_wide_ok bitfield_ok extract_group_ok)

end
