(* ===== verification/Decode_Register.thy ===== *)
theory Decode_Register
  imports Decode_Fields
begin

unbundle bit_operations_syntax

text \<open>
  Data processing, register (\<open>crates/core/src/decode/group/dp_register.rs\<close>): logical and
  add/sub register forms, carry, conditional compare and select, one-, two- and three-source
  instructions. Shown: the group never panics and yields well-formed instructions.
\<close>

definition shift_kind :: "u32 \<Rightarrow> ShiftKind" where
  "shift_kind field = (let f = field AND 3 in
     if f = 0 then Lsl else if f = 1 then Lsr else if f = 2 then Asr else Ror)"

definition finish_arithmetic :: "u32 \<Rightarrow> Form \<Rightarrow> RegWidth \<Rightarrow> Instruction" where
  "finish_arithmetic encoding form width =
     (let o1 = (if bits encoding 30 30 = 1 then Op_Sub else Op_Add);
          insn = with_width (insn_new encoding o1 form) width
      in if bits encoding 29 29 = 1 then setting_flags insn else insn)"

definition logical_shifted :: "u32 \<Rightarrow> Instruction option" where
  "logical_shifted encoding =
     (let width = from_sf (bits encoding 31 31 = 1);
          amount = (ucast (bits encoding 15 10) :: u8)
      in
      if width = W32 \<and> amount AND 32 \<noteq> 0 then Some (unallocated encoding)
      else
        let opc = bits encoding 30 29;
            is_negated = (bits encoding 21 21 = 1);
            o1 = (if (opc = 0 \<or> opc = 3) \<and> \<not> is_negated then Op_And
                  else if (opc = 0 \<or> opc = 3) \<and> is_negated then Op_Bic
                  else if opc = 1 \<and> \<not> is_negated then Op_Orr
                  else if opc = 1 \<and> is_negated then Op_Orn
                  else if opc = 2 \<and> \<not> is_negated then Op_Eor
                  else Op_Eon)
        in do {
          rd \<leftarrow> from_index_zr (ucast (bits encoding 4 0));
          rn \<leftarrow> from_index_zr (ucast (bits encoding 9 5));
          rm \<leftarrow> from_index_zr (ucast (bits encoding 20 16));
          let insn = with_width (insn_new encoding o1 (Form_RegShifted rd rn
            \<lparr> sr_reg = rm, sr_kind = shift_kind (bits encoding 23 22), sr_amount = amount \<rparr>)) width;
          Some (if opc = 3 then setting_flags insn else insn)
        })"

definition add_sub_shifted :: "u32 \<Rightarrow> Instruction option" where
  "add_sub_shifted encoding =
     (let width = from_sf (bits encoding 31 31 = 1);
          shift = bits encoding 23 22;
          amount = (ucast (bits encoding 15 10) :: u8)
      in
      if shift = 3 \<or> (width = W32 \<and> amount AND 32 \<noteq> 0) then Some (unallocated encoding)
      else do {
        rd \<leftarrow> from_index_zr (ucast (bits encoding 4 0));
        rn \<leftarrow> from_index_zr (ucast (bits encoding 9 5));
        rm \<leftarrow> from_index_zr (ucast (bits encoding 20 16));
        Some (finish_arithmetic encoding (Form_RegShifted rd rn
          \<lparr> sr_reg = rm, sr_kind = shift_kind shift, sr_amount = amount \<rparr>) width)
      })"

definition add_sub_extended :: "u32 \<Rightarrow> Instruction option" where
  "add_sub_extended encoding =
     (let width = from_sf (bits encoding 31 31 = 1);
          amount = (ucast (bits encoding 12 10) :: u8)
      in
      if bits encoding 23 22 \<noteq> 0 \<or> amount > 4 then Some (unallocated encoding)
      else
        let flags = (bits encoding 29 29 = 1) in do {
          rd \<leftarrow> (if flags then from_index_zr (ucast (bits encoding 4 0))
                 else from_index_sp (ucast (bits encoding 4 0)));
          rn \<leftarrow> from_index_sp (ucast (bits encoding 9 5));
          rm \<leftarrow> from_index_zr (ucast (bits encoding 20 16));
          Some (finish_arithmetic encoding (Form_RegExtended rd rn
            \<lparr> er_reg = rm, er_kind = extend_from_option (ucast (bits encoding 15 13)),
              er_amount = amount \<rparr>) width)
        })"

definition add_sub_with_carry :: "u32 \<Rightarrow> Instruction option" where
  "add_sub_with_carry encoding =
     (if bits encoding 15 10 \<noteq> 0 then Some (unallocated encoding)
      else
        let width = from_sf (bits encoding 31 31 = 1) in do {
          rd \<leftarrow> from_index_zr (ucast (bits encoding 4 0));
          rn \<leftarrow> from_index_zr (ucast (bits encoding 9 5));
          rm \<leftarrow> from_index_zr (ucast (bits encoding 20 16));
          let o1 = (if bits encoding 30 30 = 1 then Op_Sbc else Op_Adc);
          let insn = with_width (insn_new encoding o1 (Form_RegShifted rd rn
            \<lparr> sr_reg = rm, sr_kind = Lsl, sr_amount = 0 \<rparr>)) width;
          Some (if bits encoding 29 29 = 1 then setting_flags insn else insn)
        })"

definition conditional_compare :: "u32 \<Rightarrow> Instruction option" where
  "conditional_compare encoding =
     (if bits encoding 29 29 \<noteq> 1 \<or> bits encoding 10 10 \<noteq> 0 \<or> bits encoding 4 4 \<noteq> 0
      then Some (unallocated encoding)
      else
        let width = from_sf (bits encoding 31 31 = 1);
            cond = cond_from_bits (ucast (bits encoding 15 12));
            nzcv = (ucast (bits encoding 3 0) :: u8)
        in do {
          rn \<leftarrow> from_index_zr (ucast (bits encoding 9 5));
          form \<leftarrow> (if bits encoding 11 11 = 1
                   then Some (Form_CondCompare rn (ucast (bits encoding 20 16)) nzcv cond)
                   else do { rm \<leftarrow> from_index_zr (ucast (bits encoding 20 16));
                             Some (Form_CondSelect Gpr_ZR rn rm cond) });
          let o1 = (if bits encoding 30 30 = 1 then Op_Ccmp else Op_Ccmn);
          Some (setting_flags (with_width (insn_new encoding o1 form) width))
        })"

definition conditional_select :: "u32 \<Rightarrow> Instruction option" where
  "conditional_select encoding =
     (if bits encoding 29 29 \<noteq> 0 then Some (unallocated encoding)
      else
        let hi = bits encoding 30 30; lo = bits encoding 11 10;
            op1 = (if hi = 0 \<and> lo = 0 then Some Op_Csel else if hi = 0 \<and> lo = 1 then Some Op_Csinc
                   else if hi = 1 \<and> lo = 0 then Some Op_Csinv
                   else if hi = 1 \<and> lo = 1 then Some Op_Csneg else None)
        in (case op1 of None \<Rightarrow> Some (unallocated encoding)
            | Some o1 \<Rightarrow> do {
                rd \<leftarrow> from_index_zr (ucast (bits encoding 4 0));
                rn \<leftarrow> from_index_zr (ucast (bits encoding 9 5));
                rm \<leftarrow> from_index_zr (ucast (bits encoding 20 16));
                Some (with_width (insn_new encoding o1 (Form_CondSelect rd rn rm
                  (cond_from_bits (ucast (bits encoding 15 12))))) (from_sf (bits encoding 31 31 = 1)))
              }))"

definition two_source :: "u32 \<Rightarrow> Instruction option" where
  "two_source encoding =
     (let width = from_sf (bits encoding 31 31 = 1);
          opc = bits encoding 15 10;
          op1 = (if opc = 2 then Some Op_Udiv else if opc = 3 then Some Op_Sdiv
                 else if opc = 8 then Some Op_Lslv else if opc = 9 then Some Op_Lsrv
                 else if opc = 10 then Some Op_Asrv else if opc = 11 then Some Op_Rorv else None)
      in (case op1 of None \<Rightarrow> Some (unallocated encoding)
          | Some o1 \<Rightarrow> do {
              rd \<leftarrow> from_index_zr (ucast (bits encoding 4 0));
              rn \<leftarrow> from_index_zr (ucast (bits encoding 9 5));
              rm \<leftarrow> from_index_zr (ucast (bits encoding 20 16));
              Some (with_width (insn_new encoding o1 (Form_RegShifted rd rn
                \<lparr> sr_reg = rm, sr_kind = Lsl, sr_amount = 0 \<rparr>)) width)
            }))"

definition one_source :: "u32 \<Rightarrow> Instruction option" where
  "one_source encoding =
     (let width = from_sf (bits encoding 31 31 = 1) in
      if bits encoding 20 16 \<noteq> 0 then Some (unallocated encoding)
      else
        let opc = bits encoding 15 10;
            op1 = (if opc = 0 then Some Op_Rbit else if opc = 1 then Some Op_Rev16
                   else if opc = 2 \<and> width = X64 then Some Op_Rev32
                   else if opc = 2 then Some Op_Rev
                   else if opc = 3 \<and> width = X64 then Some Op_Rev
                   else if opc = 4 then Some Op_Clz else if opc = 5 then Some Op_Cls else None)
        in (case op1 of None \<Rightarrow> Some (unallocated encoding)
            | Some o1 \<Rightarrow> do {
                rn \<leftarrow> from_index_zr (ucast (bits encoding 9 5));
                rd \<leftarrow> from_index_zr (ucast (bits encoding 4 0));
                Some (with_width (insn_new encoding o1 (Form_RegShifted rd rn
                  \<lparr> sr_reg = rn, sr_kind = Lsl, sr_amount = 0 \<rparr>)) width)
              }))"

definition two_source_or_one_source :: "u32 \<Rightarrow> Instruction option" where
  "two_source_or_one_source encoding =
     (if bits encoding 29 29 \<noteq> 0 then Some (unallocated encoding)
      else if bits encoding 30 30 = 1 then one_source encoding else two_source encoding)"

definition three_source :: "u32 \<Rightarrow> Instruction option" where
  "three_source encoding =
     (let width = from_sf (bits encoding 31 31 = 1) in
      if bits encoding 30 29 \<noteq> 0 then Some (unallocated encoding)
      else
        let op31 = bits encoding 23 21; o0 = bits encoding 15 15;
            op1 = (if op31 = 0 \<and> o0 = 0 then Some Op_Madd else if op31 = 0 then Some Op_Msub
                   else if width = X64 \<and> op31 = 1 \<and> o0 = 0 then Some Op_Smaddl
                   else if width = X64 \<and> op31 = 1 then Some Op_Smsubl
                   else if width = X64 \<and> op31 = 2 \<and> o0 = 0 then Some Op_Smulh
                   else if width = X64 \<and> op31 = 5 \<and> o0 = 0 then Some Op_Umaddl
                   else if width = X64 \<and> op31 = 5 then Some Op_Umsubl
                   else if width = X64 \<and> op31 = 6 \<and> o0 = 0 then Some Op_Umulh else None)
        in (case op1 of None \<Rightarrow> Some (unallocated encoding)
            | Some o1 \<Rightarrow> do {
                rd \<leftarrow> from_index_zr (ucast (bits encoding 4 0));
                rn \<leftarrow> from_index_zr (ucast (bits encoding 9 5));
                rm \<leftarrow> from_index_zr (ucast (bits encoding 20 16));
                ra \<leftarrow> from_index_zr (ucast (bits encoding 14 10));
                Some (with_width (insn_new encoding o1 (Form_ThreeSource rd rn rm ra)) width)
              }))"

definition data_processing_register :: "u32 \<Rightarrow> Instruction option" where
  "data_processing_register encoding =
     (let op1 = bits encoding 28 28; op2 = bits encoding 24 21 in
      if op1 = 0 \<and> op2 \<le> 7 then logical_shifted encoding
      else if op1 = 0 \<and> (op2 = 8 \<or> op2 = 10 \<or> op2 = 12 \<or> op2 = 14) then add_sub_shifted encoding
      else if op1 = 0 \<and> (op2 = 9 \<or> op2 = 11 \<or> op2 = 13 \<or> op2 = 15) then add_sub_extended encoding
      else if op1 = 1 \<and> op2 = 0 then add_sub_with_carry encoding
      else if op1 = 1 \<and> op2 = 2 then conditional_compare encoding
      else if op1 = 1 \<and> op2 = 4 then conditional_select encoding
      else if op1 = 1 \<and> op2 = 6 then two_source_or_one_source encoding
      else if op1 = 1 \<and> 8 \<le> op2 \<and> op2 \<le> 15 then three_source encoding
      else Some (unallocated encoding))"


section \<open>The group never panics and is well formed\<close>

lemma finish_arithmetic_ok [simp]:
  "decodes_ok e (Some (finish_arithmetic e form width)) \<longleftrightarrow> form_wf width form"
  by (simp add: finish_arithmetic_def Let_def)

lemma logical_shifted_ok: "decodes_ok e (logical_shifted e)"
  using ucast_bits_less [of 15 10 64 e] field_top_clear(2)
  by (auto simp: logical_shifted_def Let_def decode_ok shifted_wf_def)

lemma add_sub_shifted_ok: "decodes_ok e (add_sub_shifted e)"
  using ucast_bits_less [of 15 10 64 e] field_top_clear(2)
  by (auto simp: add_sub_shifted_def Let_def decode_ok shifted_wf_def)

lemma add_sub_extended_ok: "decodes_ok e (add_sub_extended e)"
  by (auto simp: add_sub_extended_def Let_def decode_ok extended_wf_def)

lemma add_sub_with_carry_ok: "decodes_ok e (add_sub_with_carry e)"
  by (auto simp: add_sub_with_carry_def Let_def decode_ok shifted_wf_def)

lemma conditional_compare_ok: "decodes_ok e (conditional_compare e)"
proof -
  have "(ucast (bits e 20 16) :: u64) < 32"
    using unat_bits_less [of e 20 16] by (simp add: word_less_nat_alt unat_ucast_up)
  moreover have "(ucast (bits e 3 0) :: u8) < 16"
    using ucast_bits_less [of 3 0 16 e] by (simp add: word_less_nat_alt)
  ultimately show ?thesis by (simp add: conditional_compare_def Let_def decode_ok)
qed

lemma conditional_select_ok: "decodes_ok e (conditional_select e)"
  by (simp add: conditional_select_def Let_def decode_ok split: option.splits)

lemma two_source_or_one_source_ok: "decodes_ok e (two_source_or_one_source e)"
  by (simp add: two_source_or_one_source_def one_source_def two_source_def Let_def decode_ok
      shifted_wf_def split: option.splits)

lemma three_source_ok: "decodes_ok e (three_source e)"
  by (simp add: three_source_def Let_def decode_ok split: option.splits)

interpretation dp_reg: group_decoder data_processing_register
  by unfold_locales (simp add: data_processing_register_def Let_def logical_shifted_ok
      add_sub_shifted_ok add_sub_extended_ok add_sub_with_carry_ok conditional_compare_ok
      conditional_select_ok two_source_or_one_source_ok three_source_ok)

end
