(* ===== verification/Decode_Branch.thy ===== *)
theory Decode_Branch
  imports Decode_Fields
begin

unbundle bit_operations_syntax

text \<open>
  Branches, exception generation and system instructions
  (\<open>crates/core/src/decode/group/branch_system.rs\<close>). Shown: the group never panics, yields
  well-formed instructions, and every branch offset is a multiple of four.
\<close>

definition branch_immediate_dec :: "u32 \<Rightarrow> Instruction option" where
  "branch_immediate_dec encoding =
     (let o1 = (if bits encoding 31 31 = 1 then Op_Bl else Op_B);
          offset = sign_extend (bits encoding 25 0) 26 * 4
      in Some (insn_new encoding o1 (Form_Branch offset)))"

definition conditional_branch :: "u32 \<Rightarrow> Instruction option" where
  "conditional_branch encoding =
     (if bits encoding 24 24 \<noteq> 0 \<or> bits encoding 4 4 \<noteq> 0 then Some (unallocated encoding)
      else
        let offset = sign_extend (bits encoding 23 5) 19 * 4;
            cond = cond_from_bits (ucast (bits encoding 3 0))
        in Some (insn_new encoding Op_B (Form_BranchCond offset cond)))"

definition compare_and_branch :: "u32 \<Rightarrow> Instruction option" where
  "compare_and_branch encoding =
     (let o1 = (if bits encoding 24 24 = 1 then Op_Cbnz else Op_Cbz) in do {
        rt \<leftarrow> from_index_zr (ucast (bits encoding 4 0));
        Some (with_width (insn_new encoding o1
          (Form_BranchReg rt (sign_extend (bits encoding 23 5) 19 * 4) 0))
          (from_sf (bits encoding 31 31 = 1)))
      })"

definition test_and_branch :: "u32 \<Rightarrow> Instruction option" where
  "test_and_branch encoding =
     (let o1 = (if bits encoding 24 24 = 1 then Op_Tbnz else Op_Tbz);
          b = (ucast (push_bit 5 (bits encoding 31 31) OR bits encoding 23 19) :: u8)
      in do {
        rt \<leftarrow> from_index_zr (ucast (bits encoding 4 0));
        Some (with_width (insn_new encoding o1
          (Form_BranchReg rt (sign_extend (bits encoding 18 5) 14 * 4) b))
          (from_sf (bits encoding 31 31 = 1)))
      })"

definition branch_register_dec :: "u32 \<Rightarrow> Instruction option" where
  "branch_register_dec encoding =
     (if bits encoding 20 16 \<noteq> 31 then Some (unallocated encoding)
      else
        let opc = bits encoding 24 21;
            op3 = bits encoding 15 10;
            rn = (ucast (bits encoding 9 5) :: u8);
            rm = bits encoding 4 0
        in
        if op3 \<noteq> 0 then Some (unallocated encoding)
        else if opc \<le> 2 \<and> rm \<noteq> 0 then Some (unallocated encoding)
        else if opc = 0 then do { r \<leftarrow> from_index_zr rn;
                                  Some (insn_new encoding Op_Br (Form_BranchIndirect r)) }
        else if opc = 1 then do { r \<leftarrow> from_index_zr rn;
                                  Some (insn_new encoding Op_Blr (Form_BranchIndirect r)) }
        else if opc = 2 then do { r \<leftarrow> from_index_zr rn;
                                  Some (insn_new encoding Op_Ret (Form_BranchIndirect r)) }
        else if opc = 4 \<and> rn = 31 \<and> rm = 0 then Some (insn_new encoding Op_Eret Form_None)
        else Some (unallocated encoding))"

definition exception :: "u32 \<Rightarrow> Instruction option" where
  "exception encoding =
     (let imm = ucast (bits encoding 20 5);
          opc = bits encoding 23 21;
          op2 = bits encoding 4 2;
          ll = bits encoding 1 0
      in
      if op2 \<noteq> 0 then Some (unallocated encoding)
      else
        let op1 = (if opc = 0 \<and> ll = 1 then Some Op_Svc else if opc = 0 \<and> ll = 2 then Some Op_Hvc
                   else if opc = 0 \<and> ll = 3 then Some Op_Smc else if opc = 1 \<and> ll = 0 then Some Op_Brk
                   else if opc = 2 \<and> ll = 0 then Some Op_Hlt else None)
        in (case op1 of None \<Rightarrow> Some (unallocated encoding)
            | Some o1 \<Rightarrow> Some (insn_new encoding o1 (Form_Imm imm))))"

definition hint :: "u32 \<Rightarrow> u32 \<Rightarrow> u32 \<Rightarrow> Instruction option" where
  "hint encoding crm op2 =
     (let o1 = (if crm = 0 \<and> op2 = 0 then Op_Nop else if crm = 0 \<and> op2 = 1 then Op_Yield
                else if crm = 0 \<and> op2 = 2 then Op_Wfe else if crm = 0 \<and> op2 = 3 then Op_Wfi
                else if crm = 0 \<and> (op2 = 4 \<or> op2 = 5) then Op_Sev else Op_Nop)
      in Some (insn_new encoding o1 Form_None))"

definition barrier :: "u32 \<Rightarrow> u32 \<Rightarrow> u32 \<Rightarrow> Instruction option" where
  "barrier encoding crm op2 =
     (let op1 = (if op2 = 2 then Some Op_Clrex else if op2 = 4 then Some Op_Dsb
                 else if op2 = 5 then Some Op_Dmb else if op2 = 6 then Some Op_Isb else None)
      in (case op1 of None \<Rightarrow> Some (unallocated encoding)
          | Some o1 \<Rightarrow> Some (insn_new encoding o1 (Form_Imm (ucast crm)))))"

definition pack_sysreg :: "u32 \<Rightarrow> u32 \<Rightarrow> u32 \<Rightarrow> u32 \<Rightarrow> u32 \<Rightarrow> u16" where
  "pack_sysreg op0 op1 crn crm op2 =
     ucast (push_bit 14 (op0 AND 3) OR push_bit 11 (op1 AND 7) OR push_bit 7 (crn AND 15)
            OR push_bit 3 (crm AND 15) OR (op2 AND 7))"

definition system :: "u32 \<Rightarrow> Instruction option" where
  "system encoding =
     (let l = bits encoding 21 21;
          op0 = bits encoding 20 19;
          op1 = bits encoding 18 16;
          crn = bits encoding 15 12;
          crm = bits encoding 11 8;
          op2 = bits encoding 7 5;
          rt = (ucast (bits encoding 4 0) :: u8)
      in
      if op0 = 0 \<and> l = 0 \<and> rt = 31 then
        (if op1 = 3 \<and> crn = 2 then hint encoding crm op2
         else if op1 = 3 \<and> crn = 3 then barrier encoding crm op2
         else if crn = 4 then Some (insn_new encoding Op_Msr
                (Form_System Gpr_ZR (pack_sysreg 0 op1 crn crm op2)))
         else Some (unallocated encoding))
      else if op0 = 1 then Some (unallocated encoding)
      else if op0 = 2 \<or> op0 = 3 then do {
        r \<leftarrow> from_index_zr rt;
        Some (insn_new encoding (if l = 1 then Op_Mrs else Op_Msr)
          (Form_System r (pack_sysreg op0 op1 crn crm op2))) }
      else Some (unallocated encoding))"

definition branches_exceptions_system :: "u32 \<Rightarrow> Instruction option" where
  "branches_exceptions_system encoding =
     (let op0 = bits encoding 31 29; op1 = bits encoding 25 22 in
      if op0 = 2 \<and> op1 \<le> 7 then conditional_branch encoding
      else if op0 = 6 \<and> op1 \<le> 3 then exception encoding
      else if op0 = 6 \<and> op1 = 4 then system encoding
      else if op0 = 6 \<and> 8 \<le> op1 \<and> op1 \<le> 15 then branch_register_dec encoding
      else if op0 = 0 \<or> op0 = 4 then branch_immediate_dec encoding
      else if (op0 = 1 \<or> op0 = 5) \<and> op1 \<le> 7 then compare_and_branch encoding
      else if op0 = 1 \<or> op0 = 5 then test_and_branch encoding
      else Some (unallocated encoding))"


section \<open>The group never panics and is well formed\<close>

lemma branch_offset_lemmas:
  "decodes_ok e (branch_immediate_dec e)"
  "decodes_ok e (conditional_branch e)"
  "decodes_ok e (compare_and_branch e)"
  by (simp_all add: branch_immediate_dec_def conditional_branch_def compare_and_branch_def Let_def
      decode_ok take_bit_2_mult_4)

lemma tested_bit_less:
  "unat (ucast (push_bit 5 (bits e 31 31) OR bits e 23 19) :: u8)
     < (if bits e 31 31 = 1 then 64 else 32)"
proof -
  let ?b = "ucast (push_bit 5 (bits e 31 31) OR bits e 23 19) :: u8"
  let ?k = "if bits e 31 31 = 1 then 6 else 5 :: nat"
  have "take_bit ?k ?b = ?b"
    using bits_1_cases [of e 31] bits_1_eq [of e 31]
    by (intro bit_word_eqI) (auto simp: bit_simps bit_bits)
  then have "unat ?b < 2 ^ ?k" by (metis take_bit_word_le_mask)
  then show ?thesis by (simp split: if_splits)
qed

lemma test_and_branch_ok: "decodes_ok e (test_and_branch e)"
  using tested_bit_less [of e]
  by (simp add: test_and_branch_def Let_def decode_ok take_bit_2_mult_4 split: if_splits)

lemma branch_register_dec_ok: "decodes_ok e (branch_register_dec e)"
  by (simp add: branch_register_dec_def Let_def decode_ok)

lemma ucast_bits_u64_less:
  "2 ^ (hi - lo + 1) \<le> unat n \<Longrightarrow> (ucast (bits e hi lo) :: u64) < n"
  using unat_bits_less [of e hi lo] by (simp add: word_less_nat_alt unat_ucast_up)

lemma exception_ok: "decodes_ok e (exception e)"
  using ucast_bits_u64_less [of 20 5 "2 ^ 16" e]
  by (simp add: exception_def Let_def split: option.splits)

lemma system_ok: "decodes_ok e (system e)"
  using ucast_bits_u64_less [of 11 8 "2 ^ 16" e]
  by (simp add: system_def hint_def barrier_def Let_def decode_ok split: option.splits)

interpretation branch_sys: group_decoder branches_exceptions_system
  by unfold_locales (simp add: branches_exceptions_system_def Let_def branch_offset_lemmas
      test_and_branch_ok branch_register_dec_ok exception_ok system_ok)

end
