(* ===== verification/Decode_Memory.thy ===== *)
theory Decode_Memory
  imports Decode_Fields
begin

unbundle bit_operations_syntax

text \<open>
  General-purpose loads and stores (\<open>crates/core/src/decode/group/loads_stores.rs\<close>): the
  single-register forms in every addressing mode, literals, pairs, exclusives and
  acquire/release. Shown: the group never panics and yields well-formed instructions (in
  particular access sizes of 1, 2, 4 or 8 bytes and no write-back on a prefetch).
\<close>

definition transferred :: "u32 \<Rightarrow> Gpr option" where
  "transferred encoding = from_index_zr (ucast (bits encoding 4 0))"

definition base :: "u32 \<Rightarrow> Gpr option" where
  "base encoding = from_index_sp (ucast (bits encoding 9 5))"

definition transfer_form :: "u32 \<Rightarrow> AddrMode \<Rightarrow> AccessSize \<Rightarrow> Form option" where
  "transfer_form encoding addr sz = do {
     rt \<leftarrow> transferred encoding;
     Some (Form_LoadStore rt None None addr sz Ordering_PLAIN)
   }"

record SingleRegister =
  sg_is_load :: bool
  sg_size :: AccessSize
  sg_width :: RegWidth

definition single_register_decode :: "u32 \<Rightarrow> u32 \<Rightarrow> SingleRegister option" where
  "single_register_decode size_field opc =
     (let is_sign_extending = (opc AND 2 \<noteq> 0);
          has_signed_form = (size_field < 3 \<and> \<not> (size_field = 2 \<and> opc = 3))
      in
      if is_sign_extending \<and> \<not> has_signed_form then None
      else
        let is_load = (if is_sign_extending then True else opc AND 1 = 1);
            width = (if is_sign_extending then from_sf (opc AND 1 = 0) else from_sf (size_field = 3))
        in Some \<lparr> sg_is_load = is_load,
                  sg_size = \<lparr> as_bytes = push_bit (unat size_field) 1, as_signed = is_sign_extending \<rparr>,
                  sg_width = width \<rparr>)"

definition single_register_op :: "SingleRegister \<Rightarrow> Op" where
  "single_register_op s = (if sg_is_load s then Op_Ldr else Op_Str)"

definition is_prefetch :: "u32 \<Rightarrow> u32 \<Rightarrow> bool" where
  "is_prefetch size_field opc \<longleftrightarrow> size_field = 3 \<and> opc = 2"

text \<open>The outer \<open>option\<close> is the panic, the inner one the encodings the slice does not claim.\<close>

definition register_offset :: "u32 \<Rightarrow> u32 \<Rightarrow> AddrMode option option" where
  "register_offset encoding size_field =
     (let opt = (ucast (bits encoding 15 13) :: u8) in
      if opt AND 2 = 0 then Some None
      else
        let is_scaled = (bits encoding 12 12 = 1);
            amount = (if is_scaled then ucast size_field else 0)
        in do {
          b \<leftarrow> base encoding;
          rm \<leftarrow> from_index_zr (ucast (bits encoding 20 16));
          Some (Some (Addr_Register b
            \<lparr> er_reg = rm, er_kind = extend_from_option opt, er_amount = amount \<rparr> WB_None))
        })"

definition single_register_address :: "u32 \<Rightarrow> u32 \<Rightarrow> AddrMode option option" where
  "single_register_address encoding size_field =
     (if bits encoding 24 24 = 1 then do {
        b \<leftarrow> base encoding;
        Some (Some (Addr_Immediate b (push_bit (unat size_field) (ucast (bits encoding 21 10))) WB_None))
      }
      else if bits encoding 21 21 = 1 then
        (if bits encoding 11 10 \<noteq> 2 then Some None else register_offset encoding size_field)
      else
        let offset = sign_extend (bits encoding 20 12) 9;
            f = bits encoding 11 10;
            wb = (if f = 0 then Some WB_None else if f = 1 then Some WB_Post
                  else if f = 3 then Some WB_Pre else None)
        in (case wb of None \<Rightarrow> Some None
            | Some writeback \<Rightarrow> do {
                b \<leftarrow> base encoding;
                Some (Some (Addr_Immediate b offset writeback))
              }))"

definition single_register :: "u32 \<Rightarrow> Instruction option" where
  "single_register encoding =
     (let size_field = bits encoding 31 30; opc = bits encoding 23 22 in do {
        addr1 \<leftarrow> single_register_address encoding size_field;
        (case addr1 of None \<Rightarrow> Some (unallocated encoding)
         | Some addr \<Rightarrow>
           if is_prefetch size_field opc then
             (if has_writeback addr then Some (unallocated encoding)
              else Some (insn_new encoding Op_Prfm (Form_Prefetch (ucast (bits encoding 4 0)) addr)))
           else
             (case single_register_decode size_field opc of None \<Rightarrow> Some (unallocated encoding)
              | Some t \<Rightarrow> do {
                  form \<leftarrow> transfer_form encoding addr (sg_size t);
                  Some (with_width (insn_new encoding (single_register_op t) form) (sg_width t))
                }))
      })"

definition literal :: "u32 \<Rightarrow> Instruction option" where
  "literal encoding =
     (let addr = Addr_PcRelative (sign_extend (bits encoding 23 5) 19 * 4);
          opc = bits encoding 31 30;
          kind = (if opc = 0 then Some (Access_W, W32) else if opc = 1 then Some (Access_X, X64)
                  else if opc = 2 then Some (\<lparr> as_bytes = 4, as_signed = True \<rparr>, X64) else None)
      in (case kind of
            None \<Rightarrow> Some (insn_new encoding Op_Prfm (Form_Prefetch (ucast (bits encoding 4 0)) addr))
          | Some (sz, width) \<Rightarrow> do {
              form \<leftarrow> transfer_form encoding addr sz;
              Some (with_width (insn_new encoding Op_Ldr form) width)
            }))"

definition pair_writeback :: "u32 \<Rightarrow> WriteBack" where
  "pair_writeback encoding = (let f = bits encoding 24 23 in
     if f = 0 \<or> f = 2 then WB_None else if f = 1 then WB_Post else WB_Pre)"

definition pair :: "u32 \<Rightarrow> Instruction option" where
  "pair encoding =
     (let opc = bits encoding 31 30;
          is_load = (bits encoding 22 22 = 1);
          kind = (if opc = 0 then Some (Access_W, W32)
                  else if opc = 1 \<and> is_load then Some (\<lparr> as_bytes = 4, as_signed = True \<rparr>, X64)
                  else if opc = 2 then Some (Access_X, X64) else None)
      in (case kind of None \<Rightarrow> Some (unallocated encoding)
          | Some (sz, width) \<Rightarrow>
            let is_non_temporal = (bits encoding 24 23 = 0) in
            if is_non_temporal \<and> as_signed sz then Some (unallocated encoding)
            else do {
              rt \<leftarrow> transferred encoding;
              rt2 \<leftarrow> from_index_zr (ucast (bits encoding 14 10));
              b \<leftarrow> base encoding;
              let form = Form_LoadStore rt (Some rt2) None
                (Addr_Immediate b (sign_extend (bits encoding 21 15) 7 * ucast (as_bytes sz))
                  (pair_writeback encoding)) sz Ordering_PLAIN;
              Some (with_width (insn_new encoding (if is_load then Op_Ldp else Op_Stp) form) width)
            }))"

definition exclusive_size :: "u32 \<Rightarrow> bool \<Rightarrow> AccessSize option" where
  "exclusive_size size_field is_pair =
     (if \<not> is_pair then Some \<lparr> as_bytes = push_bit (unat size_field) 1, as_signed = False \<rparr>
      else if size_field = 2 then Some Access_W
      else if size_field = 3 then Some Access_X else None)"

definition exclusive :: "u32 \<Rightarrow> Instruction option" where
  "exclusive encoding =
     (let size_field = bits encoding 31 30;
          is_load = (bits encoding 22 22 = 1);
          is_excl = (bits encoding 23 23 = 0);
          is_pair = (bits encoding 21 21 = 1);
          is_ordered = (bits encoding 15 15 = 1)
      in (case exclusive_size size_field is_pair of None \<Rightarrow> Some (unallocated encoding)
          | Some sz \<Rightarrow>
            let is_unallocated_shape = (is_pair \<and> \<not> is_excl) in
            if is_unallocated_shape \<or> (\<not> is_excl \<and> \<not> is_ordered) then Some (unallocated encoding)
            else
              let ordering = \<lparr> is_acquire = (is_load \<and> is_ordered),
                               is_release = (\<not> is_load \<and> is_ordered), is_exclusive = is_excl \<rparr>
              in do {
                rs \<leftarrow> (if is_excl \<and> \<not> is_load
                       then map_option Some (from_index_zr (ucast (bits encoding 20 16)))
                       else Some None);
                rt \<leftarrow> transferred encoding;
                rt2 \<leftarrow> (if is_pair then map_option Some (from_index_zr (ucast (bits encoding 14 10)))
                        else Some None);
                b \<leftarrow> base encoding;
                Some (with_width (insn_new encoding (if is_load then Op_Ldar else Op_Stlr)
                  (Form_LoadStore rt rt2 rs (Addr_BaseOnly b) sz ordering))
                  (from_sf (size_field = 3)))
              }))"

definition loads_and_stores :: "u32 \<Rightarrow> Instruction option" where
  "loads_and_stores encoding =
     (if bits encoding 26 26 = 1 then Some (unallocated encoding)
      else
        let has_reserved_bit_set = (bits encoding 24 24 = 1);
            f = bits encoding 29 28
        in
        if (f = 0 \<or> f = 1) \<and> has_reserved_bit_set then Some (unallocated encoding)
        else if f = 0 then exclusive encoding
        else if f = 1 then literal encoding
        else if f = 2 then pair encoding
        else single_register encoding)"


section \<open>The group never panics and is well formed\<close>

lemma transferred_ok [decode_ok]: "transferred e = Some (zr_field (bits e 4 0))"
  by (simp add: transferred_def decode_ok)

lemma base_ok [decode_ok]: "base e = Some (sp_field (bits e 9 5))"
  by (simp add: base_def decode_ok)

lemma size_field_cases:
  obtains "bits e 31 30 = 0" | "bits e 31 30 = 1" | "bits e 31 30 = 2" | "bits e 31 30 = 3"
proof -
  have "unat (bits e 31 30) < 4" using unat_bits_less [of e 31 30] by simp
  then have "unat (bits e 31 30) \<in> {0, 1, 2, 3}" by auto
  then show ?thesis using that by (auto simp: word_unat_eq_iff)
qed

lemma size_wf_field [decode_ok]:
  "size_wf \<lparr> as_bytes = 2 ^ unat (bits e 31 30), as_signed = s \<rparr>"
  by (rule size_field_cases [of e]) (simp_all add: size_wf_def)

lemma size_wf_named [simp]:
  "size_wf Access_W" "size_wf Access_X" "size_wf \<lparr> as_bytes = 4, as_signed = s \<rparr>"
  "size_wf \<lparr> as_bytes = 8, as_signed = s \<rparr>"
  by (simp_all add: size_wf_def access_defs)

lemma size_field_amount [decode_ok]: "(ucast (bits e 31 30) :: u8) \<le> 4"
  using ucast_bits_less [of 31 30 4 e] by (simp add: word_le_nat_alt)

lemma prfop_less [decode_ok]: "(ucast (bits e 4 0) :: u8) < 32"
  by (simp add: field5_less)

lemma single_register_address_ok:
  "\<exists>a. single_register_address e (bits e 31 30) = Some a \<and> pred_option addr_wf a"
  by (simp add: single_register_address_def register_offset_def Let_def decode_ok extended_wf_def
      split: option.splits)

lemma single_register_ok: "decodes_ok e (single_register e)"
proof -
  obtain a where a: "single_register_address e (bits e 31 30) = Some a" "pred_option addr_wf a"
    using single_register_address_ok by blast
  show ?thesis
  proof (cases a)
    case None
    with a show ?thesis by (simp add: single_register_def Let_def)
  next
    case (Some addr)
    with a show ?thesis
      by (auto simp: single_register_def Let_def single_register_decode_def transfer_form_def
          decode_ok split: option.splits if_splits)
  qed
qed

lemma literal_ok: "decodes_ok e (literal e)"
  by (simp add: literal_def transfer_form_def Let_def decode_ok take_bit_2_mult_4 has_writeback_def
      split: option.splits)

lemma pair_ok: "decodes_ok e (pair e)"
  by (simp add: pair_def Let_def decode_ok split: option.splits)

lemma exclusive_ok: "decodes_ok e (exclusive e)"
  by (auto simp: exclusive_def exclusive_size_def Let_def decode_ok split: option.splits if_splits)

interpretation mem_group: group_decoder loads_and_stores
  by unfold_locales (simp add: loads_and_stores_def Let_def exclusive_ok literal_ok pair_ok
      single_register_ok)

end
