(* ===== verification/Decode_Vec_Memory.thy ===== *)
theory Decode_Vec_Memory
  imports Decode_Fields
begin

unbundle bit_operations_syntax

text \<open>
  SIMD/FP loads and stores, the \<open>V = 1\<close> half of the loads-and-stores group
  (\<open>crates/core/src/decode/group/simd_fp/loads_stores.rs\<close>): single-register, literal, pair and
  structure forms. Names carry the prefix \<open>vec_\<close> where the general-purpose half uses the same
  one. Shown: the group never panics and yields well-formed instructions.
\<close>

definition vec_base :: "u32 \<Rightarrow> Gpr option" where
  "vec_base encoding = from_index_sp (ucast (bits encoding 9 5))"

definition vec_transferred :: "u32 \<Rightarrow> VecReg option" where
  "vec_transferred encoding = vec_new (ucast (bits encoding 4 0))"

definition vec_scalar :: "VecReg \<Rightarrow> ElemSize \<Rightarrow> VecOperand" where
  "vec_scalar reg sz = \<lparr> vo_reg = reg, vo_shape = Shape_Scalar sz \<rparr>"

definition single_size :: "u32 \<Rightarrow> ElemSize option" where
  "single_size encoding =
     (let sz = bits encoding 31 30; is_wide = (bits encoding 23 23 = 1) in
      if \<not> is_wide \<and> sz = 0 then Some B8 else if \<not> is_wide \<and> sz = 1 then Some H16
      else if \<not> is_wide \<and> sz = 2 then Some S32 else if \<not> is_wide \<and> sz = 3 then Some D64
      else if is_wide \<and> sz = 0 then Some Q128 else None)"

definition scale_of :: "ElemSize \<Rightarrow> nat" where
  "scale_of sz = trailing_zeros (of_nat (elem_bits sz) :: u32) - 3"

definition vec_register_offset :: "u32 \<Rightarrow> ElemSize \<Rightarrow> AddrMode option" where
  "vec_register_offset encoding sz =
     (let is_scaled = (bits encoding 12 12 = 1) in do {
        b \<leftarrow> vec_base encoding;
        rm \<leftarrow> from_index_zr (ucast (bits encoding 20 16));
        Some (Addr_Register b
          \<lparr> er_reg = rm, er_kind = extend_from_option (ucast (bits encoding 15 13)),
            er_amount = (if is_scaled then of_nat (scale_of sz) else 0) \<rparr> WB_None)
      })"

definition vec_single_register_address :: "u32 \<Rightarrow> ElemSize \<Rightarrow> AddrMode option option" where
  "vec_single_register_address encoding sz =
     (if bits encoding 24 24 = 1 then do {
        b \<leftarrow> vec_base encoding;
        Some (Some (Addr_Immediate b (push_bit (scale_of sz) (ucast (bits encoding 21 10))) WB_None))
      }
      else if bits encoding 21 21 = 1 then
        (if bits encoding 11 10 \<noteq> 2 then Some None
         else map_option Some (vec_register_offset encoding sz))
      else
        let offset = sign_extend (bits encoding 20 12) 9;
            f = bits encoding 11 10;
            wb = (if f = 0 then Some WB_None else if f = 1 then Some WB_Post
                  else if f = 3 then Some WB_Pre else None)
        in (case wb of None \<Rightarrow> Some None
            | Some writeback \<Rightarrow> do {
                b \<leftarrow> vec_base encoding;
                Some (Some (Addr_Immediate b offset writeback))
              }))"

definition vec_single_register :: "u32 \<Rightarrow> Instruction option" where
  "vec_single_register encoding =
     (case single_size encoding of None \<Rightarrow> Some (unallocated encoding)
      | Some sz \<Rightarrow> do {
          addr1 \<leftarrow> vec_single_register_address encoding sz;
          (case addr1 of None \<Rightarrow> Some (unallocated encoding)
           | Some addr \<Rightarrow> do {
               vt \<leftarrow> vec_transferred encoding;
               Some (insn_new encoding (if bits encoding 22 22 = 1 then Op_Ldr else Op_Str)
                 (Form_LoadStoreVec (vec_scalar vt sz) 1 addr Ordering_PLAIN))
             })
        })"

definition vec_literal :: "u32 \<Rightarrow> Instruction option" where
  "vec_literal encoding =
     (let opc = bits encoding 31 30;
          size1 = (if opc = 0 then Some S32 else if opc = 1 then Some D64
                   else if opc = 2 then Some Q128 else None)
      in (case size1 of None \<Rightarrow> Some (unallocated encoding)
          | Some sz \<Rightarrow> do {
              vt \<leftarrow> vec_transferred encoding;
              Some (insn_new encoding Op_Ldr (Form_LoadStoreVec (vec_scalar vt sz) 1
                (Addr_PcRelative (sign_extend (bits encoding 23 5) 19 * 4)) Ordering_PLAIN))
            }))"

definition vec_pair_writeback :: "u32 \<Rightarrow> WriteBack option" where
  "vec_pair_writeback encoding = (let f = bits encoding 24 23 in
     if f = 1 then Some WB_Post else if f = 2 then Some WB_None else if f = 3 then Some WB_Pre
     else None)"

definition vec_pair :: "u32 \<Rightarrow> Instruction option" where
  "vec_pair encoding =
     (let opc = bits encoding 31 30;
          size1 = (if opc = 0 then Some S32 else if opc = 1 then Some D64
                   else if opc = 2 then Some Q128 else None)
      in (case size1 of None \<Rightarrow> Some (unallocated encoding)
          | Some sz \<Rightarrow>
            (case vec_pair_writeback encoding of None \<Rightarrow> Some (unallocated encoding)
             | Some writeback \<Rightarrow> do {
                 vt \<leftarrow> vec_transferred encoding;
                 b \<leftarrow> vec_base encoding;
                 Some (insn_new encoding (if bits encoding 22 22 = 1 then Op_Ldp else Op_Stp)
                   (Form_LoadStoreVec (vec_scalar vt sz) 2
                     (Addr_Immediate b (push_bit (scale_of sz) (sign_extend (bits encoding 21 15) 7))
                       writeback) Ordering_PLAIN))
               })))"

record Structure =
  st_op_load :: Op
  st_op_store :: Op
  st_count :: u8

definition structure_kind :: "u32 \<Rightarrow> Structure option" where
  "structure_kind opcode =
     (let kind = (\<lambda>l s c. Some \<lparr> st_op_load = l, st_op_store = s, st_count = c \<rparr>) in
      if opcode = 0 then kind Op_Ld4 Op_St4 4 else if opcode = 2 then kind Op_Ld1 Op_St1 4
      else if opcode = 4 then kind Op_Ld3 Op_St3 3 else if opcode = 6 then kind Op_Ld1 Op_St1 3
      else if opcode = 7 then kind Op_Ld1 Op_St1 1 else if opcode = 8 then kind Op_Ld2 Op_St2 2
      else if opcode = 10 then kind Op_Ld1 Op_St1 2 else None)"

definition structure_address :: "u32 \<Rightarrow> bool \<Rightarrow> u8 \<Rightarrow> nat \<Rightarrow> AddrMode option" where
  "structure_address encoding is_post_indexed count bytes_per_register =
     (if \<not> is_post_indexed then do { b \<leftarrow> vec_base encoding; Some (Addr_BaseOnly b) }
      else
        let rm = bits encoding 20 16 in
        if rm = 31 then do {
          b \<leftarrow> vec_base encoding;
          Some (Addr_Immediate b (of_nat (unat count * bytes_per_register)) WB_Post)
        }
        else do {
          b \<leftarrow> vec_base encoding;
          r \<leftarrow> from_index_zr (ucast rm);
          Some (Addr_Register b \<lparr> er_reg = r, er_kind = Uxtx, er_amount = 0 \<rparr> WB_Post)
        })"

definition structure_form :: "u32 \<Rightarrow> Instruction option" where
  "structure_form encoding =
     (let is_post_indexed = (bits encoding 23 23 = 1) in
      if \<not> is_post_indexed \<and> bits encoding 21 16 \<noteq> 0 then Some (unallocated encoding)
      else (case structure_kind (bits encoding 15 12) of None \<Rightarrow> Some (unallocated encoding)
        | Some kind \<Rightarrow>
          let is_quad = (bits encoding 30 30 = 1);
              elem = elem_from_size (ucast (bits encoding 11 10))
          in
          if elem = D64 \<and> \<not> is_quad then Some (unallocated encoding)
          else
            let lanes = (if is_quad then 128 else 64) div elem_bits elem in do {
              r \<leftarrow> vec_transferred encoding;
              let vt = \<lparr> vo_reg = r, vo_shape = Shape_Vector elem (of_nat lanes)
                           (if is_quad then Half_Full else Half_Low) \<rparr>;
              addr \<leftarrow> structure_address encoding is_post_indexed (st_count kind)
                        (lanes * elem_bits elem div 8);
              Some (insn_new encoding
                (if bits encoding 22 22 = 1 then st_op_load kind else st_op_store kind)
                (Form_LoadStoreVec vt (st_count kind) addr Ordering_PLAIN))
            }))"

definition loads_and_stores_vec :: "u32 \<Rightarrow> Instruction option" where
  "loads_and_stores_vec encoding =
     (let f = bits encoding 29 28 in
      if f = 0 then structure_form encoding
      else if f = 1 then vec_literal encoding
      else if f = 2 then vec_pair encoding
      else vec_single_register encoding)"


section \<open>The group never panics and is well formed\<close>

lemma vec_base_ok [decode_ok]: "vec_base e = Some (sp_field (bits e 9 5))"
  by (simp add: vec_base_def decode_ok)

lemma vec_transferred_ok [decode_ok]: "vec_transferred e = Some (VecReg (ucast (bits e 4 0)))"
  by (simp add: vec_transferred_def decode_ok)

lemma vop_wf_vec_scalar [simp]: "vop_wf (vec_scalar r sz) = vec_wf r"
  by (simp add: vop_wf_def vec_scalar_def)

lemma trailing_zeros_powers:
  "trailing_zeros (8 :: u32) = 3" "trailing_zeros (16 :: u32) = 4" "trailing_zeros (32 :: u32) = 5"
  "trailing_zeros (64 :: u32) = 6" "trailing_zeros (128 :: u32) = 7"
  by (simp_all add: trailing_zeros_def upt_rec)

lemma scale_of_simps [simp]:
  "scale_of B8 = 0" "scale_of H16 = 1" "scale_of S32 = 2" "scale_of D64 = 3" "scale_of Q128 = 4"
  by (simp_all add: scale_of_def elem_bits_def trailing_zeros_powers)

lemma vec_single_register_address_ok:
  "\<exists>a. vec_single_register_address e sz = Some a \<and> pred_option addr_wf a"
  by (cases sz) (simp_all add: vec_single_register_address_def vec_register_offset_def Let_def decode_ok
      extended_wf_def split: option.splits)

lemma vec_single_register_ok: "decodes_ok e (vec_single_register e)"
proof (cases "single_size e")
  case None
  then show ?thesis by (simp add: vec_single_register_def)
next
  case (Some sz)
  obtain a where "vec_single_register_address e sz = Some a" "pred_option addr_wf a"
    using vec_single_register_address_ok by blast
  with Some show ?thesis
    by (cases a) (simp_all add: vec_single_register_def decode_ok)
qed

lemma vec_literal_ok: "decodes_ok e (vec_literal e)"
  by (simp add: vec_literal_def Let_def decode_ok take_bit_2_mult_4 split: option.splits)

lemma vec_pair_ok: "decodes_ok e (vec_pair e)"
  by (simp add: vec_pair_def Let_def decode_ok split: option.splits)

lemma structure_address_ok: "\<exists>a. structure_address e p c n = Some a \<and> addr_wf a"
  by (simp add: structure_address_def Let_def decode_ok extended_wf_def)

lemma structure_kind_count: "structure_kind f = Some k \<Longrightarrow> 1 \<le> st_count k \<and> st_count k \<le> 4"
  by (auto simp: structure_kind_def Let_def split: if_splits)

lemma structure_form_ok: "decodes_ok e (structure_form e)"
proof (cases "structure_kind (bits e 15 12)")
  case None
  then show ?thesis by (simp add: structure_form_def Let_def)
next
  case (Some k)
  obtain a where a: "addr_wf (a p c n)" "structure_address e p c n = Some (a p c n)" for p c n
    using structure_address_ok [of e] by metis
  show ?thesis
    using Some structure_kind_count [OF Some]
    by (simp add: structure_form_def Let_def a decode_ok vop_wf_def)
qed

interpretation vec_mem: group_decoder loads_and_stores_vec
  by unfold_locales (simp add: loads_and_stores_vec_def Let_def structure_form_ok vec_literal_ok
      vec_pair_ok vec_single_register_ok)

end
