(* ===== verification/Decode_Scalar_Fp.thy ===== *)
theory Decode_Scalar_Fp
  imports Decode_Fields
begin

unbundle bit_operations_syntax

text \<open>
  Scalar floating-point data processing
  (\<open>crates/core/src/decode/group/simd_fp/scalar.rs\<close>). Names carry the prefix \<open>fp_\<close> where other
  groups use the same one. Shown: the group never panics and yields well-formed
  instructions; \<open>FMOV\<close> immediates expand to the float they name.
\<close>

definition float_size :: "u32 \<Rightarrow> ElemSize option" where
  "float_size ftype = (if ftype = 0 then Some S32 else if ftype = 1 then Some D64
     else if ftype = 3 then Some H16 else None)"

definition fp_scalar :: "u32 \<Rightarrow> ElemSize \<Rightarrow> VecOperand option" where
  "fp_scalar index sz = do {
     r \<leftarrow> vec_new (ucast index);
     Some \<lparr> vo_reg = r, vo_shape = Shape_Scalar sz \<rparr>
   }"

definition fp_fields :: "u32 \<Rightarrow> u32 \<times> u32 \<times> u32 \<times> u32" where
  "fp_fields encoding = (bits encoding 4 0, bits encoding 9 5, bits encoding 20 16, bits encoding 14 10)"

definition fp_three_source :: "u32 \<Rightarrow> ElemSize \<Rightarrow> Instruction option" where
  "fp_three_source encoding sz =
     (let (rd, rn, rm, ra) = fp_fields encoding;
          o1 = bits encoding 21 21; o0 = bits encoding 15 15;
          opx = (if o1 = 0 \<and> o0 = 0 then Op_Fmadd else if o1 = 0 \<and> o0 = 1 then Op_Fmsub
                 else if o1 = 1 \<and> o0 = 0 then Op_Fnmadd else Op_Fnmsub)
      in do {
        vd \<leftarrow> fp_scalar rd sz; vn \<leftarrow> fp_scalar rn sz; vm \<leftarrow> fp_scalar rm sz; va \<leftarrow> fp_scalar ra sz;
        Some (insn_new encoding opx (Form_VecData vd vn (Some vm) (Some va)))
      })"

definition fp_two_source :: "u32 \<Rightarrow> ElemSize \<Rightarrow> Instruction option" where
  "fp_two_source encoding sz =
     (let (rd, rn, rm, _) = fp_fields encoding;
          f = bits encoding 15 12;
          op1 = (if f = 0 then Some Op_Fmul else if f = 1 then Some Op_Fdiv
                 else if f = 2 then Some Op_Fadd else if f = 3 then Some Op_Fsub
                 else if f = 4 then Some Op_Fmax else if f = 5 then Some Op_Fmin
                 else if f = 6 then Some Op_Fmaxnm else if f = 7 then Some Op_Fminnm
                 else if f = 8 then Some Op_Fnmul else None)
      in (case op1 of None \<Rightarrow> Some (unallocated encoding)
          | Some opx \<Rightarrow> do {
              vd \<leftarrow> fp_scalar rd sz; vn \<leftarrow> fp_scalar rn sz; vm \<leftarrow> fp_scalar rm sz;
              Some (insn_new encoding opx (Form_VecData vd vn (Some vm) None))
            }))"

definition fp_conditional_select :: "u32 \<Rightarrow> ElemSize \<Rightarrow> Instruction option" where
  "fp_conditional_select encoding sz =
     (let (rd, rn, rm, _) = fp_fields encoding in do {
        vd \<leftarrow> fp_scalar rd sz; vn \<leftarrow> fp_scalar rn sz; vm \<leftarrow> fp_scalar rm sz;
        Some (insn_new encoding Op_Fcsel (Form_VecCond vd vn vm
          (cond_from_bits (ucast (bits encoding 15 12)))))
      })"

definition fp_conditional_compare :: "u32 \<Rightarrow> ElemSize \<Rightarrow> Instruction option" where
  "fp_conditional_compare encoding sz =
     (let (nzcv, rn, rm, _) = fp_fields encoding;
          opx = (if bits encoding 4 4 = 1 then Op_Fccmpe else Op_Fccmp)
      in do {
        vn \<leftarrow> fp_scalar rn sz; vm \<leftarrow> fp_scalar rm sz;
        Some (insn_new encoding opx (Form_VecCondCompare vn vm (ucast (nzcv AND 15))
          (cond_from_bits (ucast (bits encoding 15 12)))))
      })"

definition fp_compare_dec :: "u32 \<Rightarrow> ElemSize \<Rightarrow> Instruction option" where
  "fp_compare_dec encoding sz =
     (let (opcode2, rn, rm, _) = fp_fields encoding;
          is_zero_form = (opcode2 AND 8 \<noteq> 0);
          opx = (if opcode2 AND 16 \<noteq> 0 then Op_Fcmpe else Op_Fcmp)
      in
      if opcode2 AND 7 \<noteq> 0 then Some (unallocated encoding)
      else if is_zero_form \<and> rm \<noteq> 0 then Some (unallocated encoding)
      else do {
        vn \<leftarrow> fp_scalar rn sz;
        vm \<leftarrow> (if \<not> is_zero_form then map_option Some (fp_scalar rm sz) else Some None);
        Some (insn_new encoding opx (Form_VecCompare vn vm))
      })"

definition expand_float_immediate :: "u8 \<Rightarrow> ElemSize \<Rightarrow> u64" where
  "expand_float_immediate imm8 sz =
     (let sign = ucast (drop_bit 7 imm8) :: u64;
          exponent_high = ucast (drop_bit 6 imm8 AND 1) :: u64;
          exponent_low = ucast (drop_bit 4 imm8 AND 3) :: u64;
          mantissa = ucast (imm8 AND 15) :: u64;
          (exponent_bits, mantissa_bits) =
            (case sz of H16 \<Rightarrow> (5, 10) | D64 \<Rightarrow> (11, 52) | _ \<Rightarrow> (8, 23 :: nat));
          repeated = (if exponent_high = 1 then push_bit (exponent_bits - 3) 1 - 1 else 0);
          exponent = push_bit (exponent_bits - 1) (1 - exponent_high)
                     OR push_bit 2 repeated OR exponent_low
      in push_bit (exponent_bits + mantissa_bits) sign OR push_bit mantissa_bits exponent
         OR push_bit (mantissa_bits - 4) mantissa)"

definition fp_move_immediate :: "u32 \<Rightarrow> ElemSize \<Rightarrow> Instruction option" where
  "fp_move_immediate encoding sz =
     (let rd = bits encoding 4 0 in
      if bits encoding 9 5 \<noteq> 0 then Some (unallocated encoding)
      else
        let imm8 = (ucast (bits encoding 20 13) :: u8) in do {
          vd \<leftarrow> fp_scalar rd sz;
          Some (insn_new encoding Op_FmovImm (Form_VecImm vd vd (expand_float_immediate imm8 sz)))
        })"

definition fp_one_source :: "u32 \<Rightarrow> ElemSize \<Rightarrow> Instruction option" where
  "fp_one_source encoding sz =
     (let (rd, rn, _, _) = fp_fields encoding;
          opcode = bits encoding 20 15;
          kind = (if opcode = 0 then Some (Op_Fmov, Round_Current, None)
            else if opcode = 1 then Some (Op_Fabs, Round_Current, None)
            else if opcode = 2 then Some (Op_Fneg, Round_Current, None)
            else if opcode = 3 then Some (Op_Fsqrt, Round_Current, None)
            else if opcode = 4 \<or> opcode = 5 \<or> opcode = 7 then
              (case float_size (opcode AND 3) of None \<Rightarrow> None
               | Some target \<Rightarrow> if target = sz then None
                                 else Some (Op_Fcvt, Round_Current, Some target))
            else if opcode = 8 then Some (Op_Frint, Round_Nearest, None)
            else if opcode = 9 then Some (Op_Frint, Round_Plus, None)
            else if opcode = 10 then Some (Op_Frint, Round_Minus, None)
            else if opcode = 11 then Some (Op_Frint, Round_Zero, None)
            else if opcode = 12 then Some (Op_Frint, Round_NearestAway, None)
            else if opcode = 14 \<or> opcode = 15 then Some (Op_Frint, Round_Current, None)
            else None)
      in (case kind of None \<Rightarrow> Some (unallocated encoding)
          | Some (opx, round1, target) \<Rightarrow> do {
              vd \<leftarrow> fp_scalar rd (case target of None \<Rightarrow> sz | Some t \<Rightarrow> t);
              vn \<leftarrow> fp_scalar rn sz;
              Some (with_round (insn_new encoding opx (Form_VecData vd vn None None)) round1)
            }))"

definition compare_or_one_source :: "u32 \<Rightarrow> ElemSize \<Rightarrow> Instruction option" where
  "compare_or_one_source encoding sz =
     (let f = bits encoding 14 10 in
      if f = 16 then fp_one_source encoding sz
      else if f = 8 then fp_compare_dec encoding sz
      else if f = 4 then fp_move_immediate encoding sz
      else Some (unallocated encoding))"

record ConversionKind =
  ck_op :: Op
  ck_round :: RoundMode
  ck_is_to_gpr :: bool

definition conversion_kind :: "u32 \<Rightarrow> u32 \<Rightarrow> ConversionKind option" where
  "conversion_kind rmode opcode =
     (if rmode = 3 \<and> (opcode = 0 \<or> opcode = 1) then
        Some \<lparr> ck_op = (if opcode = 0 then Op_Fcvtzs else Op_Fcvtzu), ck_round = Round_Zero,
               ck_is_to_gpr = True \<rparr>
      else if opcode = 0 \<or> opcode = 1 then
        Some \<lparr> ck_op = (if opcode = 0 then Op_Fcvts else Op_Fcvtu),
               ck_round = (if rmode = 0 then Round_Nearest else if rmode = 1 then Round_Plus
                           else Round_Minus),
               ck_is_to_gpr = True \<rparr>
      else if rmode = 0 \<and> (opcode = 2 \<or> opcode = 3) then
        Some \<lparr> ck_op = (if opcode = 2 then Op_Scvtf else Op_Ucvtf), ck_round = Round_Current,
               ck_is_to_gpr = False \<rparr>
      else if rmode = 0 \<and> (opcode = 4 \<or> opcode = 5) then
        Some \<lparr> ck_op = (if opcode = 4 then Op_Fcvts else Op_Fcvtu), ck_round = Round_NearestAway,
               ck_is_to_gpr = True \<rparr>
      else if (rmode = 0 \<or> rmode = 1) \<and> (opcode = 6 \<or> opcode = 7) then
        Some \<lparr> ck_op = (if opcode = 6 then Op_FmovFromVec else Op_FmovToVec),
               ck_round = Round_Current, ck_is_to_gpr = (opcode = 6) \<rparr>
      else None)"

definition move_between_files :: "u32 \<Rightarrow> RegWidth \<Rightarrow> ConversionKind \<Rightarrow> Instruction option" where
  "move_between_files encoding width kind =
     (let (rd, rn, _, _) = fp_fields encoding;
          is_high_half = (bits encoding 20 19 = 1)
      in
      if is_high_half \<and> (width \<noteq> X64 \<or> bits encoding 23 22 \<noteq> 2) then Some (unallocated encoding)
      else
        let size1 = (case float_size (bits encoding 23 22) of
               Some s \<Rightarrow> if is_high_half \<or> (s = D64) = (width = X64) then Some s
                         else if \<not> is_high_half then None else Some D64
             | None \<Rightarrow> if \<not> is_high_half then None else Some D64)
        in (case size1 of None \<Rightarrow> Some (unallocated encoding)
            | Some s \<Rightarrow>
              let shape = (if is_high_half then Shape_Element D64 1 else Shape_Scalar s);
                  (gpr_index, v_index) = (if ck_is_to_gpr kind then (rd, rn) else (rn, rd))
              in do {
                g \<leftarrow> from_index_zr (ucast gpr_index);
                v \<leftarrow> vec_new (ucast v_index);
                Some (with_width (insn_new encoding (ck_op kind)
                  (Form_VecGprMove g \<lparr> vo_reg = v, vo_shape = shape \<rparr>)) width)
              }))"

definition integer_conversion :: "u32 \<Rightarrow> Instruction option" where
  "integer_conversion encoding =
     (let (rd, rn, _, _) = fp_fields encoding;
          width = from_sf (bits encoding 31 31 = 1);
          rmode = bits encoding 20 19;
          opcode = bits encoding 18 16
      in (case conversion_kind rmode opcode of None \<Rightarrow> Some (unallocated encoding)
          | Some kind \<Rightarrow>
            if ck_op kind = Op_FmovFromVec \<or> ck_op kind = Op_FmovToVec
            then move_between_files encoding width kind
            else (case float_size (bits encoding 23 22) of None \<Rightarrow> Some (unallocated encoding)
              | Some sz \<Rightarrow> do {
                  (gpr, vec) \<leftarrow>
                    (if ck_is_to_gpr kind
                     then do { g \<leftarrow> from_index_zr (ucast rd); v \<leftarrow> fp_scalar rn sz; Some (g, v) }
                     else do { g \<leftarrow> from_index_zr (ucast rn); v \<leftarrow> fp_scalar rd sz; Some (g, v) });
                  Some (with_round (with_width (insn_new encoding (ck_op kind)
                    (Form_VecGprMove gpr vec)) width) (ck_round kind))
                })))"

definition fixed_point_conversion :: "u32 \<Rightarrow> Instruction option" where
  "fixed_point_conversion encoding =
     (case float_size (bits encoding 23 22) of None \<Rightarrow> Some (unallocated encoding)
      | Some sz \<Rightarrow>
        let (rd, rn, _, _) = fp_fields encoding;
            width = from_sf (bits encoding 31 31 = 1);
            scale = bits encoding 15 10
        in do {
          fractional_bits \<leftarrow> checked_sub 64 scale;
          if width = W32 \<and> fractional_bits > 32 then Some (unallocated encoding)
          else
            let rmode = bits encoding 20 19;
                opcode = bits encoding 18 16;
                kind = (if rmode = 3 \<and> opcode = 0 then Some (Op_Fcvtzs, True)
                        else if rmode = 3 \<and> opcode = 1 then Some (Op_Fcvtzu, True)
                        else if rmode = 0 \<and> opcode = 2 then Some (Op_Scvtf, False)
                        else if rmode = 0 \<and> opcode = 3 then Some (Op_Ucvtf, False) else None)
            in (case kind of None \<Rightarrow> Some (unallocated encoding)
                | Some (opx, is_to_gpr) \<Rightarrow> do {
                    (gpr, vec) \<leftarrow>
                      (if is_to_gpr
                       then do { g \<leftarrow> from_index_zr (ucast rd); v \<leftarrow> fp_scalar rn sz; Some (g, v) }
                       else do { g \<leftarrow> from_index_zr (ucast rn); v \<leftarrow> fp_scalar rd sz; Some (g, v) });
                    Some (with_round (with_width (insn_new encoding opx
                      (Form_VecGprMove gpr vec)) width) Round_Zero)
                  })
        })"

definition scalar_data_processing :: "u32 \<Rightarrow> Instruction option" where
  "scalar_data_processing encoding =
     (if bits encoding 29 29 = 1 \<or> bits encoding 30 30 = 1 then Some (unallocated encoding)
      else
        let is_three_source = (bits encoding 24 24 = 1);
            is_fixed_point = (\<not> is_three_source \<and> bits encoding 21 21 = 0);
            is_integer_conversion =
              (\<not> is_three_source \<and> bits encoding 21 21 = 1 \<and> bits encoding 15 10 = 0)
        in
        if bits encoding 31 31 = 1 \<and> \<not> (is_fixed_point \<or> is_integer_conversion)
        then Some (unallocated encoding)
        else if is_fixed_point then fixed_point_conversion encoding
        else if is_integer_conversion then integer_conversion encoding
        else (case float_size (bits encoding 23 22) of None \<Rightarrow> Some (unallocated encoding)
          | Some sz \<Rightarrow>
            if is_three_source then fp_three_source encoding sz
            else
              let f = bits encoding 11 10 in
              if f = 0 then compare_or_one_source encoding sz
              else if f = 1 then fp_conditional_compare encoding sz
              else if f = 2 then fp_two_source encoding sz
              else fp_conditional_select encoding sz))"


section \<open>The group never panics and is well formed\<close>

lemma fp_scalar_ok [decode_ok]:
  "hi = lo + 4 \<Longrightarrow> fp_scalar (bits e hi lo) sz
     = Some \<lparr> vo_reg = VecReg (ucast (bits e hi lo)), vo_shape = Shape_Scalar sz \<rparr>"
  by (simp add: fp_scalar_def decode_ok)

lemma vop_wf_field [decode_ok]:
  "hi = lo + 4 \<Longrightarrow> vop_wf \<lparr> vo_reg = VecReg (ucast (bits e hi lo)), vo_shape = s \<rparr>"
  by (simp add: vop_wf_def decode_ok)

lemma nzcv_field_less: "(ucast (w AND 15 :: u32) :: u8) < 16"
proof -
  have "w AND 15 = take_bit 4 w" by (simp add: take_bit_eq_mask mask_eq_exp_minus_1)
  then have "unat (w AND 15) < 16" using take_bit_word_le_mask [of 4 w] by simp
  then have "unat (ucast (w AND 15) :: u8) < 16"
    by (simp add: unsigned_ucast_eq take_bit_nat_def)
  then show ?thesis by (simp add: word_less_nat_alt)
qed

lemma fp_simple_ok:
  "decodes_ok e (fp_three_source e sz)" "decodes_ok e (fp_two_source e sz)"
  "decodes_ok e (fp_conditional_select e sz)" "decodes_ok e (fp_conditional_compare e sz)"
  by (simp_all add: fp_three_source_def fp_two_source_def fp_conditional_select_def
      fp_conditional_compare_def fp_fields_def Let_def decode_ok nzcv_field_less split: option.splits)

lemma fp_one_source_ok: "decodes_ok e (fp_one_source e sz)"
  by (simp add: fp_one_source_def fp_fields_def Let_def decode_ok split: option.splits prod.splits)

lemma fp_scalar_zero:
  "fp_scalar 0 sz = Some \<lparr> vo_reg = VecReg 0, vo_shape = Shape_Scalar sz \<rparr>"
  "vop_wf \<lparr> vo_reg = VecReg 0, vo_shape = Shape_Scalar sz \<rparr>"
  by (simp_all add: fp_scalar_def vec_new_def vop_wf_def vec_wf_def)

lemma fp_compare_dec_ok: "decodes_ok e (fp_compare_dec e sz)"
  by (simp add: fp_compare_dec_def fp_fields_def Let_def decode_ok fp_scalar_zero)

lemma compare_or_one_source_ok: "decodes_ok e (compare_or_one_source e sz)"
  by (simp add: compare_or_one_source_def fp_one_source_ok fp_compare_dec_ok fp_move_immediate_def
      fp_fields_def Let_def decode_ok fp_scalar_zero)

lemma move_between_files_ok: "decodes_ok e (move_between_files e width kind)"
  by (simp add: move_between_files_def fp_fields_def Let_def decode_ok split: option.splits prod.splits)

lemma integer_conversion_ok: "decodes_ok e (integer_conversion e)"
  by (simp add: integer_conversion_def fp_fields_def Let_def decode_ok move_between_files_ok
      split: option.splits)

lemma fixed_point_conversion_ok: "decodes_ok e (fixed_point_conversion e)"
proof -
  have "bits e 15 10 \<le> 64" using unat_bits_less [of e 15 10] by (simp add: word_le_nat_alt)
  then show ?thesis
    by (simp add: fixed_point_conversion_def fp_fields_def Let_def decode_ok checked_sub_def
        split: option.splits)
qed

interpretation scalar_fp: group_decoder scalar_data_processing
  by unfold_locales (simp add: scalar_data_processing_def Let_def fp_simple_ok
      compare_or_one_source_ok integer_conversion_ok fixed_point_conversion_ok split: option.splits)

end
