(* ===== verification/Decode_Neon.thy ===== *)
theory Decode_Neon
  imports Decode_Fields
begin

unbundle bit_operations_syntax

text \<open>
  Advanced SIMD data processing (\<open>crates/core/src/decode/group/simd_fp/neon.rs\<close>). Shown: the
  group never panics (in particular the two \<open>u32\<close> subtractions of \<open>shift_by_immediate\<close> never
  underflow, and a decoded shift amount is within the element), every instruction is well
  formed, and the 64-bit \<open>MOVI\<close> mask sets whole bytes.
\<close>

section \<open>Fields and operands\<close>

definition neon_fields :: "u32 \<Rightarrow> u32 \<times> u32 \<times> u32" where
  "neon_fields encoding = (bits encoding 4 0, bits encoding 9 5, bits encoding 20 16)"

definition is_quad :: "u32 \<Rightarrow> bool" where
  "is_quad encoding \<longleftrightarrow> bits encoding 30 30 = 1"

definition vector :: "u32 \<Rightarrow> ElemSize \<Rightarrow> bool \<Rightarrow> VecOperand option" where
  "vector index elem quad =
     (let lanes = (if quad then 128 else 64) div elem_bits elem in do {
        r \<leftarrow> vec_new (ucast index);
        Some \<lparr> vo_reg = r,
               vo_shape = Shape_Vector elem (of_nat lanes) (if quad then Half_Full else Half_Low) \<rparr>
      })"

definition element :: "u32 \<Rightarrow> ElemSize \<Rightarrow> u8 \<Rightarrow> VecOperand option" where
  "element index elem lane = do {
     r \<leftarrow> vec_new (ucast index);
     Some \<lparr> vo_reg = r, vo_shape = Shape_Element elem lane \<rparr>
   }"

text \<open>\<open>elem as u32\<close>: the discriminant of the enum.\<close>

definition elem_discriminant :: "ElemSize \<Rightarrow> nat" where
  "elem_discriminant e = (case e of B8 \<Rightarrow> 0 | H16 \<Rightarrow> 1 | S32 \<Rightarrow> 2 | D64 \<Rightarrow> 3 | Q128 \<Rightarrow> 4)"


section \<open>The three-register groups and the reductions\<close>

definition three_same_logical :: "u32 \<Rightarrow> Instruction option" where
  "three_same_logical encoding =
     (let (rd, rn, rm) = neon_fields encoding;
          u = bits encoding 29 29; sz = bits encoding 23 22;
          opx = (if u = 0 \<and> sz = 0 then Op_VecAnd else if u = 0 \<and> sz = 1 then Op_VecBic
                 else if u = 0 \<and> sz = 2 then Op_VecOrr else if u = 0 \<and> sz = 3 then Op_VecOrn
                 else if sz = 0 then Op_VecEor else if sz = 1 then Op_VecBsl
                 else if sz = 2 then Op_VecBit else Op_VecBif);
          quad = is_quad encoding
      in do {
        vd \<leftarrow> vector rd B8 quad; vn \<leftarrow> vector rn B8 quad; vm \<leftarrow> vector rm B8 quad;
        Some (insn_new encoding opx (Form_VecData vd vn (Some vm) None))
      })"

definition three_same_op :: "u32 \<Rightarrow> bool \<Rightarrow> Op option" where
  "three_same_op opcode is_unsigned =
     (let signed_choice = (\<lambda>s u. Some (if is_unsigned then u else s)) in
      if opcode = 1 then signed_choice Op_Sshl Op_Ushl
      else if opcode = 6 then signed_choice Op_VecCmgt Op_VecCmhi
      else if opcode = 7 then signed_choice Op_VecCmge Op_VecCmhs
      else if opcode = 16 then signed_choice Op_VecAdd Op_VecSub
      else if opcode = 17 \<and> is_unsigned then Some Op_VecCmeq
      else if opcode = 19 then signed_choice Op_VecMul Op_VecMul
      else if opcode = 18 then signed_choice Op_VecMla Op_VecMls
      else if opcode = 23 then Some Op_Addp
      else None)"

definition three_same :: "u32 \<Rightarrow> Instruction option" where
  "three_same encoding =
     (let (rd, rn, rm) = neon_fields encoding;
          is_unsigned = (bits encoding 29 29 = 1);
          elem = elem_from_size (ucast (bits encoding 23 22));
          quad = is_quad encoding
      in (case three_same_op (bits encoding 15 11) is_unsigned of
            None \<Rightarrow> Some (unallocated encoding)
          | Some opx \<Rightarrow>
              if elem = D64 \<and> \<not> quad then Some (unallocated encoding)
              else do {
                vd \<leftarrow> vector rd elem quad; vn \<leftarrow> vector rn elem quad; vm \<leftarrow> vector rm elem quad;
                Some (insn_new encoding opx (Form_VecData vd vn (Some vm) None))
              }))"

definition across_lanes :: "u32 \<Rightarrow> Instruction option" where
  "across_lanes encoding =
     (let (rd, rn, _) = neon_fields encoding;
          elem = elem_from_size (ucast (bits encoding 23 22));
          quad = is_quad encoding;
          opcode = bits encoding 16 12; u = bits encoding 29 29;
          op1 = (if opcode = 26 \<and> u = 1 then Some Op_Uminv
                 else if opcode = 10 \<and> u = 1 then Some Op_Umaxv
                 else if opcode = 27 then Some Op_Addv else None)
      in (case op1 of None \<Rightarrow> Some (unallocated encoding)
          | Some opx \<Rightarrow> do {
              r \<leftarrow> vec_new (ucast rd);
              vn \<leftarrow> vector rn elem quad;
              Some (insn_new encoding opx
                (Form_VecData \<lparr> vo_reg = r, vo_shape = Shape_Scalar elem \<rparr> vn None None))
            }))"

definition two_register :: "u32 \<Rightarrow> Instruction option" where
  "two_register encoding =
     (let (rd, rn, _) = neon_fields encoding;
          elem0 = elem_from_size (ucast (bits encoding 23 22));
          quad = is_quad encoding;
          opcode = bits encoding 16 12; u = bits encoding 29 29;
          op1 = (if opcode = 0 \<and> u = 0 then Some Op_VecRev64
                 else if opcode = 1 \<and> u = 0 then Some Op_VecRev16
                 else if opcode = 5 \<and> u = 0 then Some Op_VecCnt
                 else if opcode = 5 \<and> u = 1 then Some Op_VecNot
                 else if opcode = 11 \<and> u = 0 then Some Op_VecAbs
                 else if opcode = 11 \<and> u = 1 then Some Op_VecNeg else None)
      in (case op1 of None \<Rightarrow> Some (unallocated encoding)
          | Some opx \<Rightarrow>
              let elem = (if opx = Op_VecNot \<or> opx = Op_VecCnt then B8 else elem0) in do {
                vd \<leftarrow> vector rd elem quad; vn \<leftarrow> vector rn elem quad;
                Some (insn_new encoding opx (Form_VecData vd vn None None))
              }))"


section \<open>The copy group\<close>

definition lane_from_imm5 :: "u32 \<Rightarrow> (ElemSize \<times> u8) option" where
  "lane_from_imm5 imm5 =
     (if imm5 AND 1 \<noteq> 0 then Some (B8, ucast (drop_bit 1 imm5))
      else if imm5 AND 2 \<noteq> 0 then Some (H16, ucast (drop_bit 2 imm5))
      else if imm5 AND 4 \<noteq> 0 then Some (S32, ucast (drop_bit 3 imm5))
      else if imm5 AND 8 \<noteq> 0 then Some (D64, ucast (drop_bit 4 imm5))
      else None)"

definition duplicate_from_gpr :: "u32 \<Rightarrow> ElemSize \<Rightarrow> Instruction option" where
  "duplicate_from_gpr encoding elem =
     (let (rd, rn, _) = neon_fields encoding in do {
        g \<leftarrow> from_index_zr (ucast rn);
        v \<leftarrow> vector rd elem (is_quad encoding);
        Some (insn_new encoding Op_Dup (Form_VecGprMove g v))
      })"

definition duplicate_from_element :: "u32 \<Rightarrow> ElemSize \<Rightarrow> u8 \<Rightarrow> Instruction option" where
  "duplicate_from_element encoding elem lane =
     (let (rd, rn, _) = neon_fields encoding in do {
        vd \<leftarrow> vector rd elem (is_quad encoding);
        vn \<leftarrow> element rn elem lane;
        Some (insn_new encoding Op_Dup (Form_VecData vd vn None None))
      })"

definition insert_from_gpr :: "u32 \<Rightarrow> ElemSize \<Rightarrow> u8 \<Rightarrow> Instruction option" where
  "insert_from_gpr encoding elem lane =
     (let (rd, rn, _) = neon_fields encoding in do {
        g \<leftarrow> from_index_zr (ucast rn);
        v \<leftarrow> element rd elem lane;
        Some (insn_new encoding Op_InsGpr (Form_VecGprMove g v))
      })"

definition move_to_gpr :: "u32 \<Rightarrow> ElemSize \<Rightarrow> u8 \<Rightarrow> bool \<Rightarrow> Instruction option" where
  "move_to_gpr encoding elem lane is_signed =
     (let (rd, rn, _) = neon_fields encoding in do {
        g \<leftarrow> from_index_zr (ucast rd);
        v \<leftarrow> element rn elem lane;
        Some (with_width (insn_new encoding (if is_signed then Op_Smov else Op_Umov)
          (Form_VecGprMove g v)) (from_sf (is_quad encoding)))
      })"

definition insert_element :: "u32 \<Rightarrow> Instruction option" where
  "insert_element encoding =
     (let (rd, rn, _) = neon_fields encoding in
      case lane_from_imm5 (bits encoding 20 16) of
        None \<Rightarrow> Some (unallocated encoding)
      | Some (elem, destination) \<Rightarrow> do {
          shifted \<leftarrow> shr_chk (bits encoding 14 11) (elem_discriminant elem);
          vd \<leftarrow> element rd elem destination;
          vn \<leftarrow> element rn elem (ucast shifted);
          Some (insn_new encoding Op_Ins (Form_VecData vd vn None None))
        })"

definition copy :: "u32 \<Rightarrow> Instruction option" where
  "copy encoding =
     (let imm5 = bits encoding 20 16 in
      case lane_from_imm5 imm5 of
        None \<Rightarrow> Some (unallocated encoding)
      | Some (elem, lane) \<Rightarrow>
          if bits encoding 29 29 = 1 then insert_element encoding
          else
            let f = bits encoding 14 11 in
            if f = 0 then duplicate_from_element encoding elem lane
            else if f = 1 then duplicate_from_gpr encoding elem
            else if f = 3 then insert_from_gpr encoding elem lane
            else if f = 5 then move_to_gpr encoding elem lane True
            else if f = 7 then move_to_gpr encoding elem lane False
            else Some (unallocated encoding))"


section \<open>Table lookup, \<open>EXT\<close> and the permutes\<close>

definition table_lookup :: "u32 \<Rightarrow> Instruction option" where
  "table_lookup encoding =
     (let (rd, rn, rm) = neon_fields encoding;
          opx = (if bits encoding 12 12 = 1 then Op_Tbx else Op_Tbl);
          quad = is_quad encoding
      in do {
        table_len \<leftarrow> checked_add (ucast (bits encoding 14 13) :: u8) 1;
        vd \<leftarrow> vector rd B8 quad;
        table \<leftarrow> vec_new (ucast rn);
        vm \<leftarrow> vector rm B8 quad;
        Some (insn_new encoding opx (Form_TableLookup vd table table_len vm))
      })"

definition neon_extract :: "u32 \<Rightarrow> Instruction option" where
  "neon_extract encoding =
     (let (rd, rn, _) = neon_fields encoding;
          quad = is_quad encoding;
          index = bits encoding 14 11
      in
      if \<not> quad \<and> 8 \<le> index then Some (unallocated encoding)
      else do {
        vd \<leftarrow> vector rd B8 quad; vn \<leftarrow> vector rn B8 quad;
        Some (insn_new encoding Op_Ext (Form_VecImm vd vn (ucast index)))
      })"

definition permute :: "u32 \<Rightarrow> Instruction option" where
  "permute encoding =
     (let (rd, rn, rm) = neon_fields encoding;
          elem = elem_from_size (ucast (bits encoding 23 22));
          quad = is_quad encoding;
          f = bits encoding 14 12;
          op1 = (if f = 1 then Some Op_Uzp1 else if f = 2 then Some Op_Trn1
                 else if f = 3 then Some Op_Zip1 else if f = 5 then Some Op_Uzp2
                 else if f = 6 then Some Op_Trn2 else if f = 7 then Some Op_Zip2 else None)
      in (case op1 of None \<Rightarrow> Some (unallocated encoding)
          | Some opx \<Rightarrow>
              if elem = D64 \<and> \<not> quad then Some (unallocated encoding)
              else do {
                vd \<leftarrow> vector rd elem quad; vn \<leftarrow> vector rn elem quad; vm \<leftarrow> vector rm elem quad;
                Some (insn_new encoding opx (Form_VecData vd vn (Some vm) None))
              }))"


section \<open>Immediates and shifts\<close>

definition expand_float32 :: "u8 \<Rightarrow> u64" where
  "expand_float32 imm8 =
     (let sign = ucast (drop_bit 7 imm8) :: u64;
          exponent_high = ucast (drop_bit 6 imm8 AND 1) :: u64;
          exponent_low = ucast (drop_bit 4 imm8 AND 3) :: u64;
          mantissa = ucast (imm8 AND 15) :: u64;
          repeated = (if exponent_high = 1 then 31 else 0)
      in push_bit 31 sign OR push_bit 30 (1 - exponent_high) OR push_bit 25 repeated
         OR push_bit 23 exponent_low OR push_bit 19 mantissa)"

text \<open>\<open>for bit in 0..8\<close>: each set bit of \<open>imm8\<close> contributes a byte of ones.\<close>

primrec byte_mask_loop :: "nat \<Rightarrow> u8 \<Rightarrow> u64" where
  "byte_mask_loop 0 imm8 = 0"
| "byte_mask_loop (Suc k) imm8 =
     (let expanded = byte_mask_loop k imm8 in
      if imm8 AND push_bit k 1 \<noteq> 0 then expanded OR push_bit (8 * k) 0xFF else expanded)"

definition expand_wide_immediate :: "u8 \<Rightarrow> u32 \<Rightarrow> bool \<Rightarrow> (u64 \<times> ElemSize) option" where
  "expand_wide_immediate imm8 cmode is_inverted =
     (let c = cmode AND 15 in
      if c = 14 \<and> \<not> is_inverted then Some (ucast imm8, B8)
      else if c = 14 \<and> is_inverted then Some (byte_mask_loop 8 imm8, D64)
      else if c = 15 \<and> \<not> is_inverted then Some (expand_float32 imm8, S32)
      else None)"

definition expand_advsimd_immediate :: "u8 \<Rightarrow> u32 \<Rightarrow> bool \<Rightarrow> (u64 \<times> ElemSize) option option" where
  "expand_advsimd_immediate imm8 cmode is_inverted =
     (let val = ucast imm8 :: u64; c = drop_bit 1 cmode in
      if c \<le> 3 then do {
        v \<leftarrow> shl_chk val (unat (8 * c));
        Some (Some (v, S32))
      }
      else if c = 4 \<or> c = 5 then do {
        v \<leftarrow> shl_chk val (unat (8 * (c AND 1)));
        Some (Some (v, H16))
      }
      else if c = 6 then do {
        let shift = unat (8 * ((c AND 1) + 1));
        v \<leftarrow> shl_chk val shift;
        one \<leftarrow> shl_chk (1 :: u64) shift;
        ones \<leftarrow> checked_sub one 1;
        Some (Some (v OR ones, S32))
      }
      else Some (expand_wide_immediate imm8 cmode is_inverted))"

definition move_immediate :: "u32 \<Rightarrow> Instruction option" where
  "move_immediate encoding =
     (let rd = bits encoding 4 0;
          cmode = bits encoding 15 12;
          is_inverted = (bits encoding 29 29 = 1);
          abc = bits encoding 18 16;
          defgh = bits encoding 9 5;
          imm8 = ucast (push_bit 5 abc OR defgh) :: u8
      in do {
        r \<leftarrow> expand_advsimd_immediate imm8 cmode is_inverted;
        (case r of None \<Rightarrow> Some (unallocated encoding)
         | Some (imm, elem) \<Rightarrow> do {
             let opx = (if is_inverted \<and> cmode \<noteq> 14 then Op_Mvni else Op_Movi);
             vd \<leftarrow> vector rd elem (is_quad encoding);
             Some (insn_new encoding opx (Form_VecImm vd vd imm))
           })
      })"

definition element_from_immh :: "u32 \<Rightarrow> ElemSize option" where
  "element_from_immh immh =
     (if immh = 1 then Some B8
      else if immh = 2 \<or> immh = 3 then Some H16
      else if 4 \<le> immh \<and> immh \<le> 7 then Some S32
      else if 8 \<le> immh \<and> immh \<le> 15 then Some D64
      else None)"

definition shift_by_immediate :: "u32 \<Rightarrow> Instruction option" where
  "shift_by_immediate encoding =
     (let (rd, rn, _) = neon_fields encoding;
          immh = bits encoding 22 19;
          immb = bits encoding 18 16
      in (case element_from_immh immh of None \<Rightarrow> Some (unallocated encoding)
          | Some elem \<Rightarrow>
              let width = of_nat (elem_bits elem) :: u32;
                  encoded = push_bit 3 immh OR immb;
                  is_left = (bits encoding 15 11 = 10)
              in do {
                amount \<leftarrow> (if is_left then checked_sub encoded width
                           else do { w2 \<leftarrow> checked_mul 2 width; checked_sub w2 encoded });
                let opx = (if is_left then Op_VecShl
                           else if bits encoding 29 29 = 1 then Op_VecUshr else Op_VecSshr);
                if \<not> is_left \<and> bits encoding 15 11 \<noteq> 0 then Some (unallocated encoding)
                else do {
                  let quad = is_quad encoding;
                  vd \<leftarrow> vector rd elem quad;
                  vn \<leftarrow> vector rn elem quad;
                  Some (insn_new encoding opx (Form_VecImm vd vn (ucast amount)))
                }
              }))"


section \<open>Routing\<close>

definition immediate_or_shift :: "u32 \<Rightarrow> Instruction option" where
  "immediate_or_shift encoding =
     (if bits encoding 22 19 = 0 then move_immediate encoding else shift_by_immediate encoding)"

definition bit21_clear :: "u32 \<Rightarrow> Instruction option" where
  "bit21_clear encoding =
     (if bits encoding 10 10 = 1 then copy encoding
      else if bits encoding 11 10 = 0 then table_lookup encoding
      else if bits encoding 11 10 \<noteq> 2 then Some (unallocated encoding)
      else if bits encoding 29 29 = 1 then
        (if bits encoding 23 22 \<noteq> 0 then Some (unallocated encoding) else neon_extract encoding)
      else permute encoding)"

definition bit21_set :: "u32 \<Rightarrow> Instruction option" where
  "bit21_set encoding =
     (if bits encoding 11 10 = 2 \<and> bits encoding 20 17 = 8 then across_lanes encoding
      else if bits encoding 11 10 = 2 \<and> bits encoding 20 17 = 0 then two_register encoding
      else if bits encoding 15 10 = 7 then three_same_logical encoding
      else if bits encoding 10 10 = 1 then three_same encoding
      else Some (unallocated encoding))"

definition neon_data_processing :: "u32 \<Rightarrow> Instruction option" where
  "neon_data_processing encoding =
     (if bits encoding 31 31 = 1 then Some (unallocated encoding)
      else if bits encoding 28 24 = 15 then immediate_or_shift encoding
      else if bits encoding 28 24 \<noteq> 14 then Some (unallocated encoding)
      else if bits encoding 21 21 = 0 then bit21_clear encoding
      else bit21_set encoding)"


section \<open>The group never panics and is well formed\<close>

definition vec_shape_of :: "ElemSize \<Rightarrow> bool \<Rightarrow> VecShape" where
  "vec_shape_of elem quad = Shape_Vector elem (of_nat ((if quad then 128 else 64) div elem_bits elem))
     (if quad then Half_Full else Half_Low)"

lemma vector_ok [decode_ok]:
  "hi = lo + 4 \<Longrightarrow> vector (bits e hi lo) elem quad
     = Some \<lparr> vo_reg = VecReg (ucast (bits e hi lo)), vo_shape = vec_shape_of elem quad \<rparr>"
  by (simp add: vector_def Let_def decode_ok vec_shape_of_def)

lemma vec_element_ok [decode_ok]:
  "hi = lo + 4 \<Longrightarrow> element (bits e hi lo) elem lane
     = Some \<lparr> vo_reg = VecReg (ucast (bits e hi lo)), vo_shape = Shape_Element elem lane \<rparr>"
  by (simp add: element_def decode_ok)

lemma vop_wf_field5 [decode_ok]:
  "hi = lo + 4 \<Longrightarrow> vop_wf \<lparr> vo_reg = VecReg (ucast (bits e hi lo)), vo_shape = s \<rparr>"
  by (simp add: vop_wf_def decode_ok)

lemma three_register_ok:
  "decodes_ok e (three_same_logical e)" "decodes_ok e (three_same e)"
  "decodes_ok e (across_lanes e)" "decodes_ok e (two_register e)" "decodes_ok e (permute e)"
  "decodes_ok e (neon_extract e)"
  by (simp_all add: three_same_logical_def three_same_def across_lanes_def two_register_def
      permute_def neon_extract_def neon_fields_def Let_def decode_ok split: option.splits)

lemma elem_discriminant_less: "elem_discriminant elem < 32"
  by (cases elem) (simp_all add: elem_discriminant_def)

lemma copy_ok: "decodes_ok e (copy e)"
  by (simp add: copy_def insert_element_def duplicate_from_element_def duplicate_from_gpr_def
      insert_from_gpr_def move_to_gpr_def neon_fields_def Let_def decode_ok elem_discriminant_less
      split: option.splits)

lemma table_lookup_ok: "decodes_ok e (table_lookup e)"
proof -
  let ?l = "ucast (bits e 14 13) :: u8"
  have l: "unat ?l < 4" using ucast_bits_less [of 14 13 4 e] by simp
  then have "unat (?l + 1) = unat ?l + 1" by (subst unat_add_ok) simp_all
  with l have "1 \<le> ?l + 1" "?l + 1 \<le> 4" by (simp_all add: word_le_nat_alt)
  moreover have "checked_add ?l 1 = Some (?l + 1)" using l by (simp add: checked_add_def)
  ultimately show ?thesis
    by (simp add: table_lookup_def neon_fields_def Let_def decode_ok)
qed

lemma expand_advsimd_immediate_no_panic: "expand_advsimd_immediate imm8 cmode is_inv \<noteq> None"
proof -
  let ?c = "drop_bit 1 cmode"
  have "unat (8 * ?c) < 64" if "?c \<le> 3"
  proof -
    have "unat ?c \<le> 3" using that by (simp add: word_le_nat_alt)
    then show ?thesis by (simp add: unat_word_ariths)
  qed
  then show ?thesis
    by (auto simp: expand_advsimd_immediate_def Let_def checked_sub_def)
qed

lemma decodes_ok_bind:
  "m \<noteq> None \<Longrightarrow> (\<And>y. decodes_ok e (f y)) \<Longrightarrow> decodes_ok e (m \<bind> f)"
  by (cases m) simp_all

lemma move_immediate_ok: "decodes_ok e (move_immediate e)"
  unfolding move_immediate_def Let_def
  by (rule decodes_ok_bind [OF expand_advsimd_immediate_no_panic])
    (simp add: decode_ok split: option.splits prod.splits)

text \<open>\<open>immh:immb\<close> lies between the element's width and twice it.\<close>

lemma immh_bounds:
  assumes "element_from_immh (bits e 22 19) = Some elem"
  defines "n \<equiv> unat (push_bit 3 (bits e 22 19) OR bits e 18 16)"
  shows "elem_bits elem \<le> n" and "n < 2 * elem_bits elem"
proof -
  have disj: "push_bit 3 (bits e 22 19) AND bits e 18 16 = 0"
    by (rule bit_word_eqI) (auto simp: bit_simps bit_bits)
  let ?h = "bits e 22 19" and ?b = "bits e 18 16"
  have h: "unat ?h < 16" and b: "unat ?b < 8"
    using unat_bits_less [of e 22 19] unat_bits_less [of e 18 16] by simp_all
  have "push_bit 3 ?h OR ?b = push_bit 3 ?h + ?b"
    using disj by (simp add: disjunctive_add_eq_or)
  also have "unat \<dots> = 8 * unat ?h + unat ?b"
    using h b by (simp add: push_bit_eq_mult unat_word_ariths)
  finally have n: "n = 8 * unat ?h + unat ?b" by (simp add: n_def)
  show "elem_bits elem \<le> n" "n < 2 * elem_bits elem"
    using assms(1) n b h
    by (auto simp: element_from_immh_def elem_bits_def word_le_nat_alt split: if_splits)
qed

lemma shift_amount_ok:
  assumes "element_from_immh (bits e 22 19) = Some elem"
  defines "n \<equiv> push_bit 3 (bits e 22 19) OR bits e 18 16" and "w \<equiv> of_nat (elem_bits elem)"
  shows "checked_sub n w = Some (n - w)" "checked_mul 2 w = Some (2 * w)"
    "checked_sub (2 * w) n = Some (2 * w - n)"
proof -
  have w: "unat w = elem_bits elem" "elem_bits elem \<le> 128"
    by (cases elem; simp add: w_def elem_bits_def)+
  note nb = immh_bounds [OF assms(1), folded n_def]
  have w2: "unat (2 * w) = 2 * elem_bits elem" using w by (simp add: unat_word_ariths)
  show "checked_sub n w = Some (n - w)" using nb w by (simp add: checked_sub_def word_le_nat_alt)
  show "checked_mul 2 w = Some (2 * w)" using w by (simp add: checked_mul_def)
  show "checked_sub (2 * w) n = Some (2 * w - n)"
    using nb w2 by (simp add: checked_sub_def word_le_nat_alt)
qed

lemma shift_by_immediate_ok: "decodes_ok e (shift_by_immediate e)"
proof (cases "element_from_immh (bits e 22 19)")
  case None
  then show ?thesis by (simp add: shift_by_immediate_def neon_fields_def)
next
  case (Some elem)
  then show ?thesis
    by (simp add: shift_by_immediate_def neon_fields_def Let_def decode_ok shift_amount_ok)
qed

interpretation neon: group_decoder neon_data_processing
  by unfold_locales (simp add: neon_data_processing_def immediate_or_shift_def bit21_clear_def
      bit21_set_def three_register_ok copy_ok table_lookup_ok move_immediate_ok shift_by_immediate_ok)

text \<open>The byte-mask immediate: bit \<open>j\<close> of the result is bit \<open>j div 8\<close> of \<open>imm8\<close>.\<close>

lemma bit_255: "bit (0xFF :: u64) i \<longleftrightarrow> i < 8"
proof -
  have "(0xFF :: u64) = mask 8" by (simp add: mask_eq_exp_minus_1)
  then have "bit (0xFF :: u64) i \<longleftrightarrow> i < 64 \<and> i < 8" by (simp only: bit_mask_iff) simp
  then show ?thesis by linarith
qed

lemma bit_byte_mask_loop:
  "bit (byte_mask_loop n imm8) j \<longleftrightarrow> j < 64 \<and> j < 8 * n \<and> bit imm8 (j div 8)"
proof (induction n)
  case 0
  show ?case by simp
next
  case (Suc k)
  have set: "imm8 AND 2 ^ k = 0 \<longleftrightarrow> \<not> bit imm8 k"
    by (rule and_exp_eq_0_iff_not_bit)
  have new: "bit (push_bit (8 * k) 0xFF :: u64) j \<longleftrightarrow> j < 64 \<and> 8 * k \<le> j \<and> j < 8 * Suc k"
    by (simp only: bit_push_bit_iff bit_255) (simp, linarith)
  show ?case
  proof (cases "8 * k \<le> j \<and> j < 8 * Suc k")
    case True
    then have "j div 8 = k" by (intro div_nat_eqI) simp_all
    with True show ?thesis by (auto simp: Let_def set bit_or_iff new Suc.IH simp del: mult_Suc_right)
  next
    case False
    then have "j < 8 * Suc k \<longleftrightarrow> j < 8 * k" by auto
    with False show ?thesis by (auto simp: Let_def bit_or_iff new Suc.IH simp del: mult_Suc_right)
  qed
qed

end
