(* ===== verification/Decode.thy ===== *)
theory Decode
  imports Decode_Immediate Decode_Register Decode_Branch Decode_Memory Decode_Vec_Memory
    Decode_Scalar_Fp Decode_Neon
begin

unbundle bit_operations_syntax

text \<open>
  The decoder's entry point (\<open>crates/core/src/decode/mod.rs\<close> and
  \<open>decode/group/simd_fp/mod.rs\<close>): the encoding group of a word and \<open>decode\<close>, composed of the
  group decoders. The interpretation \<open>dec\<close> shows that \<open>decode\<close> satisfies the contract of
  \<open>group_decoder\<close>; the fetch path of the interpreter rests on it.
\<close>

definition INSN_BYTES :: u64 where "INSN_BYTES = 4"

datatype EncodingGroup = Group_Reserved | Group_Sve | Group_DataProcessingImmediate
  | Group_BranchesExceptionsSystem | Group_LoadsAndStores | Group_DataProcessingRegister
  | Group_DataProcessingSimdFp | Group_Unallocated

definition group_of :: "u32 \<Rightarrow> EncodingGroup" where
  "group_of encoding =
     (let op0 = drop_bit 25 encoding AND 15 in
      if op0 = 0 then Group_Reserved
      else if op0 = 1 \<or> op0 = 3 then Group_Unallocated
      else if op0 = 2 then Group_Sve
      else if op0 = 8 \<or> op0 = 9 then Group_DataProcessingImmediate
      else if op0 = 10 \<or> op0 = 11 then Group_BranchesExceptionsSystem
      else if op0 = 4 \<or> op0 = 6 \<or> op0 = 12 \<or> op0 = 14 then Group_LoadsAndStores
      else if op0 = 5 \<or> op0 = 13 then Group_DataProcessingRegister
      else Group_DataProcessingSimdFp)"

definition data_processing_simd_fp :: "u32 \<Rightarrow> Instruction option" where
  "data_processing_simd_fp encoding =
     (if bits encoding 28 28 = 1 then scalar_data_processing encoding
      else neon_data_processing encoding)"

definition decode :: "u32 \<Rightarrow> Instruction option" where
  "decode encoding = (case group_of encoding of
       Group_DataProcessingImmediate \<Rightarrow> data_processing_immediate encoding
     | Group_BranchesExceptionsSystem \<Rightarrow> branches_exceptions_system encoding
     | Group_LoadsAndStores \<Rightarrow>
         if drop_bit 26 encoding AND 1 = 1 then loads_and_stores_vec encoding
         else loads_and_stores encoding
     | Group_DataProcessingRegister \<Rightarrow> data_processing_register encoding
     | Group_DataProcessingSimdFp \<Rightarrow> data_processing_simd_fp encoding
     | Group_Sve \<Rightarrow> Some (unallocated encoding)
     | Group_Reserved \<Rightarrow> Some (unallocated encoding)
     | Group_Unallocated \<Rightarrow> Some (unallocated encoding))"

interpretation simd_fp: group_decoder data_processing_simd_fp
  by unfold_locales
    (simp add: data_processing_simd_fp_def scalar_fp.dec_ok neon.dec_ok)

interpretation dec: group_decoder decode
  by unfold_locales
    (simp add: decode_def dp_imm.dec_ok dp_reg.dec_ok branch_sys.dec_ok mem_group.dec_ok
      vec_mem.dec_ok simd_fp.dec_ok split: EncodingGroup.splits)

text \<open>Only \<open>op0\<close> (bits 28..25) selects the group.\<close>

lemma group_of_op0: "take_bit 4 (drop_bit 25 a) = take_bit 4 (drop_bit 25 b) \<Longrightarrow> group_of a = group_of b"
  using and_mask_take_bit [of "drop_bit 25 a" 4] and_mask_take_bit [of "drop_bit 25 b" 4]
  by (simp add: group_of_def)

text \<open>Words of the unallocated groups decode to the trapping operation.\<close>

lemma decode_unallocated_groups:
  "group_of e \<in> {Group_Sve, Group_Reserved, Group_Unallocated} \<Longrightarrow> decode e = Some (unallocated e)"
  by (auto simp: decode_def)

text \<open>The total function the rest of the model uses for reasoning: \<open>decode\<close> without the panic.\<close>

definition decoded :: "u32 \<Rightarrow> Instruction" where
  "decoded e = (case decode e of Some i \<Rightarrow> i | None \<Rightarrow> unallocated e)"

lemma decode_eq_decoded [simp]: "decode e = Some (decoded e)"
  using dec.dec_total [of e] by (auto simp: decoded_def)

lemma decoded_wf [simp]: "insn_wf (decoded e)"
  using dec.dec_wf [of e "decoded e"] by simp

lemma decoded_encoding [simp]: "insn_encoding (decoded e) = e"
  using dec.dec_encoding [of e "decoded e"] by simp

end
