(* ===== verification/Decode_Properties.thy ===== *)
theory Decode_Properties
  imports Decode
begin

unbundle bit_operations_syntax

text \<open>
  The properties of the decoder: totality, the logical-immediate expansion against its bit-level
  meaning, the shift amounts of the vector shifts, and the \<open>MOVI\<close> byte mask.
\<close>

text \<open>C1: decoding is total. Every 32-bit word decodes without a panic to an instruction that is well
  formed (register indices, shift amounts, bitfield positions, branch offsets and access sizes all
  in the range the interpreter relies on) and that carries the word it was decoded from.\<close>

theorem decode_total: "\<exists>i. decode e = Some i \<and> insn_wf i \<and> insn_encoding i = e"
  by (intro exI [of _ "decoded e"]) simp

text \<open>C13: the logical-immediate expansion. For a one-bit \<open>N\<close>, \<open>decode_bit_masks\<close> never panics; it
  refuses exactly the reserved field values, and otherwise bit \<open>i\<close> of the immediate is set when \<open>i\<close> is
  inside the register and \<open>i + immr\<close>, reduced modulo the element size, is at most the element's
  length field: a run of ones, rotated right by \<open>immr\<close> and replicated across the register.\<close>

theorem decode_bit_masks_meaning:
  assumes "n < 2"
  shows "if bm_valid n imms width
         then \<exists>v. decode_bit_masks n immr imms width = Some (Some v)
                \<and> (\<forall>i. bit v i \<longleftrightarrow> i < width_bits width
                     \<and> (i + unat immr) mod 2 ^ bm_len n imms \<le> take_bit (bm_len n imms) (unat imms))
         else decode_bit_masks n immr imms width = Some None"
  using assms by (rule decode_bit_masks_spec)

theorem decode_bit_masks_meaning_witness:
  "(1 :: u8) < 2 \<and> bm_valid 1 5 X64
   \<and> (\<exists>v. decode_bit_masks 1 2 5 X64 = Some (Some v)
        \<and> (\<forall>i. bit v i \<longleftrightarrow> i < 64 \<and> (i + 2) mod 64 \<le> 5))"
proof -
  have v: "bm_valid 1 5 X64" and l: "bm_len 1 5 = 6" by code_simp+
  from decode_bit_masks_meaning [of 1 5 X64 2] v show ?thesis
    by (simp add: l take_bit_eq_mod)
qed

text \<open>a vector shift by immediate is in range. Whenever \<open>immh\<close> selects an element size, the shift
  field \<open>immh:immb\<close> lies between the element width and twice the element width, so that neither the
  left-shift amount nor the right-shift amount the decoder computes underflows.\<close>

theorem vector_shift_amount_bounds:
  assumes "element_from_immh (bits e 22 19) = Some elem"
  shows "elem_bits elem \<le> unat (push_bit 3 (bits e 22 19) OR bits e 18 16)
    \<and> unat (push_bit 3 (bits e 22 19) OR bits e 18 16) < 2 * elem_bits elem"
  using immh_bounds [OF assms] by simp

theorem vector_shift_amount_bounds_witness:
  "element_from_immh (bits 0x4f0b5400 22 19) = Some B8
   \<and> 8 \<le> unat (push_bit 3 (bits 0x4f0b5400 22 19) OR bits 0x4f0b5400 18 16)
   \<and> unat (push_bit 3 (bits 0x4f0b5400 22 19) OR bits 0x4f0b5400 18 16) < 16"
proof -
  have e: "element_from_immh (bits 0x4f0b5400 22 19) = Some B8" "elem_bits B8 = 8" by code_simp+
  from vector_shift_amount_bounds [OF e(1)] e show ?thesis by simp
qed

text \<open>the 64-bit \<open>MOVI\<close> mask. The loop that expands an eight-bit immediate sets bit \<open>j\<close> of the
  result exactly when bit \<open>j div 8\<close> of the immediate is set: each immediate bit becomes a byte.\<close>

theorem movi_byte_mask: "bit (byte_mask_loop 8 imm8) j \<longleftrightarrow> j < 64 \<and> bit imm8 (j div 8)"
  by (simp add: bit_byte_mask_loop)

end
