(* ===== verification/Flags.thy ===== *)
theory Flags
  imports Instruction
begin

unbundle bit_operations_syntax

text \<open>
  NZCV production and consumption (\<open>crates/core/src/interp/flags.rs\<close>). Shown: \<open>add_with_carry\<close>
  computes the sum modulo the operand width, its carry is the unsigned overflow and its overflow
  flag the signed one, at both widths; the conditions read after a subtraction decide equality
  and the unsigned and signed orders; a condition and its inverse are complementary.
\<close>

record FlaggedResult =
  fr_value :: u64
  fr_flags :: Nzcv

text \<open>The \<open>u128\<close> sum of two \<open>u64\<close>s and a carry cannot overflow (\<open>unat_sum128\<close> below).\<close>

definition add_with_carry :: "u64 \<times> u64 \<Rightarrow> bool \<Rightarrow> RegWidth \<Rightarrow> FlaggedResult" where
  "add_with_carry operands carry_in width =
     (let left = fst operands AND width_mask width;
          right = snd operands AND width_mask width;
          carry = (if carry_in then 1 else 0) :: u64;
          unsigned1 = (ucast left + ucast right + ucast carry) :: u128;
          val = ucast unsigned1 AND width_mask width;
          sign_bit = push_bit (width_bits width - 1) (1 :: u64);
          signed_overflow = ((left XOR val) AND (right XOR val) AND sign_bit \<noteq> 0)
      in \<lparr> fr_value = val,
           fr_flags = \<lparr> nzcv_n = (val AND sign_bit \<noteq> 0), nzcv_z = (val = 0),
                        nzcv_c = (drop_bit (width_bits width) unsigned1 \<noteq> 0),
                        nzcv_v = signed_overflow \<rparr> \<rparr>)"

definition logical_flags :: "u64 \<Rightarrow> RegWidth \<Rightarrow> Nzcv" where
  "logical_flags v width =
     (let val = v AND width_mask width in
      \<lparr> nzcv_n = (val AND push_bit (width_bits width - 1) 1 \<noteq> 0), nzcv_z = (val = 0),
        nzcv_c = False, nzcv_v = False \<rparr>)"

definition is_condition_met :: "Cond \<Rightarrow> Nzcv \<Rightarrow> bool" where
  "is_condition_met c f = (case c of
       Cond_Eq \<Rightarrow> nzcv_z f | Cond_Ne \<Rightarrow> \<not> nzcv_z f
     | Cond_Cs \<Rightarrow> nzcv_c f | Cond_Cc \<Rightarrow> \<not> nzcv_c f
     | Cond_Mi \<Rightarrow> nzcv_n f | Cond_Pl \<Rightarrow> \<not> nzcv_n f
     | Cond_Vs \<Rightarrow> nzcv_v f | Cond_Vc \<Rightarrow> \<not> nzcv_v f
     | Cond_Hi \<Rightarrow> nzcv_c f \<and> \<not> nzcv_z f | Cond_Ls \<Rightarrow> \<not> (nzcv_c f \<and> \<not> nzcv_z f)
     | Cond_Ge \<Rightarrow> nzcv_n f = nzcv_v f | Cond_Lt \<Rightarrow> nzcv_n f \<noteq> nzcv_v f
     | Cond_Gt \<Rightarrow> \<not> nzcv_z f \<and> nzcv_n f = nzcv_v f
     | Cond_Le \<Rightarrow> \<not> (\<not> nzcv_z f \<and> nzcv_n f = nzcv_v f)
     | Cond_Al \<Rightarrow> True | Cond_Nv \<Rightarrow> True)"


section \<open>Reading a register at an operand width\<close>

definition unsigned_at :: "RegWidth \<Rightarrow> u64 \<Rightarrow> nat" where
  "unsigned_at w x = unat (take_bit (width_bits w) x)"

definition signed_at :: "RegWidth \<Rightarrow> u64 \<Rightarrow> int" where
  "signed_at w x = signed_take_bit (width_bits w - 1) (uint x)"

lemma unsigned_at_less: "unsigned_at w x < 2 ^ width_bits w"
  by (simp add: unsigned_at_def take_bit_word_le_mask)

lemma top_bit_iff: "unat x < 2 ^ Suc k \<Longrightarrow> bit x k \<longleftrightarrow> 2 ^ k \<le> unat (x :: 'a::len word)"
proof -
  assume a: "unat x < 2 ^ Suc k"
  have "bit x k \<longleftrightarrow> bit (unat x) k"
    by (auto simp: bit_unsigned_iff dest: bit_imp_le_length)
  also have "\<dots> \<longleftrightarrow> odd (unat x div 2 ^ k)" by (rule bit_iff_odd)
  also have "\<dots> \<longleftrightarrow> 2 ^ k \<le> unat x"
  proof (cases "2 ^ k \<le> unat x")
    case True
    with a have "unat x div 2 ^ k = 1" by (intro div_nat_eqI) simp_all
    with True show ?thesis by simp
  qed simp
  finally show ?thesis .
qed

lemma width_bits_Suc: "width_bits w = Suc (width_bits w - 1)"
  by (cases w) simp_all

lemma pow_width: "2 ^ width_bits w = (2 :: 'a::comm_semiring_1) * 2 ^ (width_bits w - 1)"
  by (subst width_bits_Suc) simp

lemma width_bits_le [simp]: "width_bits w \<le> 64"
  by (cases w) simp_all

lemma top_bit_at: "bit x (width_bits w - 1) \<longleftrightarrow> 2 ^ (width_bits w - 1) \<le> unsigned_at w x"
proof -
  have "bit x (width_bits w - 1) \<longleftrightarrow> bit (take_bit (width_bits w) x) (width_bits w - 1)"
    by (cases w) (simp_all add: bit_take_bit_iff)
  also have "\<dots> \<longleftrightarrow> 2 ^ (width_bits w - 1) \<le> unsigned_at w x"
    unfolding unsigned_at_def using take_bit_word_le_mask [of "width_bits w" x]
    by (intro top_bit_iff) (cases w; simp)
  finally show ?thesis .
qed

lemma signed_at_eq:
  "signed_at w x = (if 2 ^ (width_bits w - 1) \<le> unsigned_at w x
     then int (unsigned_at w x) - 2 ^ width_bits w else int (unsigned_at w x))"
proof -
  have "take_bit (width_bits w) (uint x) = int (unsigned_at w x)"
    by (simp add: unsigned_at_def unsigned_take_bit_eq of_nat_take_bit)
  moreover have "bit (uint x) (width_bits w - 1) \<longleftrightarrow> bit x (width_bits w - 1)"
    by (auto simp: bit_unsigned_iff dest: bit_imp_le_length)
  ultimately show ?thesis
    unfolding signed_at_def signed_take_bit_eq_take_bit_minus width_bits_Suc [of w, symmetric]
    by (simp add: top_bit_at del: One_nat_def)
qed

lemma signed_at_inj: "signed_at w x = signed_at w y \<longleftrightarrow> unsigned_at w x = unsigned_at w y"
  using unsigned_at_less [of w x] unsigned_at_less [of w y] by (cases w) (auto simp: signed_at_eq)


section \<open>\<open>add_with_carry\<close>\<close>

lemma unat_sum128:
  "unat (ucast a + ucast b + ucast (c :: u64) :: u128) = unat (a :: u64) + unat (b :: u64) + unat c"
proof -
  have "unat (ucast x :: u128) = unat x" for x :: u64 by (rule unat_ucast_up) simp
  moreover have "unat a < 2 ^ 64" "unat b < 2 ^ 64" "unat c < 2 ^ 64" by (rule unat_u64_less)+
  ultimately show ?thesis by (simp add: unat_word_ariths)
qed

definition sum_at :: "RegWidth \<Rightarrow> u64 \<Rightarrow> u64 \<Rightarrow> bool \<Rightarrow> nat" where
  "sum_at w a b c = unsigned_at w a + unsigned_at w b + of_bool c"

lemma awc_value:
  "unat (fr_value (add_with_carry (a, b) c w)) = sum_at w a b c mod 2 ^ width_bits w"
proof -
  have "unat (take_bit n (ucast (s :: u128) :: u64)) = unat s mod 2 ^ n" if "n \<le> 64" for s n
    using that by (simp add: unsigned_take_bit_eq unsigned_ucast_eq take_bit_take_bit
        flip: take_bit_eq_mod)
  then show ?thesis
    by (simp add: add_with_carry_def Let_def and_width_mask unat_sum128 sum_at_def unsigned_at_def)
qed

lemma awc_unsigned_at [simp]:
  "unsigned_at w (fr_value (add_with_carry (a, b) c w)) = sum_at w a b c mod 2 ^ width_bits w"
  unfolding unsigned_at_def unsigned_take_bit_eq
  by (simp add: awc_value take_bit_eq_mod)

lemma awc_carry:
  "nzcv_c (fr_flags (add_with_carry (a, b) c w)) \<longleftrightarrow> 2 ^ width_bits w \<le> sum_at w a b c"
proof -
  have "drop_bit n (s :: u128) \<noteq> 0 \<longleftrightarrow> 2 ^ n \<le> unat s" for s n
  proof -
    have "drop_bit n s = 0 \<longleftrightarrow> unat (drop_bit n s) = 0" by (simp add: word_unat_eq_iff)
    also have "unat (drop_bit n s) = unat s div 2 ^ n"
      using take_bit_nat_eq_self [OF unsigned_less [of s]]
      by (simp only: unsigned_drop_bit_eq) (simp add: drop_bit_eq_div)
    finally show ?thesis by (auto simp: div_eq_0_iff not_less)
  qed
  then show ?thesis
    by (simp add: add_with_carry_def Let_def and_width_mask unat_sum128 sum_at_def unsigned_at_def)
qed

lemma awc_zero: "nzcv_z (fr_flags (add_with_carry (a, b) c w)) \<longleftrightarrow> sum_at w a b c mod 2 ^ width_bits w = 0"
proof -
  have "nzcv_z (fr_flags (add_with_carry (a, b) c w)) \<longleftrightarrow> fr_value (add_with_carry (a, b) c w) = 0"
    by (simp add: add_with_carry_def Let_def)
  then show ?thesis by (simp add: word_unat_eq_iff awc_value)
qed

lemma awc_negative:
  "nzcv_n (fr_flags (add_with_carry (a, b) c w)) \<longleftrightarrow> signed_at w (fr_value (add_with_carry (a, b) c w)) < 0"
proof -
  have "nzcv_n (fr_flags (add_with_carry (a, b) c w))
      \<longleftrightarrow> bit (fr_value (add_with_carry (a, b) c w)) (width_bits w - 1)"
    unfolding add_with_carry_def Let_def by (simp add: and_exp_eq_0_iff_not_bit)
  then show ?thesis
    using unsigned_at_less [of w "fr_value (add_with_carry (a, b) c w)"]
    unfolding top_bit_at signed_at_eq by (cases w) simp_all
qed

lemma awc_overflow_bits:
  "nzcv_v (fr_flags (add_with_carry (a, b) c w)) \<longleftrightarrow>
     (let v = fr_value (add_with_carry (a, b) c w); k = width_bits w - 1 in
      bit a k \<noteq> bit v k \<and> bit b k \<noteq> bit v k)"
proof -
  have m: "bit (width_mask w) (width_bits w - 1)"
    by (cases w) (simp_all add: width_mask_eq bit_mask_iff)
  show ?thesis
    unfolding add_with_carry_def Let_def using m
    by (simp add: and_exp_eq_0_iff_not_bit bit_and_iff bit_xor_iff and.assoc [symmetric])
qed

text \<open>The overflow flag is set exactly when the signed sum leaves the signed range.\<close>

definition signed_range :: "RegWidth \<Rightarrow> int set" where
  "signed_range w = {- (2 ^ (width_bits w - 1)) ..< 2 ^ (width_bits w - 1)}"

definition two_comp :: "nat \<Rightarrow> nat \<Rightarrow> int" where
  "two_comp h x = (if h \<le> x then int x - 2 * int h else int x)"

lemma signed_at_two_comp: "signed_at w x = two_comp (2 ^ (width_bits w - 1)) (unsigned_at w x)"
  unfolding signed_at_eq two_comp_def pow_width by simp

lemma overflow_arith:
  fixes l r h c :: nat
  assumes "l < 2 * h" "r < 2 * h" "c \<le> 1"
  shows "((h \<le> l) \<noteq> (h \<le> (l + r + c) mod (2 * h)) \<and> (h \<le> r) \<noteq> (h \<le> (l + r + c) mod (2 * h)))
    \<longleftrightarrow> two_comp h l + two_comp h r + int c \<notin> {- int h ..< int h}"
proof -
  have "(l + r + c) mod (2 * h) = (if l + r + c < 2 * h then l + r + c else l + r + c - 2 * h)"
    using assms by (auto simp: mod_if)
  then show ?thesis using assms unfolding two_comp_def by auto
qed

lemma awc_overflow:
  "nzcv_v (fr_flags (add_with_carry (a, b) c w)) \<longleftrightarrow>
     signed_at w a + signed_at w b + of_bool c \<notin> signed_range w"
  using overflow_arith [of "unsigned_at w a" "2 ^ (width_bits w - 1)" "unsigned_at w b" "of_bool c"]
    unsigned_at_less [of w a] unsigned_at_less [of w b]
  unfolding awc_overflow_bits Let_def top_bit_at awc_unsigned_at signed_at_two_comp
    signed_range_def sum_at_def pow_width
  by simp


section \<open>Comparison\<close>

text \<open>\<open>CMP a, b\<close> is \<open>add_with_carry (a, NOT b)\<close> with the carry set.\<close>

definition cmp_flags :: "RegWidth \<Rightarrow> u64 \<Rightarrow> u64 \<Rightarrow> Nzcv" where
  "cmp_flags w a b = fr_flags (add_with_carry (a, NOT b) True w)"

lemma unsigned_at_not: "unsigned_at w (NOT b) = 2 ^ width_bits w - 1 - unsigned_at w b"
proof -
  let ?n = "width_bits w"
  have "int (unsigned_at w x) = take_bit ?n (uint x)" for x
    by (simp add: unsigned_at_def unsigned_take_bit_eq of_nat_take_bit)
  moreover have "take_bit ?n (uint (NOT b)) = take_bit ?n (NOT (uint b))"
    by (simp add: unsigned_not_eq take_bit_take_bit min_def)
  moreover have "take_bit ?n (NOT (uint b)) = mask ?n - take_bit ?n (uint b)"
    by (simp add: take_bit_not_eq_mask_diff)
  ultimately have "int (unsigned_at w (NOT b)) = 2 ^ ?n - 1 - int (unsigned_at w b)"
    by (simp add: mask_eq_exp_minus_1)
  also have "\<dots> = int (2 ^ ?n - 1 - unsigned_at w b)"
    using unsigned_at_less [of w b] by (simp add: of_nat_diff)
  finally show ?thesis by linarith
qed

lemma cmp_carry: "nzcv_c (cmp_flags w a b) \<longleftrightarrow> unsigned_at w b \<le> unsigned_at w a"
  using unsigned_at_less [of w b]
  by (auto simp: cmp_flags_def awc_carry sum_at_def unsigned_at_not)

lemma cmp_zero: "nzcv_z (cmp_flags w a b) \<longleftrightarrow> unsigned_at w a = unsigned_at w b"
proof -
  have "(l + (H - 1 - r) + 1) mod H = 0 \<longleftrightarrow> l = r" if "l < H" "r < H" for l r H :: nat
  proof (cases "r \<le> l")
    case True
    with that have "l + (H - 1 - r) + 1 = (l - r) + H" by simp
    then have "(l + (H - 1 - r) + 1) mod H = l - r" using that by (simp only: mod_add_self2) simp
    with True show ?thesis by simp
  qed (use that in simp)
  then show ?thesis
    using unsigned_at_less [of w a] unsigned_at_less [of w b]
    by (simp add: cmp_flags_def awc_zero sum_at_def unsigned_at_not)
qed

lemma less_arith:
  fixes l r h :: nat
  assumes "l < 2 * h" "r < 2 * h"
  shows "((two_comp h ((l + (2 * h - 1 - r) + 1) mod (2 * h)) < 0)
      \<noteq> (two_comp h l + two_comp h (2 * h - 1 - r) + 1 \<notin> {- int h ..< int h}))
    \<longleftrightarrow> two_comp h l < two_comp h r"
proof -
  have "(l + (2 * h - 1 - r) + 1) mod (2 * h) = (if r \<le> l then l - r else 2 * h + l - r)"
    using assms by (auto simp: mod_if)
  then show ?thesis using assms unfolding two_comp_def by auto
qed

lemma cmp_less: "nzcv_n (cmp_flags w a b) \<noteq> nzcv_v (cmp_flags w a b) \<longleftrightarrow> signed_at w a < signed_at w b"
proof -
  have "unsigned_at w a < 2 * 2 ^ (width_bits w - 1)" "unsigned_at w b < 2 * 2 ^ (width_bits w - 1)"
    using unsigned_at_less [of w] unfolding pow_width by simp_all
  from less_arith [OF this] show ?thesis
    unfolding cmp_flags_def awc_negative awc_overflow signed_at_two_comp awc_unsigned_at
      signed_range_def sum_at_def unsigned_at_not pow_width
    by simp
qed

lemma condition_inverse:
  "c \<notin> {Cond_Al, Cond_Nv} \<Longrightarrow> is_condition_met (cond_invert c) f \<longleftrightarrow> \<not> is_condition_met c f"
  by (cases c) (auto simp: is_condition_met_def cond_invert_def)

end
