(* ===== verification/Fetch.thy ===== *)
theory Fetch
  imports Flags
begin

unbundle bit_operations_syntax

text \<open>
  Reading operands out of the register file (\<open>crates/core/src/interp/fetch.rs\<close>). Shifts are the
  checked ones, so a shift amount the decoder did not range-check would be a panic. Shown: on
  well-formed operands nothing panics, each shift kind acts on the operand width as the
  architecture says (bit by bit, the 32-bit rotate included), an extension reads the register at
  its source width and scales it, and each addressing mode forms its address and write-back.
\<close>

definition read_gpr :: "RegFile \<Rightarrow> Gpr \<Rightarrow> RegWidth \<Rightarrow> u64 option" where
  "read_gpr regs reg width = do { v \<leftarrow> read_x regs reg; Some (v AND width_mask width) }"

definition mask_to :: "u64 \<Rightarrow> nat \<Rightarrow> u64 option" where
  "mask_to v n = (if 64 \<le> n then Some v
     else do { one \<leftarrow> shl_chk (1 :: u64) n; m \<leftarrow> checked_sub one 1; Some (v AND m) })"

definition sign_extend_to_64 :: "u64 \<Rightarrow> nat \<Rightarrow> u64 option" where
  "sign_extend_to_64 v n = (if 64 \<le> n then Some v
     else let shift = 64 - n in do { s \<leftarrow> shl_chk v shift; sar_chk s shift })"

definition rotate_carry :: "u64 \<Rightarrow> nat \<Rightarrow> nat \<Rightarrow> u64 option" where
  "rotate_carry v amount n = (if 64 \<le> n \<or> amount = 0 then Some 0
     else if n = 0 then None else shl_chk v (n - amount mod n))"

definition read_shifted :: "RegFile \<Rightarrow> ShiftedReg \<Rightarrow> RegWidth \<Rightarrow> u64 option" where
  "read_shifted regs operand width = do {
     v \<leftarrow> read_gpr regs (sr_reg operand) width;
     let amount = unat (sr_amount operand);
     let n = width_bits width;
     shifted \<leftarrow> (case sr_kind operand of
         Lsl \<Rightarrow> shl_chk v amount
       | Lsr \<Rightarrow> shr_chk v amount
       | Asr \<Rightarrow> do { s \<leftarrow> sign_extend_to_64 v n; sar_chk s amount }
       | Ror \<Rightarrow> do { c \<leftarrow> rotate_carry v amount n; Some (word_rotr amount v OR c) });
     Some (shifted AND width_mask width)
   }"

definition read_extended :: "RegFile \<Rightarrow> ExtendedReg \<Rightarrow> u64 option" where
  "read_extended regs operand = do {
     raw \<leftarrow> read_x regs (er_reg operand);
     let n = source_bits (er_kind operand);
     extended \<leftarrow> (if extend_is_signed (er_kind operand) then sign_extend_to_64 raw n else mask_to raw n);
     shl_chk extended (unat (er_amount operand))
   }"

record EffectiveAddress =
  ea_address :: u64
  ea_writeback :: "(Gpr \<times> u64) option"

definition effective_address :: "RegFile \<Rightarrow> AddrMode \<Rightarrow> u64 \<Rightarrow> EffectiveAddress option" where
  "effective_address regs addr pc1 = (case addr of
       Addr_PcRelative offset \<Rightarrow> Some \<lparr> ea_address = pc1 + offset, ea_writeback = None \<rparr>
     | _ \<Rightarrow> do {
         (base_reg, offset, writeback) \<leftarrow> (case addr of
             Addr_Immediate b off wb \<Rightarrow> Some (b, off, wb)
           | Addr_Register b index wb \<Rightarrow> do { off \<leftarrow> read_extended regs index; Some (b, off, wb) }
           | Addr_BaseOnly b \<Rightarrow> Some (b, 0, WB_None)
           | Addr_PcRelative _ \<Rightarrow> None);
         base_value \<leftarrow> read_x regs base_reg;
         let updated = base_value + offset;
         Some \<lparr> ea_address = (case writeback of WB_Post \<Rightarrow> base_value | WB_Pre \<Rightarrow> updated | WB_None \<Rightarrow> updated),
                ea_writeback = (case writeback of WB_None \<Rightarrow> None
                  | WB_Pre \<Rightarrow> Some (base_reg, updated) | WB_Post \<Rightarrow> Some (base_reg, updated)) \<rparr>
       })"


section \<open>Registers and masks\<close>

lemma read_gpr_ok:
  "regs_wf r \<Longrightarrow> gpr_wf g \<Longrightarrow> read_gpr r g w = Some (take_bit (width_bits w) (x_val r g))"
  by (simp add: read_gpr_def read_x_ok and_width_mask)

lemma mask_to_ok: "mask_to v n = Some (take_bit n v)"
proof (cases "64 \<le> n")
  case True
  then show ?thesis by (simp add: mask_to_def take_bit_word_eq_self)
next
  case False
  have "(2 :: u64) ^ n \<noteq> 0"
    using False possible_bit_word [where 'a = 64, of n] by (simp add: possible_bit_def)
  then have "1 \<le> (2 :: u64) ^ n" by (simp add: word_le_nat_alt Suc_le_eq unat_gt_0)
  with False show ?thesis
    by (simp add: mask_to_def checked_sub_def and_mask_take_bit push_bit_eq_mult)
qed

text \<open>Sign extension replicates bit \<open>n - 1\<close>.\<close>

lemma sign_extend_to_64_ok:
  assumes "0 < n"
  shows "\<exists>s. sign_extend_to_64 v n = Some s \<and> (\<forall>k. bit s k \<longleftrightarrow> k < 64 \<and> bit v (min k (n - 1)))"
proof (cases "64 \<le> n")
  case True
  then show ?thesis
    by (auto simp: sign_extend_to_64_def min_def dest: bit_imp_le_length)
next
  case False
  with assms show ?thesis
    by (auto simp: sign_extend_to_64_def Let_def bit_simps min_def not_le)
qed


section \<open>Shifted registers\<close>

text \<open>The shift of an \<open>n\<close>-bit value, bit by bit.\<close>

definition shift_bit :: "ShiftKind \<Rightarrow> nat \<Rightarrow> nat \<Rightarrow> u64 \<Rightarrow> nat \<Rightarrow> bool" where
  "shift_bit kind n a x k \<longleftrightarrow> k < n \<and> (case kind of
       Lsl \<Rightarrow> a \<le> k \<and> bit x (k - a)
     | Lsr \<Rightarrow> k + a < n \<and> bit x (k + a)
     | Asr \<Rightarrow> bit x (min (k + a) (n - 1))
     | Ror \<Rightarrow> bit x ((k + a) mod n))"

lemma bit_sar: "a < 64 \<Longrightarrow> k < 64 \<Longrightarrow> bit (signed_drop_bit a (v :: u64)) k \<longleftrightarrow> bit v (min (k + a) 63)"
  by (auto simp: bit_signed_drop_bit_iff min_def add.commute simp del: One_nat_def)

lemma bit_width_less: "k < width_bits w \<Longrightarrow> k < 64"
  using width_bits_le [of w] by linarith

lemma rotr_bits:
  assumes "a < width_bits w"
  shows "\<exists>c. rotate_carry v a (width_bits w) = Some c \<and>
    (\<forall>k < width_bits w. bit (word_rotr a v OR c) k \<longleftrightarrow>
      bit v ((k + a) mod 64) \<or> w = W32 \<and> 0 < a \<and> 32 - a \<le> k \<and> bit v (k - (32 - a)))"
  using assms
  by (cases w) (auto simp: rotate_carry_def bit_word_rotr_iff bit_simps)

lemma rotr_32:
  assumes "k < 32" "a < 32" "v = take_bit 32 (x :: u64)"
  shows "bit v ((k + a) mod 64) \<or> 0 < a \<and> 32 - a \<le> k \<and> bit v (k - (32 - a)) \<longleftrightarrow> bit x ((k + a) mod 32)"
proof (cases "k + a < 32")
  case True
  then show ?thesis using assms by (auto simp: bit_take_bit_iff)
next
  case False
  then have "(k + a) mod 32 = k - (32 - a)" "(k + a) mod 64 = k + a" "0 < a"
    using assms by (auto simp: mod_if)
  with False assms show ?thesis by (auto simp: bit_take_bit_iff)
qed

lemma read_shifted_ok:
  assumes "regs_wf r" "shifted_wf w s"
  shows "\<exists>v. read_shifted r s w = Some v \<and>
    (\<forall>k. bit v k \<longleftrightarrow> shift_bit (sr_kind s) (width_bits w) (unat (sr_amount s)) (x_val r (sr_reg s)) k)"
proof -
  let ?x = "x_val r (sr_reg s)" and ?a = "unat (sr_amount s)" and ?n = "width_bits w"
  let ?v = "take_bit ?n ?x"
  have g: "gpr_wf (sr_reg s)" and a: "?a < ?n" using assms(2) by (auto simp: shifted_wf_def)
  note rd = read_gpr_ok [OF assms(1) g, of w]
  have a64: "?a < 64" using a width_bits_le [of w] by linarith
  obtain e where e: "sign_extend_to_64 ?v ?n = Some e" "\<And>k. bit e k \<longleftrightarrow> k < 64 \<and> bit ?v (min k (?n - 1))"
    using sign_extend_to_64_ok [of ?n ?v] by (cases w) auto
  obtain c where c: "rotate_carry ?v ?a ?n = Some c" "\<And>k. k < ?n \<Longrightarrow> bit (word_rotr ?a ?v OR c) k \<longleftrightarrow>
      bit ?v ((k + ?a) mod 64) \<or> w = W32 \<and> 0 < ?a \<and> 32 - ?a \<le> k \<and> bit ?v (k - (32 - ?a))"
    using rotr_bits [OF a, of ?v] by blast
  show ?thesis
  proof (cases "sr_kind s")
    case Lsl
    then show ?thesis
      using a64 by (auto simp: read_shifted_def rd Let_def and_width_mask shift_bit_def bit_simps
          dest: bit_width_less)
  next
    case Lsr
    then show ?thesis
      using a64 by (auto simp: read_shifted_def rd Let_def and_width_mask shift_bit_def bit_simps add.commute)
  next
    case Asr
    then have "read_shifted r s w = Some (take_bit ?n (signed_drop_bit ?a e))"
      using a64 by (simp add: read_shifted_def rd Let_def e(1) and_width_mask)
    moreover have "bit (signed_drop_bit ?a e) k \<longleftrightarrow> bit ?x (min (k + ?a) (?n - 1))" if "k < ?n" for k
      using that a by (cases w) (auto simp: bit_sar bit_take_bit_iff e(2) min_def)
    ultimately show ?thesis using Asr by (auto simp: shift_bit_def bit_take_bit_iff)
  next
    case Ror
    then have "read_shifted r s w = Some (take_bit ?n (word_rotr ?a ?v OR c))"
      by (simp add: read_shifted_def rd Let_def c(1) and_width_mask)
    moreover have "bit (word_rotr ?a ?v OR c) k \<longleftrightarrow> bit ?x ((k + ?a) mod ?n)" if "k < ?n" for k
      using c(2) [OF that] that a rotr_32 [of k ?a ?v ?x]
      by (cases w) (auto simp: bit_take_bit_iff)
    ultimately show ?thesis using Ror by (auto simp: shift_bit_def bit_take_bit_iff bit_or_iff)
  qed
qed


section \<open>Extended registers\<close>

definition extend_val :: "ExtendKind \<Rightarrow> u64 \<Rightarrow> int" where
  "extend_val k x = (if extend_is_signed k then signed_take_bit (source_bits k - 1) (uint x)
     else take_bit (source_bits k) (uint x))"

lemma source_bits_pos: "0 < source_bits k" "source_bits k \<le> 64"
  by (cases k; simp add: source_bits_def)+

lemma read_extended_ok:
  assumes "regs_wf r" "extended_wf e"
  shows "read_extended r e
    = Some (of_int (extend_val (er_kind e) (x_val r (er_reg e)) * 2 ^ unat (er_amount e)))"
proof -
  let ?x = "x_val r (er_reg e)" and ?n = "source_bits (er_kind e)" and ?a = "unat (er_amount e)"
  have g: "gpr_wf (er_reg e)" and a: "?a < 64"
    using assms(2) by (auto simp: extended_wf_def word_le_nat_alt)
  have s: "sign_extend_to_64 ?x ?n = Some (of_int (signed_take_bit (?n - 1) (uint ?x)))"
  proof -
    obtain s where s: "sign_extend_to_64 ?x ?n = Some s" "\<And>k. bit s k \<longleftrightarrow> k < 64 \<and> bit ?x (min k (?n - 1))"
      using sign_extend_to_64_ok [OF source_bits_pos(1)] by blast
    have "s = of_int (signed_take_bit (?n - 1) (uint ?x))"
      using source_bits_pos [of "er_kind e"]
      by (intro bit_word_eqI) (auto simp: s(2) bit_simps min_def)
    with s(1) show ?thesis by simp
  qed
  have m: "take_bit ?n ?x = of_int (take_bit ?n (uint ?x))"
    by (rule bit_word_eqI) (auto simp: bit_simps)
  show ?thesis
    using a s m
    by (auto simp: read_extended_def read_x_ok [OF assms(1) g] Let_def mask_to_ok extend_val_def
        push_bit_eq_mult)
qed


section \<open>Effective addresses\<close>

definition addr_offset :: "RegFile \<Rightarrow> AddrMode \<Rightarrow> u64" where
  "addr_offset r a = (case a of Addr_Immediate _ off _ \<Rightarrow> off
     | Addr_Register _ e _ \<Rightarrow> of_int (extend_val (er_kind e) (x_val r (er_reg e)) * 2 ^ unat (er_amount e))
     | Addr_PcRelative off \<Rightarrow> off | Addr_BaseOnly _ \<Rightarrow> 0)"

definition addr_writeback :: "AddrMode \<Rightarrow> WriteBack" where
  "addr_writeback a = (case a of Addr_Immediate _ _ wb \<Rightarrow> wb | Addr_Register _ _ wb \<Rightarrow> wb | _ \<Rightarrow> WB_None)"

text \<open>The address an access forms and the write-back it owes, for every addressing mode.\<close>

lemma effective_address_ok:
  assumes "regs_wf r" "addr_wf a"
  shows "effective_address r a p = Some (case addr_base a of
      None \<Rightarrow> \<lparr> ea_address = p + addr_offset r a, ea_writeback = None \<rparr>
    | Some b \<Rightarrow> let old = x_val r b; new = old + addr_offset r a in
        \<lparr> ea_address = (if addr_writeback a = WB_Post then old else new),
          ea_writeback = (if has_writeback a then Some (b, new) else None) \<rparr>)"
  using assms
  by (cases a)
    (auto simp: effective_address_def addr_base_def addr_offset_def addr_writeback_def has_writeback_def
      read_x_ok read_extended_ok Let_def split: WriteBack.splits)

end
