(* ===== verification/Guest_Memory.thy ===== *)
theory Guest_Memory
  imports Prelude
begin

text \<open>
  Placement of guest RAM inside the module's linear memory
  (\<open>crates/core/src/guest_memory.rs\<close>), the machine configuration that checks it
  (\<open>crates/machine/src/lib.rs\<close>) and the size handshake of the wasm bindings
  (\<open>crates/wasm/src/lib.rs\<close>), with the build constants it reports
  (\<open>crates/core/src/threading.rs\<close>, \<open>crates/devices/src/lib.rs\<close>).

  \<open>usize\<close> is 64 bits wide under \<open>cargo test\<close> and 32 bits wide in the wasm32 build, and the sizes
  here are chosen to touch the end of the 32-bit range, so these operations take the pointer
  width \<open>pw\<close>; \<open>add_usize\<close> is the addition of that width, with \<open>None\<close> for its overflow.
\<close>

section \<open>Layout constants\<close>

definition RAM_BASE :: nat where "RAM_BASE = 2 ^ 30"

definition MAX_RAM_BYTES :: nat where "MAX_RAM_BYTES = 4 * 2 ^ 30 - RAM_BASE"

definition DEFAULT_RAM_BYTES :: nat where "DEFAULT_RAM_BYTES = 2 ^ 30"

definition PHYS_RAM_BASE :: u64 where "PHYS_RAM_BASE = 0x40000000"

definition PAGE_SIZE :: nat where "PAGE_SIZE = 4096"

lemmas layout_defs = RAM_BASE_def MAX_RAM_BYTES_def DEFAULT_RAM_BYTES_def PAGE_SIZE_def

datatype LayoutError = TooLarge nat nat | Unaligned nat | Layout_Empty

definition add_usize :: "nat \<Rightarrow> nat \<Rightarrow> nat \<Rightarrow> nat option" where
  "add_usize pw a b = (if a + b < 2 ^ pw then Some (a + b) else None)"


section \<open>Reservation and translation\<close>

definition reserve :: "nat \<Rightarrow> nat \<Rightarrow> (LayoutError + nat \<times> nat) option" where
  "reserve pw ram_bytes =
     (if ram_bytes = 0 then Some (Inl Layout_Empty)
      else if ram_bytes mod PAGE_SIZE \<noteq> 0 then Some (Inl (Unaligned ram_bytes))
      else if MAX_RAM_BYTES < ram_bytes then Some (Inl (TooLarge ram_bytes MAX_RAM_BYTES))
      else do {
        e \<leftarrow> add_usize pw RAM_BASE ram_bytes;
        Some (Inr (RAM_BASE, e))
      })"

definition linear_offset :: "nat \<Rightarrow> u64 \<Rightarrow> nat \<Rightarrow> nat option option" where
  "linear_offset pw guest_physical ram_bytes =
     (case checked_sub guest_physical PHYS_RAM_BASE of
        None \<Rightarrow> Some None
      | Some offset_in_ram \<Rightarrow>
          if of_nat ram_bytes \<le> offset_in_ram then Some None
          else do {
            r \<leftarrow> add_usize pw RAM_BASE (take_bit pw (unat offset_in_ram));
            Some (Some r)
          })"

record MachineConfig =
  ram_bytes :: nat

definition machine_default :: MachineConfig where
  "machine_default = \<lparr> ram_bytes = DEFAULT_RAM_BYTES \<rparr>"

definition machine_validate :: "nat \<Rightarrow> MachineConfig \<Rightarrow> (LayoutError + nat \<times> nat) option" where
  "machine_validate pw config = reserve pw (ram_bytes config)"


section \<open>The wasm handshake\<close>

text \<open>\<open>threaded\<close> stands for \<open>IS_THREADED_BUILD\<close>, which the \<open>threads\<close> cargo feature fixes.\<close>

record BuildInfo =
  bi_threaded :: bool
  bi_requires_cross_origin_isolation :: bool
  bi_guest_ram_base :: u32
  bi_default_guest_ram_bytes :: u32
  bi_max_guest_ram_bytes :: u32

datatype IdleStrategy = BlockOnAtomic | YieldToHost

definition IDLE_STRATEGY :: "bool \<Rightarrow> IdleStrategy" where
  "IDLE_STRATEGY threaded = (if threaded then BlockOnAtomic else YieldToHost)"

datatype WakeMechanism = NotifyAtomic | SetPendingFlag

definition WAKE_MECHANISM :: "bool \<Rightarrow> WakeMechanism" where
  "WAKE_MECHANISM threaded = (if threaded then NotifyAtomic else SetPendingFlag)"

definition REQUIRES_CROSS_ORIGIN_ISOLATION :: "bool \<Rightarrow> bool" where
  "REQUIRES_CROSS_ORIGIN_ISOLATION threaded = threaded"

definition build_info :: "bool \<Rightarrow> BuildInfo" where
  "build_info threaded = \<lparr>
     bi_threaded = threaded,
     bi_requires_cross_origin_isolation = REQUIRES_CROSS_ORIGIN_ISOLATION threaded,
     bi_guest_ram_base = of_nat RAM_BASE,
     bi_default_guest_ram_bytes = of_nat DEFAULT_RAM_BYTES,
     bi_max_guest_ram_bytes = of_nat MAX_RAM_BYTES \<rparr>"

text \<open>The \<open>JsError\<close> text is built from the requested size and the layout error; the model
  returns that pair.\<close>

definition reserve_guest_ram :: "nat \<Rightarrow> u32 \<Rightarrow> ((u32 \<times> LayoutError) + u32) option" where
  "reserve_guest_ram pw n = do {
     r \<leftarrow> machine_validate pw \<lparr> ram_bytes = unat n \<rparr>;
     (case r of
        Inr (start, _) \<Rightarrow> Some (Inr (of_nat start))
      | Inl err \<Rightarrow> Some (Inl (n, err)))
   }"


section \<open>Behaviour\<close>

definition ram_size_ok :: "nat \<Rightarrow> bool" where
  "ram_size_ok n \<longleftrightarrow> 0 < n \<and> n mod PAGE_SIZE = 0 \<and> n \<le> MAX_RAM_BYTES"

lemma reserve_ok_iff:
  "reserve pw n = Some (Inr (s, e)) \<longleftrightarrow>
     ram_size_ok n \<and> RAM_BASE + n < 2 ^ pw \<and> s = RAM_BASE \<and> e = RAM_BASE + n"
  by (auto simp: reserve_def ram_size_ok_def add_usize_def)

lemma reserve_panics_iff: "reserve pw n = None \<longleftrightarrow> ram_size_ok n \<and> 2 ^ pw \<le> RAM_BASE + n"
  by (auto simp: reserve_def ram_size_ok_def add_usize_def)

lemma reserve_error_iff: "(\<exists>err. reserve pw n = Some (Inl err)) \<longleftrightarrow> \<not> ram_size_ok n"
  by (auto simp: reserve_def ram_size_ok_def add_usize_def)

text \<open>A translated address lies in the reserved window, at a fixed displacement.\<close>

definition in_ram :: "u64 \<Rightarrow> nat \<Rightarrow> bool" where
  "in_ram g n \<longleftrightarrow> PHYS_RAM_BASE \<le> g \<and> unat g - unat PHYS_RAM_BASE < n"

lemma linear_offset_eq:
  assumes "n \<le> MAX_RAM_BYTES" "32 \<le> pw"
  shows "linear_offset pw g n =
    Some (if in_ram g n then Some (RAM_BASE + (unat g - unat PHYS_RAM_BASE)) else None)"
proof (cases "PHYS_RAM_BASE \<le> g")
  case False
  then show ?thesis by (simp add: linear_offset_def checked_sub_def in_ram_def)
next
  case True
  let ?o = "g - PHYS_RAM_BASE"
  have o: "unat ?o = unat g - unat PHYS_RAM_BASE" using True by (rule unat_sub_ok)
  have "unat (of_nat n :: u64) = n"
    using assms(1) by (intro unat_of_nat_small) (simp add: layout_defs)
  then have cmp: "of_nat n \<le> ?o \<longleftrightarrow> n \<le> unat ?o" by (simp add: word_le_nat_alt)
  have "(2 :: nat) ^ 32 \<le> 2 ^ pw" using assms(2) by (intro power_increasing) auto
  then have "RAM_BASE + unat ?o < 2 ^ pw" if "unat ?o < n"
    using that assms(1) by (simp add: layout_defs)
  moreover from this have "take_bit pw (unat ?o) = unat ?o" if "unat ?o < n"
    using that by (simp add: take_bit_nat_eq_self_iff)
  ultimately show ?thesis
    using True by (auto simp: linear_offset_def checked_sub_def in_ram_def cmp o add_usize_def)
qed

end
