(* ===== verification/Memory.thy ===== *)
theory Memory
  imports Guest_Memory
begin

unbundle bit_operations_syntax

text \<open>
  Guest storage (\<open>crates/core/src/interp/memory.rs\<close>). The trait \<open>Memory\<close> is the record
  \<open>mem_ops\<close> of its two required methods over a storage type \<open>'m\<close>; its provided methods
  \<open>read_uint\<close> and \<open>write_uint\<close> are definitions over that record. A method returns \<open>None\<close> for a
  panic, \<open>Inl\<close> for an access fault. The locale \<open>guest_storage\<close> states what the interpreter relies
  on; it is interpreted on \<open>FlatMemory\<close>.
\<close>

section \<open>The trait\<close>

record AccessFault =
  af_address :: u64
  af_is_write :: bool

record 'm mem_ops =
  mem_read :: "'m \<Rightarrow> u64 \<Rightarrow> nat \<Rightarrow> (AccessFault + bytes) option"
  mem_write :: "'m \<Rightarrow> u64 \<Rightarrow> bytes \<Rightarrow> ((AccessFault + unit) \<times> 'm) option"

definition read_uint :: "'m mem_ops \<Rightarrow> 'm \<Rightarrow> u64 \<Rightarrow> u8 \<Rightarrow> (AccessFault + u64) option" where
  "read_uint M m address width =
     (if unat width \<le> 8 then do {
        r \<leftarrow> mem_read M m address (unat width);
        (case r of Inl f \<Rightarrow> Some (Inl f) | Inr buffer \<Rightarrow> Some (Inr (from_le buffer)))
      } else None)"

definition write_uint ::
  "'m mem_ops \<Rightarrow> 'm \<Rightarrow> u64 \<Rightarrow> u8 \<Rightarrow> u64 \<Rightarrow> ((AccessFault + unit) \<times> 'm) option" where
  "write_uint M m address width v =
     (if unat width \<le> 8 then mem_write M m address (to_le (unat width) v) else None)"


section \<open>\<open>FlatMemory\<close>\<close>

record FlatMemory =
  fm_base :: u64
  fm_bytes :: bytes

definition flat_at :: "u64 \<Rightarrow> nat \<Rightarrow> FlatMemory" where
  "flat_at base1 n = \<lparr> fm_base = base1, fm_bytes = replicate n 0 \<rparr>"

definition flat_new :: "nat \<Rightarrow> FlatMemory" where
  "flat_new n = flat_at PHYS_RAM_BASE n"

definition flat_limit :: "FlatMemory \<Rightarrow> u64 option" where
  "flat_limit m = checked_add (fm_base m) (of_nat (length (fm_bytes m)))"

definition flat_offset :: "FlatMemory \<Rightarrow> u64 \<Rightarrow> nat \<Rightarrow> bool \<Rightarrow> AccessFault + nat" where
  "flat_offset m address len is_write =
     (let fault = \<lparr> af_address = address, af_is_write = is_write \<rparr> in
      case checked_sub address (fm_base m) of
        None \<Rightarrow> Inl fault
      | Some start \<Rightarrow>
          (case checked_add start (of_nat len) of
             None \<Rightarrow> Inl fault
           | Some e \<Rightarrow> if of_nat (length (fm_bytes m)) < e then Inl fault else Inr (unat start)))"

text \<open>\<open>&self.bytes[start..start + len]\<close>.\<close>

definition flat_slice :: "FlatMemory \<Rightarrow> u64 \<Rightarrow> nat \<Rightarrow> (AccessFault + bytes) option" where
  "flat_slice m address len = (case flat_offset m address len False of
       Inl f \<Rightarrow> Some (Inl f)
     | Inr start \<Rightarrow> if start + len \<le> length (fm_bytes m)
                    then Some (Inr (take len (drop start (fm_bytes m)))) else None)"

definition flat_read :: "FlatMemory \<Rightarrow> u64 \<Rightarrow> nat \<Rightarrow> (AccessFault + bytes) option" where
  "flat_read m address len = (case flat_offset m address len False of
       Inl f \<Rightarrow> Some (Inl f)
     | Inr start \<Rightarrow> if start + len \<le> length (fm_bytes m)
                    then Some (Inr (take len (drop start (fm_bytes m)))) else None)"

definition flat_write :: "FlatMemory \<Rightarrow> u64 \<Rightarrow> bytes \<Rightarrow> ((AccessFault + unit) \<times> FlatMemory) option" where
  "flat_write m address bs = (case flat_offset m address (length bs) True of
       Inl f \<Rightarrow> Some (Inl f, m)
     | Inr start \<Rightarrow>
         if start + length bs \<le> length (fm_bytes m)
         then Some (Inr (), m\<lparr>fm_bytes := take start (fm_bytes m) @ bs
                                 @ drop (start + length bs) (fm_bytes m)\<rparr>)
         else None)"

definition flat_store_slice ::
  "FlatMemory \<Rightarrow> u64 \<Rightarrow> bytes \<Rightarrow> ((AccessFault + unit) \<times> FlatMemory) option" where
  "flat_store_slice m address data = flat_write m address data"

definition flat_ops :: "FlatMemory mem_ops" where
  "flat_ops = \<lparr> mem_read = flat_read, mem_write = flat_write \<rparr>"


section \<open>What the interpreter relies on\<close>

text \<open>\<open>inv\<close> is the storage invariant, \<open>mapped m a n\<close> says that an access of \<open>n\<close> bytes at \<open>a\<close> is in
  range, \<open>byte_at m a\<close> is the byte stored at \<open>a\<close>. No Rust buffer reaches \<open>2 ^ 63\<close> bytes.\<close>

definition in_span :: "u64 \<Rightarrow> u64 \<Rightarrow> nat \<Rightarrow> bool" where
  "in_span x a n \<longleftrightarrow> unat a \<le> unat x \<and> unat x < unat a + n"

locale guest_storage =
  fixes M :: "'m mem_ops"
    and inv :: "'m \<Rightarrow> bool"
    and mapped :: "'m \<Rightarrow> u64 \<Rightarrow> nat \<Rightarrow> bool"
    and byte_at :: "'m \<Rightarrow> u64 \<Rightarrow> u8"
  assumes read_mapped: "inv m \<Longrightarrow> mapped m a n \<Longrightarrow>
      mem_read M m a n = Some (Inr (map (\<lambda>i. byte_at m (a + of_nat i)) [0..<n]))"
    and read_unmapped: "inv m \<Longrightarrow> \<not> mapped m a n \<Longrightarrow> n < 2 ^ 63 \<Longrightarrow>
      mem_read M m a n = Some (Inl \<lparr> af_address = a, af_is_write = False \<rparr>)"
    and write_mapped: "inv m \<Longrightarrow> mapped m a (length bs) \<Longrightarrow>
      \<exists>m'. mem_write M m a bs = Some (Inr (), m') \<and> inv m' \<and> mapped m' = mapped m
        \<and> (\<forall>x. mapped m x 1 \<longrightarrow>
            byte_at m' x = (if in_span x a (length bs) then bs ! (unat x - unat a) else byte_at m x))"
    and write_unmapped: "inv m \<Longrightarrow> \<not> mapped m a (length bs) \<Longrightarrow> length bs < 2 ^ 63 \<Longrightarrow>
      mem_write M m a bs = Some (Inl \<lparr> af_address = a, af_is_write = True \<rparr>, m)"
    and mapped_sub: "inv m \<Longrightarrow> mapped m a n \<Longrightarrow> i + k \<le> n \<Longrightarrow> mapped m (a + of_nat i) k"
    and mapped_no_wrap: "inv m \<Longrightarrow> mapped m a n \<Longrightarrow> unat a + n < 2 ^ 64"
begin

text \<open>Neither operation panics, whatever the address.\<close>

lemma read_total: "inv m \<Longrightarrow> n < 2 ^ 63 \<Longrightarrow> mem_read M m a n \<noteq> None"
  using read_mapped [of m a n] read_unmapped [of m a n] by (cases "mapped m a n") auto

lemma write_total: "inv m \<Longrightarrow> length bs < 2 ^ 63 \<Longrightarrow> mem_write M m a bs \<noteq> None"
  using write_mapped [of m a bs] write_unmapped [of m a bs] by (cases "mapped m a (length bs)") auto

lemma write_inv:
  assumes "inv m" "length bs < 2 ^ 63" "mem_write M m a bs = Some (r, m')"
  shows "inv m'" "mapped m' = mapped m" "\<not> isl r \<longleftrightarrow> mapped m a (length bs)" "isl r \<Longrightarrow> m' = m"
proof -
  have "inv m' \<and> mapped m' = mapped m \<and> (\<not> isl r \<longleftrightarrow> mapped m a (length bs)) \<and> (isl r \<longrightarrow> m' = m)"
    using write_mapped [OF assms(1), of a bs] write_unmapped [OF assms(1) _ assms(2), of a] assms(1,3)
    by (cases "mapped m a (length bs)") auto
  then show "inv m'" "mapped m' = mapped m" "\<not> isl r \<longleftrightarrow> mapped m a (length bs)" "isl r \<Longrightarrow> m' = m"
    by simp_all
qed

lemma mapped_byte:
  assumes "inv m" "mapped m a n" "i < n"
  shows "mapped m (a + of_nat i) 1" and "unat (a + of_nat i) = unat a + i"
proof -
  show "mapped m (a + of_nat i) 1" using mapped_sub [OF assms(1,2), of i 1] assms(3) by simp
  have "unat a + i < 2 ^ 64" using mapped_no_wrap [OF assms(1,2)] assms(3) by linarith
  moreover from this have "unat (of_nat i :: u64) = i" by (intro unat_of_nat_small) simp
  ultimately show "unat (a + of_nat i) = unat a + i" by (simp add: unat_add_ok)
qed

text \<open>What is written reads back, and a disjoint range is unaffected.\<close>

lemma write_read:
  assumes "inv m" "length bs < 2 ^ 63" "mem_write M m a bs = Some (Inr (), m')"
  shows "mem_read M m' a (length bs) = Some (Inr bs)"
proof -
  note wi = write_inv [OF assms]
  have mp: "mapped m a (length bs)" using wi(3) by simp
  from write_mapped [OF assms(1) mp] assms(3)
  have b: "mapped m x 1 \<Longrightarrow> in_span x a (length bs) \<Longrightarrow> byte_at m' x = bs ! (unat x - unat a)" for x
    by auto
  have "map (\<lambda>i. byte_at m' (a + of_nat i)) [0..<length bs] = bs"
  proof (rule nth_equalityI)
    fix i assume "i < length (map (\<lambda>i. byte_at m' (a + of_nat i)) [0..<length bs])"
    then have i: "i < length bs" by simp
    show "map (\<lambda>i. byte_at m' (a + of_nat i)) [0..<length bs] ! i = bs ! i"
      using b [OF mapped_byte(1) [OF assms(1) mp i]] mapped_byte(2) [OF assms(1) mp i] i
      by (simp add: in_span_def)
  qed simp
  with read_mapped [OF wi(1), of a "length bs"] mp wi(2) show ?thesis by simp
qed

lemma write_read_disjoint:
  assumes "inv m" "length bs < 2 ^ 63" "n < 2 ^ 63" "mem_write M m a bs = Some (Inr (), m')"
    and "unat c + n \<le> unat a \<or> unat a + length bs \<le> unat c"
  shows "mem_read M m' c n = mem_read M m c n"
proof (cases "mapped m c n")
  case False
  then show ?thesis
    using read_unmapped [of m c n] read_unmapped [of m' c n] write_inv [OF assms(1,2,4)] assms(1,3)
    by simp
next
  case True
  have mp: "mapped m a (length bs)" using write_inv(3) [OF assms(1,2,4)] by simp
  from write_mapped [OF assms(1) mp] assms(4)
  have b: "mapped m x 1 \<Longrightarrow> \<not> in_span x a (length bs) \<Longrightarrow> byte_at m' x = byte_at m x" for x
    by auto
  have "byte_at m' (c + of_nat i) = byte_at m (c + of_nat i)" if "i < n" for i
    using b [OF mapped_byte(1) [OF assms(1) True that]] mapped_byte(2) [OF assms(1) True that]
      assms(5) that by (auto simp: in_span_def)
  with True read_mapped [of m c n] read_mapped [of m' c n] write_inv [OF assms(1,2,4)] assms(1)
  show ?thesis by simp
qed

text \<open>The typed accessors.\<close>

lemma write_uint_inv:
  assumes "inv m" "unat w \<le> 8" "write_uint M m a w v = Some (r, m')"
  shows "inv m'" "mapped m' = mapped m" "\<not> isl r \<longleftrightarrow> mapped m a (unat w)" "isl r \<Longrightarrow> m' = m"
  using write_inv [of m "to_le (unat w) v" a r m'] assms by (simp_all add: write_uint_def)

lemma write_uint_total: "inv m \<Longrightarrow> unat w \<le> 8 \<Longrightarrow> write_uint M m a w v \<noteq> None"
  using write_total [of m "to_le (unat w) v" a] by (simp add: write_uint_def)

lemma read_uint_total: "inv m \<Longrightarrow> unat w \<le> 8 \<Longrightarrow> read_uint M m a w \<noteq> None"
  using read_total [of m "unat w" a] by (auto simp: read_uint_def split: sum.splits)

lemma write_read_uint:
  assumes "inv m" "unat w \<le> 8" "write_uint M m a w v = Some (Inr (), m')"
  shows "read_uint M m' a w = Some (Inr (take_bit (8 * unat w) v))"
  using write_read [of m "to_le (unat w) v" a m'] assms
  by (simp add: write_uint_def read_uint_def from_le_to_le)

end


section \<open>\<open>FlatMemory\<close> provides it\<close>

definition flat_wf :: "FlatMemory \<Rightarrow> bool" where
  "flat_wf m \<longleftrightarrow> length (fm_bytes m) < 2 ^ 63 \<and> unat (fm_base m) + length (fm_bytes m) < 2 ^ 64"

definition flat_mapped :: "FlatMemory \<Rightarrow> u64 \<Rightarrow> nat \<Rightarrow> bool" where
  "flat_mapped m a n \<longleftrightarrow>
     unat (fm_base m) \<le> unat a \<and> unat a + n \<le> unat (fm_base m) + length (fm_bytes m)"

definition flat_byte :: "FlatMemory \<Rightarrow> u64 \<Rightarrow> u8" where
  "flat_byte m a = fm_bytes m ! (unat a - unat (fm_base m))"

lemma flat_offset_eq:
  assumes "flat_wf m" "n < 2 ^ 63"
  shows "flat_offset m a n w = (if flat_mapped m a n then Inr (unat a - unat (fm_base m))
    else Inl \<lparr> af_address = a, af_is_write = w \<rparr>)"
proof (cases "fm_base m \<le> a")
  case False
  then show ?thesis
    by (simp add: flat_offset_def checked_sub_def flat_mapped_def word_le_nat_alt)
next
  case True
  have n: "unat (of_nat n :: u64) = n" using assms(2) by (intro unat_of_nat_small) simp
  have l: "unat (of_nat (length (fm_bytes m)) :: u64) = length (fm_bytes m)"
    using assms(1) by (intro unat_of_nat_small) (simp add: flat_wf_def)
  have s: "unat (a - fm_base m) = unat a - unat (fm_base m)" using True by (rule unat_sub_ok)
  show ?thesis
  proof (cases "unat (a - fm_base m) + n < 2 ^ 64")
    case False
    then show ?thesis
      using True assms(1) s n
      by (auto simp: flat_offset_def checked_sub_def checked_add_def flat_mapped_def flat_wf_def)
  next
    case small: True
    then have "unat (a - fm_base m + of_nat n) = unat a - unat (fm_base m) + n"
      using s n by (subst unat_add_ok) simp_all
    then show ?thesis
      using True small s n l
      by (auto simp: flat_offset_def checked_sub_def checked_add_def flat_mapped_def
          word_less_nat_alt word_le_nat_alt)
  qed
qed

lemma flat_read_mapped:
  assumes "flat_wf m" "flat_mapped m a n"
  shows "flat_read m a n = Some (Inr (map (\<lambda>i. flat_byte m (a + of_nat i)) [0..<n]))"
proof -
  have n: "n < 2 ^ 63" "unat a + n < 2 ^ 64"
    using assms by (auto simp: flat_wf_def flat_mapped_def)
  have "unat (a + of_nat i) = unat a + i" if "i < n" for i
  proof -
    have "unat (of_nat i :: u64) = i" using that n by (intro unat_of_nat_small) simp
    with that n show ?thesis by (simp add: unat_add_ok)
  qed
  then have "take n (drop (unat a - unat (fm_base m)) (fm_bytes m))
      = map (\<lambda>i. flat_byte m (a + of_nat i)) [0..<n]"
    using assms(2) by (intro nth_equalityI) (auto simp: flat_byte_def flat_mapped_def)
  then show ?thesis
    using assms flat_offset_eq [OF assms(1) n(1)] by (auto simp: flat_read_def flat_mapped_def)
qed

lemma flat_write_mapped:
  assumes "flat_wf m" "flat_mapped m a (length bs)"
  defines "s \<equiv> unat a - unat (fm_base m)"
  shows "flat_write m a bs = Some (Inr (), m\<lparr>fm_bytes :=
    take s (fm_bytes m) @ bs @ drop (s + length bs) (fm_bytes m)\<rparr>)"
proof -
  have "length bs < 2 ^ 63" using assms by (auto simp: flat_wf_def flat_mapped_def)
  from flat_offset_eq [OF assms(1) this] assms(2) show ?thesis
    by (auto simp: flat_write_def flat_mapped_def s_def)
qed

interpretation flat: guest_storage flat_ops flat_wf flat_mapped flat_byte
proof
  fix m a n
  assume "flat_wf m" "flat_mapped m a n"
  then show "mem_read flat_ops m a n = Some (Inr (map (\<lambda>i. flat_byte m (a + of_nat i)) [0..<n]))"
    by (simp add: flat_ops_def flat_read_mapped)
next
  fix m a n
  assume "flat_wf m" "\<not> flat_mapped m a n" "n < 2 ^ 63"
  then show "mem_read flat_ops m a n = Some (Inl \<lparr> af_address = a, af_is_write = False \<rparr>)"
    by (simp add: flat_ops_def flat_read_def flat_offset_eq)
next
  fix m a and bs :: bytes
  assume wf: "flat_wf m" and mp: "flat_mapped m a (length bs)"
  let ?s = "unat a - unat (fm_base m)"
  let ?m = "m\<lparr>fm_bytes := take ?s (fm_bytes m) @ bs @ drop (?s + length bs) (fm_bytes m)\<rparr>"
  have len: "length (fm_bytes ?m) = length (fm_bytes m)" using mp by (auto simp: flat_mapped_def)
  have "flat_byte ?m x = (if in_span x a (length bs) then bs ! (unat x - unat a) else flat_byte m x)"
    if "flat_mapped m x 1" for x
    using that mp by (auto simp: flat_byte_def flat_mapped_def in_span_def nth_append)
  moreover have "flat_mapped ?m = flat_mapped m"
    using len by (intro ext) (simp add: flat_mapped_def)
  ultimately show "\<exists>m'. mem_write flat_ops m a bs = Some (Inr (), m') \<and> flat_wf m'
      \<and> flat_mapped m' = flat_mapped m
      \<and> (\<forall>x. flat_mapped m x 1 \<longrightarrow> flat_byte m' x
          = (if in_span x a (length bs) then bs ! (unat x - unat a) else flat_byte m x))"
    using wf len flat_write_mapped [OF wf mp]
    by (intro exI [of _ ?m]) (simp add: flat_ops_def flat_wf_def)
next
  fix m a and bs :: bytes
  assume "flat_wf m" "\<not> flat_mapped m a (length bs)" "length bs < 2 ^ 63"
  then show "mem_write flat_ops m a bs = Some (Inl \<lparr> af_address = a, af_is_write = True \<rparr>, m)"
    by (simp add: flat_ops_def flat_write_def flat_offset_eq)
next
  fix m a n i k
  assume wf: "flat_wf m" and mp: "flat_mapped m a n" and le: "i + k \<le> n"
  have "unat a + i < 2 ^ 64" using wf mp le by (auto simp: flat_wf_def flat_mapped_def)
  moreover from this have "unat (of_nat i :: u64) = i" by (intro unat_of_nat_small) simp
  ultimately have "unat (a + of_nat i) = unat a + i" by (simp add: unat_add_ok)
  with mp le show "flat_mapped m (a + of_nat i) k" by (simp add: flat_mapped_def)
next
  fix m a n
  assume "flat_wf m" "flat_mapped m a n"
  then show "unat a + n < 2 ^ 64" by (auto simp: flat_wf_def flat_mapped_def)
qed

lemma flat_limit_ok: "flat_wf m \<Longrightarrow> flat_limit m = Some (fm_base m + of_nat (length (fm_bytes m)))"
  by (simp add: flat_limit_def checked_add_def flat_wf_def unat_of_nat_small)

lemma flat_new_wf: "n < 2 ^ 63 \<Longrightarrow> flat_wf (flat_new n)"
  by (simp add: flat_new_def flat_at_def flat_wf_def PHYS_RAM_BASE_def)

end
