(* ===== verification/Cache.thy ===== *)
theory Cache
  imports Decode
begin

unbundle bit_operations_syntax

text \<open>
  The decoded-instruction cache (\<open>crates/core/src/interp/cache.rs\<close>): direct-mapped by PC and
  tagged by the encoding. Shown: every slot holds the decoding of its tag, so a lookup returns
  what \<open>decode\<close> returns whatever was looked up before, and hits and misses add up to the lookups.
\<close>

definition DECODE_CACHE_ENTRIES :: nat where "DECODE_CACHE_ENTRIES = 4096"

definition EMPTY_TAG :: u32 where "EMPTY_TAG = 0"

record DecodeCache =
  dc_tags :: "u32 list"
  dc_entries :: "Instruction list"
  dc_hits :: u64
  dc_misses :: u64

definition cache_new :: DecodeCache where
  "cache_new = \<lparr> dc_tags = replicate DECODE_CACHE_ENTRIES EMPTY_TAG,
     dc_entries = replicate DECODE_CACHE_ENTRIES (unallocated EMPTY_TAG),
     dc_hits = 0, dc_misses = 0 \<rparr>"

text \<open>\<open>(pc >> 2) as usize & (DECODE_CACHE_ENTRIES - 1)\<close>; the low twelve bits survive the cast at
  either pointer width.\<close>

definition cache_slot :: "u64 \<Rightarrow> nat" where
  "cache_slot pc1 = unat (drop_bit 2 pc1) AND (DECODE_CACHE_ENTRIES - 1)"

definition cache_decoded :: "DecodeCache \<Rightarrow> u64 \<Rightarrow> u32 \<Rightarrow> (Instruction \<times> DecodeCache) option" where
  "cache_decoded c pc1 encoding = do {
     let slot = cache_slot pc1;
     tag \<leftarrow> arr_get (dc_tags c) slot;
     if tag = encoding \<and> encoding \<noteq> EMPTY_TAG then do {
       h \<leftarrow> checked_add (dc_hits c) 1;
       insn \<leftarrow> arr_get (dc_entries c) slot;
       Some (insn, c\<lparr>dc_hits := h\<rparr>)
     } else do {
       n \<leftarrow> checked_add (dc_misses c) 1;
       insn \<leftarrow> decode encoding;
       tags \<leftarrow> arr_set (dc_tags c) slot encoding;
       es \<leftarrow> arr_set (dc_entries c) slot insn;
       Some (insn, c\<lparr>dc_misses := n, dc_tags := tags, dc_entries := es\<rparr>)
     }
   }"

definition cache_hits :: "DecodeCache \<Rightarrow> u64" where "cache_hits c = dc_hits c"

definition cache_misses :: "DecodeCache \<Rightarrow> u64" where "cache_misses c = dc_misses c"


section \<open>Transparency\<close>

definition cache_wf :: "DecodeCache \<Rightarrow> bool" where
  "cache_wf c \<longleftrightarrow> length (dc_tags c) = DECODE_CACHE_ENTRIES
     \<and> dc_entries c = map decoded (dc_tags c)"

text \<open>\<open>room n\<close>: the two counters together leave \<open>n\<close> lookups before one could overflow.\<close>

definition cache_room :: "nat \<Rightarrow> DecodeCache \<Rightarrow> bool" where
  "cache_room n c \<longleftrightarrow> cache_wf c \<and> unat (dc_hits c) + unat (dc_misses c) + n < 2 ^ 64"

lemma cache_slot_less: "cache_slot p < DECODE_CACHE_ENTRIES"
proof -
  have "cache_slot p = take_bit 12 (unat (drop_bit 2 p))"
    by (simp add: cache_slot_def DECODE_CACHE_ENTRIES_def take_bit_eq_mask mask_eq_exp_minus_1)
  then show ?thesis
    using take_bit_nat_less_exp [of 12 "unat (drop_bit 2 p)"] by (simp add: DECODE_CACHE_ENTRIES_def)
qed

lemma decoded_empty: "decoded EMPTY_TAG = unallocated EMPTY_TAG"
  using decode_unallocated_groups [of EMPTY_TAG] by (simp add: EMPTY_TAG_def group_of_def)

lemma cache_new_room [simp]: "n < 2 ^ 64 \<Longrightarrow> cache_room n cache_new"
  by (simp add: cache_room_def cache_wf_def cache_new_def decoded_empty)

lemma cache_decoded_ok:
  assumes "cache_room (Suc n) c"
  shows "\<exists>c'. cache_decoded c p enc = Some (decoded enc, c') \<and> cache_room n c'
    \<and> unat (dc_hits c') + unat (dc_misses c') = unat (dc_hits c) + unat (dc_misses c) + 1"
proof -
  let ?s = "cache_slot p"
  have len: "length (dc_tags c) = DECODE_CACHE_ENTRIES" "length (dc_entries c) = DECODE_CACHE_ENTRIES"
    and e: "dc_entries c = map decoded (dc_tags c)"
    using assms by (auto simp: cache_room_def cache_wf_def)
  have h: "unat (dc_hits c) + 1 < 2 ^ 64" and m: "unat (dc_misses c) + 1 < 2 ^ 64"
    using assms by (simp_all add: cache_room_def)
  then have u: "unat (dc_hits c + 1) = unat (dc_hits c) + 1"
      "unat (dc_misses c + 1) = unat (dc_misses c) + 1" by (simp_all add: unat_add_ok)
  show ?thesis
  proof (cases "dc_tags c ! ?s = enc \<and> enc \<noteq> EMPTY_TAG")
    case True
    then show ?thesis
      using assms len e h u cache_slot_less [of p]
      by (auto simp: cache_decoded_def checked_add_def Let_def cache_room_def cache_wf_def)
  next
    case False
    then have "cache_decoded c p enc = Some (decoded enc, c\<lparr>dc_misses := dc_misses c + 1,
        dc_tags := (dc_tags c)[?s := enc], dc_entries := (dc_entries c)[?s := decoded enc]\<rparr>)"
      using len m cache_slot_less [of p] by (auto simp: cache_decoded_def checked_add_def Let_def)
    then show ?thesis
      using assms len e u by (auto simp: cache_room_def cache_wf_def map_update)
  qed
qed

end
