(* ===== verification/Bounded_Log.thy ===== *)
theory Bounded_Log
  imports Prelude
begin

text \<open>
  The contract shared by the two bounded, deduplicated logs of the program: the trap log
  (\<open>crates/core/src/trap.rs\<close>) and the shim's list of unhandled syscall numbers
  (\<open>crates/core/src/shim/mod.rs\<close>). A log keeps the first \<open>cap\<close> distinct keys in first-seen order.
  \<open>room n l\<close> says that the log is well formed and can absorb \<open>n\<close> more records (its counters, if it
  has any, do not overflow).
\<close>

definition log_insert :: "nat \<Rightarrow> 'k list \<Rightarrow> 'k \<Rightarrow> 'k list" where
  "log_insert cap ks k = (if k \<in> set ks \<or> length ks = cap then ks else ks @ [k])"

definition first_seen :: "'k list \<Rightarrow> 'k list" where
  "first_seen ks = rev (remdups (rev ks))"

primrec record_all :: "('l \<Rightarrow> 'k \<Rightarrow> 'l option) \<Rightarrow> 'l \<Rightarrow> 'k list \<Rightarrow> 'l option" where
  "record_all r l [] = Some l"
| "record_all r l (k # ks) = do { l' \<leftarrow> r l k; record_all r l' ks }"

lemma set_first_seen [simp]: "set (first_seen ks) = set ks"
  by (simp add: first_seen_def)

lemma distinct_first_seen [simp]: "distinct (first_seen ks)"
  by (simp add: first_seen_def)

lemma first_seen_snoc: "first_seen (ks @ [k]) = (if k \<in> set ks then first_seen ks else first_seen ks @ [k])"
  by (simp add: first_seen_def)

lemma foldl_log_insert: "foldl (log_insert cap) [] ks = take cap (first_seen ks)"
proof (induction ks rule: rev_induct)
  case Nil
  show ?case by (simp add: first_seen_def)
next
  case (snoc k ks)
  have "length (take cap (first_seen ks)) = cap" if "k \<in> set ks" "k \<notin> set (take cap (first_seen ks))"
  proof (rule ccontr)
    assume "length (take cap (first_seen ks)) \<noteq> cap"
    then have "take cap (first_seen ks) = first_seen ks" by (simp add: min_def split: if_splits)
    with that show False by simp
  qed
  moreover have "k \<notin> set (take cap (first_seen ks))" if "k \<notin> set ks"
    using that in_set_takeD [of k cap "first_seen ks"] by auto
  ultimately show ?case
    using snoc by (auto simp: first_seen_snoc log_insert_def min_def)
qed

locale bounded_log =
  fixes cap :: nat
    and rec :: "'l \<Rightarrow> 'k \<Rightarrow> 'l option"
    and keys :: "'l \<Rightarrow> 'k list"
    and room :: "nat \<Rightarrow> 'l \<Rightarrow> bool"
  assumes rec_ok: "room (Suc n) l \<Longrightarrow>
      \<exists>l'. rec l k = Some l' \<and> room n l' \<and> keys l' = log_insert cap (keys l) k"
    and keys_ok: "room n l \<Longrightarrow> distinct (keys l) \<and> length (keys l) \<le> cap"
begin

lemma record_all_ok:
  "room (length ks + n) l \<Longrightarrow>
     \<exists>l'. record_all rec l ks = Some l' \<and> room n l' \<and> keys l' = foldl (log_insert cap) (keys l) ks"
proof (induction ks arbitrary: l)
  case Nil
  then show ?case by simp
next
  case (Cons k ks)
  then have "room (Suc (length ks + n)) l" by simp
  then obtain l1 where l1: "rec l k = Some l1" "room (length ks + n) l1"
      "keys l1 = log_insert cap (keys l) k"
    using rec_ok by blast
  with Cons.IH [OF l1(2)] show ?case by auto
qed

text \<open>A fresh log ends up with the first \<open>cap\<close> distinct keys, in the order they were first seen.\<close>

lemma record_all_fresh:
  assumes "room (length ks + n) l" "keys l = []"
  shows "\<exists>l'. record_all rec l ks = Some l' \<and> room n l' \<and> keys l' = take cap (first_seen ks)"
  using record_all_ok [OF assms(1)] assms(2) by (simp add: foldl_log_insert)

end

end
