(* ===== verification/Trap_Log.thy ===== *)
theory Trap_Log
  imports Decode Bounded_Log
begin

text \<open>
  Traps and the log of unimplemented encodings (\<open>crates/core/src/trap.rs\<close>). The fixed array of
  optional entries is kept as in the code, of length \<open>TRAP_LOG_CAPACITY\<close>; \<open>record\<close> panics only on
  counter overflow. Shown: the invariant (used slots filled, encodings distinct, counts and
  dropped encounters adding up to the total), and what a query sees after a record.
\<close>

datatype Trap =
    UndefinedInstruction u64 u32        \<comment> \<open>\<open>pc, encoding\<close>\<close>
  | SupervisorCall u64 u16              \<comment> \<open>\<open>pc, imm\<close>\<close>
  | Breakpoint u64 u16                  \<comment> \<open>\<open>pc, imm\<close>\<close>
  | DataAbort u64 u64 bool              \<comment> \<open>\<open>pc, address, is_write\<close>\<close>
  | InstructionAbort u64                \<comment> \<open>\<open>pc\<close>\<close>

definition trap_undefined :: "u64 \<Rightarrow> Instruction \<Rightarrow> Trap" where
  "trap_undefined pc1 insn = UndefinedInstruction pc1 (insn_encoding insn)"

definition TRAP_LOG_CAPACITY :: nat where "TRAP_LOG_CAPACITY = 256"

record TrapLogEntry =
  tle_encoding :: u32
  tle_group :: EncodingGroup
  tle_count :: u64

record TrapLog =
  tl_entries :: "TrapLogEntry option list"
  tl_used :: nat
  tl_dropped :: u64
  tl_total :: u64

definition traplog_new :: TrapLog where
  "traplog_new = \<lparr> tl_entries = replicate TRAP_LOG_CAPACITY None, tl_used = 0, tl_dropped = 0,
     tl_total = 0 \<rparr>"

text \<open>\<open>find_mut\<close>: the first used slot holding the encoding; its slice of the used slots is
  bounds-checked by the caller.\<close>

definition find_slot :: "TrapLog \<Rightarrow> u32 \<Rightarrow> nat option" where
  "find_slot l encoding =
     find (\<lambda>i. case tl_entries l ! i of None \<Rightarrow> False | Some e \<Rightarrow> tle_encoding e = encoding)
       [0..<tl_used l]"

definition bump :: "TrapLog \<Rightarrow> nat \<Rightarrow> TrapLog option" where
  "bump l i = (case tl_entries l ! i of
       None \<Rightarrow> Some l
     | Some e \<Rightarrow> do {
         n \<leftarrow> checked_add (tle_count e) 1;
         Some (l\<lparr>tl_entries := (tl_entries l)[i := Some (e\<lparr>tle_count := n\<rparr>)]\<rparr>)
       })"

definition record_encoding :: "TrapLog \<Rightarrow> u32 \<Rightarrow> TrapLog option" where
  "record_encoding l0 encoding = do {
     t \<leftarrow> checked_add (tl_total l0) 1;
     let l = l0\<lparr>tl_total := t\<rparr>;
     _ \<leftarrow> (if tl_used l \<le> length (tl_entries l) then Some () else None);
     (case find_slot l encoding of
        Some i \<Rightarrow> bump l i
      | None \<Rightarrow>
          if tl_used l = TRAP_LOG_CAPACITY then do {
            d \<leftarrow> checked_add (tl_dropped l) 1;
            Some (l\<lparr>tl_dropped := d\<rparr>)
          } else do {
            es \<leftarrow> arr_set (tl_entries l) (tl_used l)
              (Some \<lparr> tle_encoding = encoding, tle_group = group_of encoding, tle_count = 1 \<rparr>);
            Some (l\<lparr>tl_entries := es, tl_used := tl_used l + 1\<rparr>)
          })
   }"

definition record_trap :: "TrapLog \<Rightarrow> Trap \<Rightarrow> TrapLog option" where
  "record_trap l t = (case t of UndefinedInstruction _ encoding \<Rightarrow> record_encoding l encoding
     | _ \<Rightarrow> Some l)"

definition traplog_entries :: "TrapLog \<Rightarrow> TrapLogEntry list" where
  "traplog_entries l = List.map_filter id (take (tl_used l) (tl_entries l))"

definition total_encounters :: "TrapLog \<Rightarrow> u64" where "total_encounters l = tl_total l"

definition dropped_encodings :: "TrapLog \<Rightarrow> u64" where "dropped_encodings l = tl_dropped l"

definition traplog_is_empty :: "TrapLog \<Rightarrow> bool" where
  "traplog_is_empty l \<longleftrightarrow> tl_used l = 0 \<and> tl_dropped l = 0"

definition is_unimplemented :: "Instruction \<Rightarrow> bool" where
  "is_unimplemented insn \<longleftrightarrow> insn_op insn = Op_Unallocated"


section \<open>The invariant\<close>

text \<open>\<open>es\<close> is the list of entries the log holds.\<close>

definition log_holds :: "TrapLog \<Rightarrow> TrapLogEntry list \<Rightarrow> bool" where
  "log_holds l es \<longleftrightarrow> tl_entries l = map Some es @ replicate (TRAP_LOG_CAPACITY - length es) None
     \<and> length es \<le> TRAP_LOG_CAPACITY \<and> tl_used l = length es"

definition entries_ok :: "TrapLogEntry list \<Rightarrow> bool" where
  "entries_ok es \<longleftrightarrow> distinct (map tle_encoding es)
     \<and> (\<forall>e \<in> set es. tle_group e = group_of (tle_encoding e) \<and> 0 < tle_count e)"

definition traplog_wf :: "TrapLog \<Rightarrow> bool" where
  "traplog_wf l \<longleftrightarrow> (\<exists>es. log_holds l es \<and> entries_ok es
     \<and> sum_list (map (unat \<circ> tle_count) es) + unat (tl_dropped l) = unat (tl_total l)
     \<and> (0 < tl_dropped l \<longrightarrow> length es = TRAP_LOG_CAPACITY))"

lemma traplog_entries_eq: "log_holds l es \<Longrightarrow> traplog_entries l = es"
  by (simp add: log_holds_def traplog_entries_def map_filter_def comp_def)

lemma traplog_wfD:
  assumes "traplog_wf l"
  shows "log_holds l (traplog_entries l)" "entries_ok (traplog_entries l)"
    "sum_list (map (unat \<circ> tle_count) (traplog_entries l)) + unat (tl_dropped l) = unat (tl_total l)"
    "0 < tl_dropped l \<Longrightarrow> length (traplog_entries l) = TRAP_LOG_CAPACITY"
  using assms by (auto simp: traplog_wf_def traplog_entries_eq)

lemma traplog_wfI:
  "log_holds l es \<Longrightarrow> entries_ok es \<Longrightarrow>
     sum_list (map (unat \<circ> tle_count) es) + unat (tl_dropped l) = unat (tl_total l) \<Longrightarrow>
     (0 < tl_dropped l \<Longrightarrow> length es = TRAP_LOG_CAPACITY) \<Longrightarrow> traplog_wf l \<and> traplog_entries l = es"
  by (auto simp: traplog_wf_def traplog_entries_eq)

lemma traplog_new_wf [simp]: "traplog_wf traplog_new"
  by (auto simp: traplog_wf_def log_holds_def entries_ok_def traplog_new_def intro!: exI [of _ "[]"])

lemma find_slot_eq:
  assumes "log_holds l es"
  shows "find_slot l enc = find (\<lambda>i. tle_encoding (es ! i) = enc) [0..<length es]"
  unfolding find_slot_def using assms
  by (auto simp: log_holds_def nth_append intro!: find_cong)

lemma find_slot_None: "log_holds l es \<Longrightarrow> find_slot l enc = None \<longleftrightarrow> enc \<notin> tle_encoding ` set es"
  by (auto simp: find_slot_eq find_None_iff set_conv_nth)

lemma find_slot_Some:
  "log_holds l es \<Longrightarrow> find_slot l enc = Some i \<Longrightarrow> i < length es \<and> tle_encoding (es ! i) = enc"
  by (auto simp: find_slot_eq find_Some_iff)

lemma count_le_total:
  assumes "traplog_wf l" "e \<in> set (traplog_entries l)"
  shows "unat (tle_count e) \<le> unat (tl_total l)"
proof -
  have "unat (tle_count e) \<le> sum_list (map (unat \<circ> tle_count) (traplog_entries l))"
    using assms(2) by (intro member_le_sum_list) (auto intro: image_eqI)
  with traplog_wfD(3) [OF assms(1)] show ?thesis by linarith
qed

lemma log_holds_append:
  "log_holds l es \<Longrightarrow> length es < TRAP_LOG_CAPACITY \<Longrightarrow>
     log_holds (l\<lparr>tl_entries := (tl_entries l)[tl_used l := Some e], tl_used := tl_used l + 1\<rparr>) (es @ [e])"
  by (auto simp: log_holds_def list_update_append Suc_diff_Suc [symmetric])

lemma log_holds_update:
  "log_holds l es \<Longrightarrow> i < length es \<Longrightarrow>
     log_holds (l\<lparr>tl_entries := (tl_entries l)[i := Some e]\<rparr>) (es[i := e])"
  by (auto simp: log_holds_def list_update_append map_update)

lemma sum_list_bump:
  fixes f :: "'a \<Rightarrow> nat"
  shows "i < length xs \<Longrightarrow> f y = f (xs ! i) + 1 \<Longrightarrow> sum_list (map f (xs[i := y])) = sum_list (map f xs) + 1"
  by (induction xs arbitrary: i) (auto split: nat.splits)

text \<open>\<open>record\<close> on each of its three branches.\<close>

lemma record_known:
  assumes "traplog_wf l" "unat (tl_total l) + 1 < 2 ^ 64"
    and "find_slot l enc = Some i"
  defines "es \<equiv> traplog_entries l"
  defines "e \<equiv> es ! i"
  defines "l' \<equiv> l\<lparr>tl_total := tl_total l + 1,
      tl_entries := (tl_entries l)[i := Some (e\<lparr>tle_count := tle_count e + 1\<rparr>)]\<rparr>"
  shows "record_encoding l enc = Some l' \<and> traplog_wf l'
    \<and> traplog_entries l' = es[i := e\<lparr>tle_count := tle_count e + 1\<rparr>]"
proof -
  note wf = traplog_wfD [OF assms(1), folded es_def]
  have i: "i < length es" using find_slot_Some [OF wf(1) assms(3)] by simp
  have c: "unat (tle_count e) \<le> unat (tl_total l)"
    using count_le_total [OF assms(1)] i by (simp add: e_def es_def)
  have hold: "log_holds l' (es[i := e\<lparr>tle_count := tle_count e + 1\<rparr>])"
    using log_holds_update [OF wf(1) i] by (simp add: l'_def log_holds_def)
  have cnt: "unat (tle_count e + 1) = unat (tle_count e) + 1" "unat (tl_total l + 1) = unat (tl_total l) + 1"
    using c assms(2) by (simp_all add: unat_add_ok)
  have "record_encoding l enc = Some l'"
    using assms(2,3) wf(1) i c
    by (simp add: record_encoding_def checked_add_def find_slot_def bump_def l'_def log_holds_def
        nth_append e_def)
  moreover have "entries_ok (es[i := e\<lparr>tle_count := tle_count e + 1\<rparr>])"
  proof -
    have "map tle_encoding (es[i := e\<lparr>tle_count := tle_count e + 1\<rparr>]) = map tle_encoding es"
      using i by (simp add: map_update e_def list_update_same_conv)
    moreover have "0 < tle_count e + 1" using cnt(1) by (simp add: word_less_nat_alt)
    ultimately show ?thesis
      using wf(2) i by (auto simp: entries_ok_def e_def dest!: set_update_subset_insert [THEN subsetD])
  qed
  moreover have "sum_list (map (unat \<circ> tle_count) (es[i := e\<lparr>tle_count := tle_count e + 1\<rparr>]))
      = sum_list (map (unat \<circ> tle_count) es) + 1"
    using i cnt(1) by (intro sum_list_bump) (simp_all add: e_def)
  ultimately show ?thesis
    using wf(3,4) cnt(2) by (intro conjI traplog_wfI hold) (simp_all add: l'_def)
qed

lemma record_new:
  assumes "traplog_wf l" "unat (tl_total l) + 1 < 2 ^ 64"
    and "find_slot l enc = None" "length (traplog_entries l) < TRAP_LOG_CAPACITY"
  defines "e \<equiv> \<lparr> tle_encoding = enc, tle_group = group_of enc, tle_count = 1 \<rparr>"
  defines "l' \<equiv> l\<lparr>tl_total := tl_total l + 1, tl_entries := (tl_entries l)[tl_used l := Some e],
      tl_used := tl_used l + 1\<rparr>"
  shows "record_encoding l enc = Some l' \<and> traplog_wf l' \<and> traplog_entries l' = traplog_entries l @ [e]"
proof -
  note wf = traplog_wfD [OF assms(1)]
  have hold: "log_holds l' (traplog_entries l @ [e])"
    using log_holds_append [OF wf(1) assms(4), of e] by (auto simp: l'_def log_holds_def)
  have "entries_ok (traplog_entries l @ [e])"
    using wf(2) find_slot_None [OF wf(1), of enc] assms(3) by (auto simp: entries_ok_def e_def)
  moreover have "unat (tl_total l + 1) = unat (tl_total l) + 1"
    using assms(2) by (simp add: unat_add_ok)
  moreover have "record_encoding l enc = Some l'"
    using assms(2,3,4) wf(1)
    by (simp add: record_encoding_def checked_add_def find_slot_def l'_def log_holds_def e_def)
  ultimately show ?thesis
    using wf(3,4) assms(4) by (intro conjI traplog_wfI hold) (auto simp: l'_def e_def)
qed

lemma record_full:
  assumes "traplog_wf l" "unat (tl_total l) + 1 < 2 ^ 64"
    and "find_slot l enc = None" "length (traplog_entries l) = TRAP_LOG_CAPACITY"
  defines "l' \<equiv> l\<lparr>tl_total := tl_total l + 1, tl_dropped := tl_dropped l + 1\<rparr>"
  shows "record_encoding l enc = Some l' \<and> traplog_wf l' \<and> traplog_entries l' = traplog_entries l"
proof -
  note wf = traplog_wfD [OF assms(1)]
  have d: "unat (tl_dropped l) \<le> unat (tl_total l)" using wf(3) by linarith
  have hold: "log_holds l' (traplog_entries l)" using wf(1) by (simp add: l'_def log_holds_def)
  have "unat (tl_total l + 1) = unat (tl_total l) + 1" "unat (tl_dropped l + 1) = unat (tl_dropped l) + 1"
    using assms(2) d by (simp_all add: unat_add_ok)
  moreover have "record_encoding l enc = Some l'"
    using assms(2,3,4) wf(1) d
    by (simp add: record_encoding_def checked_add_def find_slot_def l'_def log_holds_def)
  ultimately show ?thesis
    using wf(2-4) assms(4) by (intro conjI traplog_wfI hold) (auto simp: l'_def)
qed

text \<open>The trap log as a bounded log of encodings.\<close>

definition traplog_keys :: "TrapLog \<Rightarrow> u32 list" where
  "traplog_keys l = map tle_encoding (traplog_entries l)"

definition traplog_room :: "nat \<Rightarrow> TrapLog \<Rightarrow> bool" where
  "traplog_room n l \<longleftrightarrow> traplog_wf l \<and> unat (tl_total l) + n < 2 ^ 64"

lemma record_encoding_ok:
  assumes "traplog_room (Suc n) l"
  shows "\<exists>l'. record_encoding l enc = Some l' \<and> traplog_room n l'
    \<and> traplog_keys l' = log_insert TRAP_LOG_CAPACITY (traplog_keys l) enc
    \<and> tl_total l' = tl_total l + 1"
proof -
  have wf: "traplog_wf l" and t: "unat (tl_total l) + 1 < 2 ^ 64"
    and u: "unat (tl_total l + 1) = unat (tl_total l) + 1"
    using assms by (auto simp: traplog_room_def unat_add_ok)
  note h = traplog_wfD(1) [OF wf]
  have le: "length (traplog_entries l) \<le> TRAP_LOG_CAPACITY" using h by (simp add: log_holds_def)
  show ?thesis
  proof (cases "find_slot l enc")
    case (Some i)
    from find_slot_Some [OF h Some] have i: "i < length (traplog_entries l)"
        "tle_encoding (traplog_entries l ! i) = enc" by auto
    then have "enc \<in> set (traplog_keys l)" by (auto simp: traplog_keys_def)
    with record_known [OF wf t Some] i assms u show ?thesis
      by (auto simp: traplog_room_def traplog_keys_def log_insert_def map_update list_update_same_conv)
  next
    case None
    then have new: "enc \<notin> set (traplog_keys l)"
      using find_slot_None [OF h, of enc] by (simp add: traplog_keys_def)
    show ?thesis
    proof (cases "length (traplog_entries l) = TRAP_LOG_CAPACITY")
      case True
      from record_full [OF wf t None this] new True assms u show ?thesis
        by (auto simp: traplog_room_def traplog_keys_def log_insert_def)
    next
      case False
      with le have "length (traplog_entries l) < TRAP_LOG_CAPACITY" by simp
      from record_new [OF wf t None this] new False assms u show ?thesis
        by (auto simp: traplog_room_def traplog_keys_def log_insert_def)
    qed
  qed
qed

interpretation trap_log: bounded_log TRAP_LOG_CAPACITY record_encoding traplog_keys traplog_room
proof
  fix n l k
  assume "traplog_room (Suc n) l"
  from record_encoding_ok [OF this, of k]
  show "\<exists>l'. record_encoding l k = Some l' \<and> traplog_room n l'
      \<and> traplog_keys l' = log_insert TRAP_LOG_CAPACITY (traplog_keys l) k" by blast
next
  fix n l
  assume "traplog_room n l"
  then show "distinct (traplog_keys l) \<and> length (traplog_keys l) \<le> TRAP_LOG_CAPACITY"
    using traplog_wfD(1,2) [of l] by (simp add: traplog_room_def entries_ok_def traplog_keys_def log_holds_def)
qed

lemma record_trap_ok:
  assumes "traplog_room (Suc n) l"
  shows "\<exists>l'. record_trap l t = Some l' \<and> traplog_room n l'"
  using record_encoding_ok [OF assms] assms
  by (cases t) (auto simp: record_trap_def traplog_room_def)

end
