(* ===== verification/Trace_Sink.thy ===== *)
theory Trace_Sink
  imports Regs
begin

unbundle bit_operations_syntax

text \<open>
  Trace vocabulary, register deltas and sinks (\<open>crates/core/src/trace/format.rs\<close> and
  \<open>sink.rs\<close>). The trait \<open>DeltaOut\<close> is the record \<open>delta_out\<close>, with the locale \<open>delta_sink\<close> for its
  laws, interpreted on \<open>DeltaBuffer\<close> and on \<open>Vec<RegDelta>\<close>; the trait \<open>TraceSink\<close> is the record
  \<open>sink_ops\<close>, with the locale \<open>trace_sink\<close>, interpreted on \<open>NullSink\<close> here and on \<open>CdtWriter\<close> in
  \<open>Cdt_Writer\<close>. Shown: \<open>deltas_between\<close> emits exactly the changed registers, at most 100 of them, and
  applying them to the previous trace view gives the current one.
\<close>

section \<open>Wire constants (format.rs)\<close>

definition MAX_DELTAS_PER_BLOCK :: nat where "MAX_DELTAS_PER_BLOCK = 255"

datatype MarkerKind = TraceStart | Marker_Reset | Annotation

datatype EndReason = End_Normal | LimitReached | GuestHalt

datatype DisconType = Discon_Interrupt | Discon_Exception | HostCall

definition marker_code :: "MarkerKind \<Rightarrow> u64" where
  "marker_code k = (case k of TraceStart \<Rightarrow> 1 | Marker_Reset \<Rightarrow> 2 | Annotation \<Rightarrow> 3)"

definition end_code :: "EndReason \<Rightarrow> u64" where
  "end_code r = (case r of End_Normal \<Rightarrow> 0 | LimitReached \<Rightarrow> 1 | GuestHalt \<Rightarrow> 2)"

definition discon_code :: "DisconType \<Rightarrow> u32" where
  "discon_code d = (case d of Discon_Interrupt \<Rightarrow> 1 | Discon_Exception \<Rightarrow> 2 | HostCall \<Rightarrow> 4)"


section \<open>Deltas and where they go (sink.rs)\<close>

record RegDelta =
  reg_id :: u16
  delta_value :: u64

record 'o delta_out =
  do_clear :: "'o \<Rightarrow> 'o"
  do_push :: "'o \<Rightarrow> RegDelta \<Rightarrow> 'o option"

definition vec_delta_out :: "RegDelta list delta_out" where
  "vec_delta_out = \<lparr> do_clear = (\<lambda>_. []), do_push = (\<lambda>ds d. Some (ds @ [d])) \<rparr>"

record DeltaBuffer =
  db_deltas :: "RegDelta list"
  db_len :: nat

definition delta_buffer_new :: DeltaBuffer where
  "delta_buffer_new = \<lparr> db_deltas = replicate MAX_DELTAS_PER_BLOCK \<lparr> reg_id = 0, delta_value = 0 \<rparr>,
     db_len = 0 \<rparr>"

definition delta_slice :: "DeltaBuffer \<Rightarrow> RegDelta list" where
  "delta_slice b = take (db_len b) (db_deltas b)"

definition buffer_clear :: "DeltaBuffer \<Rightarrow> DeltaBuffer" where
  "buffer_clear b = b\<lparr>db_len := 0\<rparr>"

definition buffer_push :: "DeltaBuffer \<Rightarrow> RegDelta \<Rightarrow> DeltaBuffer option" where
  "buffer_push b d =
     (if db_len b < MAX_DELTAS_PER_BLOCK then do {
        ds \<leftarrow> arr_set (db_deltas b) (db_len b) d;
        Some (b\<lparr>db_deltas := ds, db_len := db_len b + 1\<rparr>)
      } else Some b)"

definition buffer_out :: "DeltaBuffer delta_out" where
  "buffer_out = \<lparr> do_clear = buffer_clear, do_push = buffer_push \<rparr>"

text \<open>The closure \<open>push\<close> of \<open>deltas_between\<close>.\<close>

definition push_changed :: "'o delta_out \<Rightarrow> u16 \<Rightarrow> u64 \<Rightarrow> u64 option \<Rightarrow> 'o \<Rightarrow> 'o option" where
  "push_changed D i v old out =
     (if old \<noteq> Some v then do_push D out \<lparr> reg_id = i, delta_value = v \<rparr> else Some out)"

text \<open>\<open>previous.map(|regs| ..)\<close> with a read that may panic.\<close>

definition prev_map :: "RegFile option \<Rightarrow> (RegFile \<Rightarrow> 'a option) \<Rightarrow> 'a option option" where
  "prev_map p f = (case p of None \<Rightarrow> Some None | Some r \<Rightarrow> map_option Some (f r))"

definition push_gpr_delta ::
  "'o delta_out \<Rightarrow> RegFile option \<Rightarrow> RegFile \<Rightarrow> nat \<Rightarrow> 'o \<Rightarrow> 'o option" where
  "push_gpr_delta D previous current index out = do {
     i \<leftarrow> trace_gpr (of_nat index);
     v \<leftarrow> x_reg current (of_nat index);
     old \<leftarrow> prev_map previous (\<lambda>r. x_reg r (of_nat index));
     push_changed D i v old out
   }"

definition push_vec_delta ::
  "'o delta_out \<Rightarrow> RegFile option \<Rightarrow> RegFile \<Rightarrow> nat \<Rightarrow> 'o \<Rightarrow> 'o option" where
  "push_vec_delta D previous current index out = do {
     reg \<leftarrow> vec_new (of_nat index);
     v \<leftarrow> read_v current reg;
     old \<leftarrow> prev_map previous (\<lambda>r. read_v r reg);
     if old = Some v then Some out
     else do {
       lo \<leftarrow> trace_vec_lo (of_nat index);
       out1 \<leftarrow> do_push D out \<lparr> reg_id = lo, delta_value = ucast v \<rparr>;
       hi \<leftarrow> trace_vec_hi (of_nat index);
       do_push D out1 \<lparr> reg_id = hi, delta_value = ucast (drop_bit 64 v) \<rparr>
     }
   }"

definition push_vec_deltas ::
  "'o delta_out \<Rightarrow> RegFile option \<Rightarrow> RegFile \<Rightarrow> 'o \<Rightarrow> 'o option" where
  "push_vec_deltas D previous current out =
     for_each [0..<VEC_COUNT] (push_vec_delta D previous current) out"

definition deltas_between ::
  "'o delta_out \<Rightarrow> RegFile option \<Rightarrow> RegFile \<Rightarrow> 'o \<Rightarrow> 'o option" where
  "deltas_between D previous current out0 = do {
     let out1 = do_clear D out0;
     out2 \<leftarrow> for_each [0..<NUM_GPR] (push_gpr_delta D previous current) out1;
     out3 \<leftarrow> push_changed D trace_SP (sp current) (map_option sp previous) out2;
     out4 \<leftarrow> push_changed D trace_PC (pc current) (map_option pc previous) out3;
     out5 \<leftarrow> push_changed D trace_PSTATE (to_trace_word (rf_pstate current))
       (map_option (\<lambda>r. to_trace_word (rf_pstate r)) previous) out4;
     out6 \<leftarrow> push_changed D trace_FPCR (rf_fpcr current) (map_option rf_fpcr previous) out5;
     out7 \<leftarrow> push_changed D trace_FPSR (rf_fpsr current) (map_option rf_fpsr previous) out6;
     push_vec_deltas D previous current out7
   }"


section \<open>Sinks\<close>

record ExceptionEvent =
  ev_icount :: u64
  ev_from_pc :: u64
  ev_to_pc :: u64
  ev_discon :: DisconType
  ev_regs :: RegFile

record 's sink_ops =
  sink_enabled :: bool
  on_marker :: "'s \<Rightarrow> MarkerKind \<Rightarrow> u64 \<Rightarrow> u64 \<Rightarrow> 's option"
  on_block :: "'s \<Rightarrow> u64 \<Rightarrow> u64 \<Rightarrow> RegDelta list \<Rightarrow> 's option"
  on_exception :: "'s \<Rightarrow> ExceptionEvent \<Rightarrow> 's option"
  sink_finish :: "'s \<Rightarrow> EndReason \<Rightarrow> u64 \<Rightarrow> 's option"

definition null_sink :: "unit sink_ops" where
  "null_sink = \<lparr> sink_enabled = False, on_marker = (\<lambda>s _ _ _. Some s), on_block = (\<lambda>s _ _ _. Some s),
     on_exception = (\<lambda>s _. Some s), sink_finish = (\<lambda>s _ _. Some s) \<rparr>"

text \<open>What the machine loop relies on: no event the loop sends makes the sink panic.\<close>

locale trace_sink =
  fixes K :: "'s sink_ops"
    and sink_ok :: "'s \<Rightarrow> bool"
  assumes on_marker_ok: "sink_ok s \<Longrightarrow> \<exists>s'. on_marker K s k n v = Some s' \<and> sink_ok s'"
    and on_block_ok: "sink_ok s \<Longrightarrow> length ds \<le> MAX_DELTAS_PER_BLOCK \<Longrightarrow>
      \<exists>s'. on_block K s p n ds = Some s' \<and> sink_ok s'"
    and on_exception_ok: "sink_ok s \<Longrightarrow> regs_wf (ev_regs e) \<Longrightarrow>
      \<exists>s'. on_exception K s e = Some s' \<and> sink_ok s'"
    and finish_ok: "sink_ok s \<Longrightarrow> \<exists>s'. sink_finish K s r n = Some s' \<and> sink_ok s'"

interpretation null: trace_sink null_sink "\<lambda>_. True"
  by unfold_locales (simp_all add: null_sink_def)


section \<open>What \<open>deltas_between\<close> emits\<close>

text \<open>The registers of a trace: their ids with the function that reads them. A vector register
  is two fields, and is reported when either half changed.\<close>

definition scalar_fields :: "(u16 \<times> (RegFile \<Rightarrow> u64)) list" where
  "scalar_fields = map (\<lambda>i. (of_nat i, \<lambda>r. rf_x r ! i)) [0..<NUM_GPR]
     @ [(trace_SP, rf_sp), (trace_PC, rf_pc), (trace_PSTATE, \<lambda>r. to_trace_word (rf_pstate r)),
        (trace_FPCR, rf_fpcr), (trace_FPSR, rf_fpsr)]"

definition changed :: "RegFile option \<Rightarrow> RegFile \<Rightarrow> (RegFile \<Rightarrow> 'a) \<Rightarrow> bool" where
  "changed previous current f \<longleftrightarrow> map_option f previous \<noteq> Some (f current)"

definition scalar_delta :: "RegFile option \<Rightarrow> RegFile \<Rightarrow> u16 \<times> (RegFile \<Rightarrow> u64) \<Rightarrow> RegDelta list" where
  "scalar_delta p c fld = (if changed p c (snd fld)
     then [\<lparr> reg_id = fst fld, delta_value = snd fld c \<rparr>] else [])"

definition vec_lo :: "nat \<Rightarrow> RegFile \<Rightarrow> u64" where "vec_lo i r = ucast (rf_v r ! i)"
definition vec_hi :: "nat \<Rightarrow> RegFile \<Rightarrow> u64" where "vec_hi i r = ucast (drop_bit 64 (rf_v r ! i))"

definition vec_delta :: "RegFile option \<Rightarrow> RegFile \<Rightarrow> nat \<Rightarrow> RegDelta list" where
  "vec_delta p c i = (if changed p c (\<lambda>r. rf_v r ! i)
     then [\<lparr> reg_id = 64 + 2 * of_nat i, delta_value = vec_lo i c \<rparr>,
           \<lparr> reg_id = 65 + 2 * of_nat i, delta_value = vec_hi i c \<rparr>] else [])"

definition delta_list :: "RegFile option \<Rightarrow> RegFile \<Rightarrow> RegDelta list" where
  "delta_list p c = concat (map (scalar_delta p c) scalar_fields)
     @ concat (map (vec_delta p c) [0..<VEC_COUNT])"

locale delta_sink =
  fixes D :: "'o delta_out"
    and view :: "'o \<Rightarrow> RegDelta list"
    and out_wf :: "'o \<Rightarrow> bool"
  assumes clear_ok: "out_wf s \<Longrightarrow> out_wf (do_clear D s) \<and> view (do_clear D s) = []"
    and push_ok: "out_wf s \<Longrightarrow> length (view s) < MAX_DELTAS_PER_BLOCK \<Longrightarrow>
      \<exists>s'. do_push D s d = Some s' \<and> out_wf s' \<and> view s' = view s @ [d]"
begin

text \<open>\<open>emits k f g\<close>: given room for \<open>k\<close> deltas, the step \<open>f\<close> appends the list \<open>g\<close>, of length at most \<open>k\<close>.\<close>

definition emits :: "nat \<Rightarrow> ('o \<Rightarrow> 'o option) \<Rightarrow> RegDelta list \<Rightarrow> bool" where
  "emits k f g \<longleftrightarrow> length g \<le> k \<and> (\<forall>s. out_wf s \<longrightarrow> length (view s) + k \<le> MAX_DELTAS_PER_BLOCK \<longrightarrow>
     (\<exists>s'. f s = Some s' \<and> out_wf s' \<and> view s' = view s @ g))"

lemma emits_bind:
  assumes "emits k f g" "emits k' f' g'"
  shows "emits (k + k') (\<lambda>s. f s \<bind> f') (g @ g')"
  unfolding emits_def
proof (intro conjI allI impI)
  show "length (g @ g') \<le> k + k'" using assms by (simp add: emits_def)
  fix s assume s: "out_wf s" "length (view s) + (k + k') \<le> MAX_DELTAS_PER_BLOCK"
  then have "length (view s) + k \<le> MAX_DELTAS_PER_BLOCK" by simp
  with assms(1) s(1) obtain s1 where s1: "f s = Some s1" "out_wf s1" "view s1 = view s @ g"
    unfolding emits_def by blast
  have "length g \<le> k" using assms(1) by (simp add: emits_def)
  then have "length (view s1) + k' \<le> MAX_DELTAS_PER_BLOCK" using s(2) s1(3) by simp
  with assms(2) s1(2) obtain s2 where "f' s1 = Some s2" "out_wf s2" "view s2 = view s1 @ g'"
    unfolding emits_def by blast
  with s1 show "\<exists>s'. f s \<bind> f' = Some s' \<and> out_wf s' \<and> view s' = view s @ g @ g'" by auto
qed

lemma emits_none: "emits 0 Some []"
  by (simp add: emits_def)

lemma emits_weaken: "emits k f g \<Longrightarrow> k \<le> k' \<Longrightarrow> emits k' f g"
  unfolding emits_def by (meson add_left_mono le_trans)

lemma emits_push: "emits 1 (\<lambda>s. do_push D s d) [d]"
  using push_ok by (auto simp: emits_def)

lemma emits_for_each:
  "(\<And>x. x \<in> set xs \<Longrightarrow> emits k (f x) (g x)) \<Longrightarrow> emits (length xs * k) (for_each xs f) (concat (map g xs))"
proof (induction xs)
  case Nil
  show ?case using emits_none by (simp add: emits_def)
next
  case (Cons x xs)
  have "emits (k + length xs * k) (\<lambda>s. f x s \<bind> for_each xs f) (g x @ concat (map g xs))"
    using Cons by (intro emits_bind) auto
  then show ?case by simp
qed

lemma emits_scalar: "emits 1 (push_changed D i (f c) (map_option f p)) (scalar_delta p c (i, f))"
  using emits_push emits_weaken [OF emits_none, of 1]
  by (auto simp: push_changed_def [abs_def] scalar_delta_def changed_def)

lemma emits_gpr:
  assumes "i < NUM_GPR" "regs_wf c" "pred_option regs_wf p"
  shows "emits 1 (push_gpr_delta D p c i) (scalar_delta p c (of_nat i, \<lambda>r. rf_x r ! i))"
proof -
  have i: "unat (of_nat i :: u8) = i" using assms(1) by (intro unat_of_nat_small) (simp add: NUM_GPR_def)
  have "x_reg r (of_nat i) = Some (rf_x r ! i)" if "regs_wf r" for r
    using that assms(1) i by (simp add: x_reg_def regs_wf_def)
  then have "prev_map p (\<lambda>r. x_reg r (of_nat i)) = Some (map_option (\<lambda>r. rf_x r ! i) p)"
      "x_reg c (of_nat i) = Some (rf_x c ! i)"
    using assms(2,3) by (auto simp: prev_map_def split: option.splits)
  moreover have "trace_gpr (of_nat i) = Some (of_nat i)"
    using assms(1) i unat_of_nat_small [of i, where 'a = 16]
    by (simp add: trace_gpr_def trace_X0_def NUM_GPR_def word_unat_eq_iff unat_ucast_up)
  ultimately show ?thesis
    using emits_scalar [of "of_nat i" "\<lambda>r. rf_x r ! i" c p] by (simp add: push_gpr_delta_def [abs_def])
qed

lemma emits_vec:
  assumes "i < VEC_COUNT" "regs_wf c" "pred_option regs_wf p"
  shows "emits 2 (push_vec_delta D p c i) (vec_delta p c i)"
proof -
  have i: "unat (of_nat i :: u8) = i" using assms(1) by (intro unat_of_nat_small) (simp add: VEC_COUNT_def)
  have r: "vec_new (of_nat i) = Some (VecReg (of_nat i))"
    using assms(1) i by (simp add: vec_new_def word_less_nat_alt VEC_COUNT_def)
  have "read_v r (VecReg (of_nat i)) = Some (rf_v r ! i)" if "regs_wf r" for r
    using that assms(1) i by (simp add: read_v_def regs_wf_def)
  then have v: "prev_map p (\<lambda>r. read_v r (VecReg (of_nat i))) = Some (map_option (\<lambda>r. rf_v r ! i) p)"
      "read_v c (VecReg (of_nat i)) = Some (rf_v c ! i)"
    using assms(2,3) by (auto simp: prev_map_def split: option.splits)
  have "(ucast (of_nat i :: u8) :: u16) = of_nat i"
    using i unat_of_nat_small [of i, where 'a = 16] assms(1)
    by (simp add: VEC_COUNT_def word_unat_eq_iff unat_ucast_up)
  then have ids: "trace_vec_lo (of_nat i) = Some (64 + 2 * of_nat i)"
      "trace_vec_hi (of_nat i) = Some (65 + 2 * of_nat i)"
    using i assms(1) by (simp_all add: trace_vec_hi_def trace_vec_lo_def trace_V_BASE_def)
  show ?thesis
  proof (cases "map_option (\<lambda>r. rf_v r ! i) p = Some (rf_v c ! i)")
    case True
    then show ?thesis
      using emits_weaken [OF emits_none, of 2] v
      by (simp add: push_vec_delta_def [abs_def] r vec_delta_def changed_def)
  next
    case False
    then show ?thesis
      using emits_bind [OF emits_push emits_push] v
      by (cases p) (simp_all add: push_vec_delta_def [abs_def] r ids vec_delta_def vec_lo_def
          vec_hi_def changed_def numeral_2_eq_2)
  qed
qed

text \<open>The whole diff fits the buffer: 31 general registers, five others and 32 vector pairs.\<close>

lemma deltas_between_ok:
  assumes "regs_wf c" "pred_option regs_wf p" "out_wf s"
  shows "\<exists>s'. deltas_between D p c s = Some s' \<and> out_wf s' \<and> view s' = delta_list p c
    \<and> length (delta_list p c) \<le> 100"
proof -
  have g: "emits (length [0..<NUM_GPR] * 1) (for_each [0..<NUM_GPR] (push_gpr_delta D p c))
      (concat (map (\<lambda>i. scalar_delta p c (of_nat i, \<lambda>r. rf_x r ! i)) [0..<NUM_GPR]))"
    using assms(1,2) by (intro emits_for_each emits_gpr) auto
  have v: "emits (length [0..<VEC_COUNT] * 2) (push_vec_deltas D p c) (concat (map (vec_delta p c) [0..<VEC_COUNT]))"
    unfolding push_vec_deltas_def [abs_def] using assms(1,2) by (intro emits_for_each emits_vec) auto
  note sc = emits_scalar [of _ _ c p]
  have "emits 100 (\<lambda>s. for_each [0..<NUM_GPR] (push_gpr_delta D p c) s \<bind> (\<lambda>s.
      push_changed D trace_SP (rf_sp c) (map_option rf_sp p) s \<bind> (\<lambda>s.
      push_changed D trace_PC (rf_pc c) (map_option rf_pc p) s \<bind> (\<lambda>s.
      push_changed D trace_PSTATE (to_trace_word (rf_pstate c)) (map_option (\<lambda>r. to_trace_word (rf_pstate r)) p) s \<bind> (\<lambda>s.
      push_changed D trace_FPCR (rf_fpcr c) (map_option rf_fpcr p) s \<bind> (\<lambda>s.
      push_changed D trace_FPSR (rf_fpsr c) (map_option rf_fpsr p) s \<bind> push_vec_deltas D p c))))))
      (delta_list p c)"
    using emits_bind [OF g emits_bind [OF sc emits_bind [OF sc emits_bind [OF sc emits_bind [OF sc
      emits_bind [OF sc v]]]]]]
    by (simp add: delta_list_def scalar_fields_def comp_def NUM_GPR_def VEC_COUNT_def)
  then show ?thesis
    using clear_ok [OF assms(3)] unfolding emits_def
    by (elim conjE allE [of _ "do_clear D s"])
      (simp add: deltas_between_def sp_def [abs_def] pc_def [abs_def] MAX_DELTAS_PER_BLOCK_def)
qed

end

definition buffer_wf :: "DeltaBuffer \<Rightarrow> bool" where
  "buffer_wf b \<longleftrightarrow> length (db_deltas b) = MAX_DELTAS_PER_BLOCK \<and> db_len b \<le> MAX_DELTAS_PER_BLOCK"

lemma buffer_new_wf [simp]: "buffer_wf delta_buffer_new"
  by (simp add: buffer_wf_def delta_buffer_new_def)

interpretation delta_buffer: delta_sink buffer_out delta_slice buffer_wf
  by unfold_locales
    (auto simp: buffer_out_def buffer_clear_def buffer_push_def delta_slice_def buffer_wf_def
      take_Suc_conv_app_nth)

interpretation delta_vec: delta_sink vec_delta_out id "\<lambda>_. True"
  by unfold_locales (auto simp: vec_delta_out_def)


section \<open>A reader of the deltas recovers the state\<close>

text \<open>The trace view of a register file: what each trace id reads. A consumer of the stream keeps
  such a view and updates it with each delta.\<close>

definition all_fields :: "(u16 \<times> (RegFile \<Rightarrow> u64)) list" where
  "all_fields = scalar_fields
     @ concat (map (\<lambda>i. [(64 + 2 * of_nat i, vec_lo i), (65 + 2 * of_nat i, vec_hi i)]) [0..<VEC_COUNT])"

definition trace_view :: "RegFile \<Rightarrow> u16 \<rightharpoonup> u64" where
  "trace_view r = map_of (map (\<lambda>(i, f). (i, f r)) all_fields)"

definition apply_deltas :: "(u16 \<rightharpoonup> u64) \<Rightarrow> RegDelta list \<Rightarrow> (u16 \<rightharpoonup> u64)" where
  "apply_deltas m ds = foldl (\<lambda>m d. m(reg_id d \<mapsto> delta_value d)) m ds"

lemma field_ids: "map fst all_fields = map of_nat ([0..<36] @ [64..<128])"
  by (simp add: all_fields_def scalar_fields_def trace_id_defs NUM_GPR_def VEC_COUNT_def upt_conv_Cons)

lemma distinct_field_ids: "distinct (map fst all_fields)"
proof -
  let ?ids = "[0..<36] @ [64..<128]"
  have small: "unat (of_nat a :: u16) = a" if "a \<in> set ?ids" for a
    using that by (intro unat_of_nat_small) auto
  have "inj_on (of_nat :: nat \<Rightarrow> u16) (set ?ids)"
  proof (rule inj_onI)
    fix a b assume ab: "a \<in> set ?ids" "b \<in> set ?ids" and "(of_nat a :: u16) = of_nat b"
    then have "unat (of_nat a :: u16) = unat (of_nat b :: u16)" by (simp only:)
    then show "a = b" unfolding small [OF ab(1)] small [OF ab(2)] .
  qed
  moreover have "distinct ?ids" unfolding distinct_append by auto
  ultimately show ?thesis unfolding field_ids distinct_map by blast
qed

lemma trace_view_field: "(i, f) \<in> set all_fields \<Longrightarrow> trace_view r i = Some (f r)"
  unfolding trace_view_def using distinct_field_ids
  by (intro map_of_is_SomeI) (force simp: comp_def case_prod_unfold)+

lemma trace_view_None: "i \<notin> fst ` set all_fields \<Longrightarrow> trace_view r i = None"
  by (force simp: trace_view_def map_of_eq_None_iff)

lemma apply_deltas_lookup:
  "(\<And>d. d \<in> set ds \<Longrightarrow> reg_id d = k \<Longrightarrow> delta_value d = v) \<Longrightarrow>
     apply_deltas m ds k = (if k \<in> reg_id ` set ds then Some v else m k)"
  by (induction ds arbitrary: m) (auto simp: apply_deltas_def)

lemma delta_is_field:
  "d \<in> set (delta_list p c) \<Longrightarrow> \<exists>f. (reg_id d, f) \<in> set all_fields \<and> delta_value d = f c"
  by (fastforce simp: delta_list_def scalar_delta_def vec_delta_def all_fields_def split: if_splits)

lemma changed_field_emitted:
  "(i, f) \<in> set all_fields \<Longrightarrow> changed p c f \<Longrightarrow> i \<in> reg_id ` set (delta_list p c)"
proof -
  assume "(i, f) \<in> set all_fields" and ch: "changed p c f"
  then consider "(i, f) \<in> set scalar_fields"
    | j where "j < VEC_COUNT" "i = 64 + 2 * of_nat j \<and> f = vec_lo j \<or> i = 65 + 2 * of_nat j \<and> f = vec_hi j"
    by (auto simp: all_fields_def)
  then show ?thesis
  proof cases
    case 1
    have "i \<in> reg_id ` set (scalar_delta p c (i, f))" using ch by (simp add: scalar_delta_def)
    with 1 show ?thesis by (force simp: delta_list_def)
  next
    case (2 j)
    have "changed p c (\<lambda>r. rf_v r ! j)"
      using ch 2(2) by (cases p) (auto simp: changed_def vec_lo_def vec_hi_def)
    then have "i \<in> reg_id ` set (vec_delta p c j)" using 2(2) by (auto simp: vec_delta_def)
    with 2(1) show ?thesis by (force simp: delta_list_def)
  qed
qed

lemma apply_delta_list:
  assumes "p = None \<Longrightarrow> dom m \<subseteq> fst ` set all_fields" "\<And>r. p = Some r \<Longrightarrow> m = trace_view r"
  shows "apply_deltas m (delta_list p c) = trace_view c"
proof
  fix k
  show "apply_deltas m (delta_list p c) k = trace_view c k"
  proof (cases "k \<in> fst ` set all_fields")
    case False
    then have "k \<notin> reg_id ` set (delta_list p c)" using delta_is_field by force
    moreover have "m k = None"
      using False assms trace_view_None by (cases p) (auto simp: domIff)
    ultimately show ?thesis
      using False by (subst apply_deltas_lookup) (auto simp: trace_view_None)
  next
    case True
    then obtain f where f: "(k, f) \<in> set all_fields" by auto
    have "delta_value d = f c" if "d \<in> set (delta_list p c)" "reg_id d = k" for d
      using delta_is_field [OF that(1)] that(2) f eq_key_imp_eq_value [OF distinct_field_ids] by metis
    then have "apply_deltas m (delta_list p c) k
        = (if k \<in> reg_id ` set (delta_list p c) then Some (f c) else m k)"
      by (rule apply_deltas_lookup)
    moreover have "m k = Some (f c)" if "k \<notin> reg_id ` set (delta_list p c)"
      using changed_field_emitted [OF f, of p c] that assms(2) trace_view_field [OF f]
      by (cases p) (auto simp: changed_def)
    ultimately show ?thesis using trace_view_field [OF f, of c] by auto
  qed
qed

text \<open>The trace view determines the register file.\<close>

lemma vec_halves: "(v :: u128) = ucast (ucast v :: u64) OR push_bit 64 (ucast (ucast (drop_bit 64 v) :: u64))"
  by (rule bit_word_eqI) (auto simp: bit_simps)

lemma trace_view_inj:
  assumes "regs_wf r" "regs_wf r'" "trace_view r = trace_view r'"
  shows "r = r'"
proof -
  have eq: "f r = f r'" if "(i, f) \<in> set all_fields" for i f
    using trace_view_field [OF that, of r] trace_view_field [OF that, of r'] assms(3) by simp
  have x: "rf_x r = rf_x r'"
  proof (rule nth_equalityI)
    fix i assume "i < length (rf_x r)"
    then have "(of_nat i, \<lambda>r. rf_x r ! i) \<in> set all_fields"
      using assms(1) by (auto simp: regs_wf_def all_fields_def scalar_fields_def)
    from eq [OF this] show "rf_x r ! i = rf_x r' ! i" .
  qed (use assms in \<open>simp add: regs_wf_def\<close>)
  have v: "rf_v r = rf_v r'"
  proof (rule nth_equalityI)
    fix i assume "i < length (rf_v r)"
    then have "(64 + 2 * of_nat i, vec_lo i) \<in> set all_fields" "(65 + 2 * of_nat i, vec_hi i) \<in> set all_fields"
      using assms(1) by (auto simp: regs_wf_def all_fields_def)
    from eq [OF this(1)] eq [OF this(2)] show "rf_v r ! i = rf_v r' ! i"
      unfolding vec_lo_def vec_hi_def by (metis vec_halves)
  qed (use assms in \<open>simp add: regs_wf_def\<close>)
  have "(trace_SP, rf_sp) \<in> set all_fields" "(trace_PC, rf_pc) \<in> set all_fields"
      "(trace_PSTATE, \<lambda>r. to_trace_word (rf_pstate r)) \<in> set all_fields"
      "(trace_FPCR, rf_fpcr) \<in> set all_fields" "(trace_FPSR, rf_fpsr) \<in> set all_fields"
    by (simp_all add: all_fields_def scalar_fields_def)
  from this [THEN eq] have "rf_sp r = rf_sp r'" "rf_pc r = rf_pc r'" "rf_fpcr r = rf_fpcr r'"
      "rf_fpsr r = rf_fpsr r'" "to_trace_word (rf_pstate r) = to_trace_word (rf_pstate r')"
    by simp_all
  moreover from this(5) have "rf_pstate r = rf_pstate r'" by (metis of_trace_word_to_trace_word)
  ultimately show ?thesis using x v by (intro RegFile.equality) simp_all
qed

end
