(* ===== verification/Interp.thy ===== *)
theory Interp
  imports Fetch Memory Cache Trap_Log Trace_Sink
begin

unbundle bit_operations_syntax

text \<open>
  The interpreter (\<open>crates/core/src/interp/mod.rs\<close> and \<open>dispatch.rs\<close>): the CPU state, one definition
  per dispatch arm, \<open>step\<close> and \<open>run\<close>. The type parameters \<open>M: Memory\<close> and \<open>S: TraceSink\<close> of \<open>Cpu\<close> are
  the operation records \<open>M\<close> and \<open>K\<close>. An operation returns \<open>None\<close> for a panic; its Rust \<open>Result\<close> is the
  first component of the pair it returns, beside the updated CPU.
\<close>

section \<open>State\<close>

record ('m, 's) Cpu =
  cpu_regs :: RegFile
  cpu_memory :: 'm
  cpu_trap_log :: TrapLog
  cpu_sink :: 's
  cpu_cache :: DecodeCache
  cpu_icount :: u64
  cpu_previous :: "RegFile option"
  cpu_deltas :: DeltaBuffer

datatype Stop = BudgetExhausted | Trapped Trap

datatype Flow = Flow_Next | Flow_Branched

definition cpu_with_sink :: "'m \<Rightarrow> 's \<Rightarrow> ('m, 's) Cpu" where
  "cpu_with_sink memory sink = \<lparr> cpu_regs = regfile_new, cpu_memory = memory, cpu_trap_log = traplog_new,
     cpu_sink = sink, cpu_cache = cache_new, cpu_icount = 0, cpu_previous = None,
     cpu_deltas = delta_buffer_new \<rparr>"

definition cpu_new :: "'m \<Rightarrow> ('m, unit) Cpu" where
  "cpu_new memory = cpu_with_sink memory ()"

definition icount :: "('m, 's) Cpu \<Rightarrow> u64" where "icount cpu = cpu_icount cpu"

definition decode_count :: "('m, 's) Cpu \<Rightarrow> u64" where "decode_count cpu = cache_misses (cpu_cache cpu)"


section \<open>Dispatch arms (dispatch.rs)\<close>

definition write_result :: "('m, 's) Cpu \<Rightarrow> Gpr \<Rightarrow> u64 \<Rightarrow> RegWidth \<Rightarrow> ('m, 's) Cpu option" where
  "write_result cpu rd v width = do {
     r \<leftarrow> (case width of W32 \<Rightarrow> write_w (cpu_regs cpu) rd (ucast v) | X64 \<Rightarrow> write_x (cpu_regs cpu) rd v);
     Some (cpu\<lparr>cpu_regs := r\<rparr>)
   }"

definition set_nzcv :: "('m, 's) Cpu \<Rightarrow> Nzcv \<Rightarrow> ('m, 's) Cpu" where
  "set_nzcv cpu f = cpu\<lparr>cpu_regs := (cpu_regs cpu)
     \<lparr>rf_pstate := (rf_pstate (cpu_regs cpu))\<lparr>ps_nzcv := f\<rparr>\<rparr>\<rparr>"

definition arithmetic :: "('m, 's) Cpu \<Rightarrow> Instruction \<Rightarrow> ((Trap + Flow) \<times> ('m, 's) Cpu) option" where
  "arithmetic cpu insn = do {
     let width = insn_width insn;
     ops \<leftarrow> (case insn_form insn of
         Form_RegImm rd rn imm \<Rightarrow> Some (Some (rd, rn, imm))
       | Form_RegShifted rd rn rm \<Rightarrow> do { v \<leftarrow> read_shifted (cpu_regs cpu) rm width; Some (Some (rd, rn, v)) }
       | Form_RegExtended rd rn rm \<Rightarrow> do { v \<leftarrow> read_extended (cpu_regs cpu) rm; Some (Some (rd, rn, v)) }
       | _ \<Rightarrow> Some None);
     (case ops of
        None \<Rightarrow> Some (Inl (trap_undefined (pc (cpu_regs cpu)) insn), cpu)
      | Some (rd, rn, operand) \<Rightarrow> do {
          left \<leftarrow> read_gpr (cpu_regs cpu) rn width;
          let is_sub = (insn_op insn = Op_Sub);
          let right = (if is_sub then NOT operand else operand);
          let res = add_with_carry (left, right) is_sub width;
          cpu1 \<leftarrow> write_result cpu rd (fr_value res) width;
          Some (Inr Flow_Next, if sets_flags insn then set_nzcv cpu1 (fr_flags res) else cpu1)
        })
   }"

definition logical :: "('m, 's) Cpu \<Rightarrow> Instruction \<Rightarrow> ((Trap + Flow) \<times> ('m, 's) Cpu) option" where
  "logical cpu insn = do {
     let width = insn_width insn;
     ops \<leftarrow> (case insn_form insn of
         Form_RegImm rd rn imm \<Rightarrow> Some (Some (rd, rn, imm))
       | Form_RegShifted rd rn rm \<Rightarrow> do { v \<leftarrow> read_shifted (cpu_regs cpu) rm width; Some (Some (rd, rn, v)) }
       | _ \<Rightarrow> Some None);
     (case ops of
        None \<Rightarrow> Some (Inl (trap_undefined (pc (cpu_regs cpu)) insn), cpu)
      | Some (rd, rn, operand) \<Rightarrow> do {
          left \<leftarrow> read_gpr (cpu_regs cpu) rn width;
          let o1 = insn_op insn;
          let v = (if o1 = Op_And then left AND operand
                   else if o1 = Op_Bic then left AND NOT operand
                   else if o1 = Op_Orr then left OR operand
                   else if o1 = Op_Orn then left OR NOT operand
                   else if o1 = Op_Eor then left XOR operand
                   else left XOR NOT operand);
          cpu1 \<leftarrow> write_result cpu rd v width;
          Some (Inr Flow_Next, if sets_flags insn then set_nzcv cpu1 (logical_flags v width) else cpu1)
        })
   }"

definition branch_immediate ::
  "('m, 's) Cpu \<Rightarrow> Instruction \<Rightarrow> u64 \<Rightarrow> ((Trap + Flow) \<times> ('m, 's) Cpu) option" where
  "branch_immediate cpu insn pc1 = (case insn_form insn of
       Form_Branch offset \<Rightarrow> do {
         regs1 \<leftarrow> (if insn_op insn = Op_Bl then write_x (cpu_regs cpu) (Gpr_X 30) (pc1 + INSN_BYTES)
                   else Some (cpu_regs cpu));
         Some (Inr Flow_Branched, cpu\<lparr>cpu_regs := set_pc regs1 (pc1 + offset)\<rparr>)
       }
     | _ \<Rightarrow> Some (Inl (trap_undefined pc1 insn), cpu))"

definition branch_register ::
  "('m, 's) Cpu \<Rightarrow> Instruction \<Rightarrow> u64 \<Rightarrow> ((Trap + Flow) \<times> ('m, 's) Cpu) option" where
  "branch_register cpu insn pc1 = (case insn_form insn of
       Form_BranchIndirect rn \<Rightarrow> do {
         target \<leftarrow> read_x (cpu_regs cpu) rn;
         regs1 \<leftarrow> (if insn_op insn = Op_Blr then write_x (cpu_regs cpu) (Gpr_X 30) (pc1 + INSN_BYTES)
                   else Some (cpu_regs cpu));
         Some (Inr Flow_Branched, cpu\<lparr>cpu_regs := set_pc regs1 target\<rparr>)
       }
     | _ \<Rightarrow> Some (Inl (trap_undefined pc1 insn), cpu))"

definition sign_extend_u64 :: "u64 \<Rightarrow> nat \<Rightarrow> u64 option" where
  "sign_extend_u64 v n = (if 64 \<le> n then Some v
     else let shift = 64 - n in do { s \<leftarrow> shl_chk v shift; sar_chk s shift })"

definition transfer ::
  "'m mem_ops \<Rightarrow> ('m, 's) Cpu \<Rightarrow> Gpr \<times> u64 \<times> bool \<Rightarrow> Instruction \<Rightarrow> AccessSize
     \<Rightarrow> ((AccessFault + unit) \<times> ('m, 's) Cpu) option" where
  "transfer M cpu access insn sz = (case access of (rt, address, is_write) \<Rightarrow>
     if is_write then do {
       v \<leftarrow> read_gpr (cpu_regs cpu) rt (insn_width insn);
       (res, m) \<leftarrow> write_uint M (cpu_memory cpu) address (as_bytes sz) v;
       Some (res, cpu\<lparr>cpu_memory := m\<rparr>)
     } else do {
       res \<leftarrow> read_uint M (cpu_memory cpu) address (as_bytes sz);
       (case res of
          Inl f \<Rightarrow> Some (Inl f, cpu)
        | Inr raw \<Rightarrow> do {
            v \<leftarrow> (if as_signed sz then sign_extend_u64 raw (unat (as_bytes sz) * 8) else Some raw);
            cpu1 \<leftarrow> write_result cpu rt v (insn_width insn);
            Some (Inr (), cpu1)
          })
     })"

definition data_abort :: "u64 \<Rightarrow> u64 \<Rightarrow> bool \<Rightarrow> Trap" where
  "data_abort pc1 address is_write = DataAbort pc1 address is_write"

definition load_store ::
  "'m mem_ops \<Rightarrow> ('m, 's) Cpu \<Rightarrow> Instruction \<Rightarrow> u64 \<Rightarrow> ((Trap + Flow) \<times> ('m, 's) Cpu) option" where
  "load_store M cpu insn pc1 = (case insn_form insn of
       Form_LoadStore rt None rs addr sz order \<Rightarrow> do {
         computed \<leftarrow> effective_address (cpu_regs cpu) addr pc1;
         let is_write = (insn_op insn = Op_Str);
         (res, cpu1) \<leftarrow> transfer M cpu (rt, ea_address computed, is_write) insn sz;
         (case res of
            Inl _ \<Rightarrow> Some (Inl (data_abort pc1 (ea_address computed) is_write), cpu1)
          | Inr _ \<Rightarrow> do {
              regs1 \<leftarrow> (case ea_writeback computed of
                  None \<Rightarrow> Some (cpu_regs cpu1)
                | Some (b, v) \<Rightarrow> write_x (cpu_regs cpu1) b v);
              Some (Inr Flow_Next, cpu1\<lparr>cpu_regs := regs1\<rparr>)
            })
       }
     | _ \<Rightarrow> Some (Inl (trap_undefined pc1 insn), cpu))"

definition supervisor_call :: "Instruction \<Rightarrow> u64 \<Rightarrow> Trap" where
  "supervisor_call insn pc1 = (case insn_form insn of
     Form_Imm imm \<Rightarrow> SupervisorCall pc1 (ucast imm) | _ \<Rightarrow> trap_undefined pc1 insn)"

definition breakpoint :: "Instruction \<Rightarrow> u64 \<Rightarrow> Trap" where
  "breakpoint insn pc1 = (case insn_form insn of
     Form_Imm imm \<Rightarrow> Breakpoint pc1 (ucast imm) | _ \<Rightarrow> trap_undefined pc1 insn)"

definition execute ::
  "'m mem_ops \<Rightarrow> ('m, 's) Cpu \<Rightarrow> Instruction \<Rightarrow> u64 \<Rightarrow> ((Trap + Flow) \<times> ('m, 's) Cpu) option" where
  "execute M cpu insn pc1 =
     (let o1 = insn_op insn in
      if o1 = Op_Add \<or> o1 = Op_Sub then arithmetic cpu insn
      else if o1 = Op_And \<or> o1 = Op_Orr \<or> o1 = Op_Eor \<or> o1 = Op_Bic \<or> o1 = Op_Orn \<or> o1 = Op_Eon
        then logical cpu insn
      else if o1 = Op_B \<or> o1 = Op_Bl then branch_immediate cpu insn pc1
      else if o1 = Op_Br \<or> o1 = Op_Blr \<or> o1 = Op_Ret then branch_register cpu insn pc1
      else if o1 = Op_Nop then Some (Inr Flow_Next, cpu)
      else if o1 = Op_Ldr \<or> o1 = Op_Str then load_store M cpu insn pc1
      else if o1 = Op_Svc then Some (Inl (supervisor_call insn pc1), cpu)
      else if o1 = Op_Brk then Some (Inl (breakpoint insn pc1), cpu)
      else Some (Inl (trap_undefined pc1 insn), cpu))"


section \<open>The loop (mod.rs)\<close>

definition fetch :: "'m mem_ops \<Rightarrow> ('m, 's) Cpu \<Rightarrow> u64 \<Rightarrow> (Trap + u32) option" where
  "fetch M cpu pc1 = do {
     res \<leftarrow> mem_read M (cpu_memory cpu) pc1 4;
     (case res of Inl _ \<Rightarrow> Some (Inl (InstructionAbort pc1)) | Inr word \<Rightarrow> Some (Inr (from_le word)))
   }"

text \<open>The \<open>if S::ENABLED\<close> block of \<open>step\<close>.\<close>

definition trace_block :: "'s sink_ops \<Rightarrow> ('m, 's) Cpu \<Rightarrow> u64 \<Rightarrow> ('m, 's) Cpu option" where
  "trace_block K cpu pc1 =
     (if sink_enabled K then do {
        ds \<leftarrow> deltas_between buffer_out (cpu_previous cpu) (cpu_regs cpu) (cpu_deltas cpu);
        s \<leftarrow> on_block K (cpu_sink cpu) pc1 (cpu_icount cpu) (delta_slice ds);
        Some (cpu\<lparr>cpu_deltas := ds, cpu_sink := s, cpu_previous := Some (cpu_regs cpu)\<rparr>)
      } else Some cpu)"

definition step ::
  "'m mem_ops \<Rightarrow> 's sink_ops \<Rightarrow> ('m, 's) Cpu \<Rightarrow> ((Trap + unit) \<times> ('m, 's) Cpu) option" where
  "step M K cpu = do {
     let pc1 = pc (cpu_regs cpu);
     fetched \<leftarrow> fetch M cpu pc1;
     (case fetched of
        Inl t \<Rightarrow> Some (Inl t, cpu)
      | Inr encoding \<Rightarrow> do {
          (insn, cache) \<leftarrow> cache_decoded (cpu_cache cpu) pc1 encoding;
          let cpu1 = cpu\<lparr>cpu_cache := cache\<rparr>;
          cpu2 \<leftarrow> trace_block K cpu1 pc1;
          (outcome, cpu3) \<leftarrow> execute M cpu2 insn pc1;
          (case outcome of
             Inl t \<Rightarrow> do {
               l \<leftarrow> record_trap (cpu_trap_log cpu3) t;
               Some (Inl t, cpu3\<lparr>cpu_trap_log := l\<rparr>)
             }
           | Inr flow \<Rightarrow> do {
               let cpu4 = (case flow of
                   Flow_Next \<Rightarrow> cpu3\<lparr>cpu_regs := set_pc (cpu_regs cpu3) (pc1 + INSN_BYTES)\<rparr>
                 | Flow_Branched \<Rightarrow> cpu3);
               n \<leftarrow> checked_add (cpu_icount cpu4) 1;
               Some (Inr (), cpu4\<lparr>cpu_icount := n\<rparr>)
             })
        })
   }"

text \<open>\<open>for _ in 0..budget\<close>.\<close>

primrec run_loop ::
  "'m mem_ops \<Rightarrow> 's sink_ops \<Rightarrow> nat \<Rightarrow> ('m, 's) Cpu \<Rightarrow> (Stop \<times> ('m, 's) Cpu) option" where
  "run_loop M K 0 cpu = Some (BudgetExhausted, cpu)"
| "run_loop M K (Suc n) cpu = do {
     (r, cpu1) \<leftarrow> step M K cpu;
     (case r of Inl t \<Rightarrow> Some (Trapped t, cpu1) | Inr _ \<Rightarrow> run_loop M K n cpu1)
   }"

definition run :: "'m mem_ops \<Rightarrow> 's sink_ops \<Rightarrow> ('m, 's) Cpu \<Rightarrow> u64 \<Rightarrow> (Stop \<times> ('m, 's) Cpu) option" where
  "run M K cpu budget = run_loop M K (unat budget) cpu"

definition cpu_on_exception ::
  "'s sink_ops \<Rightarrow> ('m, 's) Cpu \<Rightarrow> u64 \<Rightarrow> u64 \<Rightarrow> DisconType \<Rightarrow> ('m, 's) Cpu option" where
  "cpu_on_exception K cpu from_pc to_pc discon =
     (if sink_enabled K then do {
        s \<leftarrow> on_exception K (cpu_sink cpu) \<lparr> ev_icount = cpu_icount cpu, ev_from_pc = from_pc,
          ev_to_pc = to_pc, ev_discon = discon, ev_regs = cpu_regs cpu \<rparr>;
        Some (cpu\<lparr>cpu_sink := s, cpu_previous := None\<rparr>)
      } else Some cpu)"


section \<open>The arms on well-formed instructions\<close>

lemma write_result_ok:
  assumes "regs_wf (cpu_regs c)" "gpr_wf rd"
  shows "write_result c rd v w
    = Some (c\<lparr>cpu_regs := x_upd (cpu_regs c) rd (take_bit (width_bits w) v)\<rparr>)"
proof -
  have "(ucast (ucast v :: u32) :: u64) = take_bit 32 v"
    by (rule bit_word_eqI) (auto simp: bit_simps)
  moreover have "take_bit 64 v = v" by (simp add: take_bit_word_eq_self)
  ultimately show ?thesis
    using assms by (cases w) (simp_all add: write_result_def write_w_ok write_x_ok)
qed

lemma sign_extend_u64_eq: "sign_extend_u64 v n = sign_extend_to_64 v n"
  by (simp add: sign_extend_u64_def sign_extend_to_64_def)

lemma set_nzcv_simps [simp]:
  "regs_wf (cpu_regs (set_nzcv c f)) = regs_wf (cpu_regs c)" "cpu_memory (set_nzcv c f) = cpu_memory c"
  "rf_pc (cpu_regs (set_nzcv c f)) = rf_pc (cpu_regs c)"
  by (simp_all add: set_nzcv_def regs_wf_def)

text \<open>What every arm keeps: only the registers and the memory change, a trapping arm changes
  nothing at all, and only a branch touches the program counter.\<close>

definition same_rest :: "('m, 's) Cpu \<Rightarrow> ('m, 's) Cpu \<Rightarrow> bool" where
  "same_rest c c' \<longleftrightarrow> cpu_trap_log c' = cpu_trap_log c \<and> cpu_sink c' = cpu_sink c
     \<and> cpu_cache c' = cpu_cache c \<and> cpu_icount c' = cpu_icount c \<and> cpu_previous c' = cpu_previous c
     \<and> cpu_deltas c' = cpu_deltas c"

definition arm_ok :: "('m, 's) Cpu \<Rightarrow> ((Trap + Flow) \<times> ('m, 's) Cpu) option \<Rightarrow> bool" where
  "arm_ok c res \<longleftrightarrow> (\<exists>out c'. res = Some (out, c') \<and> same_rest c c' \<and> regs_wf (cpu_regs c')
     \<and> (isl out \<longrightarrow> c' = c) \<and> (out = Inr Flow_Next \<longrightarrow> rf_pc (cpu_regs c') = rf_pc (cpu_regs c)))"

lemma same_rest_refl [simp]: "same_rest c c"
  by (simp add: same_rest_def)

lemma same_rest_upd [simp]:
  "same_rest c (c'\<lparr>cpu_regs := r\<rparr>) = same_rest c c'" "same_rest c (c'\<lparr>cpu_memory := m\<rparr>) = same_rest c c'"
  "same_rest c (set_nzcv c' f) = same_rest c c'"
  by (simp_all add: same_rest_def set_nzcv_def)

lemma arm_ok_trap [simp]: "regs_wf (cpu_regs c) \<Longrightarrow> arm_ok c (Some (Inl t, c))"
  by (simp add: arm_ok_def)

definition keeps_memory :: "('m, 's) Cpu \<Rightarrow> ((Trap + Flow) \<times> ('m, 's) Cpu) option \<Rightarrow> bool" where
  "keeps_memory c res \<longleftrightarrow> (\<forall>out c'. res = Some (out, c') \<longrightarrow> cpu_memory c' = cpu_memory c)"

lemma arithmetic_ok:
  assumes "regs_wf (cpu_regs c)" "insn_wf i"
  shows "arm_ok c (arithmetic c i) \<and> keeps_memory c (arithmetic c i)"
proof (cases "insn_form i")
  case (Form_RegShifted rd rn rm)
  then obtain v where "read_shifted (cpu_regs c) rm (insn_width i) = Some v"
    using assms read_shifted_ok [of "cpu_regs c" "insn_width i" rm] by (auto simp: insn_wf_def)
  then show ?thesis
    using assms Form_RegShifted
    by (simp add: arithmetic_def Let_def insn_wf_def read_gpr_ok write_result_ok arm_ok_def keeps_memory_def)
next
  case (Form_RegExtended rd rn rm)
  then show ?thesis
    using assms
    by (simp add: arithmetic_def Let_def insn_wf_def read_extended_ok read_gpr_ok write_result_ok
        arm_ok_def keeps_memory_def)
qed (use assms in \<open>simp_all add: arithmetic_def Let_def insn_wf_def read_gpr_ok write_result_ok arm_ok_def
        keeps_memory_def\<close>)

lemma logical_ok:
  assumes "regs_wf (cpu_regs c)" "insn_wf i"
  shows "arm_ok c (logical c i) \<and> keeps_memory c (logical c i)"
proof (cases "insn_form i")
  case (Form_RegShifted rd rn rm)
  then obtain v where "read_shifted (cpu_regs c) rm (insn_width i) = Some v"
    using assms read_shifted_ok [of "cpu_regs c" "insn_width i" rm] by (auto simp: insn_wf_def)
  then show ?thesis
    using assms Form_RegShifted
    by (simp add: logical_def Let_def insn_wf_def read_gpr_ok write_result_ok arm_ok_def keeps_memory_def)
qed (use assms in \<open>simp_all add: logical_def Let_def insn_wf_def read_gpr_ok write_result_ok arm_ok_def
        keeps_memory_def\<close>)

lemma branch_immediate_ok:
  "regs_wf (cpu_regs c) \<Longrightarrow> arm_ok c (branch_immediate c i p) \<and> keeps_memory c (branch_immediate c i p)"
  by (cases "insn_form i") (simp_all add: branch_immediate_def write_x_ok arm_ok_def keeps_memory_def
      del: write_x.simps x_upd.simps)

lemma branch_register_ok:
  "regs_wf (cpu_regs c) \<Longrightarrow> insn_wf i \<Longrightarrow>
     arm_ok c (branch_register c i p) \<and> keeps_memory c (branch_register c i p)"
  by (cases "insn_form i")
    (simp_all add: branch_register_def read_x_ok write_x_ok insn_wf_def arm_ok_def keeps_memory_def
      del: write_x.simps x_upd.simps)


section \<open>The machine contract\<close>

text \<open>\<open>cpu_ok minv sink_ok n c\<close>: the CPU is well formed, over a storage invariant and a sink
  invariant, and its counters leave \<open>n\<close> more steps.\<close>

definition cpu_ok :: "('m \<Rightarrow> bool) \<Rightarrow> ('s \<Rightarrow> bool) \<Rightarrow> nat \<Rightarrow> ('m, 's) Cpu \<Rightarrow> bool" where
  "cpu_ok minv sink_ok n c \<longleftrightarrow> regs_wf (cpu_regs c) \<and> minv (cpu_memory c) \<and> traplog_room n (cpu_trap_log c)
     \<and> sink_ok (cpu_sink c) \<and> cache_room n (cpu_cache c) \<and> unat (cpu_icount c) + n < 2 ^ 64
     \<and> pred_option regs_wf (cpu_previous c) \<and> buffer_wf (cpu_deltas c)"

lemma cpu_ok_mono: "cpu_ok minv sink_ok n c \<Longrightarrow> k \<le> n \<Longrightarrow> cpu_ok minv sink_ok k c"
  by (auto simp: cpu_ok_def traplog_room_def cache_room_def)

lemma cpu_with_sink_ok:
  "minv m \<Longrightarrow> sink_ok s \<Longrightarrow> n < 2 ^ 64 \<Longrightarrow> cpu_ok minv sink_ok n (cpu_with_sink m s)"
  by (simp add: cpu_ok_def cpu_with_sink_def traplog_room_def) (simp add: traplog_new_def)

text \<open>The instruction word stored at an address.\<close>

definition word_at :: "('m \<Rightarrow> u64 \<Rightarrow> u8) \<Rightarrow> 'm \<Rightarrow> u64 \<Rightarrow> u32" where
  "word_at byte_at m a = from_le (map (\<lambda>i. byte_at m (a + of_nat i)) [0..<4])"

text \<open>The interpreter over any storage and any sink that keep their contracts.\<close>

locale machine = guest_storage M inv mapped byte_at + trace_sink K sink_ok
  for M :: "'m mem_ops" and inv mapped byte_at and K :: "'s sink_ops" and sink_ok
begin

lemma transfer_ok:
  assumes "regs_wf (cpu_regs c)" "inv (cpu_memory c)" "gpr_wf rt" "size_wf sz"
  shows "\<exists>res c'. transfer M c (rt, a, w) i sz = Some (res, c') \<and> same_rest c c'
    \<and> regs_wf (cpu_regs c') \<and> inv (cpu_memory c') \<and> mapped (cpu_memory c') = mapped (cpu_memory c)
    \<and> rf_pc (cpu_regs c') = rf_pc (cpu_regs c) \<and> (isl res \<longleftrightarrow> \<not> mapped (cpu_memory c) a (unat (as_bytes sz)))
    \<and> (isl res \<longrightarrow> c' = c)"
proof -
  have b: "unat (as_bytes sz) \<le> 8" "0 < unat (as_bytes sz) * 8"
    using assms(4) by (auto simp: size_wf_def)
  show ?thesis
  proof (cases w)
    case True
    let ?v = "take_bit (width_bits (insn_width i)) (x_val (cpu_regs c) rt)"
    obtain res m where w: "write_uint M (cpu_memory c) a (as_bytes sz) ?v = Some (res, m)"
      using write_uint_total [OF assms(2) b(1)] by fastforce
    note wi = write_uint_inv [OF assms(2) b(1) w]
    have "transfer M c (rt, a, w) i sz = Some (res, c\<lparr>cpu_memory := m\<rparr>)"
      using True w assms(1,3) by (simp add: transfer_def read_gpr_ok)
    then show ?thesis using wi assms(1) by fastforce
  next
    case False
    show ?thesis
    proof (cases "mapped (cpu_memory c) a (unat (as_bytes sz))")
      case unm: False
      have "mem_read M (cpu_memory c) a (unat (as_bytes sz)) = Some (Inl \<lparr>af_address = a, af_is_write = False\<rparr>)"
        using unm b(1) by (intro read_unmapped assms(2)) simp_all
      then show ?thesis
        using False b(1) unm assms(1,2) by (simp add: transfer_def read_uint_def)
    next
      case True
      obtain raw where raw: "read_uint M (cpu_memory c) a (as_bytes sz) = Some (Inr raw)"
        using read_mapped [OF assms(2) True] b(1) by (simp add: read_uint_def)
      obtain v where v: "(if as_signed sz then sign_extend_u64 raw (unat (as_bytes sz) * 8) else Some raw) = Some v"
        using sign_extend_to_64_ok [OF b(2), of raw]
        by (cases "as_signed sz") (auto simp: sign_extend_u64_eq)
      have "transfer M c (rt, a, w) i sz
          = Some (Inr (), c\<lparr>cpu_regs := x_upd (cpu_regs c) rt (take_bit (width_bits (insn_width i)) v)\<rparr>)"
        using False raw v assms(1,3) by (simp add: transfer_def write_result_ok)
      then show ?thesis using True assms(1,2) by fastforce
    qed
  qed
qed

definition memory_ok :: "('m, 's) Cpu \<Rightarrow> ((Trap + Flow) \<times> ('m, 's) Cpu) option \<Rightarrow> bool" where
  "memory_ok c res \<longleftrightarrow> (\<forall>out c'. res = Some (out, c') \<longrightarrow>
     inv (cpu_memory c') \<and> mapped (cpu_memory c') = mapped (cpu_memory c))"

lemma load_store_ok:
  assumes "regs_wf (cpu_regs c)" "inv (cpu_memory c)" "insn_wf i"
  shows "arm_ok c (load_store M c i p) \<and> memory_ok c (load_store M c i p)"
proof (cases "\<exists>rt rs addr sz order. insn_form i = Form_LoadStore rt None rs addr sz order")
  case False
  then have "load_store M c i p = Some (Inl (trap_undefined p i), c)"
    by (auto simp: load_store_def split: Form.splits option.splits)
  with assms show ?thesis by (simp add: memory_ok_def)
next
  case True
  then obtain rt rs addr sz order where f: "insn_form i = Form_LoadStore rt None rs addr sz order" by blast
  then have wf: "gpr_wf rt" "addr_wf addr" "size_wf sz" using assms(3) by (auto simp: insn_wf_def)
  obtain e where e: "effective_address (cpu_regs c) addr p = Some e"
    using effective_address_ok [OF assms(1) wf(2)] by simp
  have base: "gpr_wf b" if "ea_writeback e = Some (b, v)" for b v
    using that e wf(2) effective_address_ok [OF assms(1) wf(2), of p]
    by (cases addr) (auto simp: addr_base_def Let_def split: if_splits)
  let ?w = "insn_op i = Op_Str"
  obtain res c1 where t: "transfer M c (rt, ea_address e, ?w) i sz = Some (res, c1)"
    and c1: "same_rest c c1" "regs_wf (cpu_regs c1)" "inv (cpu_memory c1)"
      "mapped (cpu_memory c1) = mapped (cpu_memory c)" "rf_pc (cpu_regs c1) = rf_pc (cpu_regs c)"
      "isl res \<longrightarrow> c1 = c"
    using transfer_ok [OF assms(1,2) wf(1,3), of "ea_address e" ?w i] by blast
  show ?thesis
  proof (cases res)
    case (Inl flt)
    then have "load_store M c i p = Some (Inl (data_abort p (ea_address e) ?w), c)"
      using f e t c1(6) by (simp add: load_store_def Let_def)
    then show ?thesis using assms by (simp add: memory_ok_def)
  next
    case (Inr u)
    have "load_store M c i p = Some (Inr Flow_Next, c1\<lparr>cpu_regs := (case ea_writeback e of
        None \<Rightarrow> cpu_regs c1 | Some (b, v) \<Rightarrow> x_upd (cpu_regs c1) b v)\<rparr>)"
      using f e t Inr c1(2) base
      by (auto simp: load_store_def Let_def write_x_ok split: option.splits)
    then show ?thesis
      using c1 by (auto simp: arm_ok_def memory_ok_def split: option.splits)
  qed
qed

lemma keeps_memory_ok: "inv (cpu_memory c) \<Longrightarrow> keeps_memory c res \<Longrightarrow> memory_ok c res"
  by (simp add: keeps_memory_def memory_ok_def)

lemma execute_ok:
  assumes "regs_wf (cpu_regs c)" "inv (cpu_memory c)" "insn_wf i"
  shows "arm_ok c (execute M c i p)" "memory_ok c (execute M c i p)"
proof -
  note arms = arithmetic_ok [OF assms(1,3)] logical_ok [OF assms(1,3)]
    branch_immediate_ok [OF assms(1)] branch_register_ok [OF assms(1,3)]
    load_store_ok [OF assms]
  have nop: "arm_ok c (Some (Inr Flow_Next, c))" using assms by (simp add: arm_ok_def)
  show "arm_ok c (execute M c i p)"
    using arms nop assms(1) unfolding execute_def Let_def by (simp split: if_split)
  have "memory_ok c (Some (out, c))" for out using assms(2) by (simp add: memory_ok_def)
  then show "memory_ok c (execute M c i p)"
    using arms keeps_memory_ok [OF assms(2)] unfolding execute_def Let_def
    by (simp split: if_split)
qed

lemma trace_block_ok:
  assumes "cpu_ok inv sink_ok n c"
  shows "\<exists>c'. trace_block K c p = Some c' \<and> cpu_ok inv sink_ok n c' \<and> cpu_regs c' = cpu_regs c
    \<and> cpu_memory c' = cpu_memory c \<and> cpu_trap_log c' = cpu_trap_log c \<and> cpu_cache c' = cpu_cache c
    \<and> cpu_icount c' = cpu_icount c"
proof (cases "sink_enabled K")
  case False
  with assms show ?thesis by (simp add: trace_block_def)
next
  case True
  have ok: "regs_wf (cpu_regs c)" "pred_option regs_wf (cpu_previous c)" "buffer_wf (cpu_deltas c)"
      "sink_ok (cpu_sink c)"
    using assms by (auto simp: cpu_ok_def)
  obtain ds where ds: "deltas_between buffer_out (cpu_previous c) (cpu_regs c) (cpu_deltas c) = Some ds"
      "buffer_wf ds" "delta_slice ds = delta_list (cpu_previous c) (cpu_regs c)"
      "length (delta_list (cpu_previous c) (cpu_regs c)) \<le> 100"
    using delta_buffer.deltas_between_ok [OF ok(1-3)] by blast
  then have "length (delta_slice ds) \<le> MAX_DELTAS_PER_BLOCK" by (simp add: MAX_DELTAS_PER_BLOCK_def)
  from on_block_ok [OF ok(4) this, of p "cpu_icount c"] obtain s where
    "on_block K (cpu_sink c) p (cpu_icount c) (delta_slice ds) = Some s" "sink_ok s" by blast
  with True ds(1,2) assms show ?thesis by (simp add: trace_block_def cpu_ok_def)
qed

text \<open>One step, decomposed: a fetch fault, or an executed instruction.\<close>

lemma step_unmapped:
  assumes "cpu_ok inv sink_ok n c" "\<not> mapped (cpu_memory c) (rf_pc (cpu_regs c)) 4"
  shows "step M K c = Some (Inl (InstructionAbort (rf_pc (cpu_regs c))), c)"
  using assms read_unmapped [of "cpu_memory c" "rf_pc (cpu_regs c)" 4]
  by (simp add: step_def fetch_def Let_def cpu_ok_def pc_def)

lemma step_mapped:
  assumes "cpu_ok inv sink_ok (Suc n) c" "mapped (cpu_memory c) (rf_pc (cpu_regs c)) 4"
  defines "p \<equiv> rf_pc (cpu_regs c)"
  defines "i \<equiv> decoded (word_at byte_at (cpu_memory c) p)"
  shows "\<exists>c2 out c3. execute M c2 i p = Some (out, c3)
    \<and> cpu_regs c2 = cpu_regs c \<and> cpu_memory c2 = cpu_memory c \<and> cpu_icount c2 = cpu_icount c
    \<and> cpu_trap_log c2 = cpu_trap_log c \<and> (isl out \<longrightarrow> c3 = c2)
    \<and> (case out of
        Inl t \<Rightarrow> \<exists>l. record_trap (cpu_trap_log c) t = Some l
          \<and> step M K c = Some (Inl t, c2\<lparr>cpu_trap_log := l\<rparr>) \<and> cpu_ok inv sink_ok n (c2\<lparr>cpu_trap_log := l\<rparr>)
      | Inr f \<Rightarrow> let c4 = c3\<lparr>cpu_regs := (if f = Flow_Next then set_pc (cpu_regs c3) (p + 4) else cpu_regs c3),
            cpu_icount := cpu_icount c + 1\<rparr> in
          step M K c = Some (Inr (), c4) \<and> cpu_ok inv sink_ok n c4)
    \<and> mapped (cpu_memory c3) = mapped (cpu_memory c)"
proof -
  let ?e = "word_at byte_at (cpu_memory c) p"
  have ok: "inv (cpu_memory c)" "cache_room (Suc n) (cpu_cache c)" using assms(1) by (auto simp: cpu_ok_def)
  have f: "fetch M c p = Some (Inr ?e)"
    using read_mapped [OF ok(1) assms(2)] by (simp add: fetch_def word_at_def p_def)
  obtain ch where ch: "cache_decoded (cpu_cache c) p ?e = Some (i, ch)" "cache_room n ch"
    using cache_decoded_ok [OF ok(2), of p ?e] unfolding i_def by blast
  have "cpu_ok inv sink_ok n (c\<lparr>cpu_cache := ch\<rparr>)"
    using assms(1) ch(2) by (auto simp: cpu_ok_def traplog_room_def)
  from trace_block_ok [OF this, of p] obtain c2 where
    t: "trace_block K (c\<lparr>cpu_cache := ch\<rparr>) p = Some c2" and c2: "cpu_ok inv sink_ok n c2" "cpu_regs c2 = cpu_regs c"
      "cpu_memory c2 = cpu_memory c" "cpu_trap_log c2 = cpu_trap_log c" "cpu_icount c2 = cpu_icount c"
    by auto
  have wf: "regs_wf (cpu_regs c2)" "inv (cpu_memory c2)" "insn_wf i"
    using c2(1) by (auto simp: cpu_ok_def i_def)
  from execute_ok [OF wf, of p] obtain out c3 where
    x: "execute M c2 i p = Some (out, c3)" and c3: "same_rest c2 c3" "regs_wf (cpu_regs c3)"
      "isl out \<longrightarrow> c3 = c2" "inv (cpu_memory c3)" "mapped (cpu_memory c3) = mapped (cpu_memory c2)"
    by (auto simp: arm_ok_def memory_ok_def)
  have room: "traplog_room (Suc n) (cpu_trap_log c2)" and ic: "unat (cpu_icount c2) + Suc n < 2 ^ 64"
    using assms(1) c2(4,5) by (simp_all add: cpu_ok_def)
  have stp: "step M K c = (case out of
      Inl t \<Rightarrow> record_trap (cpu_trap_log c3) t \<bind> (\<lambda>l. Some (Inl t, c3\<lparr>cpu_trap_log := l\<rparr>))
    | Inr fl \<Rightarrow> (let c4 = (case fl of Flow_Next \<Rightarrow> c3\<lparr>cpu_regs := set_pc (cpu_regs c3) (p + INSN_BYTES)\<rparr>
          | Flow_Branched \<Rightarrow> c3) in
        checked_add (cpu_icount c4) 1 \<bind> (\<lambda>k. Some (Inr (), c4\<lparr>cpu_icount := k\<rparr>))))"
    using f ch(1) t x by (simp add: step_def Let_def pc_def p_def [symmetric])
  show ?thesis
  proof (cases out)
    case (Inl tr)
    then have "c3 = c2" using c3(3) by simp
    obtain l where "record_trap (cpu_trap_log c2) tr = Some l" "traplog_room n l"
      using record_trap_ok [OF room] by blast
    with Inl stp x c2 c3 show ?thesis
      by (intro exI [of _ c2] exI [of _ out] exI [of _ c3]) (auto simp: cpu_ok_def)
  next
    case (Inr fl)
    have "cpu_icount c3 = cpu_icount c" "cpu_icount c2 = cpu_icount c" using c3(1) c2(5) by (auto simp: same_rest_def)
    moreover have "checked_add (cpu_icount c) 1 = Some (cpu_icount c + 1)"
        "unat (cpu_icount c + 1) = unat (cpu_icount c) + 1"
      using ic c2(5) by (simp_all add: checked_add_def unat_add_ok)
    ultimately have "step M K c = Some (Inr (), c3\<lparr>cpu_regs := (if fl = Flow_Next
        then set_pc (cpu_regs c3) (p + 4) else cpu_regs c3), cpu_icount := cpu_icount c + 1\<rparr>)"
      using Inr stp by (cases fl) (simp_all add: INSN_BYTES_def)
    moreover have "cpu_ok inv sink_ok n (c3\<lparr>cpu_regs := (if fl = Flow_Next
        then set_pc (cpu_regs c3) (p + 4) else cpu_regs c3), cpu_icount := cpu_icount c + 1\<rparr>)"
      using c2(1) c3 ic c2(5) \<open>unat (cpu_icount c + 1) = unat (cpu_icount c) + 1\<close>
      by (auto simp: cpu_ok_def same_rest_def)
    ultimately show ?thesis
      using Inr x c2 c3 by (intro exI [of _ c2] exI [of _ out] exI [of _ c3]) (simp add: Let_def)
  qed
qed

text \<open>One step: never a panic; a trap leaves registers, memory and the instruction count as they
  were; success retires exactly one instruction.\<close>

lemma step_ok:
  assumes "cpu_ok inv sink_ok (Suc n) c"
  shows "\<exists>r c'. step M K c = Some (r, c') \<and> cpu_ok inv sink_ok n c'
    \<and> mapped (cpu_memory c') = mapped (cpu_memory c)
    \<and> (isl r \<longrightarrow> cpu_regs c' = cpu_regs c \<and> cpu_memory c' = cpu_memory c \<and> cpu_icount c' = cpu_icount c)
    \<and> (\<not> isl r \<longrightarrow> cpu_icount c' = cpu_icount c + 1)"
proof (cases "mapped (cpu_memory c) (rf_pc (cpu_regs c)) 4")
  case False
  then show ?thesis using step_unmapped [OF assms] cpu_ok_mono [OF assms, of n] by simp
next
  case True
  from step_mapped [OF assms True] obtain c2 out c3 where
    c2: "cpu_regs c2 = cpu_regs c" "cpu_memory c2 = cpu_memory c" "cpu_icount c2 = cpu_icount c"
      "mapped (cpu_memory c3) = mapped (cpu_memory c)" and
    st: "case out of
        Inl t \<Rightarrow> \<exists>l. record_trap (cpu_trap_log c) t = Some l
          \<and> step M K c = Some (Inl t, c2\<lparr>cpu_trap_log := l\<rparr>) \<and> cpu_ok inv sink_ok n (c2\<lparr>cpu_trap_log := l\<rparr>)
      | Inr f \<Rightarrow> let c4 = c3\<lparr>cpu_regs := (if f = Flow_Next then set_pc (cpu_regs c3) (rf_pc (cpu_regs c) + 4)
            else cpu_regs c3), cpu_icount := cpu_icount c + 1\<rparr> in
          step M K c = Some (Inr (), c4) \<and> cpu_ok inv sink_ok n c4"
    by blast
  show ?thesis
    using st c2 by (cases out) (fastforce simp: Let_def)+
qed

lemma run_loop_ok:
  "cpu_ok inv sink_ok (n + k) c \<Longrightarrow>
     \<exists>stop c'. run_loop M K n c = Some (stop, c') \<and> cpu_ok inv sink_ok k c'
       \<and> mapped (cpu_memory c') = mapped (cpu_memory c)
       \<and> unat (cpu_icount c) \<le> unat (cpu_icount c') \<and> unat (cpu_icount c') \<le> unat (cpu_icount c) + n
       \<and> (stop = BudgetExhausted \<longleftrightarrow> unat (cpu_icount c') = unat (cpu_icount c) + n)"
proof (induction n arbitrary: c)
  case 0
  then show ?case by simp
next
  case (Suc n)
  then have "cpu_ok inv sink_ok (Suc (n + k)) c" by simp
  from step_ok [OF this] obtain r c1 where
    s: "step M K c = Some (r, c1)" "cpu_ok inv sink_ok (n + k) c1" "mapped (cpu_memory c1) = mapped (cpu_memory c)"
      "isl r \<longrightarrow> cpu_icount c1 = cpu_icount c" "\<not> isl r \<longrightarrow> cpu_icount c1 = cpu_icount c + 1"
    by blast
  show ?case
  proof (cases r)
    case (Inl t)
    then show ?thesis using s cpu_ok_mono [OF s(2), of k] by simp
  next
    case (Inr u)
    have "unat (cpu_icount c1) = unat (cpu_icount c) + 1"
      using s(5) Inr Suc.prems by (simp add: cpu_ok_def unat_add_ok)
    with Suc.IH [OF s(2)] s(1,3) Inr show ?thesis by fastforce
  qed
qed

end

interpretation flat_null: machine flat_ops flat_wf flat_mapped flat_byte null_sink "\<lambda>_. True"
  by unfold_locales

text \<open>Stopping at the budget and re-entering is the same as running on.\<close>

lemma run_loop_add:
  "run_loop M K (a + b) c = do {
     (stop, c') \<leftarrow> run_loop M K a c;
     (case stop of BudgetExhausted \<Rightarrow> run_loop M K b c' | Trapped t \<Rightarrow> Some (Trapped t, c'))
   }"
proof (induction a arbitrary: c)
  case (Suc a)
  show ?case by (cases "step M K c") (auto simp: Suc.IH split: sum.splits)
qed simp

end
