(* ===== verification/Isa.thy ===== *)
theory Isa
  imports Interp
begin

unbundle bit_operations_syntax

text \<open>
  An instruction-set specification of the opcodes the interpreter executes, independent of the
  code: no cache, no trace, no trap log, no shift tricks. Operands are defined bit by bit, sums and
  differences over the integers, flags by their arithmetic meaning. The refinement lemmas show that
  \<open>execute\<close> and \<open>step\<close> implement it.
\<close>

section \<open>Operands and results\<close>

definition shifted_val :: "RegFile \<Rightarrow> RegWidth \<Rightarrow> ShiftedReg \<Rightarrow> u64" where
  "shifted_val r w s = horner_sum of_bool 2
     (map (shift_bit (sr_kind s) (width_bits w) (unat (sr_amount s)) (x_val r (sr_reg s))) [0..<64])"

definition extended_val :: "RegFile \<Rightarrow> ExtendedReg \<Rightarrow> u64" where
  "extended_val r e = of_int (extend_val (er_kind e) (x_val r (er_reg e)) * 2 ^ unat (er_amount e))"

text \<open>The sum or difference of two register values at a width, and the flags it sets.\<close>

definition isa_value :: "bool \<Rightarrow> RegWidth \<Rightarrow> u64 \<Rightarrow> u64 \<Rightarrow> u64" where
  "isa_value is_sub w a b = of_int ((int (unsigned_at w a)
     + (if is_sub then - int (unsigned_at w b) else int (unsigned_at w b))) mod 2 ^ width_bits w)"

definition isa_flags :: "bool \<Rightarrow> RegWidth \<Rightarrow> u64 \<Rightarrow> u64 \<Rightarrow> Nzcv" where
  "isa_flags is_sub w a b =
     (let v = isa_value is_sub w a b in
      \<lparr> nzcv_n = (signed_at w v < 0), nzcv_z = (v = 0),
        nzcv_c = (if is_sub then unsigned_at w b \<le> unsigned_at w a
                  else 2 ^ width_bits w \<le> unsigned_at w a + unsigned_at w b),
        nzcv_v = (signed_at w a + (if is_sub then - signed_at w b else signed_at w b)
                  \<notin> signed_range w) \<rparr>)"

definition isa_logic :: "Op \<Rightarrow> u64 \<Rightarrow> u64 \<Rightarrow> u64" where
  "isa_logic o1 a b =
     (let c = (if o1 = Op_Bic \<or> o1 = Op_Orn \<or> o1 = Op_Eon then NOT b else b) in
      if o1 = Op_And \<or> o1 = Op_Bic then a AND c
      else if o1 = Op_Orr \<or> o1 = Op_Orn then a OR c else a XOR c)"

definition isa_logic_flags :: "RegWidth \<Rightarrow> u64 \<Rightarrow> Nzcv" where
  "isa_logic_flags w v = \<lparr> nzcv_n = (signed_at w v < 0), nzcv_z = (unsigned_at w v = 0),
     nzcv_c = False, nzcv_v = False \<rparr>"

definition with_flags :: "bool \<Rightarrow> RegFile \<Rightarrow> Nzcv \<Rightarrow> RegFile" where
  "with_flags b r f = (if b then r\<lparr>rf_pstate := (rf_pstate r)\<lparr>ps_nzcv := f\<rparr>\<rparr> else r)"


section \<open>Addresses\<close>

definition isa_address :: "RegFile \<Rightarrow> AddrMode \<Rightarrow> u64 \<Rightarrow> u64" where
  "isa_address r a p = (case addr_base a of
       None \<Rightarrow> p + addr_offset r a
     | Some b \<Rightarrow> if addr_writeback a = WB_Post then x_val r b else x_val r b + addr_offset r a)"

definition isa_writeback :: "RegFile \<Rightarrow> AddrMode \<Rightarrow> RegFile \<Rightarrow> RegFile" where
  "isa_writeback r a r' = (case addr_base a of
       None \<Rightarrow> r'
     | Some b \<Rightarrow> if has_writeback a then x_upd r' b (x_val r b + addr_offset r a) else r')"

definition load_val :: "AccessSize \<Rightarrow> u64 \<Rightarrow> u64" where
  "load_val sz raw = (if as_signed sz then of_int (signed_take_bit (8 * unat (as_bytes sz) - 1) (uint raw)) else raw)"


section \<open>Execution\<close>

definition isa_dp :: "Instruction \<Rightarrow> RegFile \<Rightarrow> RegFile option" where
  "isa_dp i r =
     (let w = insn_width i; o1 = insn_op i;
          arith = (\<lambda>rd rn b. let a = x_val r rn; s = (o1 = Op_Sub) in
            with_flags (sets_flags i) (x_upd r rd (isa_value s w a b)) (isa_flags s w a b));
          logic = (\<lambda>rd rn b. let v = take_bit (width_bits w) (isa_logic o1 (x_val r rn) b) in
            with_flags (sets_flags i) (x_upd r rd v) (isa_logic_flags w v));
          go = (if o1 = Op_Add \<or> o1 = Op_Sub then arith else logic)
      in (case insn_form i of
            Form_RegImm rd rn imm \<Rightarrow> Some (go rd rn imm)
          | Form_RegShifted rd rn s \<Rightarrow> Some (go rd rn (shifted_val r w s))
          | Form_RegExtended rd rn e \<Rightarrow>
              if o1 = Op_Add \<or> o1 = Op_Sub then Some (go rd rn (extended_val r e)) else None
          | _ \<Rightarrow> None))"

definition isa_branch :: "Instruction \<Rightarrow> RegFile \<Rightarrow> RegFile option" where
  "isa_branch i r =
     (let p = rf_pc r; o1 = insn_op i;
          link = (\<lambda>b. if b then x_upd r (Gpr_X 30) (p + 4) else r)
      in if o1 = Op_B \<or> o1 = Op_Bl then
           (case insn_form i of Form_Branch off \<Rightarrow> Some (set_pc (link (o1 = Op_Bl)) (p + off)) | _ \<Rightarrow> None)
         else
           (case insn_form i of Form_BranchIndirect rn \<Rightarrow> Some (set_pc (link (o1 = Op_Blr)) (x_val r rn))
            | _ \<Rightarrow> None))"

definition isa_mem ::
  "'m mem_ops \<Rightarrow> Instruction \<Rightarrow> RegFile \<Rightarrow> 'm \<Rightarrow> Trap + RegFile \<times> 'm" where
  "isa_mem M i r m = (case insn_form i of
       Form_LoadStore rt None rs addr sz order \<Rightarrow>
         let p = rf_pc r; ea = isa_address r addr p; w = width_bits (insn_width i) in
         if insn_op i = Op_Str then
           (case write_uint M m ea (as_bytes sz) (take_bit w (x_val r rt)) of
              Some (Inr _, m') \<Rightarrow> Inr (isa_writeback r addr r, m')
            | _ \<Rightarrow> Inl (DataAbort p ea True))
         else
           (case read_uint M m ea (as_bytes sz) of
              Some (Inr raw) \<Rightarrow>
                Inr (isa_writeback r addr (x_upd r rt (take_bit w (load_val sz raw))), m)
            | _ \<Rightarrow> Inl (DataAbort p ea False))
     | _ \<Rightarrow> Inl (UndefinedInstruction (rf_pc r) (insn_encoding i)))"

definition isa_exec :: "'m mem_ops \<Rightarrow> Instruction \<Rightarrow> RegFile \<Rightarrow> 'm \<Rightarrow> Trap + RegFile \<times> 'm" where
  "isa_exec M i r m =
     (let p = rf_pc r; o1 = insn_op i;
          undef = Inl (UndefinedInstruction p (insn_encoding i));
          advance = (\<lambda>r'. set_pc r' (p + 4))
      in
      if o1 \<in> {Op_Add, Op_Sub, Op_And, Op_Orr, Op_Eor, Op_Bic, Op_Orn, Op_Eon} then
        (case isa_dp i r of None \<Rightarrow> undef | Some r' \<Rightarrow> Inr (advance r', m))
      else if o1 \<in> {Op_B, Op_Bl, Op_Br, Op_Blr, Op_Ret} then
        (case isa_branch i r of None \<Rightarrow> undef | Some r' \<Rightarrow> Inr (r', m))
      else if o1 = Op_Nop then Inr (advance r, m)
      else if o1 \<in> {Op_Ldr, Op_Str} then
        (case isa_mem M i r m of Inl t \<Rightarrow> Inl t | Inr (r', m') \<Rightarrow> Inr (advance r', m'))
      else if o1 = Op_Svc then
        (case insn_form i of Form_Imm imm \<Rightarrow> Inl (SupervisorCall p (ucast imm)) | _ \<Rightarrow> undef)
      else if o1 = Op_Brk then
        (case insn_form i of Form_Imm imm \<Rightarrow> Inl (Breakpoint p (ucast imm)) | _ \<Rightarrow> undef)
      else undef)"

definition isa_step :: "'m mem_ops \<Rightarrow> RegFile \<Rightarrow> 'm \<Rightarrow> Trap + RegFile \<times> 'm" where
  "isa_step M r m = (case mem_read M m (rf_pc r) 4 of
       Some (Inr bs) \<Rightarrow> isa_exec M (decoded (from_le bs)) r m
     | _ \<Rightarrow> Inl (InstructionAbort (rf_pc r)))"


section \<open>The datapath computes the specified values\<close>

lemma shifted_val_ok:
  assumes "regs_wf r" "shifted_wf w s"
  shows "read_shifted r s w = Some (shifted_val r w s)"
proof -
  obtain v where v: "read_shifted r s w = Some v" "\<And>k. bit v k \<longleftrightarrow>
      shift_bit (sr_kind s) (width_bits w) (unat (sr_amount s)) (x_val r (sr_reg s)) k"
    using read_shifted_ok [OF assms] by blast
  have "v = shifted_val r w s"
    by (rule bit_word_eqI) (simp add: v(2) shifted_val_def bit_horner_sum_bit_word_iff)
  with v(1) show ?thesis by simp
qed

lemma signed_at_not: "signed_at w (NOT b) = - 1 - signed_at w b"
  using unsigned_at_less [of w b] unfolding signed_at_two_comp unsigned_at_not two_comp_def pow_width
  by (auto simp: of_nat_diff)

lemma awc_value_eq:
  "fr_value (add_with_carry (a, b) c w) = of_int (int (sum_at w a b c) mod 2 ^ width_bits w)"
proof -
  have "int (unat (fr_value (add_with_carry (a, b) c w))) = int (sum_at w a b c) mod 2 ^ width_bits w"
    by (simp add: awc_value zmod_int)
  then have "(of_int (int (sum_at w a b c) mod 2 ^ width_bits w) :: u64)
      = of_int (int (unat (fr_value (add_with_carry (a, b) c w))))" by (simp only:)
  then show ?thesis by simp
qed

lemma awc_isa_value:
  "fr_value (add_with_carry (a, if s then NOT b else b) s w) = isa_value s w a b"
proof (cases s)
  case False
  then show ?thesis by (simp add: awc_value_eq isa_value_def sum_at_def)
next
  case True
  have "int (sum_at w a (NOT b) True) = (int (unsigned_at w a) - int (unsigned_at w b)) + 2 ^ width_bits w"
    using unsigned_at_less [of w b] by (simp add: sum_at_def unsigned_at_not of_nat_diff)
  then have "int (sum_at w a (NOT b) True) mod 2 ^ width_bits w
      = (int (unsigned_at w a) - int (unsigned_at w b)) mod 2 ^ width_bits w"
    by (simp only: mod_add_self2)
  with True show ?thesis by (simp add: awc_value_eq isa_value_def)
qed

lemma awc_isa_flags:
  "fr_flags (add_with_carry (a, if s then NOT b else b) s w) = isa_flags s w a b"
proof -
  let ?f = "fr_flags (add_with_carry (a, if s then NOT b else b) s w)"
  let ?v = "isa_value s w a b"
  note v = awc_isa_value [of a s b w]
  have "nzcv_n ?f = (signed_at w ?v < 0)" unfolding awc_negative v ..
  moreover have "nzcv_z ?f = (?v = 0)"
    unfolding v [symmetric] awc_zero by (simp add: word_unat_eq_iff awc_value)
  moreover have "nzcv_c ?f = (if s then unsigned_at w b \<le> unsigned_at w a
      else 2 ^ width_bits w \<le> unsigned_at w a + unsigned_at w b)"
    using cmp_carry [of w a b] by (simp add: cmp_flags_def awc_carry sum_at_def)
  moreover have "nzcv_v ?f = (signed_at w a + (if s then - signed_at w b else signed_at w b) \<notin> signed_range w)"
    unfolding awc_overflow by (simp add: signed_at_not)
  ultimately show ?thesis by (intro Nzcv.equality) (simp_all add: isa_flags_def Let_def)
qed

lemma isa_value_trunc: "isa_value s w (take_bit (width_bits w) a) b = isa_value s w a b"
    "isa_flags s w (take_bit (width_bits w) a) b = isa_flags s w a b"
    "take_bit (width_bits w) (isa_value s w a b) = isa_value s w a b"
proof -
  have u: "unsigned_at w (take_bit (width_bits w) a) = unsigned_at w a" by (simp add: unsigned_at_def)
  then show v: "isa_value s w (take_bit (width_bits w) a) b = isa_value s w a b" by (simp add: isa_value_def)
  have "signed_at w (take_bit (width_bits w) a) = signed_at w a" using u by (simp add: signed_at_inj)
  with u v show "isa_flags s w (take_bit (width_bits w) a) b = isa_flags s w a b" by (simp add: isa_flags_def)
  have "unat (take_bit (width_bits w) (isa_value s w a b)) = unat (isa_value s w a b)"
    unfolding awc_isa_value [symmetric] unsigned_take_bit_eq awc_value by (simp add: take_bit_eq_mod)
  then show "take_bit (width_bits w) (isa_value s w a b) = isa_value s w a b" by (simp add: unat_inj)
qed

lemma logical_flags_isa: "logical_flags v w = isa_logic_flags w v"
proof -
  have "bit v (width_bits w - 1) \<longleftrightarrow> signed_at w v < 0"
    using unsigned_at_less [of w v] unfolding top_bit_at signed_at_eq by (cases w) auto
  moreover have "bit (take_bit (width_bits w) v) (width_bits w - 1) \<longleftrightarrow> bit v (width_bits w - 1)"
    by (cases w) (simp_all add: bit_take_bit_iff)
  moreover have "take_bit (width_bits w) v = 0 \<longleftrightarrow> unsigned_at w v = 0"
    by (simp add: unsigned_at_def word_unat_eq_iff)
  ultimately show ?thesis
    by (simp add: logical_flags_def isa_logic_flags_def Let_def and_width_mask and_exp_eq_0_iff_not_bit
        del: One_nat_def)
qed

lemma logic_flags_trunc: "isa_logic_flags w (take_bit (width_bits w) v) = isa_logic_flags w v"
proof -
  have u: "unsigned_at w (take_bit (width_bits w) v) = unsigned_at w v" by (simp add: unsigned_at_def)
  then have "signed_at w (take_bit (width_bits w) v) = signed_at w v" by (simp add: signed_at_inj)
  with u show ?thesis by (simp add: isa_logic_flags_def)
qed

lemma isa_logic_trunc:
  "take_bit n (isa_logic o1 (take_bit n a) b) = take_bit n (isa_logic o1 a b)"
  by (rule bit_word_eqI) (auto simp: isa_logic_def Let_def bit_simps)


section \<open>Refinement\<close>

text \<open>\<open>refines c p res spec\<close>: the arm's result, with the program counter the loop will leave, is what
  the specification prescribes.\<close>

definition after_flow :: "Flow \<Rightarrow> u64 \<Rightarrow> RegFile \<Rightarrow> RegFile" where
  "after_flow f p r = (if f = Flow_Next then set_pc r (p + 4) else r)"

definition refines :: "u64 \<Rightarrow> ((Trap + Flow) \<times> ('m, 's) Cpu) option \<Rightarrow> Trap + RegFile \<times> 'm \<Rightarrow> bool" where
  "refines p res spec \<longleftrightarrow> (case res of
       None \<Rightarrow> False
     | Some (Inl t, _) \<Rightarrow> spec = Inl t
     | Some (Inr f, c') \<Rightarrow> spec = Inr (after_flow f p (cpu_regs c'), cpu_memory c'))"

lemma refines_next: "refines p (Some (Inr Flow_Next, c\<lparr>cpu_regs := r\<rparr>)) (Inr (set_pc r (p + 4), cpu_memory c))"
  by (simp add: refines_def after_flow_def)

lemma refines_trap: "refines p (Some (Inl t, c)) (Inl t)"
  by (simp add: refines_def)

lemma with_flags_eq:
  "(if b then set_nzcv c f else c) = c\<lparr>cpu_regs := with_flags b (cpu_regs c) f\<rparr>"
  by (simp add: set_nzcv_def with_flags_def)

lemma add_sub_eq:
  assumes "regs_wf (cpu_regs c)" "gpr_wf rd" "gpr_wf rn"
    and left: "left = take_bit (width_bits w) (x_val (cpu_regs c) rn)"
    and res: "res = add_with_carry (left, if s then NOT b else b) s w"
  shows "write_result c rd (fr_value res) w \<bind> (\<lambda>c1. Some (Inr Flow_Next :: Trap + Flow,
      if sf then set_nzcv c1 (fr_flags res) else c1))
    = Some (Inr Flow_Next, c\<lparr>cpu_regs := with_flags sf
        (x_upd (cpu_regs c) rd (isa_value s w (x_val (cpu_regs c) rn) b))
        (isa_flags s w (x_val (cpu_regs c) rn) b)\<rparr>)"
  using assms(1-3) unfolding res left awc_isa_value awc_isa_flags
  by (simp add: write_result_ok isa_value_trunc with_flags_eq)

lemma arithmetic_refines:
  assumes "regs_wf (cpu_regs c)" "insn_wf i" "insn_op i = Op_Add \<or> insn_op i = Op_Sub" "p = rf_pc (cpu_regs c)"
  shows "refines p (arithmetic c i) (isa_exec M i (cpu_regs c) (cpu_memory c))"
proof -
  have x: "isa_exec M i (cpu_regs c) (cpu_memory c) = (case isa_dp i (cpu_regs c) of
      None \<Rightarrow> Inl (UndefinedInstruction p (insn_encoding i))
    | Some r' \<Rightarrow> Inr (set_pc r' (p + 4), cpu_memory c))"
    using assms(3,4) by (auto simp: isa_exec_def Let_def)
  show ?thesis
    using assms(1-3) assms(4) [symmetric] unfolding x
    by (cases "insn_form i")
      (simp_all only: arithmetic_def insn_wf_def Let_def form_wf.simps Form.case option.case prod.case
        Option.bind.simps read_gpr_ok shifted_val_ok read_extended_ok add_sub_eq [OF _ _ _ refl refl] isa_dp_def if_True
        refines_next refines_trap extended_val_def trap_undefined_def pc_def)
qed

lemma logical_eq:
  assumes "regs_wf (cpu_regs c)" "gpr_wf rd" "gpr_wf rn"
    and v: "v = isa_logic (insn_op i) (take_bit (width_bits w) (x_val (cpu_regs c) rn)) b"
  defines "u \<equiv> take_bit (width_bits w) (isa_logic (insn_op i) (x_val (cpu_regs c) rn) b)"
  shows "write_result c rd v w \<bind> (\<lambda>c1. Some (Inr Flow_Next :: Trap + Flow,
      if sf then set_nzcv c1 (logical_flags v w) else c1))
    = Some (Inr Flow_Next, c\<lparr>cpu_regs := with_flags sf (x_upd (cpu_regs c) rd u) (isa_logic_flags w u)\<rparr>)"
proof -
  have u: "take_bit (width_bits w) v = u" unfolding v u_def by (rule isa_logic_trunc)
  moreover have "logical_flags v w = isa_logic_flags w u"
    unfolding logical_flags_isa u [symmetric] logic_flags_trunc ..
  ultimately show ?thesis using assms(1-3) by (simp add: write_result_ok with_flags_eq)
qed

lemma logic_select:
  "insn_op i \<in> {Op_And, Op_Orr, Op_Eor, Op_Bic, Op_Orn, Op_Eon} \<Longrightarrow>
     (if insn_op i = Op_And then a AND b else if insn_op i = Op_Bic then a AND NOT b
      else if insn_op i = Op_Orr then a OR b else if insn_op i = Op_Orn then a OR NOT b
      else if insn_op i = Op_Eor then a XOR b else a XOR NOT b) = isa_logic (insn_op i) a b"
  by (auto simp: isa_logic_def)

lemma logical_refines:
  assumes "regs_wf (cpu_regs c)" "insn_wf i" "p = rf_pc (cpu_regs c)"
    and o: "insn_op i \<in> {Op_And, Op_Orr, Op_Eor, Op_Bic, Op_Orn, Op_Eon}"
  shows "refines p (logical c i) (isa_exec M i (cpu_regs c) (cpu_memory c))"
proof -
  have x: "isa_exec M i (cpu_regs c) (cpu_memory c) = (case isa_dp i (cpu_regs c) of
      None \<Rightarrow> Inl (UndefinedInstruction p (insn_encoding i))
    | Some r' \<Rightarrow> Inr (set_pc r' (p + 4), cpu_memory c))"
    using o assms(3) by (auto simp: isa_exec_def Let_def)
  have n: "(insn_op i = Op_Add \<or> insn_op i = Op_Sub) = False" using o by auto
  show ?thesis
    using assms(1,2) assms(3) [symmetric] unfolding x
    by (cases "insn_form i")
      (simp_all only: logical_def insn_wf_def Let_def form_wf.simps Form.case option.case prod.case
        Option.bind.simps read_gpr_ok shifted_val_ok logic_select [OF o] logical_eq [OF _ _ _ refl]
        isa_dp_def if_True if_False n refines_next refines_trap trap_undefined_def pc_def)
qed

lemma branch_immediate_refines:
  assumes "regs_wf (cpu_regs c)" "p = rf_pc (cpu_regs c)" "insn_op i = Op_B \<or> insn_op i = Op_Bl"
  shows "refines p (branch_immediate c i p) (isa_exec M i (cpu_regs c) (cpu_memory c))"
proof -
  have x: "isa_exec M i (cpu_regs c) (cpu_memory c) = (case insn_form i of
      Form_Branch off \<Rightarrow> Inr (set_pc (if insn_op i = Op_Bl then x_upd (cpu_regs c) (Gpr_X 30) (p + 4)
        else cpu_regs c) (p + off), cpu_memory c)
    | _ \<Rightarrow> Inl (UndefinedInstruction p (insn_encoding i)))"
    using assms(2,3) by (auto simp: isa_exec_def isa_branch_def Let_def split: Form.split)
  show ?thesis
    unfolding x using assms(1)
    by (simp add: branch_immediate_def write_x_ok refines_def after_flow_def trap_undefined_def
        INSN_BYTES_def split: Form.split del: write_x.simps x_upd.simps)
qed

lemma branch_register_refines:
  assumes "regs_wf (cpu_regs c)" "insn_wf i" "p = rf_pc (cpu_regs c)"
    and "insn_op i = Op_Br \<or> insn_op i = Op_Blr \<or> insn_op i = Op_Ret"
  shows "refines p (branch_register c i p) (isa_exec M i (cpu_regs c) (cpu_memory c))"
proof -
  have x: "isa_exec M i (cpu_regs c) (cpu_memory c) = (case insn_form i of
      Form_BranchIndirect rn \<Rightarrow> Inr (set_pc (if insn_op i = Op_Blr then x_upd (cpu_regs c) (Gpr_X 30) (p + 4)
        else cpu_regs c) (x_val (cpu_regs c) rn), cpu_memory c)
    | _ \<Rightarrow> Inl (UndefinedInstruction p (insn_encoding i)))"
    using assms(3,4) by (auto simp: isa_exec_def isa_branch_def Let_def split: Form.split)
  show ?thesis
  proof (cases "\<exists>rn. insn_form i = Form_BranchIndirect rn")
    case True
    then show ?thesis
      unfolding x using assms(1,2)
      by (auto simp: branch_register_def read_x_ok write_x_ok insn_wf_def refines_def after_flow_def
          INSN_BYTES_def simp del: write_x.simps x_upd.simps)
  next
    case False
    then show ?thesis
      unfolding x by (cases "insn_form i") (simp_all add: branch_register_def refines_trap trap_undefined_def)
  qed
qed

context machine
begin

lemma load_val_ok:
  "0 < unat (as_bytes sz) \<Longrightarrow> unat (as_bytes sz) \<le> 8 \<Longrightarrow>
     (if as_signed sz then sign_extend_u64 raw (unat (as_bytes sz) * 8) else Some raw) = Some (load_val sz raw)"
proof -
  assume b: "0 < unat (as_bytes sz)" "unat (as_bytes sz) \<le> 8"
  let ?n = "unat (as_bytes sz) * 8"
  obtain s where s: "sign_extend_to_64 raw ?n = Some s" "\<And>k. bit s k \<longleftrightarrow> k < 64 \<and> bit raw (min k (?n - 1))"
    using sign_extend_to_64_ok [of ?n raw] b by auto
  have "s = of_int (signed_take_bit (?n - 1) (uint raw))"
    using b by (intro bit_word_eqI) (auto simp: s(2) bit_simps min_def)
  with s(1) show ?thesis by (simp add: sign_extend_u64_eq load_val_def mult.commute)
qed

lemma effective_address_isa:
  assumes "regs_wf r" "addr_wf a"
  shows "\<exists>e. effective_address r a p = Some e \<and> ea_address e = isa_address r a p
    \<and> (\<forall>r'. regs_wf r' \<longrightarrow> (case ea_writeback e of None \<Rightarrow> Some r' | Some (b, v) \<Rightarrow> write_x r' b v)
          = Some (isa_writeback r a r'))"
proof -
  have "gpr_wf b" if "addr_base a = Some b" for b
    using that assms(2) by (cases a) (auto simp: addr_base_def)
  then show ?thesis
    using effective_address_ok [OF assms, of p]
    by (auto simp: isa_address_def isa_writeback_def Let_def write_x_ok split: option.splits)
qed

lemma load_store_refines:
  fixes c :: "('m, 't) Cpu"
  assumes "regs_wf (cpu_regs c)" "inv (cpu_memory c)" "insn_wf i" "p = rf_pc (cpu_regs c)"
    and "insn_op i = Op_Ldr \<or> insn_op i = Op_Str"
  shows "refines p (load_store M c i p) (isa_exec M i (cpu_regs c) (cpu_memory c))"
proof -
  have x: "isa_exec M i (cpu_regs c) (cpu_memory c) = (case isa_mem M i (cpu_regs c) (cpu_memory c) of
      Inl t \<Rightarrow> Inl t | Inr (r', m') \<Rightarrow> Inr (set_pc r' (p + 4), m'))"
    using assms(4,5) by (auto simp: isa_exec_def Let_def)
  show ?thesis
  proof (cases "\<exists>rt rs addr sz order. insn_form i = Form_LoadStore rt None rs addr sz order")
    case False
    then show ?thesis
      unfolding x using assms(4)
      by (auto simp: load_store_def isa_mem_def refines_trap trap_undefined_def split: Form.split option.split)
  next
    case True
    then obtain rt rs addr sz order where f: "insn_form i = Form_LoadStore rt None rs addr sz order" by blast
    then have wf: "gpr_wf rt" "addr_wf addr" "size_wf sz" using assms(3) by (auto simp: insn_wf_def)
    have b: "0 < unat (as_bytes sz)" "unat (as_bytes sz) \<le> 8" using wf(3) by (auto simp: size_wf_def)
    let ?r = "cpu_regs c" and ?w = "width_bits (insn_width i)"
    let ?v = "take_bit ?w (x_val ?r rt)"
    obtain e where e: "effective_address ?r addr p = Some e" "ea_address e = isa_address ?r addr p"
        "\<And>r'. regs_wf r' \<Longrightarrow> (case ea_writeback e of None \<Rightarrow> Some r' | Some (b, v) \<Rightarrow> write_x r' b v)
          = Some (isa_writeback ?r addr r')"
      using effective_address_isa [OF assms(1) wf(2), of p] by blast
    note wb = e(3) [of "cpu_regs c1" for c1 :: "('m, 't) Cpu"]
    show ?thesis
    proof (cases "insn_op i = Op_Str")
      case True
      obtain res m where w: "write_uint M (cpu_memory c) (ea_address e) (as_bytes sz) ?v = Some (res, m)"
        using write_uint_total [OF assms(2) b(2)] by fastforce
      show ?thesis
        unfolding x using True w wb f e(1,2) assms(1,4) wf(1)
        by (cases res) (simp_all add: load_store_def isa_mem_def Let_def transfer_def read_gpr_ok
            data_abort_def refines_def after_flow_def)
    next
      case False
      obtain res where rd: "read_uint M (cpu_memory c) (ea_address e) (as_bytes sz) = Some res"
        using read_uint_total [OF assms(2) b(2)] by fastforce
      show ?thesis
        unfolding x using False rd wb f e(1,2) assms(1,4) wf(1) load_val_ok [OF b]
        by (cases res) (simp_all add: load_store_def isa_mem_def Let_def transfer_def write_result_ok
            data_abort_def refines_def after_flow_def)
    qed
  qed
qed

lemma execute_refines:
  assumes "regs_wf (cpu_regs c)" "inv (cpu_memory c)" "insn_wf i" "p = rf_pc (cpu_regs c)"
  shows "refines p (execute M c i p) (isa_exec M i (cpu_regs c) (cpu_memory c))"
proof -
  note arms = arithmetic_refines [OF assms(1,3) _ assms(4)] logical_refines [OF assms(1,3,4)]
    branch_immediate_refines [OF assms(1,4)] branch_register_refines [OF assms(1,3,4)]
    load_store_refines [OF assms]
  have sys: "insn_op i = Op_Svc \<Longrightarrow> refines p (Some (Inl (supervisor_call i p), c)) (isa_exec M i (cpu_regs c) (cpu_memory c))"
      "insn_op i = Op_Brk \<Longrightarrow> refines p (Some (Inl (breakpoint i p), c)) (isa_exec M i (cpu_regs c) (cpu_memory c))"
    using assms(4) by (simp_all add: isa_exec_def Let_def supervisor_call_def breakpoint_def refines_trap
        trap_undefined_def split: Form.split)
  have nop: "insn_op i = Op_Nop \<Longrightarrow> refines p (Some (Inr Flow_Next, c)) (isa_exec M i (cpu_regs c) (cpu_memory c))"
    using assms(4) by (simp add: isa_exec_def Let_def refines_def after_flow_def)
  have undef: "refines p (Some (Inl (trap_undefined p i), c)) (isa_exec M i (cpu_regs c) (cpu_memory c))"
    if "insn_op i \<notin> {Op_Add, Op_Sub, Op_And, Op_Orr, Op_Eor, Op_Bic, Op_Orn, Op_Eon, Op_B, Op_Bl, Op_Br,
      Op_Blr, Op_Ret, Op_Nop, Op_Ldr, Op_Str, Op_Svc, Op_Brk}"
    using that assms(4) by (simp add: isa_exec_def Let_def refines_trap trap_undefined_def)
  show ?thesis
    unfolding execute_def Let_def
    by (simp add: arms sys nop undef split: if_split)
qed

text \<open>One step of the code is one step of the specification: the same trap with registers and
  memory untouched, or the specified successor state.\<close>

lemma step_refines:
  assumes "cpu_ok inv sink_ok (Suc n) c"
  shows "\<exists>r c'. step M K c = Some (r, c')
    \<and> (case r of
         Inl t \<Rightarrow> isa_step M (cpu_regs c) (cpu_memory c) = Inl t
           \<and> cpu_regs c' = cpu_regs c \<and> cpu_memory c' = cpu_memory c
       | Inr _ \<Rightarrow> isa_step M (cpu_regs c) (cpu_memory c) = Inr (cpu_regs c', cpu_memory c'))"
proof (cases "mapped (cpu_memory c) (rf_pc (cpu_regs c)) 4")
  case False
  then have "isa_step M (cpu_regs c) (cpu_memory c) = Inl (InstructionAbort (rf_pc (cpu_regs c)))"
    using assms read_unmapped [of "cpu_memory c" "rf_pc (cpu_regs c)" 4]
    by (simp add: isa_step_def cpu_ok_def)
  then show ?thesis using step_unmapped [OF assms False] by simp
next
  case True
  let ?p = "rf_pc (cpu_regs c)"
  let ?i = "decoded (word_at byte_at (cpu_memory c) ?p)"
  have ok: "regs_wf (cpu_regs c)" "inv (cpu_memory c)" using assms by (auto simp: cpu_ok_def)
  have i: "isa_step M (cpu_regs c) (cpu_memory c) = isa_exec M ?i (cpu_regs c) (cpu_memory c)"
    using read_mapped [OF ok(2) True] by (simp add: isa_step_def word_at_def)
  obtain c2 out c3 where
    x: "execute M c2 ?i ?p = Some (out, c3)" and
    c2: "cpu_regs c2 = cpu_regs c" "cpu_memory c2 = cpu_memory c" "isl out \<longrightarrow> c3 = c2" and
    st: "case out of
        Inl t \<Rightarrow> \<exists>l. record_trap (cpu_trap_log c) t = Some l
          \<and> step M K c = Some (Inl t, c2\<lparr>cpu_trap_log := l\<rparr>) \<and> cpu_ok inv sink_ok n (c2\<lparr>cpu_trap_log := l\<rparr>)
      | Inr f \<Rightarrow> let c4 = c3\<lparr>cpu_regs := (if f = Flow_Next then set_pc (cpu_regs c3) (?p + 4)
            else cpu_regs c3), cpu_icount := cpu_icount c + 1\<rparr> in
          step M K c = Some (Inr (), c4) \<and> cpu_ok inv sink_ok n c4"
    using step_mapped [OF assms True] by (elim exE conjE) (rule that)
  have "refines ?p (execute M c2 ?i ?p) (isa_exec M ?i (cpu_regs c2) (cpu_memory c2))"
    by (rule execute_refines) (use ok c2(1,2) in simp_all)
  then have spec: "refines ?p (Some (out, c3)) (isa_step M (cpu_regs c) (cpu_memory c))"
    unfolding x c2(1,2) i .
  show ?thesis
  proof (cases out)
    case (Inl t)
    then obtain l where "step M K c = Some (Inl t, c2\<lparr>cpu_trap_log := l\<rparr>)" using st by auto
    with spec Inl c2 show ?thesis by (simp add: refines_def)
  next
    case (Inr f)
    then have "step M K c = Some (Inr (), c3\<lparr>cpu_regs := (if f = Flow_Next then set_pc (cpu_regs c3) (?p + 4)
            else cpu_regs c3), cpu_icount := cpu_icount c + 1\<rparr>)"
      using st by (simp add: Let_def)
    with spec Inr show ?thesis by (simp add: refines_def after_flow_def)
  qed
qed

end

end
