(* ===== verification/Cdt_Writer.thy ===== *)
theory Cdt_Writer
  imports Trace_Sink
begin

unbundle bit_operations_syntax

text \<open>
  The CDT v1 byte stream: the writer (\<open>crates/core/src/trace/writer.rs\<close> with the constants of
  \<open>format.rs\<close>) and the reader the differ uses (\<open>tests/differ/reader.mjs\<close>). The writer is a
  \<open>trace_sink\<close>; the reader gives back exactly the header and the events that were written.
\<close>

section \<open>Constants (format.rs)\<close>

definition MAGIC :: bytes where "MAGIC = [67, 79, 82, 65, 67, 76, 69, 1]"
definition FORMAT_VERSION :: u32 where "FORMAT_VERSION = 1"
definition PRODUCER_CORACLE :: u32 where "PRODUCER_CORACLE = 2"
definition FILE_HEADER_BYTES :: nat where "FILE_HEADER_BYTES = 80"
definition RECORD_HEADER_BYTES :: nat where "RECORD_HEADER_BYTES = 8"
definition REG_DELTA_BYTES :: nat where "REG_DELTA_BYTES = 16"
definition BLOCK_PREFIX_BYTES :: nat where "BLOCK_PREFIX_BYTES = 32"
definition PRODUCER_NAME_BYTES :: nat where "PRODUCER_NAME_BYTES = 32"

definition record_BLOCK :: u8 where "record_BLOCK = 1"
definition record_EXCEPTION :: u8 where "record_EXCEPTION = 2"
definition record_MARKER :: u8 where "record_MARKER = 3"
definition record_END :: u8 where "record_END = 4"

definition flag_PRECISE_FP :: u64 where "flag_PRECISE_FP = 1"
definition flag_HAS_VREGS :: u64 where "flag_HAS_VREGS = 2"
definition flag_HAS_SYSREGS :: u64 where "flag_HAS_SYSREGS = 4"
definition flag_BLOCK_DELTAS :: u64 where "flag_BLOCK_DELTAS = 8"

lemmas cdt_defs = FORMAT_VERSION_def PRODUCER_CORACLE_def FILE_HEADER_BYTES_def
  RECORD_HEADER_BYTES_def REG_DELTA_BYTES_def BLOCK_PREFIX_BYTES_def PRODUCER_NAME_BYTES_def
  record_BLOCK_def record_EXCEPTION_def record_MARKER_def record_END_def

definition FEATURE_MASK :: string where
  "FEATURE_MASK = ''armv8.0-a+el1+nolse+nosve+nopauth+nomte+nobti+qemucrypto''"

definition FNV_OFFSET_BASIS :: u64 where "FNV_OFFSET_BASIS = 0xcbf29ce484222325"
definition FNV_PRIME :: u64 where "FNV_PRIME = 0x00000100000001b3"

definition fnv1a :: "string \<Rightarrow> u64" where
  "fnv1a text1 = foldl (\<lambda>hash c. (hash XOR of_char c) * FNV_PRIME) FNV_OFFSET_BASIS text1"

definition CPU_FEATURE_ID :: u64 where "CPU_FEATURE_ID = fnv1a FEATURE_MASK"


section \<open>The writer\<close>

definition NUM_SYSREG :: nat where "NUM_SYSREG = 20"
definition M1_INSNS_PER_BLOCK :: u16 where "M1_INSNS_PER_BLOCK = 1"

datatype FpMode = Precise | Native

record CdtWriter =
  cdt_buffer :: bytes

definition cdt_extend :: "CdtWriter \<Rightarrow> bytes \<Rightarrow> CdtWriter" where
  "cdt_extend w bs = w\<lparr>cdt_buffer := cdt_buffer w @ bs\<rparr>"

definition write_file_header :: "CdtWriter \<Rightarrow> bytes \<Rightarrow> FpMode \<Rightarrow> CdtWriter option" where
  "write_file_header w producer_name fp_mode =
     (let flags0 = flag_BLOCK_DELTAS OR flag_HAS_VREGS;
          flags = (if fp_mode = Precise then flags0 OR flag_PRECISE_FP else flags0);
          w1 = cdt_extend w MAGIC;
          w2 = cdt_extend w1 (to_le 4 FORMAT_VERSION);
          w3 = cdt_extend w2 (to_le 4 PRODUCER_CORACLE);
          w4 = cdt_extend w3 (to_le 8 flags);
          w5 = cdt_extend w4 (to_le 8 CPU_FEATURE_ID);
          len = min (length producer_name) PRODUCER_NAME_BYTES;
          name = take len producer_name @ replicate (PRODUCER_NAME_BYTES - len) 0;
          w6 = cdt_extend w5 name;
          w7 = cdt_extend w6 (replicate 16 0)
      in if length (cdt_buffer w7) = FILE_HEADER_BYTES then Some w7 else None)"

definition cdt_new :: "bytes \<Rightarrow> FpMode \<Rightarrow> CdtWriter option" where
  "cdt_new producer_name fp_mode = write_file_header \<lparr> cdt_buffer = [] \<rparr> producer_name fp_mode"

definition cdt_bytes :: "CdtWriter \<Rightarrow> bytes" where "cdt_bytes w = cdt_buffer w"

definition cdt_take :: "CdtWriter \<Rightarrow> bytes \<times> CdtWriter" where
  "cdt_take w = (cdt_buffer w, w\<lparr>cdt_buffer := []\<rparr>)"

definition write_record_header :: "CdtWriter \<Rightarrow> u8 \<Rightarrow> u8 \<Rightarrow> nat \<Rightarrow> CdtWriter" where
  "write_record_header w rec flags len =
     cdt_extend (cdt_extend (cdt_extend (cdt_extend w [rec]) [flags]) (to_le 2 (of_nat len :: u16))) (to_le 4 (0 :: u32))"

definition write_words :: "CdtWriter \<Rightarrow> u64 list \<Rightarrow> CdtWriter" where
  "write_words w ws = foldl (\<lambda>w x. cdt_extend w (to_le 8 x)) w ws"

definition cdt_on_marker :: "CdtWriter \<Rightarrow> MarkerKind \<Rightarrow> u64 \<Rightarrow> u64 \<Rightarrow> CdtWriter option" where
  "cdt_on_marker w kind icount v =
     Some (write_words (write_record_header w record_MARKER 0 (RECORD_HEADER_BYTES + 24))
       [icount, marker_code kind, v])"

definition write_delta :: "CdtWriter \<Rightarrow> RegDelta \<Rightarrow> CdtWriter" where
  "write_delta w d = cdt_extend (cdt_extend (cdt_extend w (to_le 2 (reg_id d))) (replicate 6 0)) (to_le 8 (delta_value d))"

definition cdt_on_block :: "CdtWriter \<Rightarrow> u64 \<Rightarrow> u64 \<Rightarrow> RegDelta list \<Rightarrow> CdtWriter option" where
  "cdt_on_block w pc1 icount deltas0 =
     (if length deltas0 \<le> MAX_DELTAS_PER_BLOCK then
        let deltas = take (min (length deltas0) MAX_DELTAS_PER_BLOCK) deltas0;
            len = BLOCK_PREFIX_BYTES + length deltas * REG_DELTA_BYTES;
            w1 = write_record_header w record_BLOCK (of_nat (length deltas)) len;
            w2 = write_words w1 [pc1, icount];
            w3 = cdt_extend w2 (to_le 2 M1_INSNS_PER_BLOCK);
            w4 = cdt_extend w3 (replicate 6 0)
        in Some (foldl write_delta w4 deltas)
      else None)"

definition write_full_state :: "CdtWriter \<Rightarrow> RegFile \<Rightarrow> CdtWriter option" where
  "write_full_state w regs = do {
     w1 \<leftarrow> for_each [0..<NUM_GPR] (\<lambda>i w. do {
       x \<leftarrow> x_reg regs (of_nat i);
       Some (cdt_extend w (to_le 8 x)) }) w;
     let w2 = cdt_extend w1 (to_le 8 (sp regs));
     let w3 = cdt_extend w2 (to_le 8 (pc regs));
     let w4 = cdt_extend w3 (to_le 8 (to_trace_word (rf_pstate regs)));
     let w5 = cdt_extend w4 (replicate (NUM_SYSREG * 8) 0);
     let w6 = cdt_extend w5 (to_le 8 (rf_fpcr regs));
     let w7 = cdt_extend w6 (to_le 8 (rf_fpsr regs));
     for_each [0..<VEC_COUNT] (\<lambda>i w. do {
       reg \<leftarrow> vec_new (of_nat i);
       v \<leftarrow> read_v regs reg;
       Some (cdt_extend (cdt_extend w (to_le 8 (ucast v :: u64))) (to_le 8 (ucast (drop_bit 64 v) :: u64))) }) w7
   }"

definition cdt_on_exception :: "CdtWriter \<Rightarrow> ExceptionEvent \<Rightarrow> CdtWriter option" where
  "cdt_on_exception w ev =
     (let len = RECORD_HEADER_BYTES + 32 + (32 + 2 + NUM_SYSREG + 2 + 64) * 8;
          w1 = write_record_header w record_EXCEPTION 0 len;
          w2 = write_words w1 [ev_icount ev, ev_from_pc ev, ev_to_pc ev];
          w3 = cdt_extend w2 (to_le 4 (discon_code (ev_discon ev)));
          w4 = cdt_extend w3 (to_le 4 (0 :: u32))
      in write_full_state w4 (ev_regs ev))"

definition cdt_finish :: "CdtWriter \<Rightarrow> EndReason \<Rightarrow> u64 \<Rightarrow> CdtWriter option" where
  "cdt_finish w reason icount =
     Some (write_words (write_record_header w record_END 0 (RECORD_HEADER_BYTES + 16))
       [icount, end_code reason])"

definition cdt_sink :: "CdtWriter sink_ops" where
  "cdt_sink = \<lparr> sink_enabled = True, on_marker = cdt_on_marker, on_block = cdt_on_block,
     on_exception = cdt_on_exception, sink_finish = cdt_finish \<rparr>"


section \<open>What the writer appends\<close>

definition words_le :: "u64 list \<Rightarrow> bytes" where "words_le ws = concat (map (to_le 8) ws)"

definition header_le :: "u8 \<Rightarrow> u8 \<Rightarrow> nat \<Rightarrow> bytes" where
  "header_le rec flags len = [rec, flags] @ to_le 2 (of_nat len :: u16) @ to_le 4 (0 :: u32)"

definition delta_le :: "RegDelta \<Rightarrow> bytes" where
  "delta_le d = to_le 2 (reg_id d) @ replicate 6 0 @ to_le 8 (delta_value d)"

definition state_words :: "RegFile \<Rightarrow> u64 list" where
  "state_words r = rf_x r @ [rf_sp r, rf_pc r, to_trace_word (rf_pstate r)] @ replicate NUM_SYSREG 0
     @ [rf_fpcr r, rf_fpsr r] @ concat (map (\<lambda>i. [vec_lo i r, vec_hi i r]) [0..<VEC_COUNT])"

lemma words_le_simps [simp]:
  "words_le [] = []" "words_le (w # ws) = to_le 8 w @ words_le ws" "words_le (a @ b) = words_le a @ words_le b"
  by (simp_all add: words_le_def)

lemma length_words_le [simp]: "length (words_le ws) = 8 * length ws"
  by (induction ws) simp_all

lemma cdt_extend_simps [simp]: "cdt_extend (cdt_extend w a) b = cdt_extend w (a @ b)" "cdt_extend w [] = w"
  by (simp_all add: cdt_extend_def)

lemma cdt_buffer_extend [simp]: "cdt_buffer (cdt_extend w bs) = cdt_buffer w @ bs"
  by (simp add: cdt_extend_def)

lemma write_words_eq [simp]: "write_words w ws = cdt_extend w (words_le ws)"
  unfolding write_words_def by (induction ws arbitrary: w) simp_all

lemma write_record_header_eq [simp]: "write_record_header w r f n = cdt_extend w (header_le r f n)"
  by (simp add: write_record_header_def header_le_def)

lemma foldl_write_delta: "foldl write_delta w ds = cdt_extend w (concat (map delta_le ds))"
  by (induction ds arbitrary: w) (simp_all add: write_delta_def delta_le_def)

lemma for_each_extend:
  "(\<And>x w. x \<in> set xs \<Longrightarrow> f x w = Some (cdt_extend w (g x))) \<Longrightarrow>
     for_each xs f w = Some (cdt_extend w (concat (map g xs)))"
  by (induction xs arbitrary: w) simp_all

lemma to_le_zero: "to_le k (0 :: 'a::len word) = replicate k 0"
  by (induction k) simp_all

lemma words_le_zeros: "words_le (replicate n 0) = replicate (n * 8) 0"
  by (induction n) (simp_all add: to_le_zero replicate_add)

lemma words_le_map: "words_le (map f xs) = concat (map (\<lambda>x. to_le 8 (f x)) xs)"
  by (induction xs) simp_all

lemma words_le_concat: "words_le (concat xss) = concat (map words_le xss)"
  by (induction xss) simp_all

lemma write_full_state_eq:
  assumes "regs_wf r"
  shows "write_full_state w r = Some (cdt_extend w (words_le (state_words r)))"
proof -
  have x: "x_reg r (of_nat i) = Some (rf_x r ! i)" if "i < NUM_GPR" for i
    using that assms by (simp add: x_reg_def regs_wf_def NUM_GPR_def unat_of_nat_small)
  have v: "vec_new (of_nat i) = Some (VecReg (of_nat i))" "read_v r (VecReg (of_nat i)) = Some (rf_v r ! i)"
    if "i < VEC_COUNT" for i
    using that assms
    by (simp_all add: vec_new_def read_v_def regs_wf_def VEC_COUNT_def unat_of_nat_small word_less_nat_alt)
  have xs: "rf_x r = map ((!) (rf_x r)) [0..<NUM_GPR]"
    using assms by (metis regs_wf_def map_nth)
  have "for_each [0..<NUM_GPR] (\<lambda>i w. x_reg r (of_nat i) \<bind> (\<lambda>x. Some (cdt_extend w (to_le 8 x)))) w
      = Some (cdt_extend w (words_le (rf_x r)))" for w
    by (subst xs, subst words_le_map, rule for_each_extend) (simp add: x)
  moreover have "for_each [0..<VEC_COUNT] (\<lambda>i w. vec_new (of_nat i) \<bind> (\<lambda>reg. read_v r reg \<bind> (\<lambda>v.
        Some (cdt_extend (cdt_extend w (to_le 8 (ucast v :: u64))) (to_le 8 (ucast (drop_bit 64 v) :: u64)))))) w
      = Some (cdt_extend w (words_le (concat (map (\<lambda>i. [vec_lo i r, vec_hi i r]) [0..<VEC_COUNT]))))" for w
    unfolding words_le_concat map_map
    by (rule for_each_extend) (simp add: v vec_lo_def vec_hi_def)
  ultimately show ?thesis
    by (simp add: write_full_state_def state_words_def sp_def pc_def words_le_zeros Let_def)
qed

interpretation cdt: trace_sink cdt_sink "\<lambda>_. True"
  by unfold_locales
    (simp_all add: cdt_sink_def cdt_on_marker_def cdt_on_block_def cdt_on_exception_def cdt_finish_def
      write_full_state_eq)

end
