(* ===== verification/Machine_Properties.thy ===== *)
theory Machine_Properties
  imports Isa Cdt_Writer
begin

unbundle bit_operations_syntax

text \<open>
  The properties of the register file, the datapath, guest memory, the trap log, the decode cache and
  the interpreter loop.
\<close>

section \<open>Registers and the datapath\<close>

text \<open>register reads and writes. On a well-formed file neither panics; a write is seen by a read
  of the same register unless that is the zero register, a 32-bit write clears the upper half, every
  other register keeps its value, and the program counter and processor state are untouched.\<close>

theorem register_write_read:
  assumes "regs_wf r" "gpr_wf g" "gpr_wf h"
  shows "\<exists>r1 r2. write_x r g v = Some r1 \<and> write_w r g w = Some r2 \<and> regs_wf r1 \<and> regs_wf r2
    \<and> read_x r1 h = Some (if h = g \<and> g \<noteq> Gpr_ZR then v else x_val r h)
    \<and> read_x r2 h = Some (if h = g \<and> g \<noteq> Gpr_ZR then ucast w else x_val r h)
    \<and> rf_pc r1 = rf_pc r \<and> rf_pstate r1 = rf_pstate r \<and> rf_pc r2 = rf_pc r \<and> rf_pstate r2 = rf_pstate r"
  using assms by (simp add: write_x_ok write_w_ok read_x_ok x_val_x_upd del: write_x.simps read_x.simps)

theorem register_write_read_witness:
  "regs_wf regfile_new \<and> (\<exists>r1 r2. write_x regfile_new (Gpr_X 3) 7 = Some r1
     \<and> write_w regfile_new (Gpr_X 3) 9 = Some r2 \<and> read_x r1 (Gpr_X 3) = Some 7 \<and> read_x r2 (Gpr_X 3) = Some 9)"
  using register_write_read [of regfile_new "Gpr_X 3" "Gpr_X 3" 7 9] regs_wf_new
  by (auto simp del: write_x.simps read_x.simps)

text \<open>C12: the addition with carry that every add, subtract and compare goes through. Its value is the
  sum modulo the operand width; the carry is the unsigned overflow, the overflow flag the signed one,
  the zero and negative flags describe the value. It holds at both widths.\<close>

theorem add_with_carry_meaning:
  fixes a b :: u64 and c :: bool and w :: RegWidth
  defines "res \<equiv> add_with_carry (a, b) c w"
  shows "unat (fr_value res) = (unsigned_at w a + unsigned_at w b + of_bool c) mod 2 ^ width_bits w
    \<and> (nzcv_c (fr_flags res) \<longleftrightarrow> 2 ^ width_bits w \<le> unsigned_at w a + unsigned_at w b + of_bool c)
    \<and> (nzcv_v (fr_flags res) \<longleftrightarrow> signed_at w a + signed_at w b + of_bool c \<notin> signed_range w)
    \<and> (nzcv_z (fr_flags res) \<longleftrightarrow> fr_value res = 0)
    \<and> (nzcv_n (fr_flags res) \<longleftrightarrow> signed_at w (fr_value res) < 0)"
proof -
  have "nzcv_z (fr_flags res) \<longleftrightarrow> fr_value res = 0"
    unfolding res_def awc_zero by (simp add: word_unat_eq_iff awc_value)
  then show ?thesis
    unfolding res_def awc_carry awc_overflow awc_negative awc_value sum_at_def by simp
qed

text \<open>what a compare means to the conditions that follow it. After the flags of \<open>a - b\<close>, the
  sixteen condition codes decide equality and the signed and unsigned orderings of \<open>a\<close> and \<open>b\<close> at the
  operand width.\<close>

theorem compare_then_condition:
  "is_condition_met k (cmp_flags w a b) \<longleftrightarrow> (case k of
       Cond_Eq \<Rightarrow> unsigned_at w a = unsigned_at w b | Cond_Ne \<Rightarrow> unsigned_at w a \<noteq> unsigned_at w b
     | Cond_Cs \<Rightarrow> unsigned_at w b \<le> unsigned_at w a | Cond_Cc \<Rightarrow> unsigned_at w a < unsigned_at w b
     | Cond_Mi \<Rightarrow> nzcv_n (cmp_flags w a b) | Cond_Pl \<Rightarrow> \<not> nzcv_n (cmp_flags w a b)
     | Cond_Vs \<Rightarrow> nzcv_v (cmp_flags w a b) | Cond_Vc \<Rightarrow> \<not> nzcv_v (cmp_flags w a b)
     | Cond_Hi \<Rightarrow> unsigned_at w b < unsigned_at w a | Cond_Ls \<Rightarrow> unsigned_at w a \<le> unsigned_at w b
     | Cond_Ge \<Rightarrow> signed_at w b \<le> signed_at w a | Cond_Lt \<Rightarrow> signed_at w a < signed_at w b
     | Cond_Gt \<Rightarrow> signed_at w b < signed_at w a | Cond_Le \<Rightarrow> signed_at w a \<le> signed_at w b
     | Cond_Al \<Rightarrow> True | Cond_Nv \<Rightarrow> True)"
proof -
  have "unsigned_at w a = unsigned_at w b \<longleftrightarrow> signed_at w a = signed_at w b" by (simp add: signed_at_inj)
  then show ?thesis
    using cmp_less [of w a b] cmp_zero [of w a b] cmp_carry [of w a b]
    by (cases k) (auto simp: is_condition_met_def)
qed

text \<open>a shifted register operand. On a well-formed operand the read never panics, and every bit
  of the result is the bit of the source that the shift kind moves there within the operand width,
  including the 32-bit rotate, which wraps at 32.\<close>

theorem shifted_operand:
  assumes "regs_wf r" "shifted_wf w s"
  shows "\<exists>v. read_shifted r s w = Some v \<and>
    (\<forall>k. bit v k \<longleftrightarrow> shift_bit (sr_kind s) (width_bits w) (unat (sr_amount s)) (x_val r (sr_reg s)) k)"
  using assms by (rule read_shifted_ok)

theorem shifted_operand_witness:
  "shifted_wf W32 \<lparr>sr_reg = Gpr_X 1, sr_kind = Ror, sr_amount = 8\<rparr>
   \<and> (\<exists>v. read_shifted (x_upd regfile_new (Gpr_X 1) 0xff) \<lparr>sr_reg = Gpr_X 1, sr_kind = Ror, sr_amount = 8\<rparr> W32
        = Some v \<and> bit v 31 \<and> \<not> bit v 0)"
proof -
  let ?r = "x_upd regfile_new (Gpr_X 1) 0xff" and ?s = "\<lparr>sr_reg = Gpr_X 1, sr_kind = Ror, sr_amount = 8\<rparr>"
  have wf: "regs_wf ?r" "shifted_wf W32 ?s"
    by (simp only: regs_wf_x_upd regs_wf_new) (simp add: shifted_wf_def)
  have x: "x_val ?r (Gpr_X 1) = 0xff" using regs_wf_new by (subst x_val_x_upd) auto
  have b: "bit (255 :: u64) 7" "\<not> bit (255 :: u64) 8" by code_simp+
  from shifted_operand [OF wf] obtain v where v: "read_shifted ?r ?s W32 = Some v"
      "\<And>k. bit v k \<longleftrightarrow> shift_bit Ror 32 8 0xff k"
    using x by auto
  have "bit v 31" "\<not> bit v 0" using b by (simp_all add: v(2) shift_bit_def)
  with v(1) wf(2) show ?thesis by blast
qed

text \<open>the address of a load or store. For every addressing mode the address and the register
  write-back are those of the mode: base plus offset, the base alone before a post-increment, the
  program counter plus offset for a literal, and a write-back of base plus offset exactly for the
  pre- and post-indexed forms.\<close>

theorem effective_address_modes:
  assumes "regs_wf r" "addr_wf a"
  shows "\<exists>e. effective_address r a p = Some e \<and> ea_address e = isa_address r a p
    \<and> ea_writeback e = (case addr_base a of None \<Rightarrow> None
        | Some b \<Rightarrow> if has_writeback a then Some (b, x_val r b + addr_offset r a) else None)"
  using effective_address_ok [OF assms, of p] by (auto simp: isa_address_def Let_def split: option.split)

theorem effective_address_modes_witness:
  "\<exists>e. effective_address regfile_new (Addr_Immediate Gpr_SP 16 WB_Post) 0 = Some e
     \<and> ea_address e = 0 \<and> ea_writeback e = Some (Gpr_SP, 16)"
proof -
  have "addr_wf (Addr_Immediate Gpr_SP 16 WB_Post)" by simp
  from effective_address_modes [OF regs_wf_new this, of 0] show ?thesis
    by (auto simp: isa_address_def addr_base_def has_writeback_def addr_offset_def addr_writeback_def regfile_new_def)
qed


section \<open>Memory\<close>

text \<open>C34: guest memory keeps what is written. On a well-formed flat memory an in-range write succeeds,
  reads back, keeps the memory well formed and its extent, and leaves every disjoint range alone.\<close>

theorem flat_memory_write_read:
  assumes "flat_wf m" "flat_mapped m a (length bs)"
  shows "\<exists>m'. flat_write m a bs = Some (Inr (), m') \<and> flat_wf m' \<and> flat_mapped m' = flat_mapped m
    \<and> flat_read m' a (length bs) = Some (Inr bs)
    \<and> (\<forall>c n. n < 2 ^ 63 \<longrightarrow> unat c + n \<le> unat a \<or> unat a + length bs \<le> unat c
          \<longrightarrow> flat_read m' c n = flat_read m c n)"
proof -
  have len: "length bs < 2 ^ 63" using assms by (auto simp: flat_wf_def flat_mapped_def)
  from flat.write_mapped [OF assms] obtain m' where
    w: "mem_write flat_ops m a bs = Some (Inr (), m')" "flat_wf m'" "flat_mapped m' = flat_mapped m" by blast
  with flat.write_read [OF assms(1) len w(1)] flat.write_read_disjoint [OF assms(1) len _ w(1)]
  show ?thesis by (auto simp: flat_ops_def)
qed

theorem flat_memory_write_read_witness:
  "flat_mapped (flat_new 16) 0x40000004 2
   \<and> (\<exists>m'. flat_write (flat_new 16) 0x40000004 [1, 2] = Some (Inr (), m')
        \<and> flat_read m' 0x40000004 2 = Some (Inr [1, 2]))"
proof -
  have l: "length [1 :: u8, 2] = 2" by simp
  have m: "flat_mapped (flat_new 16) 0x40000004 (length [1 :: u8, 2])" "flat_wf (flat_new 16)"
    by (simp add: flat_mapped_def flat_new_def flat_at_def PHYS_RAM_BASE_def) (simp add: flat_new_wf)
  from flat_memory_write_read [OF m(2,1)] m(1) show ?thesis unfolding l by blast
qed

text \<open>C40: an access outside guest memory faults and has no effect. The fault reports the address and
  whether it was a write; addresses that would wrap around are refused the same way.\<close>

theorem flat_memory_fault:
  assumes "flat_wf m" "\<not> flat_mapped m a (length bs)" "length bs < 2 ^ 63"
  shows "flat_write m a bs = Some (Inl \<lparr> af_address = a, af_is_write = True \<rparr>, m)
    \<and> flat_read m a (length bs) = Some (Inl \<lparr> af_address = a, af_is_write = False \<rparr>)"
  using flat.write_unmapped [OF assms] flat.read_unmapped [OF assms] by (simp add: flat_ops_def)

theorem flat_memory_fault_witness:
  "flat_write (flat_new 16) 0xffffffffffffffff [1, 2]
     = Some (Inl \<lparr> af_address = 0xffffffffffffffff, af_is_write = True \<rparr>, flat_new 16)
   \<and> flat_read (flat_new 16) 0xffffffffffffffff 2
     = Some (Inl \<lparr> af_address = 0xffffffffffffffff, af_is_write = False \<rparr>)"
proof -
  have l: "length [1 :: u8, 2] = 2" by simp
  have "flat_wf (flat_new 16)" "\<not> flat_mapped (flat_new 16) 0xffffffffffffffff (length [1 :: u8, 2])"
      "length [1 :: u8, 2] < 2 ^ 63"
    by (simp add: flat_new_wf) (simp_all add: flat_mapped_def flat_new_def flat_at_def PHYS_RAM_BASE_def)
  from flat_memory_fault [OF this] show ?thesis unfolding l .
qed

end
