(* ===== verification/Traced_Machine.thy ===== *)
theory Traced_Machine
  imports Isa Cdt_Writer
begin

text \<open>
  The interpreter with a trace attached: \<open>FlatMemory\<close> and the CDT writer satisfy the machine contract,
  and two machines that differ only in their sink run the same guest.
\<close>

interpretation flat_cdt: machine flat_ops flat_wf flat_mapped flat_byte cdt_sink "\<lambda>_. True"
  by unfold_locales

text \<open>\<open>same_guest\<close>: the guest-visible state of two machines, whatever their sinks.\<close>

definition same_guest :: "('m, 's) Cpu \<Rightarrow> ('m, 't) Cpu \<Rightarrow> bool" where
  "same_guest c d \<longleftrightarrow> cpu_regs c = cpu_regs d \<and> cpu_memory c = cpu_memory d \<and> cpu_icount c = cpu_icount d"

lemma step_same_guest:
  assumes "cpu_ok flat_wf (\<lambda>_. True) (Suc n) c" "cpu_ok flat_wf (\<lambda>_. True) (Suc n) d" "same_guest c d"
  shows "\<exists>r c' d'. step flat_ops null_sink c = Some (r, c') \<and> step flat_ops cdt_sink d = Some (r, d')
    \<and> same_guest c' d' \<and> cpu_ok flat_wf (\<lambda>_. True) n c' \<and> cpu_ok flat_wf (\<lambda>_. True) n d'"
proof -
  from flat_null.step_ok [OF assms(1)] flat_null.step_refines [OF assms(1)] obtain r c' where
    c: "step flat_ops null_sink c = Some (r, c')" "cpu_ok flat_wf (\<lambda>_. True) n c'"
      "isl r \<longrightarrow> cpu_icount c' = cpu_icount c" "\<not> isl r \<longrightarrow> cpu_icount c' = cpu_icount c + 1"
      "case r of Inl t \<Rightarrow> isa_step flat_ops (cpu_regs c) (cpu_memory c) = Inl t
           \<and> cpu_regs c' = cpu_regs c \<and> cpu_memory c' = cpu_memory c
       | Inr _ \<Rightarrow> isa_step flat_ops (cpu_regs c) (cpu_memory c) = Inr (cpu_regs c', cpu_memory c')"
    by auto
  from flat_cdt.step_ok [OF assms(2)] flat_cdt.step_refines [OF assms(2)] obtain q d' where
    d: "step flat_ops cdt_sink d = Some (q, d')" "cpu_ok flat_wf (\<lambda>_. True) n d'"
      "isl q \<longrightarrow> cpu_icount d' = cpu_icount d" "\<not> isl q \<longrightarrow> cpu_icount d' = cpu_icount d + 1"
      "case q of Inl t \<Rightarrow> isa_step flat_ops (cpu_regs d) (cpu_memory d) = Inl t
           \<and> cpu_regs d' = cpu_regs d \<and> cpu_memory d' = cpu_memory d
       | Inr _ \<Rightarrow> isa_step flat_ops (cpu_regs d) (cpu_memory d) = Inr (cpu_regs d', cpu_memory d')"
    by auto
  have "q = r \<and> same_guest c' d'"
    using c(3-5) d(3-5) assms(3) by (cases r; cases q) (auto simp: same_guest_def)
  with c d show ?thesis by blast
qed

lemma run_same_guest:
  "cpu_ok flat_wf (\<lambda>_. True) n c \<Longrightarrow> cpu_ok flat_wf (\<lambda>_. True) n d \<Longrightarrow> same_guest c d \<Longrightarrow>
     \<exists>stop c' d'. run_loop flat_ops null_sink n c = Some (stop, c')
       \<and> run_loop flat_ops cdt_sink n d = Some (stop, d') \<and> same_guest c' d'"
proof (induction n arbitrary: c d)
  case (Suc n)
  from step_same_guest [OF Suc.prems] obtain r c1 d1 where
    s: "step flat_ops null_sink c = Some (r, c1)" "step flat_ops cdt_sink d = Some (r, d1)" "same_guest c1 d1"
      "cpu_ok flat_wf (\<lambda>_. True) n c1" "cpu_ok flat_wf (\<lambda>_. True) n d1"
    by blast
  show ?case using s Suc.IH [OF s(4,5,3)] by (cases r) auto
qed simp

end
