(* ===== verification/Interp_Properties.thy ===== *)
theory Interp_Properties
  imports Traced_Machine
begin

text \<open>
  The properties of the trap log, the decode cache and the interpreter loop.
\<close>

section \<open>Trap log and decode cache\<close>

lemma record_all_total:
  "traplog_room (length ks) l \<Longrightarrow> record_all record_encoding l ks = Some l' \<Longrightarrow>
     unat (tl_total l') = unat (tl_total l) + length ks"
proof (induction ks arbitrary: l)
  case (Cons k ks)
  from record_encoding_ok [of "length ks" l k] Cons.prems(1) obtain l1 where
    l1: "record_encoding l k = Some l1" "traplog_room (length ks) l1" "tl_total l1 = tl_total l + 1" by auto
  have "unat (tl_total l + 1) = unat (tl_total l) + 1"
    using Cons.prems(1) by (simp add: traplog_room_def unat_add_ok)
  with Cons.IH [OF l1(2)] Cons.prems(2) l1 show ?case by simp
qed simp

text \<open>C19: the trap log keeps the first 256 distinct encodings in the order they first trapped.
  Recording a sequence of encodings into an empty log never panics and the log stays well formed;
  its entries are the first 256 distinct encodings, whatever repeats and however many there are, and
  the entries' counts and the dropped encounters add up to the number of traps.\<close>

theorem trap_log_first_seen:
  assumes "length encs < 2 ^ 64"
  shows "\<exists>l. record_all record_encoding traplog_new encs = Some l \<and> traplog_wf l
    \<and> traplog_keys l = take 256 (first_seen encs)
    \<and> sum_list (map (unat \<circ> tle_count) (traplog_entries l)) + unat (dropped_encodings l) = length encs
    \<and> unat (total_encounters l) = length encs"
proof -
  have k0: "traplog_keys traplog_new = []"
    by (simp add: traplog_keys_def traplog_entries_def traplog_new_def map_filter_def)
  have r: "traplog_room (length encs + 0) traplog_new"
    using assms by (simp add: traplog_room_def) (simp add: traplog_new_def)
  from trap_log.record_all_fresh [OF r k0] obtain l where
    l: "record_all record_encoding traplog_new encs = Some l" "traplog_room 0 l"
      "traplog_keys l = take TRAP_LOG_CAPACITY (first_seen encs)" by blast
  have wf: "traplog_wf l" using l(2) by (simp add: traplog_room_def)
  have "unat (tl_total l) = length encs"
    using record_all_total [OF _ l(1)] r by (simp add: traplog_new_def)
  with traplog_wfD(3) [OF wf] l(1,3) wf show ?thesis
    by (simp add: TRAP_LOG_CAPACITY_def dropped_encodings_def total_encounters_def)
qed

theorem trap_log_first_seen_witness:
  "\<exists>l. record_all record_encoding traplog_new [7, 9, 7] = Some l \<and> traplog_keys l = [7, 9]
     \<and> unat (total_encounters l) = 3"
proof -
  have "first_seen [7, 9, 7 :: u32] = [7, 9]" by (simp add: first_seen_def)
  with trap_log_first_seen [of "[7, 9, 7]"] show ?thesis by auto
qed

text \<open>C14: the decode cache is transparent. Whatever was looked up before, a lookup returns exactly
  what decoding the word returns, whatever address it is looked up under; the cache stays well formed
  and each lookup is counted once as a hit or a miss.\<close>

theorem decode_cache_transparent:
  assumes "cache_room (Suc n) c"
  shows "\<exists>i c'. cache_decoded c p enc = Some (i, c') \<and> decode enc = Some i \<and> cache_room n c'
    \<and> unat (cache_hits c') + unat (cache_misses c') = unat (cache_hits c) + unat (cache_misses c) + 1"
  using cache_decoded_ok [OF assms, of p enc] by (auto simp: cache_hits_def cache_misses_def)

theorem decode_cache_transparent_witness:
  "cache_room 1 cache_new \<and> (\<exists>i c'. cache_decoded cache_new 0x1000 0xd503201f = Some (i, c')
     \<and> decode 0xd503201f = Some i \<and> unat (cache_hits c') + unat (cache_misses c') = 1)"
proof -
  have r: "cache_room (Suc 0) cache_new" by (rule cache_new_room) simp
  from decode_cache_transparent [OF r, of "0x1000" "0xd503201f"] r show ?thesis
    by (auto simp: cache_hits_def cache_misses_def cache_new_def)
qed


section \<open>The interpreter loop\<close>

text \<open>A state every witness starts from: eight bytes of memory holding \<open>ADD x1, x1, #5\<close> and
  \<open>SVC #0\<close>, and a fresh CPU with its program counter on the first.\<close>

definition demo_memory :: FlatMemory where
  "demo_memory = \<lparr> fm_base = 0x1000, fm_bytes = [0x21, 0x14, 0x00, 0x91, 0x01, 0x00, 0x00, 0xd4] \<rparr>"

definition demo_cpu :: "'s \<Rightarrow> (FlatMemory, 's) Cpu" where
  "demo_cpu s = (cpu_with_sink demo_memory s)\<lparr>cpu_regs := set_pc regfile_new 0x1000\<rparr>"

lemma demo_ok: "n < 2 ^ 64 \<Longrightarrow> cpu_ok flat_wf (\<lambda>_. True) n (demo_cpu s)"
  using cpu_with_sink_ok [of flat_wf demo_memory "\<lambda>_. True" s n]
  by (simp add: demo_cpu_def cpu_ok_def flat_wf_def demo_memory_def regs_wf_new)

text \<open>C2: one interpreter step implements one step of the instruction-set specification. From a
  well-formed machine over flat memory, a step never panics; it traps exactly when the specification
  traps, with the same trap, and otherwise leaves the registers and memory the specification
  prescribes. Decode cache, trace and trap log do not show in the guest's state.\<close>

theorem step_refines_isa:
  assumes "cpu_ok flat_wf (\<lambda>_. True) (Suc n) c"
  shows "\<exists>r c'. step flat_ops null_sink c = Some (r, c')
    \<and> (case r of
         Inl t \<Rightarrow> isa_step flat_ops (cpu_regs c) (cpu_memory c) = Inl t
           \<and> cpu_regs c' = cpu_regs c \<and> cpu_memory c' = cpu_memory c
       | Inr _ \<Rightarrow> isa_step flat_ops (cpu_regs c) (cpu_memory c) = Inr (cpu_regs c', cpu_memory c'))"
  using assms by (rule flat_null.step_refines)

theorem step_refines_isa_witness:
  "\<exists>r c'. step flat_ops null_sink (demo_cpu ()) = Some (r, c')
    \<and> (case r of
         Inl t \<Rightarrow> isa_step flat_ops (set_pc regfile_new 0x1000) demo_memory = Inl t
       | Inr _ \<Rightarrow> isa_step flat_ops (set_pc regfile_new 0x1000) demo_memory = Inr (cpu_regs c', cpu_memory c'))"
proof -
  have "cpu_ok flat_wf (\<lambda>_. True) (Suc 0) (demo_cpu ())" by (rule demo_ok) simp
  from step_refines_isa [OF this] show ?thesis
    by (auto simp: demo_cpu_def cpu_with_sink_def split: sum.splits)
qed

text \<open>C6: traps are precise. A step keeps the machine well formed and the extent of guest memory; a
  trapping step leaves registers, program counter, memory and the instruction count exactly as they
  were, and a step that does not trap retires exactly one instruction.\<close>

theorem step_precise:
  assumes "cpu_ok flat_wf (\<lambda>_. True) (Suc n) c"
  shows "\<exists>r c'. step flat_ops cdt_sink c = Some (r, c') \<and> cpu_ok flat_wf (\<lambda>_. True) n c'
    \<and> flat_mapped (cpu_memory c') = flat_mapped (cpu_memory c)
    \<and> (isl r \<longrightarrow> cpu_regs c' = cpu_regs c \<and> cpu_memory c' = cpu_memory c \<and> icount c' = icount c)
    \<and> (\<not> isl r \<longrightarrow> icount c' = icount c + 1)"
  using flat_cdt.step_ok [OF assms] by (simp add: icount_def)

theorem step_precise_witness:
  "\<exists>r c'. step flat_ops cdt_sink (demo_cpu \<lparr>cdt_buffer = []\<rparr>) = Some (r, c')
     \<and> cpu_ok flat_wf (\<lambda>_. True) 0 c' \<and> (\<not> isl r \<longrightarrow> icount c' = 1)"
proof -
  have "cpu_ok flat_wf (\<lambda>_. True) (Suc 0) (demo_cpu \<lparr>cdt_buffer = []\<rparr>)" by (rule demo_ok) simp
  moreover have "icount (demo_cpu \<lparr>cdt_buffer = []\<rparr>) = 0" by (simp add: demo_cpu_def cpu_with_sink_def icount_def)
  ultimately show ?thesis using step_precise [of 0 "demo_cpu \<lparr>cdt_buffer = []\<rparr>"] by auto
qed

text \<open>C16: the instruction budget is exact. A run of \<open>budget\<close> instructions never panics; it stops with
  the budget exhausted exactly when \<open>budget\<close> instructions retired, and otherwise at a trap with fewer.\<close>

theorem run_budget_exact:
  assumes "cpu_ok flat_wf (\<lambda>_. True) (unat budget + k) c"
  shows "\<exists>stop c'. run flat_ops null_sink c budget = Some (stop, c') \<and> cpu_ok flat_wf (\<lambda>_. True) k c'
    \<and> unat (icount c) \<le> unat (icount c') \<and> unat (icount c') \<le> unat (icount c) + unat budget
    \<and> (stop = BudgetExhausted \<longleftrightarrow> unat (icount c') = unat (icount c) + unat budget)"
  using flat_null.run_loop_ok [OF assms] by (auto simp: run_def icount_def)

theorem run_budget_exact_witness:
  "\<exists>stop c'. run flat_ops null_sink (demo_cpu ()) 1 = Some (stop, c')
     \<and> (stop = BudgetExhausted \<longleftrightarrow> unat (icount c') = 1)"
proof -
  have "cpu_ok flat_wf (\<lambda>_. True) (unat (1 :: u64) + 0) (demo_cpu ())" by (rule demo_ok) simp
  moreover have "icount (demo_cpu ()) = 0" by (simp add: demo_cpu_def cpu_with_sink_def icount_def)
  ultimately show ?thesis using run_budget_exact [of 1 0 "demo_cpu ()"] by auto
qed

text \<open>C35: a run can be cut anywhere. Running \<open>a\<close> instructions and, if the budget ran out, \<open>b\<close> more
  gives the same stop and the same machine as running \<open>a + b\<close> at once, for every memory and sink.\<close>

theorem run_resumes:
  assumes "unat a + unat b < 2 ^ 64"
  shows "run M K c (a + b) = do {
     (stop, c') \<leftarrow> run M K c a;
     (case stop of BudgetExhausted \<Rightarrow> run M K c' b | Trapped t \<Rightarrow> Some (Trapped t, c'))
   }"
  using assms unfolding run_def by (simp add: unat_add_ok run_loop_add)

theorem run_resumes_witness:
  "run flat_ops null_sink (demo_cpu ()) (1 + 1) = do {
     (stop, c') \<leftarrow> run flat_ops null_sink (demo_cpu ()) 1;
     (case stop of BudgetExhausted \<Rightarrow> run flat_ops null_sink c' 1 | Trapped t \<Rightarrow> Some (Trapped t, c'))
   }"
  by (rule run_resumes) simp

text \<open>C17: tracing does not change the guest. Two machines in the same guest state, one with no sink
  and one writing a CDT trace, run to the same stop and the same registers, memory and instruction
  count.\<close>

theorem tracing_transparent:
  assumes "cpu_ok flat_wf (\<lambda>_. True) (unat budget) c" "cpu_ok flat_wf (\<lambda>_. True) (unat budget) d" "same_guest c d"
  shows "\<exists>stop c' d'. run flat_ops null_sink c budget = Some (stop, c')
    \<and> run flat_ops cdt_sink d budget = Some (stop, d') \<and> same_guest c' d'"
  using run_same_guest [OF assms] by (simp add: run_def)

theorem tracing_transparent_witness:
  "\<exists>stop c' d'. run flat_ops null_sink (demo_cpu ()) 2 = Some (stop, c')
    \<and> run flat_ops cdt_sink (demo_cpu \<lparr>cdt_buffer = []\<rparr>) 2 = Some (stop, d') \<and> same_guest c' d'"
  by (rule tracing_transparent)
    (simp_all add: demo_ok, simp add: same_guest_def demo_cpu_def cpu_with_sink_def)

end
