(* ===== verification/Cdt_Reader.thy ===== *)
theory Cdt_Reader
  imports Cdt_Writer
begin

text \<open>
  The consumer of the trace stream, \<open>tests/differ/reader.mjs\<close>, and the round trip with the
  writer. \<open>None\<close> stands for a thrown \<open>TraceFormatError\<close> or \<open>RangeError\<close>, which both abort the load.
\<close>

section \<open>The reader\<close>

text \<open>\<open>DataView.getUintN(offset, true)\<close>: out of range throws.\<close>

definition get_le :: "nat \<Rightarrow> bytes \<Rightarrow> nat \<Rightarrow> 'a::len word option" where
  "get_le n view offset = (if offset + n \<le> length view then Some (from_le (take n (drop offset view))) else None)"

datatype CdtRecord =
    Rec_Block u64 u64 u16 "RegDelta list"     \<comment> \<open>\<open>pc, icount, nInsns, deltas\<close>\<close>
  | Rec_Exception u64 u64 u64 u32 "u64 list" u64 u64 "u64 list" u64 u64 "u64 list"
      \<comment> \<open>\<open>icount, fromPc, toPc, disconType, x, pc, pstate, sysreg, fpcr, fpsr, v\<close>\<close>
  | Rec_Marker u64 u64 u64                    \<comment> \<open>\<open>icount, kind, value\<close>\<close>
  | Rec_End u64 u64                           \<comment> \<open>\<open>icount, reason\<close>\<close>
  | Rec_Unknown u8

record CdtHeader =
  hd_format_version :: u32
  hd_producer :: u32
  hd_flags :: u64
  hd_cpu_feature_id :: u64
  hd_producer_name :: bytes

definition read_header :: "bytes \<Rightarrow> CdtHeader option" where
  "read_header view =
     (if take 8 view \<noteq> MAGIC then None else do {
        v \<leftarrow> get_le 4 view 8;
        if v \<noteq> FORMAT_VERSION then None else do {
          prod \<leftarrow> get_le 4 view 12;
          flags \<leftarrow> get_le 8 view 16;
          fid \<leftarrow> get_le 8 view 24;
          Some \<lparr> hd_format_version = v, hd_producer = prod, hd_flags = flags, hd_cpu_feature_id = fid,
                 hd_producer_name = takeWhile (\<lambda>b. b \<noteq> 0) (take 32 (drop 32 view)) \<rparr>
        }
      })"

primrec read_deltas :: "bytes \<Rightarrow> nat \<Rightarrow> nat \<Rightarrow> RegDelta list option" where
  "read_deltas view cursor 0 = Some []"
| "read_deltas view cursor (Suc n) = do {
     i \<leftarrow> get_le 2 view cursor;
     v \<leftarrow> get_le 8 view (cursor + 8);
     ds \<leftarrow> read_deltas view (cursor + REG_DELTA_BYTES) n;
     Some (\<lparr> reg_id = i, delta_value = v \<rparr> # ds)
   }"

definition read_block :: "bytes \<Rightarrow> nat \<Rightarrow> nat \<Rightarrow> CdtRecord option" where
  "read_block view offset count = do {
     deltas \<leftarrow> read_deltas view (offset + BLOCK_PREFIX_BYTES) count;
     p \<leftarrow> get_le 8 view (offset + 8);
     ic \<leftarrow> get_le 8 view (offset + 16);
     n \<leftarrow> get_le 2 view (offset + 24);
     Some (Rec_Block p ic n deltas)
   }"

primrec read_words :: "bytes \<Rightarrow> nat \<Rightarrow> nat \<Rightarrow> u64 list option" where
  "read_words view offset 0 = Some []"
| "read_words view offset (Suc n) = do {
     w \<leftarrow> get_le 8 view offset;
     ws \<leftarrow> read_words view (offset + 8) n;
     Some (w # ws)
   }"

definition read_exception :: "bytes \<Rightarrow> nat \<Rightarrow> CdtRecord option" where
  "read_exception view offset = do {
     ic \<leftarrow> get_le 8 view (offset + 8);
     from_pc \<leftarrow> get_le 8 view (offset + 16);
     to_pc \<leftarrow> get_le 8 view (offset + 24);
     discon \<leftarrow> get_le 4 view (offset + 32);
     let cursor = offset + 40;
     x \<leftarrow> read_words view cursor 32;
     p \<leftarrow> get_le 8 view (cursor + 256);
     ps \<leftarrow> get_le 8 view (cursor + 264);
     sysreg \<leftarrow> read_words view (cursor + 272) NUM_SYSREG;
     fpcr \<leftarrow> get_le 8 view (cursor + 272 + NUM_SYSREG * 8);
     fpsr \<leftarrow> get_le 8 view (cursor + 280 + NUM_SYSREG * 8);
     v \<leftarrow> read_words view (cursor + 288 + NUM_SYSREG * 8) (32 * 2);
     Some (Rec_Exception ic from_pc to_pc discon x p ps sysreg fpcr fpsr v)
   }"

definition read_record :: "bytes \<Rightarrow> nat \<Rightarrow> (nat \<times> CdtRecord) option" where
  "read_record view offset = do {
     type1 \<leftarrow> get_le 1 view offset;
     flags \<leftarrow> get_le 1 view (offset + 1);
     len16 \<leftarrow> get_le 2 view (offset + 2);
     let len = unat (len16 :: u16);
     if len < RECORD_HEADER_BYTES \<or> len mod 8 \<noteq> 0 then None
     else if type1 = record_BLOCK then do {
       r \<leftarrow> read_block view offset (unat (flags :: u8)); Some (len, r) }
     else if type1 = record_EXCEPTION then do {
       r \<leftarrow> read_exception view offset; Some (len, r) }
     else if type1 = record_MARKER then do {
       ic \<leftarrow> get_le 8 view (offset + 8);
       kind \<leftarrow> get_le 8 view (offset + 16);
       v \<leftarrow> get_le 8 view (offset + 24);
       Some (len, Rec_Marker ic kind v) }
     else if type1 = record_END then do {
       ic \<leftarrow> get_le 8 view (offset + 8);
       reason \<leftarrow> get_le 8 view (offset + 16);
       Some (len, Rec_End ic reason) }
     else Some (len, Rec_Unknown type1)
   }"

lemma read_record_length: "read_record view offset = Some (len, r) \<Longrightarrow> 8 \<le> len"
  by (auto simp: read_record_def RECORD_HEADER_BYTES_def Let_def not_less
      split: if_splits bind_splits)

function read_records :: "bytes \<Rightarrow> nat \<Rightarrow> CdtRecord list option" where
  "read_records view offset =
     (if offset + RECORD_HEADER_BYTES \<le> length view then do {
        (len, r) \<leftarrow> read_record view offset;
        if length view < offset + len then None
        else do { rs \<leftarrow> read_records view (offset + len); Some (r # rs) }
      } else Some [])"
  by pat_completeness auto

termination
  by (relation "measure (\<lambda>(view, offset). length view - offset)")
    (auto dest!: read_record_length simp: RECORD_HEADER_BYTES_def)

declare read_records.simps [simp del]

definition load_trace :: "bytes \<Rightarrow> (CdtHeader \<times> CdtRecord list) option" where
  "load_trace bs =
     (if length bs < FILE_HEADER_BYTES then None else do {
        h \<leftarrow> read_header bs;
        rs \<leftarrow> read_records bs FILE_HEADER_BYTES;
        Some (h, rs)
      })"


section \<open>Reading what was written\<close>

lemma get_le_append: "length pre = k \<Longrightarrow> get_le n (pre @ v) (k + i) = get_le n v i"
  by (auto simp: get_le_def)

lemma get_le_skip: "length a \<le> i \<Longrightarrow> get_le n (a @ v) i = get_le n v (i - length a)"
  using get_le_append [of a "length a" n v "i - length a"] by simp

lemma get_le_Cons: "0 < i \<Longrightarrow> get_le n (b # v) i = get_le n v (i - 1)"
  using get_le_skip [of "[b]" i n v] by simp

lemma get_le_hit: "LENGTH('a) = 8 * n \<Longrightarrow> get_le n (to_le n (x :: 'a::len word) @ v) 0 = Some x"
  by (simp add: get_le_def from_le_to_le_full)

lemma get_byte: "get_le 1 (b # v) 0 = Some (b :: u8)"
  by (simp add: get_le_def)

lemmas get_le_simps = get_le_skip get_le_Cons get_le_hit get_byte

lemma read_deltas_append:
  "length pre = k \<Longrightarrow> read_deltas (pre @ v) (k + i) n = read_deltas v i n"
proof (induction n arbitrary: i)
  case (Suc n)
  have "get_le 2 (pre @ v) (k + i) = (get_le 2 v i :: u16 option)"
      "get_le 8 (pre @ v) (k + i + 8) = (get_le 8 v (i + 8) :: u64 option)"
    using get_le_append [OF Suc.prems, of _ v] by (simp_all add: add.assoc)
  then show ?case using Suc.IH [OF Suc.prems, of "i + REG_DELTA_BYTES"] by (simp add: add.assoc)
qed simp

lemma read_words_append:
  "length pre = k \<Longrightarrow> read_words (pre @ v) (k + i) n = read_words v i n"
proof (induction n arbitrary: i)
  case (Suc n)
  have "get_le 8 (pre @ v) (k + i) = (get_le 8 v i :: u64 option)"
    using Suc.prems by (rule get_le_append)
  then show ?case using Suc.IH [OF Suc.prems, of "i + 8"] by (simp add: add.assoc)
qed simp

lemma length_delta_le [simp]: "length (delta_le d) = 16"
  by (simp add: delta_le_def)

lemma get_delta:
  "get_le 2 (delta_le d @ v) 0 = Some (reg_id d)" "get_le 8 (delta_le d @ v) 8 = Some (delta_value d)"
  by (simp_all add: delta_le_def get_le_simps)

lemma read_deltas_le: "read_deltas (concat (map delta_le ds) @ v) 0 (length ds) = Some ds"
proof (induction ds)
  case (Cons d ds)
  have "read_deltas (delta_le d @ concat (map delta_le ds) @ v) (16 + 0) (length ds) = Some ds"
    using Cons.IH by (subst read_deltas_append) simp_all
  then show ?case by (simp add: get_delta REG_DELTA_BYTES_def)
qed simp

lemma read_words_le: "read_words (words_le ws @ v) 0 (length ws) = Some ws"
proof (induction ws)
  case (Cons w ws)
  have "read_words (to_le 8 w @ words_le ws @ v) (8 + 0) (length ws) = Some ws"
    using Cons.IH by (subst read_words_append) simp_all
  then show ?case by (simp add: get_le_simps)
qed simp

text \<open>Shifting a whole record.\<close>

lemma read_record_append: "length pre = k \<Longrightarrow> read_record (pre @ v) k = read_record v 0"
proof -
  assume k: "length pre = k"
  note g = get_le_append [OF k, of _ v] and g0 = get_le_append [OF k, of _ v 0, simplified]
    and g1 = get_le_append [OF k, of _ v 1, simplified] and g2 = get_le_append [OF k, of _ v "Suc (Suc 0)", simplified]
    and w = read_words_append [OF k, of v] and d = read_deltas_append [OF k, of v]
  have "read_block (pre @ v) k n = read_block v 0 n" for n
    by (simp add: read_block_def d g)
  moreover have "read_exception (pre @ v) k = read_exception v 0"
    by (simp add: read_exception_def g w add.assoc Let_def)
  ultimately show ?thesis
    by (simp add: read_record_def g g0 g1 g2 Let_def cong: if_cong)
qed


section \<open>Events\<close>

datatype CdtEvent =
    Ev_Marker MarkerKind u64 u64
  | Ev_Block u64 u64 "RegDelta list"
  | Ev_Exception ExceptionEvent
  | Ev_Finish EndReason u64

definition emit :: "'s sink_ops \<Rightarrow> CdtEvent \<Rightarrow> 's \<Rightarrow> 's option" where
  "emit K e s = (case e of
       Ev_Marker k n v \<Rightarrow> on_marker K s k n v
     | Ev_Block p n ds \<Rightarrow> on_block K s p n ds
     | Ev_Exception ev \<Rightarrow> on_exception K s ev
     | Ev_Finish r n \<Rightarrow> sink_finish K s r n)"

definition event_ok :: "CdtEvent \<Rightarrow> bool" where
  "event_ok e = (case e of Ev_Block _ _ ds \<Rightarrow> length ds \<le> MAX_DELTAS_PER_BLOCK
     | Ev_Exception ev \<Rightarrow> regs_wf (ev_regs ev) | _ \<Rightarrow> True)"

text \<open>The record a reader should see for an event.\<close>

definition record_of :: "CdtEvent \<Rightarrow> CdtRecord" where
  "record_of e = (case e of
       Ev_Marker k n v \<Rightarrow> Rec_Marker n (marker_code k) v
     | Ev_Block p n ds \<Rightarrow> Rec_Block p n M1_INSNS_PER_BLOCK ds
     | Ev_Exception ev \<Rightarrow> (let r = ev_regs ev in
         Rec_Exception (ev_icount ev) (ev_from_pc ev) (ev_to_pc ev) (discon_code (ev_discon ev))
           (rf_x r @ [rf_sp r]) (rf_pc r) (to_trace_word (rf_pstate r)) (replicate NUM_SYSREG 0)
           (rf_fpcr r) (rf_fpsr r) (concat (map (\<lambda>i. [vec_lo i r, vec_hi i r]) [0..<VEC_COUNT])))
     | Ev_Finish rs n \<Rightarrow> Rec_End n (end_code rs))"

definition event_le :: "CdtEvent \<Rightarrow> bytes" where
  "event_le e = (case e of
       Ev_Marker k n v \<Rightarrow> header_le record_MARKER 0 32 @ words_le [n, marker_code k, v]
     | Ev_Block p n ds \<Rightarrow> header_le record_BLOCK (of_nat (length ds)) (32 + length ds * 16)
         @ words_le [p, n] @ to_le 2 M1_INSNS_PER_BLOCK @ replicate 6 0 @ concat (map delta_le ds)
     | Ev_Exception ev \<Rightarrow> header_le record_EXCEPTION 0 1000
         @ words_le [ev_icount ev, ev_from_pc ev, ev_to_pc ev]
         @ to_le 4 (discon_code (ev_discon ev)) @ to_le 4 (0 :: u32) @ words_le (state_words (ev_regs ev))
     | Ev_Finish r n \<Rightarrow> header_le record_END 0 24 @ words_le [n, end_code r])"

lemma emit_eq: "event_ok e \<Longrightarrow> emit cdt_sink e w = Some (cdt_extend w (event_le e))"
  by (cases e) (simp_all add: emit_def event_ok_def cdt_sink_def cdt_on_marker_def cdt_on_block_def
      cdt_on_exception_def cdt_finish_def write_full_state_eq event_le_def foldl_write_delta
      cdt_defs NUM_SYSREG_def Let_def)

lemma get_header:
  "get_le 1 (header_le r f n @ v) 0 = Some r" "get_le 1 (header_le r f n @ v) 1 = Some f"
  "get_le 2 (header_le r f n @ v) 2 = Some (of_nat n :: u16)"
  "8 \<le> i \<Longrightarrow> get_le k (header_le r f n @ v) i = get_le k v (i - 8)"
  by (simp_all add: header_le_def get_le_simps get_byte [simplified])

lemma length_header_le [simp]: "length (header_le r f n) = 8"
  by (simp add: header_le_def)

lemma read_words_skip: "length a \<le> i \<Longrightarrow> read_words (a @ v) i n = read_words v (i - length a) n"
  using read_words_append [of a "length a" v "i - length a" n] by simp

lemma read_words_hit: "length ws = n \<Longrightarrow> read_words (words_le ws @ v) 0 n = Some ws"
  using read_words_le by blast

lemma length_event_le:
  "event_ok e \<Longrightarrow> length (event_le e) = (case e of Ev_Marker _ _ _ \<Rightarrow> 32
     | Ev_Block _ _ ds \<Rightarrow> 32 + length ds * 16 | Ev_Exception _ \<Rightarrow> 1000 | Ev_Finish _ _ \<Rightarrow> 24)"
  by (cases e) (simp_all add: event_le_def event_ok_def state_words_def regs_wf_def NUM_GPR_def
      VEC_COUNT_def NUM_SYSREG_def length_concat comp_def sum_list_triv)

lemma read_exception_le:
  assumes "regs_wf (ev_regs ev)"
  shows "read_exception (event_le (Ev_Exception ev) @ v) 0 = Some (record_of (Ev_Exception ev))"
proof -
  let ?r = "ev_regs ev"
  let ?vs = "concat (map (\<lambda>i. [vec_lo i ?r, vec_hi i ?r]) [0..<VEC_COUNT])"
  have len: "length (rf_x ?r @ [rf_sp ?r]) = 32" "length ?vs = 64"
    using assms by (simp_all add: regs_wf_def NUM_GPR_def VEC_COUNT_def length_concat comp_def sum_list_triv)
  have "event_le (Ev_Exception ev) @ v = header_le record_EXCEPTION 0 1000
      @ to_le 8 (ev_icount ev) @ to_le 8 (ev_from_pc ev) @ to_le 8 (ev_to_pc ev)
      @ to_le 4 (discon_code (ev_discon ev)) @ to_le 4 (0 :: u32)
      @ words_le (rf_x ?r @ [rf_sp ?r]) @ to_le 8 (rf_pc ?r) @ to_le 8 (to_trace_word (rf_pstate ?r))
      @ words_le (replicate NUM_SYSREG 0) @ to_le 8 (rf_fpcr ?r) @ to_le 8 (rf_fpsr ?r)
      @ words_le ?vs @ v"
    by (simp add: event_le_def state_words_def)
  then show ?thesis
    using len
    by (simp only: read_exception_def Let_def)
      (simp add: get_header get_le_simps read_words_skip read_words_hit NUM_SYSREG_def
        record_of_def Let_def del: words_le_simps(3) append_assoc)
qed

lemma read_record_header:
  assumes "n < 2 ^ 16" "8 \<le> n" "n mod 8 = 0"
  defines "view \<equiv> \<lambda>r f v. header_le r f n @ v"
  shows "read_record (view record_BLOCK f v) 0
      = map_option (Pair n) (read_block (view record_BLOCK f v) 0 (unat f))"
    "read_record (view record_EXCEPTION f v) 0
      = map_option (Pair n) (read_exception (view record_EXCEPTION f v) 0)"
    "read_record (view record_MARKER f v) 0 = do {
       ic \<leftarrow> get_le 8 v 0; kind \<leftarrow> get_le 8 v 8; x \<leftarrow> get_le 8 v 16; Some (n, Rec_Marker ic kind x) }"
    "read_record (view record_END f v) 0 = do {
       ic \<leftarrow> get_le 8 v 0; reason \<leftarrow> get_le 8 v 8; Some (n, Rec_End ic reason) }"
proof -
  have n: "unat (of_nat n :: u16) = n" using assms(1) by (intro unat_of_nat_small) simp
  have "record_EXCEPTION \<noteq> record_BLOCK" "record_MARKER \<noteq> record_BLOCK" "record_END \<noteq> record_BLOCK"
      "record_MARKER \<noteq> record_EXCEPTION" "record_END \<noteq> record_EXCEPTION" "record_END \<noteq> record_MARKER"
    by (simp_all add: cdt_defs)
  note r = this n get_header Option.bind.simps add_0 Let_def if_True if_False
  have ok: "(n < RECORD_HEADER_BYTES \<or> n mod 8 \<noteq> 0) = False" using assms by (simp add: cdt_defs)
  show "read_record (view record_BLOCK f v) 0 = map_option (Pair n) (read_block (view record_BLOCK f v) 0 (unat f))"
      "read_record (view record_EXCEPTION f v) 0 = map_option (Pair n) (read_exception (view record_EXCEPTION f v) 0)"
    unfolding view_def read_record_def by (simp_all only: r ok) (simp_all add: map_conv_bind_option comp_def)
  show "read_record (view record_MARKER f v) 0 = do {
       ic \<leftarrow> get_le 8 v 0; kind \<leftarrow> get_le 8 v 8; x \<leftarrow> get_le 8 v 16; Some (n, Rec_Marker ic kind x) }"
      "read_record (view record_END f v) 0 = do {
       ic \<leftarrow> get_le 8 v 0; reason \<leftarrow> get_le 8 v 8; Some (n, Rec_End ic reason) }"
    unfolding view_def read_record_def by (simp_all only: r ok) (simp_all add: get_header)
qed

lemma read_record_le:
  assumes "event_ok e"
  shows "read_record (event_le e @ v) 0 = Some (length (event_le e), record_of e)"
proof (cases e)
  case (Ev_Marker k n x)
  then show ?thesis
    unfolding length_event_le [OF assms]
    by (simp add: event_le_def record_of_def read_record_header get_le_simps)
next
  case (Ev_Block p n ds)
  have l: "length ds \<le> 255" using assms Ev_Block by (simp add: event_ok_def MAX_DELTAS_PER_BLOCK_def)
  then have u: "unat (of_nat (length ds) :: u8) = length ds"
    by (auto intro!: unat_of_nat_small)
  let ?h = "header_le record_BLOCK (of_nat (length ds)) (32 + length ds * 16)
      @ words_le [p, n] @ to_le 2 M1_INSNS_PER_BLOCK @ replicate 6 0"
  have "read_deltas (?h @ concat (map delta_le ds) @ v) (32 + 0) (length ds) = Some ds"
    using read_deltas_le by (subst read_deltas_append) simp_all
  then have "read_block (event_le e @ v) 0 (length ds) = Some (record_of e)"
    using Ev_Block
    by (simp add: read_block_def event_le_def record_of_def get_header get_le_simps BLOCK_PREFIX_BYTES_def)
  moreover have "(32 + length ds * 16) mod 8 = 0"
  proof -
    have "32 + length ds * 16 = (4 + length ds * 2) * 8" by simp
    then show ?thesis by (simp only: mod_mult_self2_is_0)
  qed
  ultimately show ?thesis
    using l u Ev_Block unfolding length_event_le [OF assms]
    by (simp add: event_le_def read_record_header(1))
next
  case (Ev_Exception ev)
  then show ?thesis
    using read_exception_le [of ev v] assms unfolding length_event_le [OF assms]
    by (simp add: event_ok_def event_le_def read_record_header(2))
next
  case (Ev_Finish r n)
  then show ?thesis
    unfolding length_event_le [OF assms]
    by (simp add: event_le_def record_of_def read_record_header get_le_simps)
qed

lemma read_records_le:
  assumes "list_all event_ok es" "length pre = k"
  shows "read_records (pre @ concat (map event_le es)) k = Some (map record_of es)"
  using assms
proof (induction es arbitrary: pre k)
  case Nil
  then show ?case by (simp add: read_records.simps RECORD_HEADER_BYTES_def)
next
  case (Cons e es)
  let ?view = "pre @ event_le e @ concat (map event_le es)"
  have "read_record ?view k = Some (length (event_le e), record_of e)"
    using read_record_append [OF Cons.prems(2)] read_record_le Cons.prems(1) by simp
  moreover have "read_records ((pre @ event_le e) @ concat (map event_le es)) (k + length (event_le e))
      = Some (map record_of es)"
    using Cons by (intro Cons.IH) simp_all
  moreover have "8 \<le> length (event_le e)"
    using Cons.prems(1) by (simp add: length_event_le split: CdtEvent.splits)
  ultimately show ?case
    using Cons.prems(2) by (subst read_records.simps) (simp add: RECORD_HEADER_BYTES_def)
qed

text \<open>The header, and the whole stream.\<close>

definition header_of :: "bytes \<Rightarrow> FpMode \<Rightarrow> CdtHeader" where
  "header_of name mode = \<lparr> hd_format_version = 1, hd_producer = 2,
     hd_flags = (if mode = Precise then 11 else 10), hd_cpu_feature_id = CPU_FEATURE_ID,
     hd_producer_name = takeWhile (\<lambda>b. b \<noteq> 0) (take 32 name) \<rparr>"

lemma takeWhile_padded: "takeWhile (\<lambda>b. b \<noteq> 0) (xs @ replicate n (0 :: u8)) = takeWhile (\<lambda>b. b \<noteq> 0) xs"
proof (induction xs)
  case Nil
  show ?case by (cases n) simp_all
qed simp

lemma cdt_new_header:
  "\<exists>w. cdt_new name mode = Some w \<and> length (cdt_buffer w) = FILE_HEADER_BYTES
     \<and> (\<forall>v. read_header (cdt_buffer w @ v) = Some (header_of name mode))"
proof -
  define len where "len = min (length name) 32"
  define flags :: u64 where "flags = (if mode = Precise then 11 else 10)"
  let ?name = "take len name @ replicate (32 - len) 0"
  let ?b = "MAGIC @ to_le 4 FORMAT_VERSION @ to_le 4 PRODUCER_CORACLE @ to_le 8 flags
      @ to_le 8 CPU_FEATURE_ID @ ?name @ replicate 16 0"
  have fl: "(if mode = Precise then (flag_BLOCK_DELTAS OR flag_HAS_VREGS) OR flag_PRECISE_FP
      else flag_BLOCK_DELTAS OR flag_HAS_VREGS) = flags"
    by (simp add: flags_def flag_BLOCK_DELTAS_def flag_HAS_VREGS_def flag_PRECISE_FP_def)
  have len32: "length ?name = 32" by (simp add: len_def min_def)
  have mg: "length MAGIC = 8" by (simp add: MAGIC_def)
  have "cdt_new name mode = Some \<lparr> cdt_buffer = ?b \<rparr>"
    using len32 mg
    by (simp add: cdt_new_def write_file_header_def Let_def fl len_def [symmetric] cdt_extend_def
        PRODUCER_NAME_BYTES_def FILE_HEADER_BYTES_def)
  moreover have "read_header (?b @ v) = Some (header_of name mode)" for v
  proof -
    have "len \<le> 32" "len \<le> length name" by (simp_all add: len_def)
    then have "take 32 (drop 32 (?b @ v)) = ?name" using mg by (simp add: min_def)
    moreover have "take 8 (?b @ v) = MAGIC" using mg by simp
    ultimately show ?thesis
      using mg by (simp add: read_header_def get_le_simps header_of_def takeWhile_padded flags_def len_def
          min_def cdt_defs)
  qed
  ultimately show ?thesis using len32 mg by (simp add: FILE_HEADER_BYTES_def)
qed

end
