(* ===== verification/Run_Trace.thy ===== *)
theory Run_Trace
  imports Traced_Machine Cdt_Reader
begin

text \<open>
  The trace of a run: what the CDT writer's buffer holds after \<open>run\<close>, as a function of the
  instruction-set specification, and what the reader makes of it.
\<close>

text \<open>The block events the specification predicts for a budget of \<open>n\<close> instructions: one per
  fetched instruction, with the registers that changed since the previous block.\<close>

primrec run_blocks ::
  "nat \<Rightarrow> RegFile option \<Rightarrow> u64 \<Rightarrow> RegFile \<Rightarrow> FlatMemory \<Rightarrow> CdtEvent list" where
  "run_blocks 0 prev ic r m = []"
| "run_blocks (Suc n) prev ic r m =
     (if flat_mapped m (rf_pc r) 4
      then Ev_Block (rf_pc r) ic (delta_list prev r)
        # (case isa_step flat_ops r m of Inl _ \<Rightarrow> [] | Inr (r', m') \<Rightarrow> run_blocks n (Some r) (ic + 1) r' m')
      else [])"

lemma trace_block_cdt:
  assumes "cpu_ok flat_wf (\<lambda>_. True) n c"
  shows "\<exists>ds. buffer_wf ds \<and> trace_block cdt_sink c p = Some (c\<lparr>cpu_deltas := ds,
      cpu_sink := cdt_extend (cpu_sink c) (event_le (Ev_Block p (cpu_icount c) (delta_list (cpu_previous c) (cpu_regs c)))),
      cpu_previous := Some (cpu_regs c)\<rparr>)
    \<and> length (delta_list (cpu_previous c) (cpu_regs c)) \<le> 100"
proof -
  have ok: "regs_wf (cpu_regs c)" "pred_option regs_wf (cpu_previous c)" "buffer_wf (cpu_deltas c)"
    using assms by (auto simp: cpu_ok_def)
  let ?l = "delta_list (cpu_previous c) (cpu_regs c)"
  obtain ds where ds: "deltas_between buffer_out (cpu_previous c) (cpu_regs c) (cpu_deltas c) = Some ds"
      "buffer_wf ds" "delta_slice ds = ?l" "length ?l \<le> 100"
    using delta_buffer.deltas_between_ok [OF ok] by blast
  have "event_ok (Ev_Block p (cpu_icount c) ?l)" using ds(4) by (simp add: event_ok_def MAX_DELTAS_PER_BLOCK_def)
  from emit_eq [OF this] have "on_block cdt_sink (cpu_sink c) p (cpu_icount c) ?l
      = Some (cdt_extend (cpu_sink c) (event_le (Ev_Block p (cpu_icount c) ?l)))"
    by (simp add: emit_def)
  moreover have "sink_enabled cdt_sink" by (simp add: cdt_sink_def)
  ultimately show ?thesis using ds by (auto simp: trace_block_def intro!: exI [of _ ds])
qed

lemma step_cdt:
  assumes "cpu_ok flat_wf (\<lambda>_. True) (Suc n) c" "flat_mapped (cpu_memory c) (rf_pc (cpu_regs c)) 4"
    and "step flat_ops cdt_sink c = Some (r, c')"
  shows "cpu_previous c' = Some (cpu_regs c)"
    and "cpu_sink c' = cdt_extend (cpu_sink c)
      (event_le (Ev_Block (rf_pc (cpu_regs c)) (cpu_icount c) (delta_list (cpu_previous c) (cpu_regs c))))"
    and "event_ok (Ev_Block (rf_pc (cpu_regs c)) (cpu_icount c) (delta_list (cpu_previous c) (cpu_regs c)))"
proof -
  let ?p = "rf_pc (cpu_regs c)"
  let ?w = "word_at flat_byte (cpu_memory c) ?p"
  have ok: "flat_wf (cpu_memory c)" "cache_room (Suc n) (cpu_cache c)" using assms(1) by (auto simp: cpu_ok_def)
  have f: "fetch flat_ops c ?p = Some (Inr ?w)"
    using flat.read_mapped [OF ok(1) assms(2)] by (simp add: fetch_def word_at_def)
  obtain ch where ch: "cache_decoded (cpu_cache c) ?p ?w = Some (decoded ?w, ch)" "cache_room n ch"
    using cache_decoded_ok [OF ok(2), of ?p ?w] by blast
  have "cpu_ok flat_wf (\<lambda>_. True) n (c\<lparr>cpu_cache := ch\<rparr>)"
    using assms(1) ch(2) by (auto simp: cpu_ok_def traplog_room_def)
  from trace_block_cdt [OF this, of ?p] obtain ds where
    ds: "buffer_wf ds" and t: "trace_block cdt_sink (c\<lparr>cpu_cache := ch\<rparr>) ?p = Some (c\<lparr>cpu_cache := ch, cpu_deltas := ds,
      cpu_sink := cdt_extend (cpu_sink c) (event_le (Ev_Block ?p (cpu_icount c) (delta_list (cpu_previous c) (cpu_regs c)))),
      cpu_previous := Some (cpu_regs c)\<rparr>)" (is "_ = Some ?c2")
    by auto
  have "regs_wf (cpu_regs ?c2)" "flat_wf (cpu_memory ?c2)" using assms(1) by (auto simp: cpu_ok_def)
  from flat_cdt.execute_ok(1) [OF this decoded_wf [of ?w], of ?p] obtain out c3 where
    x: "execute flat_ops ?c2 (decoded ?w) ?p = Some (out, c3)" "same_rest ?c2 c3"
    by (auto simp: arm_ok_def)
  have "cpu_sink c' = cpu_sink c3 \<and> cpu_previous c' = cpu_previous c3"
    using assms(3) f ch(1) t x(1)
    by (auto simp: step_def Let_def pc_def split: sum.splits Flow.splits Option.bind_splits)
  with x(2) show "cpu_previous c' = Some (cpu_regs c)"
    and "cpu_sink c' = cdt_extend (cpu_sink c)
      (event_le (Ev_Block ?p (cpu_icount c) (delta_list (cpu_previous c) (cpu_regs c))))"
    by (simp_all add: same_rest_def)
  show "event_ok (Ev_Block ?p (cpu_icount c) (delta_list (cpu_previous c) (cpu_regs c)))"
    using trace_block_cdt [OF assms(1), of ?p] by (auto simp: event_ok_def MAX_DELTAS_PER_BLOCK_def)
qed

text \<open>The buffer after a run is the buffer before it and the predicted blocks.\<close>

lemma run_loop_cdt:
  "cpu_ok flat_wf (\<lambda>_. True) n c \<Longrightarrow> run_loop flat_ops cdt_sink n c = Some (stop, c') \<Longrightarrow>
     cdt_buffer (cpu_sink c') = cdt_buffer (cpu_sink c)
       @ concat (map event_le (run_blocks n (cpu_previous c) (cpu_icount c) (cpu_regs c) (cpu_memory c)))
     \<and> list_all event_ok (run_blocks n (cpu_previous c) (cpu_icount c) (cpu_regs c) (cpu_memory c))"
proof (induction n arbitrary: c)
  case (Suc n)
  show ?case
  proof (cases "flat_mapped (cpu_memory c) (rf_pc (cpu_regs c)) 4")
    case False
    with flat_cdt.step_unmapped [OF Suc.prems(1) False] Suc.prems(2) show ?thesis by simp
  next
    case True
    from flat_cdt.step_ok [OF Suc.prems(1)] flat_cdt.step_refines [OF Suc.prems(1)] obtain r c1 where
      s: "step flat_ops cdt_sink c = Some (r, c1)" "cpu_ok flat_wf (\<lambda>_. True) n c1"
        "\<not> isl r \<longrightarrow> cpu_icount c1 = cpu_icount c + 1"
      and i: "case r of Inl t \<Rightarrow> isa_step flat_ops (cpu_regs c) (cpu_memory c) = Inl t
           \<and> cpu_regs c1 = cpu_regs c \<and> cpu_memory c1 = cpu_memory c
       | Inr _ \<Rightarrow> isa_step flat_ops (cpu_regs c) (cpu_memory c) = Inr (cpu_regs c1, cpu_memory c1)"
      by auto
    note e = step_cdt [OF Suc.prems(1) True s(1)]
    show ?thesis
    proof (cases r)
      case (Inl t)
      with s(1) i e True Suc.prems(2) show ?thesis by (simp add: cdt_buffer_extend)
    next
      case (Inr u)
      with s Suc.prems(2) have "run_loop flat_ops cdt_sink n c1 = Some (stop, c')" by simp
      from Suc.IH [OF s(2) this] Inr i e True s(3) show ?thesis by (simp add: cdt_buffer_extend)
    qed
  qed
qed simp

section \<open>Replaying a trace\<close>

text \<open>The registers at every fetched instruction of a run, from the specification.\<close>

primrec run_regs :: "nat \<Rightarrow> RegFile \<Rightarrow> FlatMemory \<Rightarrow> RegFile list" where
  "run_regs 0 r m = []"
| "run_regs (Suc n) r m =
     (if flat_mapped m (rf_pc r) 4
      then r # (case isa_step flat_ops r m of Inl _ \<Rightarrow> [] | Inr (r', m') \<Rightarrow> run_regs n r' m')
      else [])"

text \<open>What a consumer of the trace knows after each block: the map from register ids to values,
  updated by the block's deltas.\<close>

fun replay :: "(u16 \<rightharpoonup> u64) \<Rightarrow> CdtRecord list \<Rightarrow> (u16 \<rightharpoonup> u64) list" where
  "replay m (Rec_Block _ _ _ ds # rs) = (let m' = apply_deltas m ds in m' # replay m' rs)"
| "replay m (_ # rs) = replay m rs"
| "replay m [] = []"

lemma replay_run_blocks:
  assumes "prev = None \<Longrightarrow> dom v \<subseteq> fst ` set all_fields" "\<And>r0. prev = Some r0 \<Longrightarrow> v = trace_view r0"
  shows "replay v (map record_of (run_blocks n prev ic r m)) = map trace_view (run_regs n r m)"
  using assms
proof (induction n arbitrary: prev v ic r m)
  case (Suc n)
  have d: "apply_deltas v (delta_list prev r) = trace_view r" using Suc.prems by (rule apply_delta_list)
  have ih: "replay (trace_view r) (map record_of (run_blocks n (Some r) ic' r' m')) = map trace_view (run_regs n r' m')"
    for ic' r' m' by (rule Suc.IH) simp_all
  have b: "record_of (Ev_Block p ic l) = Rec_Block p ic M1_INSNS_PER_BLOCK l" for p l
    by (simp add: record_of_def)
  show ?case
    by (cases "isa_step flat_ops r m") (simp_all add: b d ih split_beta)
qed simp

end
