(* ===== verification/Fp_Operand.thy ===== *)
theory Fp_Operand
  imports Prelude
begin

unbundle bit_operations_syntax

text \<open>
  The value vocabulary of the floating-point unit: \<open>fp/operand.rs\<close> (formats, rounding modes,
  comparison outcomes, results), \<open>fp/control.rs\<close> (FPCR, FPSR) and \<open>fp/softfloat/nan.rs\<close>.

  A floating-point value is its raw bits in a \<open>u64\<close>. The bit counts (\<open>u32\<close> in the source) are
  \<open>nat\<close> and unbiased exponents (\<open>i32\<close>) are \<open>int\<close>: they stay within a few thousand, far from the
  limits of the Rust types. Shift amounts that the format alone fixes are below 64 for the three
  formats, so those shifts are written without the panic check.
\<close>

section \<open>Formats and rounding modes\<close>

datatype FpRounding = Fp_Nearest | Fp_Plus | Fp_Minus | Fp_Zero | Fp_NearestAway | Fp_Odd

definition from_rmode :: "u8 \<Rightarrow> FpRounding" where
  "from_rmode rmode = (let r = rmode AND 3 in
     if r = 0 then Fp_Nearest else if r = 1 then Fp_Plus else if r = 2 then Fp_Minus else Fp_Zero)"

datatype FpFormat = Fp_Half | Fp_Single | Fp_Double

primrec fp_bits :: "FpFormat \<Rightarrow> nat" where
  "fp_bits Fp_Half = 16"
| "fp_bits Fp_Single = 32"
| "fp_bits Fp_Double = 64"

primrec mantissa_bits :: "FpFormat \<Rightarrow> nat" where
  "mantissa_bits Fp_Half = 10"
| "mantissa_bits Fp_Single = 23"
| "mantissa_bits Fp_Double = 52"

definition exponent_bits :: "FpFormat \<Rightarrow> nat" where
  "exponent_bits f = fp_bits f - mantissa_bits f - 1"

definition max_exponent :: "FpFormat \<Rightarrow> u32" where
  "max_exponent f = push_bit (exponent_bits f) 1 - 1"

definition exponent_bias :: "FpFormat \<Rightarrow> int" where
  "exponent_bias f = 2 ^ (exponent_bits f - 1) - 1"

primrec fp_mask :: "FpFormat \<Rightarrow> u64" where
  "fp_mask Fp_Half = 0xffff"
| "fp_mask Fp_Single = 0xffffffff"
| "fp_mask Fp_Double = - 1"

definition sign_shift :: "FpFormat \<Rightarrow> nat" where
  "sign_shift f = fp_bits f - 1"

definition mantissa_mask :: "FpFormat \<Rightarrow> u64" where
  "mantissa_mask f = push_bit (mantissa_bits f) 1 - 1"

definition quiet_bit :: "FpFormat \<Rightarrow> u64" where
  "quiet_bit f = push_bit (mantissa_bits f - 1) 1"

definition fp_infinity :: "FpFormat \<Rightarrow> u64" where
  "fp_infinity f = push_bit (mantissa_bits f) (ucast (max_exponent f))"

definition default_nan :: "FpFormat \<Rightarrow> u64" where
  "default_nan f = fp_infinity f OR quiet_bit f"

definition max_finite :: "FpFormat \<Rightarrow> u64" where
  "max_finite f = fp_infinity f - 1"

definition is_nan :: "FpFormat \<Rightarrow> u64 \<Rightarrow> bool" where
  "is_nan f b \<longleftrightarrow>
     (let exponent = drop_bit (mantissa_bits f) b AND ucast (max_exponent f)
      in exponent = ucast (max_exponent f) \<and> b AND mantissa_mask f \<noteq> 0)"

definition is_signalling_nan :: "FpFormat \<Rightarrow> u64 \<Rightarrow> bool" where
  "is_signalling_nan f b \<longleftrightarrow> is_nan f b \<and> b AND quiet_bit f = 0"

definition is_infinite :: "FpFormat \<Rightarrow> u64 \<Rightarrow> bool" where
  "is_infinite f b \<longleftrightarrow>
     (let exponent = drop_bit (mantissa_bits f) b AND ucast (max_exponent f)
      in exponent = ucast (max_exponent f) \<and> b AND mantissa_mask f = 0)"

definition fp_is_zero :: "FpFormat \<Rightarrow> u64 \<Rightarrow> bool" where
  "fp_is_zero f b \<longleftrightarrow> b AND NOT (push_bit (sign_shift f) 1) = 0"

definition is_subnormal :: "FpFormat \<Rightarrow> u64 \<Rightarrow> bool" where
  "is_subnormal f b \<longleftrightarrow> drop_bit (mantissa_bits f) b AND ucast (max_exponent f) = 0
     \<and> b AND mantissa_mask f \<noteq> 0"

definition fp_is_negative :: "FpFormat \<Rightarrow> u64 \<Rightarrow> bool" where
  "fp_is_negative f b \<longleftrightarrow> drop_bit (sign_shift f) b AND 1 = 1"

definition quieten :: "FpFormat \<Rightarrow> u64 \<Rightarrow> u64" where
  "quieten f b = (if is_signalling_nan f b then b OR quiet_bit f else b)"

definition fp_zero :: "FpFormat \<Rightarrow> bool \<Rightarrow> u64" where
  "fp_zero f is_negative = push_bit (sign_shift f) (of_bool is_negative)"

definition signed_infinity :: "FpFormat \<Rightarrow> bool \<Rightarrow> u64" where
  "signed_infinity f is_negative = fp_infinity f OR fp_zero f is_negative"


section \<open>Comparison outcomes, exception flags, results\<close>

datatype FpComparison = Fp_Less | Fp_Equal | Fp_Greater | Fp_Unordered

primrec to_nzcv :: "FpComparison \<Rightarrow> u8" where
  "to_nzcv Fp_Less = 0b1000"
| "to_nzcv Fp_Equal = 0b0110"
| "to_nzcv Fp_Greater = 0b0010"
| "to_nzcv Fp_Unordered = 0b0011"

text \<open>\<open>struct FpExceptions(u8)\<close>: the flags at their FPSR positions.\<close>

type_synonym FpExceptions = u8

definition fx_NONE :: FpExceptions where "fx_NONE = 0"
definition fx_INVALID :: FpExceptions where "fx_INVALID = push_bit 0 1"
definition fx_DIVIDE_BY_ZERO :: FpExceptions where "fx_DIVIDE_BY_ZERO = push_bit 1 1"
definition fx_OVERFLOW :: FpExceptions where "fx_OVERFLOW = push_bit 2 1"
definition fx_UNDERFLOW :: FpExceptions where "fx_UNDERFLOW = push_bit 3 1"
definition fx_INEXACT :: FpExceptions where "fx_INEXACT = push_bit 4 1"
definition fx_INPUT_DENORMAL :: FpExceptions where "fx_INPUT_DENORMAL = push_bit 7 1"

lemmas fx_defs = fx_NONE_def fx_INVALID_def fx_DIVIDE_BY_ZERO_def fx_OVERFLOW_def fx_UNDERFLOW_def
  fx_INEXACT_def fx_INPUT_DENORMAL_def

definition fx_is_empty :: "FpExceptions \<Rightarrow> bool" where "fx_is_empty x \<longleftrightarrow> x = 0"

definition fx_union :: "FpExceptions \<Rightarrow> FpExceptions \<Rightarrow> FpExceptions" where
  "fx_union x y = x OR y"

definition fx_contains :: "FpExceptions \<Rightarrow> FpExceptions \<Rightarrow> bool" where
  "fx_contains x y \<longleftrightarrow> x AND y = y"

definition fx_to_bits :: "FpExceptions \<Rightarrow> u64" where "fx_to_bits x = ucast x"

definition fpsr_accumulate :: "u64 \<Rightarrow> FpExceptions \<Rightarrow> u64" where
  "fpsr_accumulate fpsr raised = fpsr OR fx_to_bits raised"

record FpResult =
  res_bits :: u64
  res_raised :: FpExceptions

definition res_exact :: "u64 \<Rightarrow> FpResult" where
  "res_exact b = \<lparr> res_bits = b, res_raised = fx_NONE \<rparr>"

definition res_raising :: "u64 \<Rightarrow> FpExceptions \<Rightarrow> FpResult" where
  "res_raising b raised = \<lparr> res_bits = b, res_raised = raised \<rparr>"


section \<open>FPCR\<close>

definition fpcr_FZ :: nat where "fpcr_FZ = 24"
definition fpcr_DN :: nat where "fpcr_DN = 25"
definition fpcr_AHP :: nat where "fpcr_AHP = 26"
definition fpcr_FZ16 :: nat where "fpcr_FZ16 = 19"
definition fpcr_RMODE_LSB :: nat where "fpcr_RMODE_LSB = 22"

lemmas fpcr_defs = fpcr_FZ_def fpcr_DN_def fpcr_AHP_def fpcr_FZ16_def fpcr_RMODE_LSB_def

definition MEANINGFUL_BITS :: u64 where
  "MEANINGFUL_BITS = push_bit fpcr_RMODE_LSB 3 OR push_bit fpcr_FZ 1 OR push_bit fpcr_DN 1
     OR push_bit fpcr_AHP 1 OR push_bit fpcr_FZ16 1"

record FpControl =
  rounding :: FpRounding
  is_flush_to_zero :: bool
  is_flush_to_zero_fp16 :: bool
  is_default_nan :: bool
  is_alternative_fp16 :: bool

definition fpc_DEFAULT :: FpControl where
  "fpc_DEFAULT = \<lparr> rounding = Fp_Nearest, is_flush_to_zero = False, is_flush_to_zero_fp16 = False,
     is_default_nan = False, is_alternative_fp16 = False \<rparr>"

definition fpc_from_bits :: "u64 \<Rightarrow> FpControl" where
  "fpc_from_bits fpcr =
     \<lparr> rounding = from_rmode (ucast (drop_bit fpcr_RMODE_LSB fpcr AND 3)),
       is_flush_to_zero = (fpcr AND push_bit fpcr_FZ 1 \<noteq> 0),
       is_flush_to_zero_fp16 = (fpcr AND push_bit fpcr_FZ16 1 \<noteq> 0),
       is_default_nan = (fpcr AND push_bit fpcr_DN 1 \<noteq> 0),
       is_alternative_fp16 = (fpcr AND push_bit fpcr_AHP 1 \<noteq> 0) \<rparr>"

definition is_default_mode :: "FpControl \<Rightarrow> bool" where
  "is_default_mode c \<longleftrightarrow> rounding c = Fp_Nearest \<and> \<not> is_flush_to_zero c \<and> \<not> is_flush_to_zero_fp16 c
     \<and> \<not> is_default_nan c \<and> \<not> is_alternative_fp16 c"

definition is_default_mode_bits :: "u64 \<Rightarrow> bool" where
  "is_default_mode_bits fpcr \<longleftrightarrow> fpcr AND MEANINGFUL_BITS = 0"


section \<open>NaN processing\<close>

definition quiet_result :: "u64 \<Rightarrow> FpFormat \<Rightarrow> FpControl \<Rightarrow> u64" where
  "quiet_result b f control = (if is_default_nan control then default_nan f else quieten f b)"

definition propagate :: "u64 list \<Rightarrow> FpFormat \<Rightarrow> FpControl \<Rightarrow> FpResult option" where
  "propagate operands f control =
     (let has_signalling = list_ex (is_signalling_nan f) operands in
      case find (is_nan f) operands of
        None \<Rightarrow> None
      | Some first_nan \<Rightarrow>
          let raised = (if has_signalling then fx_INVALID else fx_NONE) in
          Some (res_raising (quiet_result first_nan f control) raised))"

definition invalid_operation :: "FpFormat \<Rightarrow> FpResult" where
  "invalid_operation f = res_raising (default_nan f) fx_INVALID"

definition signalling_among :: "u64 list \<Rightarrow> FpFormat \<Rightarrow> bool" where
  "signalling_among operands f \<longleftrightarrow> list_ex (is_signalling_nan f) operands"

definition any_nan :: "u64 list \<Rightarrow> FpFormat \<Rightarrow> bool" where
  "any_nan operands f \<longleftrightarrow> list_ex (is_nan f) operands"

end
