(* ===== verification/Trace_Compare.thy ===== *)
theory Trace_Compare
  imports Run_Trace Fp_Operand "HOL-Library.AList"
begin

unbundle bit_operations_syntax

text \<open>
  The trace comparator of the differential tests: the register state it replays and the lockstep
  comparison (\<open>tests/differ/compare.mjs\<close>), the floating-point policies (\<open>fp_policy.mjs\<close>) and the
  decision of the command (\<open>diff.mjs\<close>). Parsing the command line and printing the report are
  outside; \<open>main\<close> takes the parsed options and the contents of the two files, \<open>None\<close> for a file that
  cannot be read, and returns the exit code.
\<close>

section \<open>Register state\<close>

text \<open>\<open>class RegisterState\<close>: a JavaScript \<open>Map\<close> from register ids to values.\<close>

type_synonym RegisterState = "(u16 \<times> u64) list"

definition state_apply_deltas :: "RegisterState \<Rightarrow> RegDelta list \<Rightarrow> RegisterState" where
  "state_apply_deltas s deltas = foldl (\<lambda>s d. AList.update (reg_id d) (delta_value d) s) s deltas"

definition set_words :: "u16 \<Rightarrow> u64 list \<Rightarrow> nat \<Rightarrow> RegisterState \<Rightarrow> RegisterState" where
  "set_words id0 ws count s = foldl (\<lambda>s n. AList.update (id0 + of_nat n) (ws ! n) s) s [0..<count]"

definition state_apply_exception ::
  "RegisterState \<Rightarrow> u64 list \<Rightarrow> u64 \<Rightarrow> u64 \<Rightarrow> u64 list \<Rightarrow> u64 \<Rightarrow> u64 \<Rightarrow> u64 list \<Rightarrow> RegisterState" where
  "state_apply_exception s x p pstate sysreg fpcr fpsr v =
     (let s1 = set_words 0 x 31 s;
          s2 = AList.update trace_SP (x ! 31) s1;
          s3 = AList.update trace_PC p s2;
          s4 = AList.update trace_PSTATE pstate s3;
          s5 = AList.update trace_FPCR fpcr s4;
          s6 = AList.update trace_FPSR fpsr s5;
          s7 = set_words trace_V_BASE v (32 * 2) s6
      in set_words trace_SYS_BASE sysreg NUM_SYSREG s7)"

definition state_get :: "RegisterState \<Rightarrow> u16 \<Rightarrow> u64" where
  "state_get s i = (case map_of s i of Some v \<Rightarrow> v | None \<Rightarrow> 0)"

definition state_reg_ids :: "RegisterState \<Rightarrow> u16 list" where
  "state_reg_ids s = map fst s"


section \<open>Comparison\<close>

datatype DivergenceKind = KIND_PC | KIND_ICOUNT | KIND_INSN_COUNT | KIND_REGISTER | KIND_RECORD_TYPE
  | KIND_LENGTH | KIND_EXCEPTION_FIELD

text \<open>A divergence; the fields the code leaves undefined are \<open>None\<close>.\<close>

record Divergence =
  dv_kind :: DivergenceKind
  dv_index :: nat
  dv_icount :: "u64 option"
  dv_pc :: "u64 option"
  dv_reg_id :: "u16 option"
  dv_field :: "string option"
  dv_expected :: int
  dv_actual :: int

record HistoryEntry =
  he_index :: nat
  he_icount :: u64
  he_type :: u8
  he_pc :: u64
  he_n_insns :: u16

datatype CompareResult =
    Result_Ok nat "HistoryEntry list"
  | Result_Diverged Divergence "HistoryEntry list"

fun rec_type :: "CdtRecord \<Rightarrow> u8" where
  "rec_type (Rec_Block _ _ _ _) = record_BLOCK"
| "rec_type (Rec_Exception _ _ _ _ _ _ _ _ _ _ _) = record_EXCEPTION"
| "rec_type (Rec_Marker _ _ _) = record_MARKER"
| "rec_type (Rec_End _ _) = record_END"
| "rec_type (Rec_Unknown t) = t"

definition significant_records :: "CdtRecord list \<Rightarrow> CdtRecord list" where
  "significant_records records = filter (\<lambda>r. rec_type r = record_BLOCK \<or> rec_type r = record_EXCEPTION) records"

definition is_fp_reg :: "u16 \<Rightarrow> bool" where
  "is_fp_reg i \<longleftrightarrow> i = trace_FPCR \<or> i = trace_FPSR \<or> (trace_V_BASE \<le> i \<and> i < trace_V_BASE + 32 * 2)"

type_synonym comparator = "u16 \<Rightarrow> u64 \<Rightarrow> u64 \<Rightarrow> bool"

primrec first_mismatch :: "comparator \<Rightarrow> RegisterState \<Rightarrow> RegisterState \<Rightarrow> u16 list \<Rightarrow> u16 option" where
  "first_mismatch are_equal left right [] = None"
| "first_mismatch are_equal left right (i # is) =
     (let expected = state_get left i; actual = state_get right i in
      if expected = actual then first_mismatch are_equal left right is
      else if is_fp_reg i \<and> are_equal i expected actual then first_mismatch are_equal left right is
      else Some i)"

definition compare_registers ::
  "comparator \<Rightarrow> RegisterState \<Rightarrow> RegisterState \<Rightarrow> nat \<Rightarrow> u64 \<Rightarrow> u64 \<Rightarrow> Divergence option" where
  "compare_registers are_equal left right index ic p =
     map_option (\<lambda>i. \<lparr> dv_kind = KIND_REGISTER, dv_index = index, dv_icount = Some ic, dv_pc = Some p,
         dv_reg_id = Some i, dv_field = None,
         dv_expected = uint (state_get left i), dv_actual = uint (state_get right i) \<rparr>)
       (first_mismatch are_equal left right (sort (remdups (state_reg_ids left @ state_reg_ids right))))"

definition step_divergence :: "DivergenceKind \<Rightarrow> nat \<Rightarrow> u64 \<Rightarrow> string option \<Rightarrow> int \<Rightarrow> int \<Rightarrow> Divergence" where
  "step_divergence kind index ic field expected actual =
     \<lparr> dv_kind = kind, dv_index = index, dv_icount = Some ic, dv_pc = None, dv_reg_id = None,
       dv_field = field, dv_expected = expected, dv_actual = actual \<rparr>"

definition compare_exception_fields ::
  "u64 \<times> u64 \<times> u32 \<Rightarrow> u64 \<times> u64 \<times> u32 \<Rightarrow> nat \<Rightarrow> u64 \<Rightarrow> Divergence option" where
  "compare_exception_fields left right index ic =
     (let (from_pc, to_pc, discon) = left; (from_pc', to_pc', discon') = right;
          differ = step_divergence KIND_EXCEPTION_FIELD index ic
      in if from_pc \<noteq> from_pc' then Some (differ (Some ''from_pc'') (uint from_pc) (uint from_pc'))
         else if to_pc \<noteq> to_pc' then Some (differ (Some ''to_pc'') (uint to_pc) (uint to_pc'))
         else if discon \<noteq> discon' then Some (differ (Some ''discon_type'') (uint discon) (uint discon'))
         else None)"

text \<open>\<open>record.icount\<close>; only block and exception records reach the comparison.\<close>

fun rec_icount :: "CdtRecord \<Rightarrow> u64" where
  "rec_icount (Rec_Block _ ic _ _) = ic"
| "rec_icount (Rec_Exception ic _ _ _ _ _ _ _ _ _ _) = ic"
| "rec_icount (Rec_Marker ic _ _) = ic"
| "rec_icount (Rec_End ic _) = ic"
| "rec_icount (Rec_Unknown _) = 0"

definition compare_step :: "CdtRecord \<Rightarrow> CdtRecord \<Rightarrow> nat \<Rightarrow> Divergence option" where
  "compare_step left right index =
     (let ic = rec_icount left; differ = (\<lambda>kind. step_divergence kind index ic None) in
      if rec_type left \<noteq> rec_type right
      then Some (differ KIND_RECORD_TYPE (uint (rec_type left)) (uint (rec_type right)))
      else if ic \<noteq> rec_icount right then Some (differ KIND_ICOUNT (uint ic) (uint (rec_icount right)))
      else (case (left, right) of
          (Rec_Block p _ n _, Rec_Block p' _ n' _) \<Rightarrow>
            if p \<noteq> p' then Some (differ KIND_PC (uint p) (uint p'))
            else if n \<noteq> n' then Some (differ KIND_INSN_COUNT (uint n) (uint n'))
            else None
        | (Rec_Exception _ a b d _ _ _ _ _ _ _, Rec_Exception _ a' b' d' _ _ _ _ _ _ _) \<Rightarrow>
            compare_exception_fields (a, b, d) (a', b', d') index ic
        | _ \<Rightarrow> None))"

fun apply_record :: "RegisterState \<Rightarrow> CdtRecord \<Rightarrow> RegisterState" where
  "apply_record s (Rec_Block _ _ _ ds) = state_apply_deltas s ds"
| "apply_record s (Rec_Exception _ _ _ _ x p ps sysreg fpcr fpsr v) = state_apply_exception s x p ps sysreg fpcr fpsr v"
| "apply_record s _ = s"

definition history_entry :: "nat \<Rightarrow> CdtRecord \<Rightarrow> HistoryEntry" where
  "history_entry index r =
     \<lparr> he_index = index, he_icount = rec_icount r, he_type = rec_type r,
       he_pc = (case r of Rec_Block p _ _ _ \<Rightarrow> p | Rec_Exception _ _ to_pc _ _ _ _ _ _ _ _ \<Rightarrow> to_pc | _ \<Rightarrow> 0),
       he_n_insns = (case r of Rec_Block _ _ n _ \<Rightarrow> n | _ \<Rightarrow> 0) \<rparr>"

text \<open>The loop of \<open>compareTraces\<close>: \<open>Inl\<close> is the early return with a divergence.\<close>

fun compare_loop :: "comparator \<Rightarrow> int \<Rightarrow> nat \<Rightarrow> RegisterState \<Rightarrow> RegisterState \<Rightarrow> HistoryEntry list
    \<Rightarrow> CdtRecord list \<Rightarrow> CdtRecord list \<Rightarrow> (Divergence \<times> HistoryEntry list) + HistoryEntry list" where
  "compare_loop are_equal depth index left_state right_state history (l # ls) (r # rs) =
     (case compare_step l r index of
        Some structural \<Rightarrow> Inl (structural, history)
      | None \<Rightarrow>
          let left_state1 = apply_record left_state l;
              right_state1 = apply_record right_state r;
              entry = history_entry index l
          in (case compare_registers are_equal left_state1 right_state1 index (he_icount entry) (he_pc entry) of
                Some mismatch \<Rightarrow> Inl (mismatch, history)
              | None \<Rightarrow>
                  let pushed = history @ [entry];
                      kept = (if int (length pushed) > depth then tl pushed else pushed)
                  in compare_loop are_equal depth (index + 1) left_state1 right_state1 kept ls rs))"
| "compare_loop are_equal depth index left_state right_state history _ _ = Inr history"

definition compare_traces :: "comparator \<Rightarrow> int \<Rightarrow> CdtRecord list \<Rightarrow> CdtRecord list \<Rightarrow> CompareResult" where
  "compare_traces are_equal depth left_records right_records =
     (let left = significant_records left_records;
          right = significant_records right_records;
          steps = min (length left) (length right)
      in case compare_loop are_equal depth 0 [] [] [] left right of
           Inl (divergence, history) \<Rightarrow> Result_Diverged divergence history
         | Inr history \<Rightarrow>
             if length left \<noteq> length right then
               Result_Diverged \<lparr> dv_kind = KIND_LENGTH, dv_index = steps, dv_icount = None, dv_pc = None,
                 dv_reg_id = None, dv_field = None, dv_expected = int (length left), dv_actual = int (length right) \<rparr>
                 history
             else Result_Ok steps history)"


section \<open>Floating-point policies\<close>

definition POLICIES :: "string list" where
  "POLICIES = [''bitwise'', ''nan-insensitive'', ''ignore-fpsr'']"

definition EXPONENT_ALL_ONES_64 :: u64 where "EXPONENT_ALL_ONES_64 = push_bit 52 0x7ff"
definition MANTISSA_64 :: u64 where "MANTISSA_64 = push_bit 52 1 - 1"
definition QUIET_BIT_64 :: u64 where "QUIET_BIT_64 = push_bit 51 1"
definition EXPONENT_ALL_ONES_32 :: u64 where "EXPONENT_ALL_ONES_32 = push_bit 23 0xff"
definition MANTISSA_32 :: u64 where "MANTISSA_32 = push_bit 23 1 - 1"
definition QUIET_BIT_32 :: u64 where "QUIET_BIT_32 = push_bit 22 1"
definition FPSR_CUMULATIVE_MASK :: u64 where "FPSR_CUMULATIVE_MASK = 0x9f"

definition classify64 :: "u64 \<Rightarrow> string option" where
  "classify64 b =
     (if b AND EXPONENT_ALL_ONES_64 \<noteq> EXPONENT_ALL_ONES_64 then None
      else let mantissa = b AND MANTISSA_64 in
        if mantissa = 0 then None
        else Some (if b AND QUIET_BIT_64 \<noteq> 0 then ''qnan64'' else ''snan64''))"

definition classify32 :: "u64 \<Rightarrow> string option" where
  "classify32 b =
     (let low = b AND 0xffffffff in
      if low AND EXPONENT_ALL_ONES_32 \<noteq> EXPONENT_ALL_ONES_32 then None
      else let mantissa = low AND MANTISSA_32 in
        if mantissa = 0 then None
        else Some (if low AND QUIET_BIT_32 \<noteq> 0 then ''qnan32'' else ''snan32''))"

definition is_nan_equivalent :: "u64 \<Rightarrow> u64 \<Rightarrow> bool" where
  "is_nan_equivalent left right =
     list_ex (\<lambda>(a, b). a \<noteq> None \<and> a = b)
       [(classify64 left, classify64 right), (classify32 left, classify32 right)]"

text \<open>\<open>makeComparator\<close>: \<open>None\<close> is the error for an unknown policy.\<close>

definition make_comparator :: "string \<Rightarrow> comparator option" where
  "make_comparator policy =
     (if policy \<notin> set POLICIES then None
      else Some (\<lambda>i left right.
        if left = right then True
        else if policy = ''bitwise'' then False
        else if i = trace_FPSR then
          if policy \<noteq> ''ignore-fpsr'' then False
          else left AND NOT FPSR_CUMULATIVE_MASK = right AND NOT FPSR_CUMULATIVE_MASK
        else if i = trace_FPCR then False
        else trace_V_BASE \<le> i \<and> i < trace_V_BASE + 64 \<and> is_nan_equivalent left right))"


section \<open>The command\<close>

definition EXIT_MATCH :: nat where "EXIT_MATCH = 0"
definition EXIT_DIVERGED :: nat where "EXIT_DIVERGED = 1"
definition EXIT_ERROR :: nat where "EXIT_ERROR = 2"

record DiffOptions =
  opt_fp_policy :: "string option"
  opt_history :: int
  opt_allow_feature_mismatch :: bool

text \<open>The chosen policy and whether the code warns; \<open>None\<close> is a thrown error, as below.\<close>

definition choose_policy :: "string option \<Rightarrow> CdtHeader \<Rightarrow> CdtHeader \<Rightarrow> (string \<times> bool) option" where
  "choose_policy requested left right =
     (let is_precise = (\<lambda>h. hd_flags h AND flag_PRECISE_FP \<noteq> 0);
          both_precise = (is_precise left \<and> is_precise right)
      in case requested of
           None \<Rightarrow> Some (if both_precise then ''bitwise'' else ''nan-insensitive'', False)
         | Some p \<Rightarrow> if p \<notin> set POLICIES then None else Some (p, both_precise \<and> p \<noteq> ''bitwise''))"

definition assert_comparable :: "CdtHeader \<Rightarrow> CdtHeader \<Rightarrow> bool \<Rightarrow> unit option" where
  "assert_comparable left right allow_mismatch =
     (if hd_cpu_feature_id left = hd_cpu_feature_id right \<or> allow_mismatch then Some () else None)"

definition diff_main :: "DiffOptions \<Rightarrow> bytes option \<Rightarrow> bytes option \<Rightarrow> nat" where
  "diff_main options left_file right_file =
     (case do {
        left_bytes \<leftarrow> left_file;
        (left_header, left_records) \<leftarrow> load_trace left_bytes;
        right_bytes \<leftarrow> right_file;
        (right_header, right_records) \<leftarrow> load_trace right_bytes;
        assert_comparable left_header right_header (opt_allow_feature_mismatch options);
        (policy, warning) \<leftarrow> choose_policy (opt_fp_policy options) left_header right_header;
        are_equal \<leftarrow> make_comparator policy;
        Some (compare_traces are_equal (opt_history options) left_records right_records)
      } of
        None \<Rightarrow> EXIT_ERROR
      | Some (Result_Ok _ _) \<Rightarrow> EXIT_MATCH
      | Some (Result_Diverged _ _) \<Rightarrow> EXIT_DIVERGED)"


section \<open>The NaN classes of the policies\<close>

text \<open>Two values are NaNs of one signalling class in a format.\<close>

definition same_nan_class :: "FpFormat \<Rightarrow> u64 \<Rightarrow> u64 \<Rightarrow> bool" where
  "same_nan_class f a b \<longleftrightarrow> is_nan f a \<and> is_nan f b \<and> (is_signalling_nan f a \<longleftrightarrow> is_signalling_nan f b)"

lemma and_push_bit_eq:
  fixes b m :: "'w::len word"
  assumes "drop_bit n (push_bit n m) = m"
  shows "b AND push_bit n m = push_bit n m \<longleftrightarrow> drop_bit n b AND m = m"
proof -
  have 1: "b AND push_bit n m = push_bit n (drop_bit n b AND m)" by (rule bit_word_eqI) (auto simp: bit_simps)
  have 2: "drop_bit n (b AND push_bit n m) = drop_bit n b AND m" by (simp only: drop_bit_and assms)
  show ?thesis using 1 2 assms by metis
qed

lemma classify64_eq:
  "classify64 b = (if is_nan Fp_Double b
     then Some (if is_signalling_nan Fp_Double b then ''snan64'' else ''qnan64'') else None)"
proof -
  have "b AND EXPONENT_ALL_ONES_64 = EXPONENT_ALL_ONES_64 \<longleftrightarrow> drop_bit 52 b AND 0x7ff = 0x7ff"
    unfolding EXPONENT_ALL_ONES_64_def by (rule and_push_bit_eq) simp
  then show ?thesis
    by (simp add: classify64_def is_nan_def is_signalling_nan_def max_exponent_def exponent_bits_def
        mantissa_mask_def quiet_bit_def MANTISSA_64_def QUIET_BIT_64_def)
qed

lemma classify32_eq:
  "classify32 b = (if is_nan Fp_Single b
     then Some (if is_signalling_nan Fp_Single b then ''snan32'' else ''qnan32'') else None)"
proof -
  have "b AND EXPONENT_ALL_ONES_32 = EXPONENT_ALL_ONES_32 \<longleftrightarrow> drop_bit 23 b AND 0xff = 0xff"
    unfolding EXPONENT_ALL_ONES_32_def by (rule and_push_bit_eq) simp
  moreover have "(0xffffffff :: u64) AND EXPONENT_ALL_ONES_32 = EXPONENT_ALL_ONES_32"
    "(0xffffffff :: u64) AND MANTISSA_32 = MANTISSA_32" "(0xffffffff :: u64) AND QUIET_BIT_32 = QUIET_BIT_32"
    by (simp_all add: EXPONENT_ALL_ONES_32_def MANTISSA_32_def QUIET_BIT_32_def)
  ultimately show ?thesis
    by (simp add: classify32_def is_nan_def is_signalling_nan_def max_exponent_def exponent_bits_def and.assoc
        mantissa_mask_def quiet_bit_def MANTISSA_32_def QUIET_BIT_32_def Let_def)
qed

lemma is_nan_equivalent_eq:
  "is_nan_equivalent a b \<longleftrightarrow> same_nan_class Fp_Double a b \<or> same_nan_class Fp_Single a b"
  by (auto simp: is_nan_equivalent_def classify64_eq classify32_eq same_nan_class_def)


section \<open>The register comparison\<close>

lemma map_of_apply_deltas: "map_of (state_apply_deltas s ds) = apply_deltas (map_of s) ds"
  unfolding state_apply_deltas_def apply_deltas_def
  by (induction ds arbitrary: s) (simp_all add: update_conv')

text \<open>Two register states agree: equal, or equal under the policy where the policy applies.\<close>

definition states_match :: "comparator \<Rightarrow> RegisterState \<Rightarrow> RegisterState \<Rightarrow> bool" where
  "states_match are_equal left right \<longleftrightarrow> (\<forall>i. state_get left i = state_get right i
     \<or> (is_fp_reg i \<and> are_equal i (state_get left i) (state_get right i)))"

definition reg_mismatch :: "comparator \<Rightarrow> RegisterState \<Rightarrow> RegisterState \<Rightarrow> u16 \<Rightarrow> bool" where
  "reg_mismatch are_equal left right i \<longleftrightarrow> state_get left i \<noteq> state_get right i
     \<and> \<not> (is_fp_reg i \<and> are_equal i (state_get left i) (state_get right i))"

lemma states_match_iff: "states_match are_equal left right \<longleftrightarrow> \<not> (\<exists>i. reg_mismatch are_equal left right i)"
  by (auto simp: states_match_def reg_mismatch_def)

lemma first_mismatch_find: "first_mismatch are_equal left right is = find (reg_mismatch are_equal left right) is"
  by (induction "is") (auto simp: reg_mismatch_def Let_def)

lemma mismatch_known: "reg_mismatch are_equal left right i \<Longrightarrow> i \<in> set (state_reg_ids left @ state_reg_ids right)"
proof -
  have absent: "state_get s i = 0" if "i \<notin> set (state_reg_ids s)" for s
    using that map_of_eq_None_iff [of s i] by (simp add: state_reg_ids_def state_get_def)
  show "reg_mismatch are_equal left right i \<Longrightarrow> i \<in> set (state_reg_ids left @ state_reg_ids right)"
    using absent [of left] absent [of right]
    by (cases "i \<in> set (state_reg_ids left)"; cases "i \<in> set (state_reg_ids right)") (auto simp: reg_mismatch_def)
qed

lemma find_sorted:
  fixes xs :: "'a::linorder list"
  assumes "sorted xs" "find P xs = Some x"
  shows "P x" "\<And>y. y \<in> set xs \<Longrightarrow> P y \<Longrightarrow> x \<le> y"
  using assms by (induction xs) (auto split: if_splits)

lemma compare_registers_None:
  "compare_registers are_equal left right index ic p = None \<longleftrightarrow> states_match are_equal left right"
  using mismatch_known [of are_equal left right]
  by (auto simp: compare_registers_def first_mismatch_find find_None_iff states_match_iff)

text \<open>A mismatch is reported at the least register id, with the two values.\<close>

lemma compare_registers_Some:
  assumes "compare_registers are_equal left right index ic p = Some dv"
  shows "\<exists>i. dv_reg_id dv = Some i \<and> dv_kind dv = KIND_REGISTER \<and> dv_index dv = index
    \<and> reg_mismatch are_equal left right i \<and> (\<forall>j. reg_mismatch are_equal left right j \<longrightarrow> i \<le> j)
    \<and> dv_expected dv = uint (state_get left i) \<and> dv_actual dv = uint (state_get right i)
    \<and> dv_field dv = None \<and> dv_icount dv = Some ic \<and> dv_pc dv = Some p"
proof -
  let ?is = "sort (remdups (state_reg_ids left @ state_reg_ids right))"
  obtain i where i: "find (reg_mismatch are_equal left right) ?is = Some i"
    and dv: "dv = \<lparr> dv_kind = KIND_REGISTER, dv_index = index, dv_icount = Some ic, dv_pc = Some p,
         dv_reg_id = Some i, dv_field = None, dv_expected = uint (state_get left i), dv_actual = uint (state_get right i) \<rparr>"
    using assms by (auto simp: compare_registers_def first_mismatch_find)
  from find_sorted [OF _ i] show ?thesis using mismatch_known [of are_equal left right] by (auto simp: dv)
qed


section \<open>The lockstep comparison\<close>

definition same_step :: "CdtRecord \<Rightarrow> CdtRecord \<Rightarrow> bool" where
  "same_step l r \<longleftrightarrow> rec_type l = rec_type r \<and> rec_icount l = rec_icount r \<and> (case (l, r) of
       (Rec_Block p _ n _, Rec_Block p' _ n' _) \<Rightarrow> p = p' \<and> n = n'
     | (Rec_Exception _ a b d _ _ _ _ _ _ _, Rec_Exception _ a' b' d' _ _ _ _ _ _ _) \<Rightarrow> a = a' \<and> b = b' \<and> d = d'
     | _ \<Rightarrow> True)"

lemma compare_step_None: "compare_step l r index = None \<longleftrightarrow> same_step l r"
  by (cases l; cases r) (auto simp: compare_step_def same_step_def compare_exception_fields_def Let_def)

text \<open>What a comparison of two records looks at, in order: the kind of divergence a difference is, the name
  of an exception field, and the value.\<close>

definition observed :: "CdtRecord \<Rightarrow> (DivergenceKind \<times> string option \<times> int) list" where
  "observed r = [(KIND_RECORD_TYPE, None, uint (rec_type r)), (KIND_ICOUNT, None, uint (rec_icount r))]
     @ (case r of
          Rec_Block p _ n _ \<Rightarrow> [(KIND_PC, None, uint p), (KIND_INSN_COUNT, None, uint n)]
        | Rec_Exception _ a b d _ _ _ _ _ _ _ \<Rightarrow>
            [(KIND_EXCEPTION_FIELD, Some ''from_pc'', uint a), (KIND_EXCEPTION_FIELD, Some ''to_pc'', uint b),
             (KIND_EXCEPTION_FIELD, Some ''discon_type'', uint d)]
        | _ \<Rightarrow> [])"

text \<open>The first of these values that differs is the one the divergence reports.\<close>

definition reports_difference :: "CdtRecord \<Rightarrow> CdtRecord \<Rightarrow> Divergence \<Rightarrow> bool" where
  "reports_difference l r dv \<longleftrightarrow>
     find (\<lambda>(x, y). x \<noteq> y) (zip (observed l) (observed r))
       = Some ((dv_kind dv, dv_field dv, dv_expected dv), (dv_kind dv, dv_field dv, dv_actual dv))
     \<and> dv_icount dv = Some (rec_icount l) \<and> dv_pc dv = None \<and> dv_reg_id dv = None"

lemma uint_eq: "uint (a :: 'w::len word) = uint b \<longleftrightarrow> a = b" "uint a = 0 \<longleftrightarrow> a = 0"
  using word_uint_eq_iff [of a b] word_uint_eq_iff [of a 0] by simp_all

lemma compare_step_reports:
  assumes "compare_step l r index = Some dv"
  shows "reports_difference l r dv"
proof (cases "rec_type l = rec_type r \<and> rec_icount l = rec_icount r")
  case False
  with assms show ?thesis
    by (auto simp: compare_step_def reports_difference_def observed_def step_divergence_def Let_def uint_eq split: if_splits)
next
  case True
  note step = assms [unfolded compare_step_def Let_def]
  consider p ic n ds p' ic' n' ds' where "l = Rec_Block p ic n ds" "r = Rec_Block p' ic' n' ds'"
    | ic a b d x p ps sr fc fs v ic' a' b' d' x' p' ps' sr' fc' fs' v'
      where "l = Rec_Exception ic a b d x p ps sr fc fs v" "r = Rec_Exception ic' a' b' d' x' p' ps' sr' fc' fs' v'"
    using step True by (cases l; cases r) simp_all
  then show ?thesis
  proof cases
    case 1
    with step True show ?thesis
      by (auto simp: reports_difference_def observed_def step_divergence_def uint_eq split: if_splits)
  next
    case 2
    with step True show ?thesis
      by (auto simp: compare_exception_fields_def reports_difference_def observed_def step_divergence_def Let_def
          uint_eq split: if_splits)
  qed
qed

lemma compare_step_index: "compare_step l r index = Some dv \<Longrightarrow> dv_index dv = index \<and> dv_kind dv \<noteq> KIND_REGISTER"
  by (cases l; cases r)
    (auto simp: compare_step_def compare_exception_fields_def step_divergence_def Let_def split: if_splits)

text \<open>What a reported divergence says of the step it names, \<open>L\<close> and \<open>R\<close> the states replayed up to it: a
  register divergence is of the least register id that differs, with its two values, the instruction
  count and the program counter, at a step whose records agree; every other one reports the first value in
  which the records differ, by its kind and field, with the two values.\<close>

definition diagnosed ::
  "comparator \<Rightarrow> RegisterState \<Rightarrow> RegisterState \<Rightarrow> CdtRecord \<Rightarrow> CdtRecord \<Rightarrow> Divergence \<Rightarrow> bool" where
  "diagnosed are_equal L R l r dv \<longleftrightarrow>
     (if dv_kind dv = KIND_REGISTER
      then same_step l r \<and> (\<exists>i. dv_reg_id dv = Some i \<and> reg_mismatch are_equal L R i
        \<and> (\<forall>j. reg_mismatch are_equal L R j \<longrightarrow> i \<le> j)
        \<and> dv_expected dv = uint (state_get L i) \<and> dv_actual dv = uint (state_get R i))
        \<and> dv_field dv = None \<and> dv_icount dv = Some (rec_icount l)
        \<and> dv_pc dv = Some (case l of Rec_Block p _ _ _ \<Rightarrow> p | Rec_Exception _ _ to_pc _ _ _ _ _ _ _ _ \<Rightarrow> to_pc | _ \<Rightarrow> 0)
      else reports_difference l r dv)"

text \<open>Agreement at step \<open>j\<close> of two record lists replayed from two states: the records describe the same
  step, and the states replayed up to and including it agree.\<close>

abbreviation replayed :: "RegisterState \<Rightarrow> CdtRecord list \<Rightarrow> nat \<Rightarrow> RegisterState" where
  "replayed s rs j \<equiv> foldl apply_record s (take (Suc j) rs)"

definition agree_from ::
  "comparator \<Rightarrow> RegisterState \<Rightarrow> RegisterState \<Rightarrow> CdtRecord list \<Rightarrow> CdtRecord list \<Rightarrow> nat \<Rightarrow> bool" where
  "agree_from are_equal left right ls rs j \<longleftrightarrow> same_step (ls ! j) (rs ! j)
     \<and> states_match are_equal (replayed left ls j) (replayed right rs j)"

lemma agree_from_Cons:
  "agree_from are_equal left right (l # ls) (r # rs) 0 \<longleftrightarrow>
     same_step l r \<and> states_match are_equal (apply_record left l) (apply_record right r)"
  "agree_from are_equal left right (l # ls) (r # rs) (Suc j) \<longleftrightarrow>
     agree_from are_equal (apply_record left l) (apply_record right r) ls rs j"
  by (simp_all add: agree_from_def)

text \<open>The history: the last entries, at most \<open>depth\<close> of them.\<close>

definition keep :: "int \<Rightarrow> 'a list \<Rightarrow> 'a list" where
  "keep depth xs = drop (length xs - nat depth) xs"

lemma keep_push:
  assumes "0 \<le> depth"
  shows "(if int (length (keep depth xs @ [x])) > depth then tl (keep depth xs @ [x]) else keep depth xs @ [x])
    = keep depth (xs @ [x])"
proof (cases "nat depth \<le> length xs")
  case True
  then have "length (keep depth xs) = nat depth" by (simp add: keep_def)
  moreover have "tl (keep depth xs @ [x]) = keep depth (xs @ [x])"
  proof -
    have "keep depth xs @ [x] = drop (length xs - nat depth) (xs @ [x])" by (simp add: keep_def)
    moreover have "length (xs @ [x]) - nat depth = Suc (length xs - nat depth)" using True by simp
    ultimately show ?thesis by (simp only: keep_def [of depth "xs @ [x]"] drop_Suc tl_drop)
  qed
  ultimately show ?thesis using assms by simp
next
  case False
  then show ?thesis using assms by (simp add: keep_def)
qed

definition entries :: "nat \<Rightarrow> CdtRecord list \<Rightarrow> nat \<Rightarrow> HistoryEntry list" where
  "entries index ls j = map (\<lambda>k. history_entry (index + k) (ls ! k)) [0..<j]"

lemma entries_Suc: "entries index (l # ls) (Suc j) = history_entry index l # entries (Suc index) ls j"
  by (simp add: entries_def map_upt_Suc del: upt_Suc)

definition loop_outcome :: "comparator \<Rightarrow> int \<Rightarrow> nat \<Rightarrow> RegisterState \<Rightarrow> RegisterState \<Rightarrow> HistoryEntry list
    \<Rightarrow> CdtRecord list \<Rightarrow> CdtRecord list \<Rightarrow> (Divergence \<times> HistoryEntry list) + HistoryEntry list \<Rightarrow> bool" where
  "loop_outcome are_equal depth index left right past ls rs out \<longleftrightarrow> (case out of
       Inr history \<Rightarrow> (\<forall>j < min (length ls) (length rs). agree_from are_equal left right ls rs j)
         \<and> history = keep depth (past @ entries index ls (min (length ls) (length rs)))
     | Inl (dv, history) \<Rightarrow> (\<exists>j < min (length ls) (length rs). dv_index dv = index + j
         \<and> diagnosed are_equal (replayed left ls j) (replayed right rs j) (ls ! j) (rs ! j) dv
         \<and> \<not> agree_from are_equal left right ls rs j \<and> (\<forall>k < j. agree_from are_equal left right ls rs k)
         \<and> history = keep depth (past @ entries index ls j)))"

lemma loop_outcome_here:
  "dv_index dv = index \<Longrightarrow> diagnosed are_equal (apply_record left l) (apply_record right r) l r dv \<Longrightarrow>
     \<not> agree_from are_equal left right (l # ls) (r # rs) 0 \<Longrightarrow>
     loop_outcome are_equal depth index left right past (l # ls) (r # rs) (Inl (dv, keep depth past))"
  by (auto simp: loop_outcome_def entries_def intro: exI [of _ 0])

lemma loop_outcome_next:
  assumes "agree_from are_equal left right (l # ls) (r # rs) 0"
    and "loop_outcome are_equal depth (Suc index) (apply_record left l) (apply_record right r)
      (past @ [history_entry index l]) ls rs out"
  shows "loop_outcome are_equal depth index left right past (l # ls) (r # rs) out"
proof -
  have all: "(\<forall>k < Suc j. agree_from are_equal left right (l # ls) (r # rs) k)
      \<longleftrightarrow> (\<forall>k < j. agree_from are_equal (apply_record left l) (apply_record right r) ls rs k)" for j
    using assms(1) by (auto simp: agree_from_Cons less_Suc_eq_0_disj)
  show ?thesis
  proof (cases out)
    case (Inl d)
    obtain dv history where d: "d = (dv, history)" by (cases d)
    from assms(2) obtain j where j: "j < min (length ls) (length rs)" "dv_index dv = Suc index + j"
      "diagnosed are_equal (replayed (apply_record left l) ls j) (replayed (apply_record right r) rs j) (ls ! j) (rs ! j) dv"
      "\<not> agree_from are_equal (apply_record left l) (apply_record right r) ls rs j"
      "\<forall>k < j. agree_from are_equal (apply_record left l) (apply_record right r) ls rs k"
      "history = keep depth ((past @ [history_entry index l]) @ entries (Suc index) ls j)"
      by (auto simp: loop_outcome_def Inl d)
    then show ?thesis
      unfolding loop_outcome_def Inl d sum.case prod.case
      by (intro exI [of _ "Suc j"]) (simp add: all agree_from_Cons entries_Suc)
  next
    case (Inr history)
    then show ?thesis using assms(2) by (simp add: loop_outcome_def all entries_Suc)
  qed
qed

lemma compare_loop_spec:
  assumes "0 \<le> depth"
  shows "loop_outcome are_equal depth index left right past ls rs
    (compare_loop are_equal depth index left right (keep depth past) ls rs)"
proof (induction ls arbitrary: index left right past rs)
  case (Cons l ls)
  show ?case
  proof (cases rs)
    case (Cons r rs')
    let ?L = "apply_record left l" and ?R = "apply_record right r" and ?e = "history_entry index l"
    note agree = agree_from_Cons(1) [of are_equal left right l ls r rs']
    show ?thesis
    proof (cases "compare_step l r index")
      case (Some dv)
      then have "\<not> same_step l r" using compare_step_None [of l r index] by simp
      then show ?thesis using Some compare_step_index [OF Some] compare_step_reports [OF Some]
        by (simp add: Cons loop_outcome_here agree diagnosed_def)
    next
      case same: None
      show ?thesis
      proof (cases "compare_registers are_equal ?L ?R index (he_icount ?e) (he_pc ?e)")
        case (Some dv)
        then have "\<not> states_match are_equal ?L ?R" "dv_index dv = index" "diagnosed are_equal ?L ?R l r dv"
          using compare_registers_None [of are_equal ?L ?R] compare_registers_Some [OF Some] same
            compare_step_None [of l r index] by (auto simp: diagnosed_def history_entry_def)
        then show ?thesis using same Some by (simp add: Cons loop_outcome_here agree Let_def)
      next
        case None
        then have "agree_from are_equal left right (l # ls) (r # rs') 0"
          using same by (simp add: agree compare_step_None compare_registers_None)
        then have "loop_outcome are_equal depth index left right past (l # ls) (r # rs')
            (compare_loop are_equal depth (Suc index) ?L ?R (keep depth (past @ [?e])) ls rs')"
          by (rule loop_outcome_next [OF _ Cons.IH])
        then show ?thesis using same None keep_push [OF assms, of past ?e] by (simp add: Cons Let_def)
      qed
    qed
  qed (simp add: loop_outcome_def entries_def)
qed (simp add: loop_outcome_def entries_def)

text \<open>The traces agree at step \<open>j\<close>, from the empty state.\<close>

abbreviation agree_at :: "comparator \<Rightarrow> CdtRecord list \<Rightarrow> CdtRecord list \<Rightarrow> nat \<Rightarrow> bool" where
  "agree_at are_equal ls rs \<equiv> agree_from are_equal [] [] ls rs"

lemma compare_traces_spec:
  assumes "0 \<le> depth"
    and ls: "ls = significant_records left" and rs: "rs = significant_records right"
    and n: "n = min (length ls) (length rs)"
  shows "case compare_traces are_equal depth left right of
      Result_Ok steps history \<Rightarrow> length ls = steps \<and> length rs = steps \<and> (\<forall>j < steps. agree_at are_equal ls rs j)
        \<and> history = keep depth (entries 0 ls steps)
    | Result_Diverged dv history \<Rightarrow> dv_index dv \<le> n \<and> (\<forall>j < dv_index dv. agree_at are_equal ls rs j)
        \<and> (if dv_index dv < n then \<not> agree_at are_equal ls rs (dv_index dv)
             \<and> diagnosed are_equal (replayed [] ls (dv_index dv)) (replayed [] rs (dv_index dv)) (ls ! dv_index dv) (rs ! dv_index dv) dv
           else length ls \<noteq> length rs \<and> dv_kind dv = KIND_LENGTH
             \<and> dv_expected dv = int (length ls) \<and> dv_actual dv = int (length rs))
        \<and> history = keep depth (entries 0 ls (dv_index dv))"
proof -
  have "keep depth [] = ([] :: HistoryEntry list)" by (simp add: keep_def)
  then have spec: "loop_outcome are_equal depth 0 [] [] [] ls rs (compare_loop are_equal depth 0 [] [] [] ls rs)"
    using compare_loop_spec [OF assms(1), of are_equal 0 "[]" "[]" "[]" ls rs] by simp
  show ?thesis
    using spec unfolding compare_traces_def Let_def ls [symmetric] rs [symmetric] n [symmetric] loop_outcome_def
    by (auto simp: n split: sum.splits prod.splits)
qed

lemma compare_traces_ok:
  assumes "0 \<le> depth" "ls = significant_records left" "rs = significant_records right"
  shows "(\<exists>steps history. compare_traces are_equal depth left right = Result_Ok steps history)
    \<longleftrightarrow> length ls = length rs \<and> (\<forall>j < length ls. agree_at are_equal ls rs j)"
  using compare_traces_spec [OF assms refl, of are_equal]
  by (cases "compare_traces are_equal depth left right") (auto split: if_splits)

lemma load_stream:
  assumes "cdt_new name mode = Some w" "list_all event_ok es"
  shows "load_trace (cdt_buffer w @ concat (map event_le es)) = Some (header_of name mode, map record_of es)"
proof -
  from cdt_new_header [of name mode] assms(1) have
    "length (cdt_buffer w) = FILE_HEADER_BYTES" "\<And>v. read_header (cdt_buffer w @ v) = Some (header_of name mode)"
    by auto
  with read_records_le [OF assms(2), of "cdt_buffer w" FILE_HEADER_BYTES] show ?thesis
    by (simp add: load_trace_def)
qed

section \<open>Comparing two runs\<close>

lemma traced_run_returns:
  assumes "regs_wf r" "flat_wf m" "unat budget < 2 ^ 63"
  shows "\<exists>stop c'. run flat_ops cdt_sink ((cpu_with_sink m w)\<lparr>cpu_regs := r\<rparr>) budget = Some (stop, c')"
proof -
  have "cpu_ok flat_wf (\<lambda>_. True) (unat budget + 0) ((cpu_with_sink m w)\<lparr>cpu_regs := r\<rparr>)"
    using cpu_with_sink_ok [of flat_wf m "\<lambda>_. True" w "unat budget"] assms by (simp add: cpu_ok_def)
  from flat_cdt.run_loop_ok [OF this] show ?thesis by (auto simp: run_def)
qed

lemma run_trace_loads:
  assumes "cdt_new name mode = Some w" "regs_wf r" "flat_wf m" "unat budget < 2 ^ 63"
    and "run flat_ops cdt_sink ((cpu_with_sink m w)\<lparr>cpu_regs := r\<rparr>) budget = Some (stop, c')"
  shows "load_trace (cdt_bytes (cpu_sink c')) = Some (header_of name mode, map record_of (run_blocks (unat budget) None 0 r m))"
proof -
  let ?c = "(cpu_with_sink m w)\<lparr>cpu_regs := r\<rparr>" and ?n = "unat budget"
  have ok: "cpu_ok flat_wf (\<lambda>_. True) (?n + 0) ?c"
    using cpu_with_sink_ok [of flat_wf m "\<lambda>_. True" w ?n] assms by (simp add: cpu_ok_def)
  from run_loop_cdt [OF _ assms(5) [unfolded run_def]] ok
  have "cdt_buffer (cpu_sink c') = cdt_buffer w @ concat (map event_le (run_blocks ?n None 0 r m))"
    "list_all event_ok (run_blocks ?n None 0 r m)"
    by (simp_all add: cpu_with_sink_def)
  then show ?thesis using load_stream [OF assms(1)] by (simp add: cdt_bytes_def)
qed

lemma isa_step_wf:
  assumes "regs_wf r" "flat_wf m" "isa_step flat_ops r m = Inr (r', m')"
  shows "regs_wf r'" "flat_wf m'"
proof -
  obtain w where "cdt_new [] Native = Some w" using cdt_new_header by blast
  let ?c = "(cpu_with_sink m w)\<lparr>cpu_regs := r\<rparr>"
  have ok: "cpu_ok flat_wf (\<lambda>_. True) (Suc 0) ?c"
    using cpu_with_sink_ok [of flat_wf m "\<lambda>_. True" w "Suc 0"] assms by (simp add: cpu_ok_def)
  from flat_cdt.step_ok [OF ok] obtain out c' where step: "step flat_ops cdt_sink ?c = Some (out, c')"
    and "regs_wf (cpu_regs c')" "flat_wf (cpu_memory c')"
    by (auto simp: cpu_ok_def)
  moreover from flat_cdt.step_refines [OF ok] step assms(3) have "r' = cpu_regs c'" "m' = cpu_memory c'"
    by (auto simp: cpu_with_sink_def split: sum.splits)
  ultimately show "regs_wf r'" "flat_wf m'" by simp_all
qed

lemma run_regs_wf: "regs_wf r \<Longrightarrow> flat_wf m \<Longrightarrow> x \<in> set (run_regs n r m) \<Longrightarrow> regs_wf x"
proof (induction n arbitrary: r m)
  case (Suc n)
  then show ?case using isa_step_wf [OF Suc.prems(1,2)] Suc.IH
    by (cases "isa_step flat_ops r m") (auto split: if_splits)
qed simp

lemma record_of_block: "record_of (Ev_Block p ic ds) = Rec_Block p ic M1_INSNS_PER_BLOCK ds"
  by (simp add: record_of_def)

text \<open>The record of every step of a run, and the state replayed up to it.\<close>

lemma run_blocks_nth:
  "length (run_blocks n prev ic r m) = length (run_regs n r m)"
  "j < length (run_regs n r m) \<Longrightarrow> \<exists>ds. map record_of (run_blocks n prev ic r m) ! j
     = Rec_Block (rf_pc (run_regs n r m ! j)) (ic + of_nat j) M1_INSNS_PER_BLOCK ds"
proof (induction n arbitrary: prev ic r m j)
  case (Suc n)
  { case 1 then show ?case using Suc.IH(1) by (auto split: sum.splits)
  next
    case 2 then show ?case
      using Suc.IH(2) [of "j - 1" _ _ "Some r" "ic + 1"] record_of_block
      by (cases j) (auto simp: add.assoc add.commute [of 1] split: sum.splits) }
qed simp_all

text \<open>The state the comparison replays up to a block is the replay of the trace.\<close>

lemma replay_state:
  assumes "\<forall>r\<in>set rs. \<exists>p ic n ds. r = Rec_Block p ic n ds" "j < length rs"
  shows "map_of (foldl apply_record s (take (Suc j) rs)) = replay (map_of s) rs ! j"
  using assms
proof (induction rs arbitrary: s j)
  case (Cons r rs)
  then obtain p ic n ds where r: "r = Rec_Block p ic n ds" by auto
  then show ?case using Cons by (cases j) (auto simp: map_of_apply_deltas [symmetric] Let_def)
qed simp

lemma significant_blocks: "\<forall>r\<in>set rs. \<exists>p ic n ds. r = Rec_Block p ic n ds \<Longrightarrow> significant_records rs = rs"
  by (induction rs) (auto simp: significant_records_def)

abbreviation run_records :: "nat \<Rightarrow> RegFile \<Rightarrow> FlatMemory \<Rightarrow> CdtRecord list" where
  "run_records n r m \<equiv> map record_of (run_blocks n None 0 r m)"

lemma run_records_blocks: "\<forall>x\<in>set (run_records n r m). \<exists>p ic k ds. x = Rec_Block p ic k ds"
proof
  fix x assume "x \<in> set (run_records n r m)"
  then obtain j where "j < length (run_regs n r m)" "x = run_records n r m ! j"
    by (metis in_set_conv_nth length_map run_blocks_nth(1))
  with run_blocks_nth(2) [of j n r m None 0] show "\<exists>p ic k ds. x = Rec_Block p ic k ds" by auto
qed

lemma run_records_state:
  assumes "j < length (run_regs n r m)"
  shows "map_of (foldl apply_record [] (take (Suc j) (run_records n r m))) = trace_view (run_regs n r m ! j)"
proof -
  have "replay Map.empty (run_records n r m) = map trace_view (run_regs n r m)" by (rule replay_run_blocks) simp_all
  with replay_state [OF run_records_blocks, of j n r m "[]"] assms show ?thesis by (simp add: run_blocks_nth(1))
qed

text \<open>Under the bitwise policy two replayed states match exactly when the register files are equal.\<close>

lemma bitwise_comparator: "make_comparator ''bitwise'' = Some (\<lambda>i left right. left = right)"
  by (simp add: make_comparator_def POLICIES_def fun_eq_iff)

lemma states_match_bitwise:
  assumes "map_of s = trace_view a" "map_of s' = trace_view b" "regs_wf a" "regs_wf b"
  shows "states_match (\<lambda>i left right. left = right) s s' \<longleftrightarrow> a = b"
proof
  assume m: "states_match (\<lambda>i left right. left = right) s s'"
  have "trace_view a i = trace_view b i" for i
  proof (cases "i \<in> fst ` set all_fields")
    case True
    then obtain f where f: "(i, f) \<in> set all_fields" by auto
    from m have "state_get s i = state_get s' i" by (auto simp: states_match_def)
    then show ?thesis by (simp add: state_get_def assms(1,2) trace_view_field [OF f])
  qed (simp add: trace_view_None)
  with trace_view_inj [OF assms(3,4)] show "a = b" by (simp add: fun_eq_iff)
next
  assume "a = b"
  then show "states_match (\<lambda>i left right. left = right) s s'" by (simp add: states_match_def state_get_def assms(1,2))
qed

lemma runs_agree_at:
  assumes "regs_wf r" "flat_wf m" "regs_wf r'" "flat_wf m'"
    and "j < length (run_regs n r m)" "j < length (run_regs n' r' m')"
  shows "agree_at (\<lambda>i left right. left = right) (run_records n r m) (run_records n' r' m') j
    \<longleftrightarrow> run_regs n r m ! j = run_regs n' r' m' ! j"
proof -
  have wf: "regs_wf (run_regs n r m ! j)" "regs_wf (run_regs n' r' m' ! j)"
    by (rule run_regs_wf [OF assms(1,2) nth_mem [OF assms(5)]], rule run_regs_wf [OF assms(3,4) nth_mem [OF assms(6)]])
  from run_blocks_nth(2) [OF assms(5), of None 0] run_blocks_nth(2) [OF assms(6), of None 0]
  obtain ds ds' where "run_records n r m ! j = Rec_Block (rf_pc (run_regs n r m ! j)) (0 + of_nat j) M1_INSNS_PER_BLOCK ds"
    "run_records n' r' m' ! j = Rec_Block (rf_pc (run_regs n' r' m' ! j)) (0 + of_nat j) M1_INSNS_PER_BLOCK ds'"
    by blast
  then have "same_step (run_records n r m ! j) (run_records n' r' m' ! j)
      \<longleftrightarrow> rf_pc (run_regs n r m ! j) = rf_pc (run_regs n' r' m' ! j)"
    by (simp only: same_step_def) simp
  with states_match_bitwise [OF run_records_state [OF assms(5)] run_records_state [OF assms(6)] wf]
  show ?thesis unfolding agree_from_def by auto
qed

lemma runs_compare:
  assumes "regs_wf r" "flat_wf m" "regs_wf r'" "flat_wf m'" "0 \<le> depth"
  shows "(\<exists>steps history. compare_traces (\<lambda>i left right. left = right) depth (run_records n r m) (run_records n' r' m')
      = Result_Ok steps history) \<longleftrightarrow> run_regs n r m = run_regs n' r' m'"
  using compare_traces_ok [OF assms(5), of "run_records n r m" "run_records n r m" "run_records n' r' m'" "run_records n' r' m'"]
    significant_blocks [OF run_records_blocks [of n r m]] significant_blocks [OF run_records_blocks [of n' r' m']]
    runs_agree_at [OF assms(1-4)]
  by (auto simp: run_blocks_nth(1) list_eq_iff_nth_eq)

lemma diff_main_precise:
  assumes "load_trace bytes = Some (header_of name Precise, rs)" "load_trace bytes' = Some (header_of name' Precise, rs')"
    and "opt_fp_policy opts = None"
  shows "diff_main opts (Some bytes) (Some bytes') =
    (case compare_traces (\<lambda>i left right. left = right) (opt_history opts) rs rs' of
       Result_Ok _ _ \<Rightarrow> EXIT_MATCH | Result_Diverged _ _ \<Rightarrow> EXIT_DIVERGED)"
proof -
  have "hd_flags (header_of x Precise) AND flag_PRECISE_FP \<noteq> 0" for x
    by (simp add: header_of_def flag_PRECISE_FP_def)
  moreover have "hd_cpu_feature_id (header_of name Precise) = hd_cpu_feature_id (header_of name' Precise)"
    by (simp add: header_of_def)
  ultimately show ?thesis
    by (simp add: diff_main_def assms assert_comparable_def choose_policy_def bitwise_comparator)
qed

end
