(* ===== verification/Trace_Properties.thy ===== *)
theory Trace_Properties
  imports Trace_Compare Interp_Properties
begin

text \<open>
  The properties of the trace: register deltas, the CDT byte stream, and the trace of a run.
\<close>

text \<open>the packed processor state of a trace record loses nothing: unpacking the word gives the
  processor state back, and no bit outside its fields is set.\<close>

theorem pstate_trace_word_roundtrip:
  "of_trace_word (to_trace_word p) = p \<and> {k. bit (to_trace_word p) k} \<subseteq> {0, 2} \<union> {6..9} \<union> {28..31}"
  by (auto simp: of_trace_word_to_trace_word dest!: to_trace_word_zero_elsewhere)

text \<open>C18: register deltas are sufficient and canonical. Between two well-formed register files the
  delta scan never panics nor overflows its buffer; applying the deltas it emits to the old
  registers' trace view gives the new registers' view, and that view determines the register file.\<close>

theorem deltas_reconstruct:
  assumes "regs_wf p" "regs_wf c" "regs_wf d"
  shows "\<exists>b. deltas_between buffer_out (Some p) c delta_buffer_new = Some b
    \<and> length (delta_slice b) \<le> 100
    \<and> (apply_deltas (trace_view p) (delta_slice b) = trace_view d \<longleftrightarrow> d = c)"
proof -
  obtain b where b: "deltas_between buffer_out (Some p) c delta_buffer_new = Some b"
      "delta_slice b = delta_list (Some p) c" "length (delta_list (Some p) c) \<le> 100"
    using delta_buffer.deltas_between_ok [OF assms(2), of "Some p" delta_buffer_new] assms(1) buffer_new_wf by auto
  have "apply_deltas (trace_view p) (delta_slice b) = trace_view c"
    unfolding b(2) by (rule apply_delta_list) simp_all
  with b trace_view_inj [OF assms(2,3)] show ?thesis by auto
qed

theorem deltas_reconstruct_witness:
  "\<exists>b. deltas_between buffer_out (Some regfile_new) (set_pc regfile_new 4) delta_buffer_new = Some b
     \<and> apply_deltas (trace_view regfile_new) (delta_slice b) = trace_view (set_pc regfile_new 4)"
  using deltas_reconstruct [of regfile_new "set_pc regfile_new 4" "set_pc regfile_new 4"] regs_wf_new
  by auto

lemma for_each_emit:
  "list_all event_ok es \<Longrightarrow> for_each es (emit cdt_sink) w = Some (cdt_extend w (concat (map event_le es)))"
  by (induction es arbitrary: w) (simp_all add: emit_eq)

text \<open>C7: the trace format round-trips. A CDT file written by the emulator, header and any sequence of
  markers, blocks of at most 255 deltas, exceptions and an end record, is read back by the comparison
  tool's reader as the header fields and exactly those records in order.\<close>

theorem cdt_stream_roundtrip:
  assumes "list_all event_ok es"
  shows "\<exists>w w'. cdt_new name mode = Some w \<and> for_each es (emit cdt_sink) w = Some w'
    \<and> load_trace (cdt_bytes w') = Some (header_of name mode, map record_of es)"
proof -
  obtain w where w: "cdt_new name mode = Some w" using cdt_new_header by blast
  with for_each_emit [OF assms, of w] load_stream [OF w assms] show ?thesis
    by (simp add: cdt_bytes_def cdt_buffer_extend)
qed

theorem cdt_stream_roundtrip_witness:
  "\<exists>w w'. cdt_new [99] Precise = Some w
     \<and> for_each [Ev_Block 4096 0 [\<lparr>reg_id = 1, delta_value = 5\<rparr>], Ev_Finish End_Normal 1] (emit cdt_sink) w = Some w'
     \<and> load_trace (cdt_bytes w') = Some (header_of [99] Precise,
         [Rec_Block 4096 0 1 [\<lparr>reg_id = 1, delta_value = 5\<rparr>], Rec_End 1 0])"
proof -
  have "list_all event_ok [Ev_Block 4096 0 [\<lparr>reg_id = 1, delta_value = 5\<rparr>], Ev_Finish End_Normal 1]"
    by (simp add: event_ok_def MAX_DELTAS_PER_BLOCK_def)
  from cdt_stream_roundtrip [OF this, of "[99]" Precise] show ?thesis
    by (simp add: record_of_def M1_INSNS_PER_BLOCK_def end_code_def)
qed

text \<open>the feature identifier in every trace header is the FNV-1a hash of the feature mask, the
  constant that both producers of a differential run must agree on.\<close>

theorem cpu_feature_id: "CPU_FEATURE_ID = 0x665fe771b9605c07"
  by code_simp

text \<open>C4: the trace of a run tells the run. Writing a trace of \<open>budget\<close> instructions into a fresh file
  and reading the file back gives one block per fetched instruction, and replaying the blocks' deltas
  from nothing yields, block by block, the registers the instruction-set specification has at that
  instruction.\<close>

theorem run_trace_replays:
  assumes "cdt_new name mode = Some w" "regs_wf r" "flat_wf m" "unat budget < 2 ^ 63"
  shows "\<exists>stop c' rs. run flat_ops cdt_sink ((cpu_with_sink m w)\<lparr>cpu_regs := r\<rparr>) budget = Some (stop, c')
    \<and> load_trace (cdt_bytes (cpu_sink c')) = Some (header_of name mode, rs)
    \<and> replay Map.empty rs = map trace_view (run_regs (unat budget) r m)"
proof -
  let ?c = "(cpu_with_sink m w)\<lparr>cpu_regs := r\<rparr>" and ?n = "unat budget"
  obtain stop c' where run: "run flat_ops cdt_sink ?c budget = Some (stop, c')"
    using traced_run_returns [OF assms(2-4)] by blast
  have "replay Map.empty (run_records ?n r m) = map trace_view (run_regs ?n r m)"
    by (rule replay_run_blocks) simp_all
  with run run_trace_loads [OF assms run] show ?thesis by simp
qed

theorem run_trace_replays_witness:
  "\<exists>w stop c' rs. cdt_new [] Native = Some w
    \<and> run flat_ops cdt_sink ((cpu_with_sink demo_memory w)\<lparr>cpu_regs := set_pc regfile_new 0x1000\<rparr>) 2 = Some (stop, c')
    \<and> load_trace (cdt_bytes (cpu_sink c')) = Some (header_of [] Native, rs)
    \<and> replay Map.empty rs = map trace_view (run_regs 2 (set_pc regfile_new 0x1000) demo_memory)"
proof -
  obtain w where w: "cdt_new [] Native = Some w" using cdt_new_header by blast
  have "flat_wf demo_memory" "regs_wf (set_pc regfile_new 0x1000)"
    by (simp_all add: flat_wf_def demo_memory_def regs_wf_new)
  from run_trace_replays [OF w this(2,1), of 2] w show ?thesis by auto
qed

text \<open>C5: the comparison tool is exact on precise traces. Two runs of the emulator, each traced in precise
  mode into a file of its own, are compared with the default policy and any history depth: the exit code
  is that of a match when both runs fetch the same number of instructions and have the same registers at
  every one of them, and that of a divergence otherwise.\<close>

theorem differ_exact:
  assumes "cdt_new name Precise = Some w" "regs_wf r" "flat_wf m" "unat budget < 2 ^ 63"
    and "cdt_new name' Precise = Some w'" "regs_wf r'" "flat_wf m'" "unat budget' < 2 ^ 63"
    and "opt_fp_policy opts = None" "0 \<le> opt_history opts"
  shows "\<exists>stop c stop' c'. run flat_ops cdt_sink ((cpu_with_sink m w)\<lparr>cpu_regs := r\<rparr>) budget = Some (stop, c)
    \<and> run flat_ops cdt_sink ((cpu_with_sink m' w')\<lparr>cpu_regs := r'\<rparr>) budget' = Some (stop', c')
    \<and> diff_main opts (Some (cdt_bytes (cpu_sink c))) (Some (cdt_bytes (cpu_sink c')))
      = (if run_regs (unat budget) r m = run_regs (unat budget') r' m' then EXIT_MATCH else EXIT_DIVERGED)"
proof -
  obtain stop c stop' c' where
    run: "run flat_ops cdt_sink ((cpu_with_sink m w)\<lparr>cpu_regs := r\<rparr>) budget = Some (stop, c)"
      "run flat_ops cdt_sink ((cpu_with_sink m' w')\<lparr>cpu_regs := r'\<rparr>) budget' = Some (stop', c')"
    using traced_run_returns [OF assms(2-4)] traced_run_returns [OF assms(6-8)] by metis
  note loads = run_trace_loads [OF assms(1-4) run(1)] run_trace_loads [OF assms(5-8) run(2)]
  from diff_main_precise [OF loads assms(9)]
    runs_compare [OF assms(2,3,6,7,10), of "unat budget" "unat budget'"]
  show ?thesis unfolding run by (auto split: CompareResult.splits)
qed

theorem differ_exact_witness:
  "\<exists>w w' stop c stop' c'. cdt_new [97] Precise = Some w \<and> cdt_new [98] Precise = Some w'
    \<and> run flat_ops cdt_sink ((cpu_with_sink demo_memory w)\<lparr>cpu_regs := set_pc regfile_new 0x1000\<rparr>) 2 = Some (stop, c)
    \<and> run flat_ops cdt_sink ((cpu_with_sink demo_memory w')\<lparr>cpu_regs := set_pc (set_sp regfile_new 8) 0x1000\<rparr>) 2 = Some (stop', c')
    \<and> diff_main \<lparr>opt_fp_policy = None, opt_history = 8, opt_allow_feature_mismatch = False\<rparr>
        (Some (cdt_bytes (cpu_sink c))) (Some (cdt_bytes (cpu_sink c'))) = EXIT_DIVERGED"
proof -
  let ?r = "set_pc regfile_new 0x1000" and ?r' = "set_pc (set_sp regfile_new 8) 0x1000"
  let ?o = "\<lparr>opt_fp_policy = None, opt_history = 8, opt_allow_feature_mismatch = False\<rparr>"
  obtain w w' where w: "cdt_new [97] Precise = Some w" "cdt_new [98] Precise = Some w'" using cdt_new_header by blast
  have wf: "flat_wf demo_memory" "regs_wf ?r" "regs_wf ?r'"
    using regs_wf_new by (simp_all add: flat_wf_def demo_memory_def regs_wf_def set_pc_def set_sp_def)
  have "flat_mapped demo_memory 0x1000 4" by (simp add: flat_mapped_def demo_memory_def)
  moreover have "?r \<noteq> ?r'" by (simp add: set_pc_def set_sp_def regfile_new_def)
  ultimately have "run_regs 2 ?r demo_memory \<noteq> run_regs 2 ?r' demo_memory"
    by (simp add: numeral_2_eq_2)
  with differ_exact [OF w(1) wf(2,1) _ w(2) wf(3,1), of 2 2 ?o] w show ?thesis by auto
qed

text \<open>C32: the comparison reports the first step at which two traces disagree. With \<open>first\<close> the first index
  at which a record is missing on one side, or the records describe different steps, or the register
  states replayed so far differ beyond what the policy allows: a match means both traces end there; a
  divergence names that index and what differs there. Of record type, instruction count, program counter
  and block length, or the three fields of an exception, in this order, it reports the first that differs,
  by its kind and with both values; when the records agree, the least register id that differs, with both
  values; when a trace ends early, both lengths. The history is the last \<open>depth\<close> steps before it.\<close>

theorem first_divergence:
  assumes "0 \<le> depth" and "ls = significant_records left" and "rs = significant_records right"
    and "first = (LEAST j. \<not> (j < length ls \<and> j < length rs \<and> agree_at are_equal ls rs j))"
  shows "case compare_traces are_equal depth left right of
      Result_Ok steps history \<Rightarrow> steps = first \<and> length ls = first \<and> length rs = first
        \<and> history = keep depth (entries 0 ls first)
    | Result_Diverged dv history \<Rightarrow> dv_index dv = first \<and> history = keep depth (entries 0 ls first)
        \<and> (if first < length ls \<and> first < length rs
           then diagnosed are_equal (replayed [] ls first) (replayed [] rs first) (ls ! first) (rs ! first) dv
           else dv_kind dv = KIND_LENGTH \<and> length ls \<noteq> length rs
             \<and> dv_expected dv = int (length ls) \<and> dv_actual dv = int (length rs))"
proof -
  let ?P = "\<lambda>j. j < length ls \<and> j < length rs \<and> agree_at are_equal ls rs j"
  have first: "first = k" if "\<And>j. j < k \<Longrightarrow> ?P j" "\<not> ?P k" for k
    unfolding assms(4) using that by (intro Least_equality) (auto simp: not_less [symmetric])
  note spec = compare_traces_spec [OF assms(1-3) refl, of are_equal]
  show ?thesis
  proof (cases "compare_traces are_equal depth left right")
    case (Result_Ok steps history)
    with spec have "first = steps" by (intro first) auto
    with spec Result_Ok show ?thesis by simp
  next
    case (Result_Diverged dv history)
    with spec have "first = dv_index dv" by (intro first) (auto split: if_splits)
    with spec Result_Diverged show ?thesis by (auto split: if_splits)
  qed
qed

theorem first_divergence_witness:
  "\<exists>dv. compare_traces (\<lambda>i a b. a = b) 8
      [Rec_Marker 0 0 0, Rec_Block 4096 0 1 [], Rec_Block 4100 1 1 [\<lparr>reg_id = 3, delta_value = 7\<rparr>]]
      [Rec_Block 4096 0 1 [], Rec_Block 4100 1 1 [\<lparr>reg_id = 4, delta_value = 7\<rparr>], Rec_End 2 0]
      = Result_Diverged dv [history_entry 0 (Rec_Block 4096 0 1 [])]
    \<and> dv_kind dv = KIND_REGISTER \<and> dv_reg_id dv = Some 3 \<and> dv_expected dv = 7 \<and> dv_actual dv = 0
    \<and> dv_index dv = (LEAST j. \<not> (j < 2 \<and> agree_at (\<lambda>i a b. a = b)
        [Rec_Block 4096 0 1 [], Rec_Block 4100 1 1 [\<lparr>reg_id = 3, delta_value = 7\<rparr>]]
        [Rec_Block 4096 0 1 [], Rec_Block 4100 1 1 [\<lparr>reg_id = 4, delta_value = 7\<rparr>]] j))"
proof -
  let ?l = "[Rec_Marker 0 0 0, Rec_Block 4096 0 1 [], Rec_Block 4100 1 1 [\<lparr>reg_id = 3, delta_value = 7\<rparr>]]"
  let ?r = "[Rec_Block 4096 0 1 [], Rec_Block 4100 1 1 [\<lparr>reg_id = 4, delta_value = 7\<rparr>], Rec_End 2 0]"
  let ?d = "\<lparr> dv_kind = KIND_REGISTER, dv_index = 1, dv_icount = Some 1, dv_pc = Some 4100,
      dv_reg_id = Some 3, dv_field = None, dv_expected = 7, dv_actual = 0 \<rparr>"
  have s: "significant_records ?l = tl ?l" "significant_records ?r = butlast ?r" by code_simp+
  have c: "compare_traces (\<lambda>i a b. a = b) 8 ?l ?r = Result_Diverged ?d [history_entry 0 (Rec_Block 4096 0 1 [])]"
    by code_simp
  have "(0 :: int) \<le> 8" by simp
  note first = first_divergence [OF this s [symmetric] refl, of "\<lambda>i a b. a = b", unfolded c CompareResult.case]
  with c conjunct1 [OF first] show ?thesis by (simp add: numeral_2_eq_2)
qed

text \<open>C33: what the floating-point policies accept. An unknown policy name is refused. A comparator accepts
  two values of a register exactly when they are equal; or, under \<open>ignore-fpsr\<close>, when the register is
  FPSR and they differ in cumulative flags only; or, under the two relaxed policies, when the register is
  half of a vector register and both values are NaNs of one signalling class by the emulator's own
  classification, as doubles or as singles in the low 32 bits.\<close>

theorem fp_policy_meaning:
  "make_comparator policy = (if policy \<notin> {''bitwise'', ''nan-insensitive'', ''ignore-fpsr''} then None
     else Some (\<lambda>i a b. a = b
       \<or> (policy = ''ignore-fpsr'' \<and> i = trace_FPSR \<and> {k. bit a k \<noteq> bit b k} \<subseteq> {0, 1, 2, 3, 4, 7})
       \<or> (policy \<noteq> ''bitwise'' \<and> 64 \<le> i \<and> i < 128
          \<and> (same_nan_class Fp_Double a b \<or> same_nan_class Fp_Single a b))))"
proof -
  have e: "FPSR_CUMULATIVE_MASK = mask 5 OR push_bit 7 1" by (simp add: FPSR_CUMULATIVE_MASK_def mask_eq_exp_minus_1)
  have m: "bit FPSR_CUMULATIVE_MASK k \<longleftrightarrow> k \<in> {0, 1, 2, 3, 4, 7}" for k
    unfolding e bit_or_iff bit_mask_iff bit_push_bit_iff bit_1_iff by auto
  have c: "a AND NOT FPSR_CUMULATIVE_MASK = b AND NOT FPSR_CUMULATIVE_MASK
      \<longleftrightarrow> {k. bit a k \<noteq> bit b k} \<subseteq> {0, 1, 2, 3, 4, 7}" for a b :: u64
    unfolding bit_eq_iff bit_and_iff bit_not_iff m subset_iff mem_Collect_eq by (meson bit_imp_possible_bit)
  show ?thesis
    by (simp add: make_comparator_def POLICIES_def c is_nan_equivalent_eq trace_id_defs fun_eq_iff)
qed

end
