(* ===== verification/Memory_Map.thy ===== *)
theory Memory_Map
  imports Guest_Memory
begin

text \<open>
  The shim's heap break and \<open>mmap\<close> arena (\<open>crates/core/src/shim/memory_map.rs\<close>, and \<open>default_layout\<close>
  of \<open>shim/mod.rs\<close>): a bump allocator over two fixed windows. \<open>arena_map\<close> keeps the source's checked
  multiplication and addition; its Rust \<open>None\<close> is the inner \<open>None\<close> of its result. The lemmas relate it
  to an allocator over unbounded numbers and show that a sequence of requests gets blocks that are
  disjoint, in order and inside the window.
\<close>

section \<open>The code\<close>

record ArenaLayout =
  heap_base :: u64
  heap_limit :: u64
  mmap_base :: u64
  mmap_limit :: u64

record MemoryMap =
  mm_layout :: ArenaLayout
  mm_brk :: u64
  mm_next :: u64

definition map_new :: "ArenaLayout \<Rightarrow> MemoryMap" where
  "map_new layout = \<lparr> mm_layout = layout, mm_brk = heap_base layout, mm_next = mmap_base layout \<rparr>"

definition map_brk :: "MemoryMap \<Rightarrow> u64" where "map_brk m = mm_brk m"

definition set_brk :: "MemoryMap \<Rightarrow> u64 \<Rightarrow> u64 \<times> MemoryMap" where
  "set_brk m requested =
     (let is_in_window = (heap_base (mm_layout m) \<le> requested \<and> requested \<le> heap_limit (mm_layout m));
          m' = (if is_in_window then m\<lparr>mm_brk := requested\<rparr> else m)
      in (mm_brk m', m'))"

text \<open>\<open>u64::div_ceil\<close>: the quotient, plus one when there is a remainder.\<close>

definition div_ceil :: "u64 \<Rightarrow> u64 \<Rightarrow> u64" where
  "div_ceil a b = (if a mod b = 0 then a div b else a div b + 1)"

definition arena_map :: "MemoryMap \<Rightarrow> u64 \<Rightarrow> u64 option \<times> MemoryMap" where
  "arena_map m len =
     (if len = 0 then (None, m)
      else let pages = div_ceil len (of_nat PAGE_SIZE) in
        case checked_mul pages (of_nat PAGE_SIZE) of
          None \<Rightarrow> (None, m)
        | Some sz \<Rightarrow>
            (case checked_add (mm_next m) sz of
               None \<Rightarrow> (None, m)
             | Some e \<Rightarrow> if mmap_limit (mm_layout m) < e then (None, m)
                         else (Some (mm_next m), m\<lparr>mm_next := e\<rparr>)))"

definition default_layout :: "u64 \<Rightarrow> u64 \<Rightarrow> ArenaLayout option" where
  "default_layout ram_base nbytes = do {
     hb \<leftarrow> checked_add ram_base (nbytes div 4);
     mb \<leftarrow> checked_add ram_base (nbytes div 2);
     ml \<leftarrow> checked_add ram_base nbytes;
     Some \<lparr> heap_base = hb, heap_limit = mb, mmap_base = mb, mmap_limit = ml \<rparr>
   }"


section \<open>The break\<close>

definition map_wf :: "MemoryMap \<Rightarrow> bool" where
  "map_wf m \<longleftrightarrow> heap_base (mm_layout m) \<le> mm_brk m \<and> mm_brk m \<le> heap_limit (mm_layout m)
     \<and> mmap_base (mm_layout m) \<le> mm_next m \<and> mm_next m \<le> mmap_limit (mm_layout m)"

definition layout_wf :: "ArenaLayout \<Rightarrow> bool" where
  "layout_wf l \<longleftrightarrow> heap_base l \<le> heap_limit l \<and> heap_limit l \<le> mmap_base l \<and> mmap_base l \<le> mmap_limit l"

lemma map_new_wf: "layout_wf l \<Longrightarrow> map_wf (map_new l)"
  by (simp add: layout_wf_def map_wf_def map_new_def)

lemma set_brk_wf: "map_wf m \<Longrightarrow> set_brk m q = (b, m') \<Longrightarrow> map_wf m' \<and> mm_layout m' = mm_layout m"
  by (auto simp: set_brk_def map_wf_def Let_def split: if_splits)

lemma set_brk_eq:
  "set_brk m q = (let b = (if heap_base (mm_layout m) \<le> q \<and> q \<le> heap_limit (mm_layout m) then q else mm_brk m)
     in (b, m\<lparr>mm_brk := b\<rparr>))"
  by (simp add: set_brk_def Let_def)


section \<open>The arena\<close>

text \<open>A length rounded up to whole pages, without a bound.\<close>

definition page_round :: "nat \<Rightarrow> nat" where
  "page_round n = (n + 4095) div 4096 * 4096"

lemma page_round_le: "n \<le> page_round n" "page_round n < n + 4096" "page_round n mod 4096 = 0"
proof -
  have *: "(n + 4095) div 4096 * 4096 + (n + 4095) mod 4096 = n + 4095" by (rule div_mult_mod_eq)
  have "(n + 4095) mod 4096 < 4096" by simp
  with * show "n \<le> page_round n" "page_round n < n + 4096" unfolding page_round_def by linarith+
  show "page_round n mod 4096 = 0" by (simp add: page_round_def)
qed

lemma page_round_pos: "0 < n \<Longrightarrow> 4096 \<le> page_round n"
  by (simp add: page_round_def)

lemma unat_page: "unat (of_nat PAGE_SIZE :: u64) = 4096"
  by (simp add: PAGE_SIZE_def)

lemma div_ceil_page: "unat (div_ceil len (of_nat PAGE_SIZE)) * 4096 = page_round (unat len)"
proof -
  have z: "len mod of_nat PAGE_SIZE = 0 \<longleftrightarrow> unat len mod 4096 = 0"
    by (simp add: word_unat_eq_iff unat_mod unat_page)
  have q: "unat (len div of_nat PAGE_SIZE) = unat len div 4096" by (simp add: unat_div unat_page)
  have dm: "unat len div 4096 * 4096 + unat len mod 4096 = unat len" by (rule div_mult_mod_eq)
  have s: "unat (len div of_nat PAGE_SIZE + 1) = unat len div 4096 + 1"
    using unat_u64_less [of len] q by (subst unat_add_ok) simp_all
  show ?thesis
  proof (cases "unat len mod 4096 = 0")
    case True
    then have "page_round (unat len) = unat len div 4096 * 4096"
      unfolding page_round_def by (subst (1) dm [symmetric]) simp
    with True z q show ?thesis by (simp add: div_ceil_def)
  next
    case False
    obtain k r where kr: "unat len div 4096 = k" "unat len = k * 4096 + r" "0 < r" "r < 4096"
      using that [OF refl dm [symmetric]] False by simp
    have "(unat len + 4095) div 4096 = unat len div 4096 + 1"
      unfolding kr(1) by (rule div_nat_eqI) (use kr(2-4) in simp_all)
    with False z s show ?thesis by (simp add: div_ceil_def page_round_def)
  qed
qed

text \<open>The allocator in terms of unbounded numbers: the checked operations refuse exactly the
  requests whose rounded block does not fit the window.\<close>

lemma arena_map_eq:
  "arena_map m len =
     (if 0 < unat len \<and> unat (mm_next m) + page_round (unat len) \<le> unat (mmap_limit (mm_layout m))
      then (Some (mm_next m), m\<lparr>mm_next := mm_next m + of_nat (page_round (unat len))\<rparr>)
      else (None, m))"
proof -
  let ?p = "div_ceil len (of_nat PAGE_SIZE) * of_nat PAGE_SIZE"
  have lim: "unat (mmap_limit (mm_layout m)) < 2 ^ 64" by (rule unat_u64_less)
  show ?thesis
  proof (cases "page_round (unat len) < 2 ^ 64")
    case False
    then have "checked_mul (div_ceil len (of_nat PAGE_SIZE)) (of_nat PAGE_SIZE) = None"
      by (simp add: checked_mul_def unat_page div_ceil_page)
    with False lim show ?thesis by (simp add: arena_map_def Let_def)
  next
    case True
    have mul: "checked_mul (div_ceil len (of_nat PAGE_SIZE)) (of_nat PAGE_SIZE) = Some ?p"
      using True by (simp add: checked_mul_def unat_page div_ceil_page)
    have u: "unat ?p = page_round (unat len)"
      using True by (simp add: unat_word_ariths(2) unat_page div_ceil_page)
    then have p: "?p = of_nat (page_round (unat len))"
      using unat_of_nat_small [of "page_round (unat len)", where 'a = 64] True by (simp add: word_unat_eq_iff)
    show ?thesis
    proof (cases "unat (mm_next m) + page_round (unat len) < 2 ^ 64")
      case False
      then have "checked_add (mm_next m) ?p = None" by (simp add: checked_add_def u)
      with False lim mul show ?thesis by (simp add: arena_map_def Let_def)
    next
      case True
      then have "unat (mm_next m + ?p) = unat (mm_next m) + page_round (unat len)"
        by (subst unat_add_ok) (simp_all add: u)
      moreover have "checked_add (mm_next m) ?p = Some (mm_next m + ?p)"
        using True by (simp add: checked_add_def u)
      ultimately show ?thesis
        using mul p by (simp add: arena_map_def Let_def word_less_nat_alt not_less word_neq_0_conv)
    qed
  qed
qed

lemma arena_map_wf: "map_wf m \<Longrightarrow> arena_map m len = (r, m') \<Longrightarrow> map_wf m' \<and> mm_layout m' = mm_layout m"
proof -
  assume m: "map_wf m" and r: "arena_map m len = (r, m')"
  show ?thesis
  proof (cases "0 < unat len \<and> unat (mm_next m) + page_round (unat len) \<le> unat (mmap_limit (mm_layout m))")
    case False
    with m r show ?thesis by (simp add: arena_map_eq)
  next
    case True
    then have s: "unat (mm_next m) + page_round (unat len) < 2 ^ 64"
      using unat_u64_less [of "mmap_limit (mm_layout m)"] by linarith
    then have "unat (mm_next m + of_nat (page_round (unat len))) = unat (mm_next m) + page_round (unat len)"
      by (subst unat_add_ok) (simp_all add: unat_of_nat_small)
    with True m r show ?thesis by (auto simp: arena_map_eq map_wf_def word_le_nat_alt)
  qed
qed

text \<open>A sequence of requests.\<close>

primrec map_all :: "MemoryMap \<Rightarrow> u64 list \<Rightarrow> u64 option list \<times> MemoryMap" where
  "map_all m [] = ([], m)"
| "map_all m (len # lens) =
     (let (r, m1) = arena_map m len; (rs, m2) = map_all m1 lens in (r # rs, m2))"

lemma length_map_all [simp]: "length (fst (map_all m lens)) = length lens"
  by (induction lens arbitrary: m) (simp_all add: Let_def split_beta)

text \<open>Every block lies in the window, above every block handed out before it; the offset from the
  arena's base stays a whole number of pages.\<close>

definition blocks_ok :: "nat \<Rightarrow> nat \<Rightarrow> u64 list \<Rightarrow> u64 option list \<Rightarrow> bool" where
  "blocks_ok lo hi lens rs \<longleftrightarrow>
     (\<forall>i a. i < length rs \<longrightarrow> rs ! i = Some a \<longrightarrow>
        0 < unat (lens ! i) \<and> lo \<le> unat a \<and> unat a + page_round (unat (lens ! i)) \<le> hi \<and> (unat a - lo) mod 4096 = 0)
     \<and> (\<forall>i j a b. i < j \<longrightarrow> j < length rs \<longrightarrow> rs ! i = Some a \<longrightarrow> rs ! j = Some b \<longrightarrow>
        unat a + page_round (unat (lens ! i)) \<le> unat b)"

lemma map_all_ok:
  assumes "unat (mm_next m) \<le> unat (mmap_limit (mm_layout m))"
  shows "blocks_ok (unat (mm_next m)) (unat (mmap_limit (mm_layout m))) lens (fst (map_all m lens))"
  using assms
proof (induction lens arbitrary: m)
  case Nil
  show ?case by (simp add: blocks_ok_def)
next
  case (Cons len lens)
  let ?n = "unat (mm_next m)" and ?h = "unat (mmap_limit (mm_layout m))" and ?s = "page_round (unat len)"
  show ?case
  proof (cases "0 < unat len \<and> ?n + ?s \<le> ?h")
    case False
    then have "fst (map_all m (len # lens)) = None # fst (map_all m lens)"
      by (simp add: arena_map_eq split: prod.split)
    with Cons show ?thesis
      by (auto simp: blocks_ok_def nth_Cons split: nat.splits)
  next
    case True
    let ?m = "m\<lparr>mm_next := mm_next m + of_nat ?s\<rparr>"
    have s: "?n + ?s < 2 ^ 64" using True unat_u64_less [of "mmap_limit (mm_layout m)"] by linarith
    then have n: "unat (mm_next ?m) = ?n + ?s" by (simp add: unat_add_ok unat_of_nat_small)
    have e: "fst (map_all m (len # lens)) = Some (mm_next m) # fst (map_all ?m lens)"
      using True by (simp add: arena_map_eq split: prod.split)
    have ih: "blocks_ok (?n + ?s) ?h lens (fst (map_all ?m lens))"
      using Cons.IH [of ?m] True n by simp
    have al: "(x - ?n) mod 4096 = 0" if "?n + ?s \<le> x" "(x - (?n + ?s)) mod 4096 = 0" for x
    proof -
      have "x - ?n = (x - (?n + ?s)) + ?s" using that by simp
      with that page_round_le(3) [of "unat len"] show ?thesis by (metis mod_0_imp_dvd dvd_add mod_eq_0_iff_dvd)
    qed
    show ?thesis
      unfolding e blocks_ok_def
      using True ih [unfolded blocks_ok_def] al
      by (auto simp: nth_Cons split: nat.splits)
  qed
qed

lemma default_layout_ok:
  assumes "unat b + unat n < 2 ^ 64"
  shows "\<exists>l. default_layout b n = Some l \<and> layout_wf l
    \<and> unat (heap_base l) = unat b + unat n div 4 \<and> unat (mmap_base l) = unat b + unat n div 2
    \<and> heap_limit l = mmap_base l \<and> unat (mmap_limit l) = unat b + unat n"
proof -
  have u: "unat (n div 4) = unat n div 4" "unat (n div 2) = unat n div 2" by (simp_all add: unat_div)
  have "unat (b + n div 4) = unat b + unat n div 4" "unat (b + n div 2) = unat b + unat n div 2"
      "unat (b + n) = unat b + unat n"
    using assms u by (simp_all add: unat_add_ok)
  moreover have "unat b + unat n div 4 < 2 ^ 64" "unat b + unat n div 2 < 2 ^ 64" using assms by linarith+
  moreover have "default_layout b n = Some \<lparr> heap_base = b + n div 4, heap_limit = b + n div 2,
      mmap_base = b + n div 2, mmap_limit = b + n \<rparr>"
    using assms calculation(4,5) u by (simp add: default_layout_def checked_add_def)
  ultimately show ?thesis by (simp add: layout_wf_def word_le_nat_alt)
qed

end
