(* ===== verification/Utf8.thy ===== *)
theory Utf8
  imports Prelude
begin

text \<open>
  \<open>core::str::from_utf8\<close>, as \<open>CapturingHost::stdout_text\<close> uses it: a string slice is its bytes, and the
  function is the check that they are well formed. The check walks the bytes by the leading byte, with the
  narrower range of the second byte after \<open>E0\<close>, \<open>ED\<close>, \<open>F0\<close> and \<open>F4\<close>. It is proved to accept exactly the
  encodings of sequences of Unicode scalar values.
\<close>

definition continuation :: "nat \<Rightarrow> bool" where
  "continuation b \<longleftrightarrow> 0x80 \<le> b \<and> b \<le> 0xBF"

definition second_byte :: "nat \<Rightarrow> nat \<Rightarrow> bool" where
  "second_byte b c \<longleftrightarrow> (if b = 0xE0 then 0xA0 else if b = 0xF0 then 0x90 else 0x80) \<le> c
     \<and> c \<le> (if b = 0xED then 0x9F else if b = 0xF4 then 0x8F else 0xBF)"

definition utf8_width :: "nat \<Rightarrow> nat" where
  "utf8_width b = (if b < 0x80 then 1 else if 0xC2 \<le> b \<and> b \<le> 0xDF then 2 else if 0xE0 \<le> b \<and> b \<le> 0xEF then 3
     else if 0xF0 \<le> b \<and> b \<le> 0xF4 then 4 else 0)"

fun utf8_valid :: "nat list \<Rightarrow> bool" where
  "utf8_valid [] = True"
| "utf8_valid (b # bs) =
     (if utf8_width b = 1 then utf8_valid bs
      else case (utf8_width b, bs) of
        (Suc (Suc 0), c # rest) \<Rightarrow> continuation c \<and> utf8_valid rest
      | (Suc (Suc (Suc 0)), c # d # rest) \<Rightarrow> second_byte b c \<and> continuation d \<and> utf8_valid rest
      | (Suc (Suc (Suc (Suc 0))), c # d # e # rest) \<Rightarrow>
          second_byte b c \<and> continuation d \<and> continuation e \<and> utf8_valid rest
      | _ \<Rightarrow> False)"

definition from_utf8 :: "bytes \<Rightarrow> bytes option" where
  "from_utf8 v = (if utf8_valid (map unat v) then Some v else None)"


section \<open>The encoding\<close>

text \<open>Scalar values: the code points that are not surrogates.\<close>

definition is_scalar :: "nat \<Rightarrow> bool" where
  "is_scalar c \<longleftrightarrow> c < 0xD800 \<or> (0xE000 \<le> c \<and> c < 0x110000)"

definition encode_utf8 :: "nat \<Rightarrow> nat list" where
  "encode_utf8 c =
     (if c < 0x80 then [c]
      else if c < 0x800 then [0xC0 + c div 64, 0x80 + c mod 64]
      else if c < 0x10000 then [0xE0 + c div 4096, 0x80 + c div 64 mod 64, 0x80 + c mod 64]
      else [0xF0 + c div 262144, 0x80 + c div 4096 mod 64, 0x80 + c div 64 mod 64, 0x80 + c mod 64])"

text \<open>A valid sequence is empty or one encoded scalar value before a valid sequence.\<close>

lemma utf8_valid_encode:
  assumes "is_scalar c"
  shows "utf8_valid (encode_utf8 c @ bs) = utf8_valid bs"
proof -
  have m: "continuation (0x80 + n mod 64)" for n by (simp add: continuation_def)
  consider "c < 0x80" | "0x80 \<le> c" "c < 0x800" | "0x800 \<le> c" "c < 0x10000" | "0x10000 \<le> c" by linarith
  then show ?thesis
  proof cases
    case 1
    then show ?thesis by (simp add: encode_utf8_def utf8_width_def)
  next
    case 2
    then have "2 \<le> c div 64" "c div 64 < 32" by auto
    then have "utf8_width (0xC0 + c div 64) = Suc (Suc 0)" by (simp add: utf8_width_def)
    then show ?thesis using 2 m by (simp add: encode_utf8_def)
  next
    case 3
    then have "c div 4096 < 16" by auto
    then have "utf8_width (0xE0 + c div 4096) = Suc (Suc (Suc 0))" by (simp add: utf8_width_def)
    moreover have "second_byte (0xE0 + c div 4096) (0x80 + c div 64 mod 64)"
    proof -
      define x y where "x = c div 64 div 64" and "y = c div 64 mod 64"
      have q: "c div 64 = x * 64 + y" "y < 64" unfolding x_def y_def by (simp_all add: div_mult_mod_eq)
      have x: "c div 4096 = x" by (simp add: x_def div_mult2_eq [symmetric])
      have "32 \<le> c div 64" "c div 64 < 864 \<or> 896 \<le> c div 64" "c div 64 < 1024" using 3 assms by (auto simp: is_scalar_def)
      then show ?thesis using q(2) unfolding x y_def [symmetric] unfolding q(1) by (auto simp: second_byte_def)
    qed
    ultimately show ?thesis using 3 m by (simp add: encode_utf8_def)
  next
    case 4
    then have "c div 262144 < 5" using assms by (auto simp: is_scalar_def)
    then have "utf8_width (0xF0 + c div 262144) = Suc (Suc (Suc (Suc 0)))" by (simp add: utf8_width_def)
    moreover have "second_byte (0xF0 + c div 262144) (0x80 + c div 4096 mod 64)"
    proof -
      define x y where "x = c div 4096 div 64" and "y = c div 4096 mod 64"
      have q: "c div 4096 = x * 64 + y" "y < 64" unfolding x_def y_def by (simp_all add: div_mult_mod_eq)
      have x: "c div 262144 = x" by (simp add: x_def div_mult2_eq [symmetric])
      have "16 \<le> c div 4096" "c div 4096 < 272" using 4 assms by (auto simp: is_scalar_def)
      then show ?thesis using q(2) unfolding x y_def [symmetric] unfolding q(1) by (auto simp: second_byte_def)
    qed
    ultimately show ?thesis using 4 m by (simp add: encode_utf8_def)
  qed
qed

lemma digits:
  fixes x y z :: nat
  assumes "y < 64" "z < 64"
  shows "(x * 4096 + y * 64 + z) div 4096 = x" "(x * 4096 + y * 64 + z) div 64 mod 64 = y"
    "(x * 4096 + y * 64 + z) mod 64 = z"
proof -
  have "(x * 4096 + y * 64 + z) div 64 = x * 64 + y" using assms(2) by linarith
  then show "(x * 4096 + y * 64 + z) div 64 mod 64 = y" using assms(1) by simp
  show "(x * 4096 + y * 64 + z) div 4096 = x" using assms by linarith
  have "x * 4096 + y * 64 + z = z + (x * 64 + y) * 64" by simp
  then show "(x * 4096 + y * 64 + z) mod 64 = z" using assms(2) by (simp only: mod_mult_self1 mod_less)
qed

lemma utf8_valid_head:
  assumes "utf8_valid (b # bs)"
  shows "\<exists>c rest. is_scalar c \<and> b # bs = encode_utf8 c @ rest \<and> utf8_valid rest \<and> length rest \<le> length bs"
proof -
  consider "utf8_width b = 1" | "utf8_width b = 2" | "utf8_width b = 3" | "utf8_width b = 4"
    using assms by (simp add: utf8_width_def split: if_splits)
  then show ?thesis
  proof cases
    case 1
    then show ?thesis using assms
      by (intro exI [of _ b] exI [of _ bs]) (auto simp: utf8_width_def encode_utf8_def is_scalar_def split: if_splits)
  next
    case 2
    then obtain c rest where bs: "bs = c # rest" "continuation c" "utf8_valid rest"
      using assms by (auto simp: numeral_2_eq_2 split: list.splits)
    have "0xC2 \<le> b" "b \<le> 0xDF" using 2 by (auto simp: utf8_width_def split: if_splits)
    with bs(2) obtain x y where e: "b = 0xC0 + x" "c = 0x80 + y" "2 \<le> x" "x < 32" "y < 64"
      by (auto simp: continuation_def le_iff_add)
    then have "encode_utf8 (x * 64 + y) = [b, c]" "is_scalar (x * 64 + y)"
      using digits(3) [of 0 y x] by (auto simp: encode_utf8_def is_scalar_def)
    with bs show ?thesis by (intro exI [of _ "x * 64 + y"] exI [of _ rest]) simp
  next
    case 3
    then obtain c d rest where bs: "bs = c # d # rest" "second_byte b c" "continuation d" "utf8_valid rest"
      using assms by (auto simp: numeral_3_eq_3 split: list.splits)
    have "0xE0 \<le> b" "b \<le> 0xEF" using 3 by (auto simp: utf8_width_def split: if_splits)
    moreover have "0x80 \<le> c" "0x80 \<le> d" using bs(2,3) by (auto simp: second_byte_def continuation_def split: if_splits)
    ultimately obtain x y z where e: "b = 0xE0 + x" "c = 0x80 + y" "d = 0x80 + z" by (metis le_iff_add)
    let ?n = "x * 4096 + y * 64 + z"
    have r: "x < 16" "y < 64" "z < 64" "x = 0 \<Longrightarrow> 32 \<le> y" "x = 13 \<Longrightarrow> y < 32"
      using bs(2,3) \<open>b \<le> 0xEF\<close> by (auto simp: e second_byte_def continuation_def split: if_splits)
    then have "0x800 \<le> ?n" "?n < 0x10000" by (cases x; simp)+
    then have "b # bs = encode_utf8 ?n @ rest" using digits [OF r(2,3), of x] by (simp add: bs(1) e encode_utf8_def)
    moreover have "is_scalar ?n"
      using r by (cases "x < 13"; cases "x = 13") (auto simp: is_scalar_def)
    ultimately show ?thesis using bs(1,4) by (intro exI [of _ ?n] exI [of _ rest]) simp
  next
    case 4
    then obtain c d e rest where bs: "bs = c # d # e # rest" "second_byte b c" "continuation d" "continuation e" "utf8_valid rest"
      using assms by (auto simp: numeral_eq_Suc split: list.splits)
    have "0xF0 \<le> b" "b \<le> 0xF4" using 4 by (auto simp: utf8_width_def split: if_splits)
    moreover have "0x80 \<le> c" "0x80 \<le> d" "0x80 \<le> e"
      using bs(2-4) by (auto simp: second_byte_def continuation_def split: if_splits)
    ultimately obtain w x y z where e: "b = 0xF0 + w" "c = 0x80 + x" "d = 0x80 + y" "e = 0x80 + z" by (metis le_iff_add)
    let ?n = "(w * 64 + x) * 4096 + y * 64 + z"
    have r: "w < 5" "x < 64" "y < 64" "z < 64" "w = 0 \<Longrightarrow> 16 \<le> x" "w = 4 \<Longrightarrow> x < 16"
      using bs(2-4) \<open>b \<le> 0xF4\<close> by (auto simp: e second_byte_def continuation_def split: if_splits)
    define q where "q = w * 64 + x"
    have "16 \<le> q" unfolding q_def using r(5) by (cases "w = 0") auto
    moreover have "q < 272" unfolding q_def using r(1,2,6) by (cases "w = 4") auto
    ultimately have "0x10000 \<le> q * 4096 + y * 64 + z" "q * 4096 + y * 64 + z < 0x110000" using r(3,4) by simp_all
    then have n: "0x10000 \<le> ?n" "?n < 0x110000" by (simp_all only: q_def)
    have "?n div 262144 = ?n div 4096 div 64" by (simp add: div_mult2_eq [symmetric])
    then have "b # bs = encode_utf8 ?n @ rest" using n digits [OF r(3,4), of "w * 64 + x"] r(2)
      by (simp add: bs(1) e encode_utf8_def)
    then show ?thesis using n bs(1,5) by (intro exI [of _ ?n] exI [of _ rest]) (simp add: is_scalar_def)
  qed
qed

lemma utf8_valid_iff: "utf8_valid bs \<longleftrightarrow> (\<exists>cs. list_all is_scalar cs \<and> bs = concat (map encode_utf8 cs))"
proof
  show "utf8_valid bs \<Longrightarrow> \<exists>cs. list_all is_scalar cs \<and> bs = concat (map encode_utf8 cs)"
  proof (induction bs rule: length_induct)
    case (1 bs)
    show ?case
    proof (cases bs)
      case (Cons b bs')
      with utf8_valid_head 1(2) obtain c rest where c: "is_scalar c" "bs = encode_utf8 c @ rest" "utf8_valid rest"
        "length rest \<le> length bs'" by blast
      with 1(1) Cons obtain cs where "list_all is_scalar cs" "rest = concat (map encode_utf8 cs)"
        by (metis length_Cons less_Suc_eq_le)
      with c show ?thesis by (intro exI [of _ "c # cs"]) simp
    qed (auto intro: exI [of _ "[]"])
  qed
  show "\<exists>cs. list_all is_scalar cs \<and> bs = concat (map encode_utf8 cs) \<Longrightarrow> utf8_valid bs"
  proof -
    have "list_all is_scalar cs \<Longrightarrow> utf8_valid (concat (map encode_utf8 cs))" for cs
      by (induction cs) (simp_all add: utf8_valid_encode)
    then show "\<exists>cs. list_all is_scalar cs \<and> bs = concat (map encode_utf8 cs) \<Longrightarrow> utf8_valid bs" by blast
  qed
qed

end
