(* ===== verification/Host.thy ===== *)
theory Host
  imports Utf8
begin

unbundle bit_operations_syntax

text \<open>
  What the shim needs from outside the guest (\<open>crates/core/src/shim/host.rs\<close>): the error numbers, the
  trait \<open>HostIo\<close> as the record \<open>host_ops\<close> of its methods, and \<open>CapturingHost\<close>, the implementation that
  captures the guest's output. Every method takes and returns the host; \<open>None\<close> is a panic. \<open>read\<close> and
  \<open>random\<close> return their filled buffer. The locale \<open>host_io\<close> is what the shim relies on.
\<close>

section \<open>Error numbers\<close>

datatype Errno = Perm | NoEnt | BadFd | Again | NoMem | Fault | Inval | MFile | NoTty | NoSys

fun errno_code :: "Errno \<Rightarrow> i64" where
  "errno_code Perm = 1"
| "errno_code NoEnt = 2"
| "errno_code BadFd = 9"
| "errno_code Again = 11"
| "errno_code NoMem = 12"
| "errno_code Fault = 14"
| "errno_code Inval = 22"
| "errno_code MFile = 24"
| "errno_code NoTty = 25"
| "errno_code NoSys = 38"

definition to_return_value :: "Errno \<Rightarrow> u64" where
  "to_return_value e = - errno_code e"

type_synonym SysResult = "Errno + u64"


section \<open>The trait\<close>

record 'h host_ops =
  host_write :: "'h \<Rightarrow> i32 \<Rightarrow> bytes \<Rightarrow> (SysResult \<times> 'h) option"
  host_read :: "'h \<Rightarrow> i32 \<Rightarrow> bytes \<Rightarrow> (SysResult \<times> bytes \<times> 'h) option"
  host_open :: "'h \<Rightarrow> bytes \<Rightarrow> u64 \<Rightarrow> (SysResult \<times> 'h) option"
  host_close :: "'h \<Rightarrow> i32 \<Rightarrow> (SysResult \<times> 'h) option"
  host_size_of :: "'h \<Rightarrow> i32 \<Rightarrow> (SysResult \<times> 'h) option"
  host_is_terminal :: "'h \<Rightarrow> i32 \<Rightarrow> (bool \<times> 'h) option"
  host_random :: "'h \<Rightarrow> bytes \<Rightarrow> (bytes \<times> 'h) option"
  host_monotonic_nanos :: "'h \<Rightarrow> (u64 \<times> 'h) option"
  host_exit :: "'h \<Rightarrow> i32 \<Rightarrow> 'h option"


section \<open>\<open>CapturingHost\<close>\<close>

record CapturingHost =
  ch_stdout :: bytes
  ch_stderr :: bytes
  ch_exit_status :: "i32 option"
  ch_seed :: u64
  ch_nanos :: u64

definition capturing_new :: CapturingHost where
  "capturing_new = \<lparr> ch_stdout = [], ch_stderr = [], ch_exit_status = None,
     ch_seed = 0x2545f4914f6cdd1d, ch_nanos = 0 \<rparr>"

definition stdout_text :: "CapturingHost \<Rightarrow> bytes" where
  "stdout_text h = (case from_utf8 (ch_stdout h) of Some s \<Rightarrow> s | None \<Rightarrow> [])"

definition next_random :: "CapturingHost \<Rightarrow> u64 \<times> CapturingHost" where
  "next_random h =
     (let s1 = ch_seed h XOR push_bit 13 (ch_seed h);
          s2 = s1 XOR drop_bit 7 s1;
          s3 = s2 XOR push_bit 17 s2
      in (s3, h\<lparr>ch_seed := s3\<rparr>))"

definition ch_write :: "CapturingHost \<Rightarrow> i32 \<Rightarrow> bytes \<Rightarrow> (SysResult \<times> CapturingHost) option" where
  "ch_write h fd bs = Some
     (if fd = 1 then (Inr (of_nat (length bs)), h\<lparr>ch_stdout := ch_stdout h @ bs\<rparr>)
      else if fd = 2 then (Inr (of_nat (length bs)), h\<lparr>ch_stderr := ch_stderr h @ bs\<rparr>)
      else (Inl BadFd, h))"

definition ch_read :: "CapturingHost \<Rightarrow> i32 \<Rightarrow> bytes \<Rightarrow> (SysResult \<times> bytes \<times> CapturingHost) option" where
  "ch_read h fd buffer = Some (if fd = 0 then Inr 0 else Inl BadFd, buffer, h)"

definition ch_open :: "CapturingHost \<Rightarrow> bytes \<Rightarrow> u64 \<Rightarrow> (SysResult \<times> CapturingHost) option" where
  "ch_open h path flags = Some (Inl NoEnt, h)"

text \<open>\<open>(0..=2).contains(&fd)\<close> on an \<open>i32\<close>.\<close>

definition standard_fd :: "i32 \<Rightarrow> bool" where
  "standard_fd fd \<longleftrightarrow> 0 \<le> sint fd \<and> sint fd \<le> 2"

definition ch_close :: "CapturingHost \<Rightarrow> i32 \<Rightarrow> (SysResult \<times> CapturingHost) option" where
  "ch_close h fd = Some (if standard_fd fd then Inr 0 else Inl BadFd, h)"

definition ch_size_of :: "CapturingHost \<Rightarrow> i32 \<Rightarrow> (SysResult \<times> CapturingHost) option" where
  "ch_size_of h fd = Some (if standard_fd fd then Inr 0 else Inl BadFd, h)"

definition ch_is_terminal :: "CapturingHost \<Rightarrow> i32 \<Rightarrow> (bool \<times> CapturingHost) option" where
  "ch_is_terminal h fd = Some (standard_fd fd, h)"

primrec ch_random_loop :: "bytes \<Rightarrow> CapturingHost \<Rightarrow> bytes \<times> CapturingHost" where
  "ch_random_loop [] h = ([], h)"
| "ch_random_loop (_ # buffer) h =
     (let (r, h1) = next_random h; (bs, h2) = ch_random_loop buffer h1 in (ucast r # bs, h2))"

definition ch_random :: "CapturingHost \<Rightarrow> bytes \<Rightarrow> (bytes \<times> CapturingHost) option" where
  "ch_random h buffer = Some (ch_random_loop buffer h)"

definition ch_monotonic_nanos :: "CapturingHost \<Rightarrow> (u64 \<times> CapturingHost) option" where
  "ch_monotonic_nanos h = do { t \<leftarrow> checked_add (ch_nanos h) 1000; Some (t, h\<lparr>ch_nanos := t\<rparr>) }"

definition ch_exit :: "CapturingHost \<Rightarrow> i32 \<Rightarrow> CapturingHost option" where
  "ch_exit h status = Some (h\<lparr>ch_exit_status := Some status\<rparr>)"

definition capturing_ops :: "CapturingHost host_ops" where
  "capturing_ops = \<lparr> host_write = ch_write, host_read = ch_read, host_open = ch_open, host_close = ch_close,
     host_size_of = ch_size_of, host_is_terminal = ch_is_terminal, host_random = ch_random,
     host_monotonic_nanos = ch_monotonic_nanos, host_exit = ch_exit \<rparr>"


section \<open>What the shim relies on\<close>

text \<open>\<open>ok n h\<close>: the host is usable and its clock can be read \<open>n\<close> more times. No method panics, a
  transfer reports at most the bytes it was given room for, and buffers keep their length.\<close>

locale host_io =
  fixes H :: "'h host_ops" and host_ok :: "nat \<Rightarrow> 'h \<Rightarrow> bool"
  assumes host_write_ok: "host_ok n h \<Longrightarrow>
      \<exists>r h'. host_write H h fd bs = Some (r, h') \<and> host_ok n h' \<and> (\<forall>k. r = Inr k \<longrightarrow> unat k \<le> length bs)"
    and host_read_ok: "host_ok n h \<Longrightarrow>
      \<exists>r bs' h'. host_read H h fd bs = Some (r, bs', h') \<and> host_ok n h' \<and> length bs' = length bs
        \<and> (\<forall>k. r = Inr k \<longrightarrow> unat k \<le> length bs)"
    and host_open_ok: "host_ok n h \<Longrightarrow> \<exists>r h'. host_open H h path fl = Some (r, h') \<and> host_ok n h'"
    and host_close_ok: "host_ok n h \<Longrightarrow> \<exists>r h'. host_close H h fd = Some (r, h') \<and> host_ok n h'"
    and host_size_of_ok: "host_ok n h \<Longrightarrow> \<exists>r h'. host_size_of H h fd = Some (r, h') \<and> host_ok n h'"
    and host_is_terminal_ok: "host_ok n h \<Longrightarrow> \<exists>b h'. host_is_terminal H h fd = Some (b, h') \<and> host_ok n h'"
    and host_random_ok: "host_ok n h \<Longrightarrow>
      \<exists>bs' h'. host_random H h bs = Some (bs', h') \<and> host_ok n h' \<and> length bs' = length bs"
    and host_nanos_ok: "host_ok (Suc n) h \<Longrightarrow> \<exists>t h'. host_monotonic_nanos H h = Some (t, h') \<and> host_ok n h'"
    and host_exit_ok: "host_ok n h \<Longrightarrow> \<exists>h'. host_exit H h st = Some h' \<and> host_ok n h'"
    and host_ok_Suc: "host_ok (Suc n) h \<Longrightarrow> host_ok n h"
begin

lemma host_ok_mono: "host_ok n h \<Longrightarrow> k \<le> n \<Longrightarrow> host_ok k h"
  by (induction n) (auto simp: le_Suc_eq intro: host_ok_Suc)

end

definition capturing_ok :: "nat \<Rightarrow> CapturingHost \<Rightarrow> bool" where
  "capturing_ok n h \<longleftrightarrow> unat (ch_nanos h) + 1000 * n < 2 ^ 64"

lemma length_ch_random_loop [simp]: "length (fst (ch_random_loop bs h)) = length bs"
  by (induction bs arbitrary: h) (simp_all add: Let_def split_beta)

lemma nanos_ch_random_loop [simp]: "ch_nanos (snd (ch_random_loop bs h)) = ch_nanos h"
  by (induction bs arbitrary: h) (simp_all add: Let_def split_beta next_random_def)

lemma nanos_tick:
  assumes "capturing_ok (Suc n) h"
  shows "ch_monotonic_nanos h = Some (ch_nanos h + 1000, h\<lparr>ch_nanos := ch_nanos h + 1000\<rparr>)"
    and "unat (ch_nanos h + 1000) = unat (ch_nanos h) + 1000"
proof -
  have "unat (ch_nanos h) + 1000 < 2 ^ 64" using assms by (simp add: capturing_ok_def)
  then show "ch_monotonic_nanos h = Some (ch_nanos h + 1000, h\<lparr>ch_nanos := ch_nanos h + 1000\<rparr>)"
    and "unat (ch_nanos h + 1000) = unat (ch_nanos h) + 1000"
    by (simp_all add: ch_monotonic_nanos_def checked_add_def unat_add_ok)
qed

interpretation capturing: host_io capturing_ops capturing_ok
proof unfold_locales
  fix n h st fd fl and bs path :: bytes
  have le: "unat (of_nat (length bs) :: u64) \<le> length bs" by (simp add: unat_of_nat)
  show "capturing_ok n h \<Longrightarrow> \<exists>r h'. host_write capturing_ops h fd bs = Some (r, h') \<and> capturing_ok n h'
      \<and> (\<forall>k. r = Inr k \<longrightarrow> unat k \<le> length bs)"
    using le by (auto simp: capturing_ops_def ch_write_def capturing_ok_def)
  show "capturing_ok n h \<Longrightarrow> \<exists>bs' h'. host_random capturing_ops h bs = Some (bs', h') \<and> capturing_ok n h'
      \<and> length bs' = length bs"
    by (cases "ch_random_loop bs h")
      (use length_ch_random_loop [of bs h] nanos_ch_random_loop [of bs h] in
        \<open>simp add: capturing_ops_def ch_random_def capturing_ok_def\<close>)
  show "capturing_ok (Suc n) h \<Longrightarrow> \<exists>t h'. host_monotonic_nanos capturing_ops h = Some (t, h') \<and> capturing_ok n h'"
    using nanos_tick [of n h] by (simp add: capturing_ops_def) (simp add: capturing_ok_def)
qed (auto simp: capturing_ops_def ch_read_def ch_open_def ch_close_def ch_size_of_def ch_is_terminal_def
    ch_exit_def capturing_ok_def)

text \<open>A failing call leaves a value that musl's wrappers recognise: above \<open>-4096\<close> as an unsigned
  number, and distinct error numbers give distinct values.\<close>

lemma to_return_value_range: "2 ^ 64 - 4096 < unat (to_return_value e)"
  by (cases e) (simp_all add: to_return_value_def unsigned_minus_1_eq_mask mask_eq_exp_minus_1)

lemma to_return_value_inj: "to_return_value e = to_return_value e' \<longleftrightarrow> e = e'"
  by (cases e; cases e') (simp_all add: to_return_value_def)

text \<open>The text of the output is the output when it is the encoding of a string, and empty otherwise; it is
  an encoding in both cases.\<close>

lemma stdout_text_eq:
  "stdout_text h = (if \<exists>cs. list_all is_scalar cs \<and> map unat (ch_stdout h) = concat (map encode_utf8 cs)
     then ch_stdout h else [])"
  by (auto simp: stdout_text_def from_utf8_def utf8_valid_iff)

lemma stdout_text_valid: "utf8_valid (map unat (stdout_text h))"
  by (simp add: stdout_text_def from_utf8_def)

end
