(* ===== verification/Kernel_Structs.thy ===== *)
theory Kernel_Structs
  imports Memory Memory_Map Host
begin

unbundle bit_operations_syntax

text \<open>
  The kernel structures the shim writes into and reads out of guest memory
  (\<open>crates/core/src/shim/structs.rs\<close>). Address arithmetic keeps Rust's overflow checks; the lemmas show
  that the accesses made before each addition rule the overflow out, so that no guest pointer makes
  the shim panic, and what a guest reads back from a structure it was given.
\<close>

section \<open>The code\<close>

definition STAT_BYTES :: nat where "STAT_BYTES = 128"
definition UTSNAME_BYTES :: nat where "UTSNAME_BYTES = 390"
definition IOVEC_BYTES :: u64 where "IOVEC_BYTES = 16"
definition UTSNAME_FIELD_BYTES :: u64 where "UTSNAME_FIELD_BYTES = 65"

text \<open>The octal \<open>0o020_666\<close> and \<open>0o100_644\<close>.\<close>

definition MODE_CHARACTER_DEVICE :: u64 where "MODE_CHARACTER_DEVICE = 0x21b6"
definition MODE_REGULAR_FILE :: u64 where "MODE_REGULAR_FILE = 0x81a4"

text \<open>\<open>buffer[off..off + len].copy_from_slice(src)\<close>.\<close>

definition copy_at :: "bytes \<Rightarrow> nat \<Rightarrow> bytes \<Rightarrow> bytes option" where
  "copy_at buffer off src = (if off + length src \<le> length buffer
     then Some (take off buffer @ src @ drop (off + length src) buffer) else None)"

text \<open>A store with its \<open>map_err(|_| Errno::Fault)\<close>.\<close>

definition or_fault :: "(AccessFault + 'a) \<times> 'm \<Rightarrow> (Errno + 'a) \<times> 'm" where
  "or_fault p = (case p of (Inl _, m) \<Rightarrow> (Inl Fault, m) | (Inr x, m) \<Rightarrow> (Inr x, m))"

definition write_or_fault :: "'m mem_ops \<Rightarrow> 'm \<Rightarrow> u64 \<Rightarrow> bytes \<Rightarrow> ((Errno + unit) \<times> 'm) option" where
  "write_or_fault M m address bs = map_option or_fault (mem_write M m address bs)"

definition write_uint_or_fault ::
  "'m mem_ops \<Rightarrow> 'm \<Rightarrow> u64 \<Rightarrow> u8 \<Rightarrow> u64 \<Rightarrow> ((Errno + unit) \<times> 'm) option" where
  "write_uint_or_fault M m address width v = map_option or_fault (write_uint M m address width v)"

definition write_stat ::
  "'m mem_ops \<Rightarrow> 'm \<Rightarrow> u64 \<Rightarrow> bool \<times> u64 \<Rightarrow> ((Errno + unit) \<times> 'm) option" where
  "write_stat M m address file = do {
     let (is_terminal, sz) = file;
     let buffer = replicate STAT_BYTES 0;
     let mode = (if is_terminal then MODE_CHARACTER_DEVICE else MODE_REGULAR_FILE);
     b1 \<leftarrow> copy_at buffer 16 (to_le 4 (ucast mode :: u32));
     b2 \<leftarrow> copy_at b1 48 (to_le 8 sz);
     b3 \<leftarrow> copy_at b2 56 (to_le 4 (4096 :: u32));
     b4 \<leftarrow> copy_at b3 64 (to_le 8 (div_ceil sz 512));
     write_or_fault M m address b4
   }"

definition ascii :: "string \<Rightarrow> bytes" where
  "ascii s = map of_char s"

definition utsname_fields :: "bytes list" where
  "utsname_fields = map ascii
     [''Linux'', ''coracle'', ''6.12.0'', ''#1 SMP coracle'', ''aarch64'', ''(none)'']"

text \<open>The loop over \<open>fields.iter().enumerate()\<close>, from \<open>index\<close> on.\<close>

primrec write_fields :: "'m mem_ops \<Rightarrow> u64 \<Rightarrow> bytes list \<Rightarrow> u64 \<Rightarrow> 'm \<Rightarrow> ((Errno + unit) \<times> 'm) option" where
  "write_fields M address [] index m = Some (Inr (), m)"
| "write_fields M address (f # fs) index m = do {
     padded \<leftarrow> copy_at (replicate (unat UTSNAME_FIELD_BYTES) 0) 0 f;
     k \<leftarrow> checked_mul index UTSNAME_FIELD_BYTES;
     offs \<leftarrow> checked_add address k;
     p \<leftarrow> write_or_fault M m offs padded;
     (case p of
        (Inl e, m1) \<Rightarrow> Some (Inl e, m1)
      | (Inr _, m1) \<Rightarrow> write_fields M address fs (index + 1) m1)
   }"

definition write_utsname :: "'m mem_ops \<Rightarrow> 'm \<Rightarrow> u64 \<Rightarrow> ((Errno + unit) \<times> 'm) option" where
  "write_utsname M m address = do {
     p \<leftarrow> write_or_fault M m address (replicate UTSNAME_BYTES 0);
     (case p of
        (Inl e, m1) \<Rightarrow> Some (Inl e, m1)
      | (Inr _, m1) \<Rightarrow> write_fields M address utsname_fields 0 m1)
   }"

record IoVec =
  iov_base :: u64
  iov_len :: u64

definition read_iovec :: "'m mem_ops \<Rightarrow> 'm \<Rightarrow> u64 \<Rightarrow> u64 \<Rightarrow> (Errno + IoVec) option" where
  "read_iovec M m address index = do {
     k \<leftarrow> checked_mul index IOVEC_BYTES;
     entry \<leftarrow> checked_add address k;
     b \<leftarrow> read_uint M m entry 8;
     (case b of
        Inl _ \<Rightarrow> Some (Inl Fault)
      | Inr base1 \<Rightarrow> do {
          e8 \<leftarrow> checked_add entry 8;
          l \<leftarrow> read_uint M m e8 8;
          (case l of
             Inl _ \<Rightarrow> Some (Inl Fault)
           | Inr len \<Rightarrow> Some (Inr \<lparr> iov_base = base1, iov_len = len \<rparr>))
        })
   }"

definition write_timespec :: "'m mem_ops \<Rightarrow> 'm \<Rightarrow> u64 \<Rightarrow> u64 \<Rightarrow> (SysResult \<times> 'm) option" where
  "write_timespec M m address nanos = do {
     p \<leftarrow> write_uint_or_fault M m address 8 (nanos div 1000000000);
     (case p of
        (Inl e, m1) \<Rightarrow> Some (Inl e, m1)
      | (Inr _, m1) \<Rightarrow> do {
          a8 \<leftarrow> checked_add address 8;
          p2 \<leftarrow> write_uint_or_fault M m1 a8 8 (nanos mod 1000000000);
          (case p2 of
             (Inl e, m2) \<Rightarrow> Some (Inl e, m2)
           | (Inr _, m2) \<Rightarrow> Some (Inr 0, m2))
        })
   }"


section \<open>Buffers\<close>

lemma copy_at_ok: "off + length src \<le> length b \<Longrightarrow>
    copy_at b off src = Some (take off b @ src @ drop (off + length src) b)"
  by (simp add: copy_at_def)

definition stat_bytes :: "bool \<times> u64 \<Rightarrow> bytes" where
  "stat_bytes file = replicate 16 0
     @ to_le 4 (if fst file then 0x21b6 else 0x81a4 :: u32) @ replicate 28 0
     @ to_le 8 (snd file) @ to_le 4 (4096 :: u32) @ replicate 4 0
     @ to_le 8 (div_ceil (snd file) 512) @ replicate 56 0"

lemma length_stat_bytes [simp]: "length (stat_bytes f) = 128"
  by (simp add: stat_bytes_def)

lemma write_stat_eq:
  "write_stat M m a f = write_or_fault M m a (stat_bytes f)"
  by (cases f) (simp add: write_stat_def MODE_CHARACTER_DEVICE_def MODE_REGULAR_FILE_def copy_at_ok
      STAT_BYTES_def stat_bytes_def Let_def)

definition pad_field :: "bytes \<Rightarrow> bytes" where
  "pad_field f = f @ replicate (65 - length f) 0"

lemma length_pad_field: "length f \<le> 65 \<Longrightarrow> length (pad_field f) = 65"
  by (simp add: pad_field_def)

lemma pad_field_ok: "length f \<le> 65 \<Longrightarrow> copy_at (replicate (unat UTSNAME_FIELD_BYTES) 0) 0 f = Some (pad_field f)"
  by (simp add: copy_at_def UTSNAME_FIELD_BYTES_def pad_field_def)

text \<open>The six strings fit their slots.\<close>

lemma utsname_fit: "f \<in> set utsname_fields \<Longrightarrow> length f \<le> 65"
  by (auto simp: utsname_fields_def ascii_def)

lemma length_utsname [simp]: "length utsname_fields = 6"
  by (simp add: utsname_fields_def)


section \<open>Structures in guest memory\<close>

context guest_storage
begin

text \<open>A store of a whole buffer: it faults without an effect or reads back.\<close>

lemma write_or_fault_ok:
  assumes "inv m" "length bs = n" "n < 2 ^ 63"
  shows "\<exists>m'. write_or_fault M m a bs = Some (if mapped m a n then Inr () else Inl Fault, m')
    \<and> inv m' \<and> mapped m' = mapped m
    \<and> (if mapped m a n then mem_write M m a bs = Some (Inr (), m') \<and> mem_read M m' a n = Some (Inr bs) else m' = m)"
proof (cases "mapped m a n")
  case True
  with assms(2) have "mapped m a (length bs)" by simp
  from write_mapped [OF assms(1) this] obtain m' where
    "mem_write M m a bs = Some (Inr (), m')" "inv m'" "mapped m' = mapped m" by blast
  with True write_read [OF assms(1) _ this(1)] assms(2,3) show ?thesis
    by (simp add: write_or_fault_def or_fault_def)
next
  case False
  with write_unmapped [OF assms(1), of a bs] assms show ?thesis by (simp add: write_or_fault_def or_fault_def)
qed

lemma write_uint_or_fault_8: "write_uint_or_fault M m a 8 v = write_or_fault M m a (to_le 8 v)"
  by (simp add: write_uint_or_fault_def write_or_fault_def write_uint_def)

lemma write_stat_ok:
  assumes "inv m"
  shows "\<exists>m'. write_stat M m a f = Some (if mapped m a 128 then Inr () else Inl Fault, m')
    \<and> inv m' \<and> mapped m' = mapped m
    \<and> (if mapped m a 128 then mem_read M m' a 128 = Some (Inr (stat_bytes f)) else m' = m)"
  using write_or_fault_ok [OF assms, of "stat_bytes f" 128 a] by (auto simp: write_stat_eq split: if_splits)

lemma write_timespec_ok:
  assumes "inv m"
  shows "\<exists>r m'. write_timespec M m a t = Some (r, m') \<and> inv m' \<and> mapped m' = mapped m
    \<and> (r = Inr 0 \<and> read_uint M m' a 8 = Some (Inr (t div 1000000000))
          \<and> read_uint M m' (a + 8) 8 = Some (Inr (t mod 1000000000)) \<or> r = Inl Fault)"
proof (cases "mapped m a 8")
  case False
  with write_or_fault_ok [OF assms, of "to_le 8 (t div 1000000000)" 8 a] assms show ?thesis
    by (simp add: write_timespec_def write_uint_or_fault_8)
next
  case True
  let ?q = "t div 1000000000" and ?r = "t mod 1000000000"
  from write_or_fault_ok [OF assms, of "to_le 8 ?q" 8 a] True obtain m1 where
    w1: "write_or_fault M m a (to_le 8 ?q) = Some (Inr (), m1)" and m1: "inv m1" "mapped m1 = mapped m" and
    c1: "mem_read M m1 a 8 = Some (Inr (to_le 8 ?q))"
    by auto
  have a8: "unat a + 8 < 2 ^ 64" using mapped_no_wrap [OF assms True] .
  from write_or_fault_ok [OF m1(1), of "to_le 8 ?r" 8 "a + 8"] obtain m2 where
    w2: "write_or_fault M m1 (a + 8) (to_le 8 ?r) = Some (if mapped m1 (a + 8) 8 then Inr () else Inl Fault, m2)"
      and m2: "inv m2" "mapped m2 = mapped m1" and
    c2: "mapped m1 (a + 8) 8 \<Longrightarrow> mem_write M m1 (a + 8) (to_le 8 ?r) = Some (Inr (), m2)
          \<and> mem_read M m2 (a + 8) 8 = Some (Inr (to_le 8 ?r))"
    by auto
  have e: "write_timespec M m a t = Some (if mapped m1 (a + 8) 8 then Inr 0 else Inl Fault, m2)"
    using w1 w2 True a8 by (simp add: write_timespec_def write_uint_or_fault_8 checked_add_def)
  show ?thesis
  proof (cases "mapped m1 (a + 8) 8")
    case False
    with e m1 m2 show ?thesis by simp
  next
    case u: True
    have "mem_read M m2 a 8 = mem_read M m1 a 8"
      using a8 c2 [OF u] by (intro write_read_disjoint [OF m1(1)]) (auto simp: unat_add_ok)
    with u c1 c2 [OF u] True e m1 m2 show ?thesis
      by (simp add: read_uint_def from_le_to_le_full)
  qed
qed

lemma read_iovec_ok:
  assumes "inv m" "unat a + 16 * unat i < 2 ^ 64"
  shows "\<exists>r. read_iovec M m a i = Some r \<and> (\<forall>v. r = Inr v \<longrightarrow>
    mapped m (a + 16 * i) 8 \<and> mapped m (a + 16 * i + 8) 8 \<and> unat a + 16 * unat i + 16 < 2 ^ 64)"
proof -
  let ?e = "a + 16 * i"
  have mul: "checked_mul i IOVEC_BYTES = Some (16 * i)" "unat (16 * i) = 16 * unat i"
    using assms(2) by (simp_all add: checked_mul_def IOVEC_BYTES_def unat_word_ariths(2) mult.commute)
  then have add: "checked_add a (16 * i) = Some ?e" "unat ?e = unat a + 16 * unat i"
    using assms(2) by (simp_all add: checked_add_def unat_add_ok)
  have rd: "read_uint M m x 8 = Some (if mapped m x 8 then Inr (from_le (map (\<lambda>i. byte_at m (x + of_nat i)) [0..<8]))
      else Inl \<lparr> af_address = x, af_is_write = False \<rparr>)" for x
    using read_mapped [OF assms(1), of x 8] read_unmapped [OF assms(1), of x 8]
    by (simp add: read_uint_def)
  show ?thesis
  proof (cases "mapped m ?e 8")
    case False
    with mul add rd show ?thesis by (simp add: read_iovec_def)
  next
    case True
    have n8: "unat ?e + 8 < 2 ^ 64" using mapped_no_wrap [OF assms(1) True] .
    then have e8: "checked_add ?e 8 = Some (?e + 8)" "unat (?e + 8) = unat ?e + 8"
      by (simp_all add: checked_add_def unat_add_ok)
    show ?thesis
    proof (cases "mapped m (?e + 8) 8")
      case False
      with True mul add rd e8 show ?thesis by (simp add: read_iovec_def)
    next
      case u: True
      have "unat (?e + 8) + 8 < 2 ^ 64" using mapped_no_wrap [OF assms(1) u] .
      with True u mul add rd e8 show ?thesis by (simp add: read_iovec_def)
    qed
  qed
qed

text \<open>The fields land one after the other, and nothing else changes.\<close>

lemma write_fields_ok:
  assumes "inv m" "mapped m a (65 * (k + length fs))" "\<forall>f \<in> set fs. length f \<le> 65"
  shows "\<exists>m'. write_fields M a fs (of_nat k) m = Some (Inr (), m') \<and> inv m' \<and> mapped m' = mapped m
    \<and> (\<forall>x. mapped m x 1 \<longrightarrow> byte_at m' x =
         (if unat a + 65 * k \<le> unat x \<and> unat x < unat a + 65 * (k + length fs)
          then concat (map pad_field fs) ! (unat x - (unat a + 65 * k)) else byte_at m x))"
  using assms
proof (induction fs arbitrary: m k)
  case Nil
  then show ?case by auto
next
  case (Cons f fs)
  have nw: "unat a + 65 * (k + length (f # fs)) < 2 ^ 64" by (rule mapped_no_wrap [OF Cons.prems(1,2)])
  then have k: "unat (of_nat k :: u64) = k" "65 * k < 2 ^ 64" "65 * k + unat a < 2 ^ 64" by (simp_all add: unat_of_nat_small)
  let ?o = "a + of_nat (65 * k)"
  have mul: "checked_mul (of_nat k) UTSNAME_FIELD_BYTES = Some (of_nat (65 * k) :: u64)"
    using k by (simp add: checked_mul_def UTSNAME_FIELD_BYTES_def mult.commute)
  have uo: "unat (of_nat (65 * k) :: u64) = 65 * k" using k(2) by (intro unat_of_nat_small) simp
  then have o: "checked_add a (of_nat (65 * k)) = Some ?o" "unat ?o = unat a + 65 * k"
    using k(3) by (simp_all add: checked_add_def unat_add_ok)
  have len: "length (pad_field f) = 65" using Cons.prems(3) by (simp add: length_pad_field)
  have mp: "mapped m ?o (length (pad_field f))"
    unfolding len by (rule mapped_sub [OF Cons.prems(1,2)]) simp
  from write_mapped [OF Cons.prems(1) mp] obtain m1 where
    w: "mem_write M m ?o (pad_field f) = Some (Inr (), m1)" and m1: "inv m1" "mapped m1 = mapped m" and
    b1: "\<And>x. mapped m x 1 \<Longrightarrow> byte_at m1 x = (if in_span x ?o 65 then pad_field f ! (unat x - unat ?o) else byte_at m x)"
    unfolding len by auto
  have "mapped m1 a (65 * (Suc k + length fs))" using Cons.prems(2) m1(2) by (simp add: add.commute)
  from Cons.IH [OF m1(1) this] Cons.prems(3) obtain m' where
    r: "write_fields M a fs (of_nat (Suc k)) m1 = Some (Inr (), m')" and m': "inv m'" "mapped m' = mapped m1" and
    b': "\<And>x. mapped m x 1 \<Longrightarrow> byte_at m' x = (if unat a + 65 * Suc k \<le> unat x \<and> unat x < unat a + 65 * (Suc k + length fs)
          then concat (map pad_field fs) ! (unat x - (unat a + 65 * Suc k)) else byte_at m1 x)"
    using m1(2) by auto
  have e: "write_fields M a (f # fs) (of_nat k) m = Some (Inr (), m')"
    using r w mul o(1) Cons.prems(3) by (simp add: pad_field_ok write_or_fault_def or_fault_def add.commute)
  have "byte_at m' x = (if unat a + 65 * k \<le> unat x \<and> unat x < unat a + 65 * (k + length (f # fs))
          then concat (map pad_field (f # fs)) ! (unat x - (unat a + 65 * k)) else byte_at m x)"
    if "mapped m x 1" for x
    using b1 [OF that] b' [OF that] len o(2) by (auto simp: in_span_def nth_append algebra_simps)
  with e m' m1 show ?case by auto
qed

lemma write_utsname_ok:
  assumes "inv m"
  shows "\<exists>m'. write_utsname M m a = Some (if mapped m a 390 then Inr () else Inl Fault, m')
    \<and> inv m' \<and> mapped m' = mapped m
    \<and> (if mapped m a 390 then mem_read M m' a 390 = Some (Inr (concat (map pad_field utsname_fields))) else m' = m)"
proof -
  have "length (replicate UTSNAME_BYTES 0) = 390" by (simp only: length_replicate UTSNAME_BYTES_def)
  from write_or_fault_ok [OF assms this, of a] obtain m1 where
    w1: "write_or_fault M m a (replicate UTSNAME_BYTES 0) = Some (if mapped m a 390 then Inr () else Inl Fault, m1)"
      and m1: "inv m1" "mapped m1 = mapped m" and c1: "\<not> mapped m a 390 \<Longrightarrow> m1 = m"
    by auto
  show ?thesis
  proof (cases "mapped m a 390")
    case False
    with w1 c1 assms show ?thesis by (simp add: write_utsname_def)
  next
    case True
    with m1 have mp: "mapped m1 a (65 * (0 + length utsname_fields))" by simp
    from write_fields_ok [OF m1(1) mp] utsname_fit obtain m' where
      w: "write_fields M a utsname_fields 0 m1 = Some (Inr (), m')" and m': "inv m'" "mapped m' = mapped m1" and
      b: "\<And>x. mapped m1 x 1 \<Longrightarrow> byte_at m' x = (if unat a \<le> unat x \<and> unat x < unat a + 390
          then concat (map pad_field utsname_fields) ! (unat x - unat a) else byte_at m1 x)"
      by auto
    let ?c = "concat (map pad_field utsname_fields)"
    have len: "length ?c = 390"
      using utsname_fit by (simp add: length_concat o_def utsname_fields_def length_pad_field ascii_def)
    have "map (\<lambda>i. byte_at m' (a + of_nat i)) [0..<390] = ?c"
    proof (rule nth_equalityI)
      fix i assume "i < length (map (\<lambda>i. byte_at m' (a + of_nat i)) [0..<390])"
      then have i: "i < 390" by simp
      note mb = mapped_byte [OF m1(1) _ i, of a]
      show "map (\<lambda>i. byte_at m' (a + of_nat i)) [0..<390] ! i = ?c ! i"
        using True m1(2) mb b [of "a + of_nat i"] i by simp
    qed (simp add: len)
    with read_mapped [OF m'(1), of a 390] True m1 m' w w1 c1 show ?thesis by (simp add: write_utsname_def)
  qed
qed

end

end
