(* ===== verification/Shim.thy ===== *)
theory Shim
  imports Interp Bounded_Log Kernel_Structs
begin

unbundle bit_operations_syntax

text \<open>
  The Linux syscall shim (\<open>crates/core/src/shim/number.rs\<close>, \<open>dispatch.rs\<close> and \<open>mod.rs\<close>): the syscall
  numbers, the shim's state, one definition per syscall handler, the dispatch over the number,
  \<open>service\<close> and the run loop. The type parameters \<open>H: HostIo\<close>, \<open>M: Memory\<close> and \<open>S: TraceSink\<close> are the
  operation records \<open>H\<close>, \<open>M\<close> and \<open>K\<close>. A handler returns its \<open>SysResult\<close> beside the updated shim and
  CPU, \<open>None\<close> for a panic. The run loop is a \<open>partial_function\<close>: \<open>None\<close> also stands for a loop that
  never returns, so that a result of the form \<open>Some\<close> means that it does.
\<close>

section \<open>Syscall numbers (number.rs)\<close>

definition GETCWD :: u64 where "GETCWD = 17"
definition FCNTL :: u64 where "FCNTL = 25"
definition IOCTL :: u64 where "IOCTL = 29"
definition FACCESSAT :: u64 where "FACCESSAT = 48"
definition OPENAT :: u64 where "OPENAT = 56"
definition CLOSE :: u64 where "CLOSE = 57"
definition LSEEK :: u64 where "LSEEK = 62"
definition READ :: u64 where "READ = 63"
definition WRITE :: u64 where "WRITE = 64"
definition READV :: u64 where "READV = 65"
definition WRITEV :: u64 where "WRITEV = 66"
definition PREAD64 :: u64 where "PREAD64 = 67"
definition READLINKAT :: u64 where "READLINKAT = 78"
definition NEWFSTATAT :: u64 where "NEWFSTATAT = 79"
definition FSTAT :: u64 where "FSTAT = 80"
definition EXIT :: u64 where "EXIT = 93"
definition EXIT_GROUP :: u64 where "EXIT_GROUP = 94"
definition SET_TID_ADDRESS :: u64 where "SET_TID_ADDRESS = 96"
definition FUTEX :: u64 where "FUTEX = 98"
definition SET_ROBUST_LIST :: u64 where "SET_ROBUST_LIST = 99"
definition CLOCK_GETTIME :: u64 where "CLOCK_GETTIME = 113"
definition SCHED_GETAFFINITY :: u64 where "SCHED_GETAFFINITY = 123"
definition TGKILL :: u64 where "TGKILL = 131"
definition RT_SIGACTION :: u64 where "RT_SIGACTION = 134"
definition RT_SIGPROCMASK :: u64 where "RT_SIGPROCMASK = 135"
definition UNAME :: u64 where "UNAME = 160"
definition GETPID :: u64 where "GETPID = 172"
definition GETPPID :: u64 where "GETPPID = 173"
definition GETUID :: u64 where "GETUID = 174"
definition GETEUID :: u64 where "GETEUID = 175"
definition GETGID :: u64 where "GETGID = 176"
definition GETEGID :: u64 where "GETEGID = 177"
definition GETTID :: u64 where "GETTID = 178"
definition BRK :: u64 where "BRK = 214"
definition MUNMAP :: u64 where "MUNMAP = 215"
definition CLONE :: u64 where "CLONE = 220"
definition EXECVE :: u64 where "EXECVE = 221"
definition MMAP :: u64 where "MMAP = 222"
definition MPROTECT :: u64 where "MPROTECT = 226"
definition MADVISE :: u64 where "MADVISE = 233"
definition WAIT4 :: u64 where "WAIT4 = 260"
definition PRLIMIT64 :: u64 where "PRLIMIT64 = 261"
definition GETRANDOM :: u64 where "GETRANDOM = 278"
definition RSEQ :: u64 where "RSEQ = 293"

lemmas number_defs = GETCWD_def FCNTL_def IOCTL_def FACCESSAT_def OPENAT_def CLOSE_def LSEEK_def
  READ_def WRITE_def READV_def WRITEV_def PREAD64_def READLINKAT_def NEWFSTATAT_def FSTAT_def
  EXIT_def EXIT_GROUP_def SET_TID_ADDRESS_def FUTEX_def SET_ROBUST_LIST_def CLOCK_GETTIME_def
  SCHED_GETAFFINITY_def TGKILL_def RT_SIGACTION_def RT_SIGPROCMASK_def UNAME_def GETPID_def
  GETPPID_def GETUID_def GETEUID_def GETGID_def GETEGID_def GETTID_def BRK_def MUNMAP_def CLONE_def
  EXECVE_def MMAP_def MPROTECT_def MADVISE_def WAIT4_def PRLIMIT64_def GETRANDOM_def RSEQ_def


section \<open>State (mod.rs)\<close>

definition UNHANDLED_CAPACITY :: nat where "UNHANDLED_CAPACITY = 32"

datatype ShimExit = Shim_Exited i32 | Shim_Trapped Trap | Shim_BudgetExhausted

record 'h Shim =
  shim_host :: 'h
  shim_map :: MemoryMap
  shim_unhandled :: "u64 option list"
  shim_unhandled_count :: nat

definition shim_new :: "'h \<Rightarrow> ArenaLayout \<Rightarrow> 'h Shim" where
  "shim_new host layout = \<lparr> shim_host = host, shim_map = map_new layout,
     shim_unhandled = replicate UNHANDLED_CAPACITY None, shim_unhandled_count = 0 \<rparr>"

text \<open>\<open>self.unhandled[..count].iter().flatten()\<close>.\<close>

definition unhandled :: "'h Shim \<Rightarrow> u64 list option" where
  "unhandled s = (if shim_unhandled_count s \<le> length (shim_unhandled s)
     then Some (List.map_filter id (take (shim_unhandled_count s) (shim_unhandled s))) else None)"

definition record_unhandled :: "'h Shim \<Rightarrow> u64 \<Rightarrow> 'h Shim option" where
  "record_unhandled s number = do {
     seen \<leftarrow> unhandled s;
     if number \<in> set seen then Some s
     else if shim_unhandled_count s < UNHANDLED_CAPACITY then do {
       us \<leftarrow> arr_set (shim_unhandled s) (shim_unhandled_count s) (Some number);
       Some (s\<lparr>shim_unhandled := us, shim_unhandled_count := shim_unhandled_count s + 1\<rparr>)
     }
     else Some s
   }"


section \<open>Handlers (dispatch.rs)\<close>

datatype Outcome = Returned SysResult | Outcome_Exited i32

definition MAX_TRANSFER :: u64 where "MAX_TRANSFER = 0x100000"

definition MAX_PATH :: u64 where "MAX_PATH = 4096"

type_synonym args = "u64 list"

definition transfer_out ::
  "'h host_ops \<Rightarrow> 'm mem_ops \<Rightarrow> 'h Shim \<Rightarrow> ('m, 's) Cpu \<Rightarrow> i32 \<Rightarrow> u64 \<times> u64 \<Rightarrow> (SysResult \<times> 'h Shim) option" where
  "transfer_out H M shim cpu fd buffer = do {
     let (address, len) = buffer;
     r \<leftarrow> mem_read M (cpu_memory cpu) address (unat (min len MAX_TRANSFER));
     (case r of
        Inl _ \<Rightarrow> Some (Inl Fault, shim)
      | Inr bs \<Rightarrow> do {
          (w, h) \<leftarrow> host_write H (shim_host shim) fd bs;
          Some (w, shim\<lparr>shim_host := h\<rparr>)
        })
   }"

definition sys_write ::
  "'h host_ops \<Rightarrow> 'm mem_ops \<Rightarrow> 'h Shim \<Rightarrow> ('m, 's) Cpu \<Rightarrow> args \<Rightarrow> (SysResult \<times> 'h Shim) option" where
  "sys_write H M shim cpu args = transfer_out H M shim cpu (ucast (args ! 0)) (args ! 1, args ! 2)"

text \<open>\<open>for index in 0..args[2]\<close>: \<open>n\<close> iterations are left.\<close>

primrec writev_loop ::
  "'h host_ops \<Rightarrow> 'm mem_ops \<Rightarrow> args \<Rightarrow> ('m, 's) Cpu \<Rightarrow> nat \<Rightarrow> u64 \<Rightarrow> u64 \<Rightarrow> 'h Shim
     \<Rightarrow> (SysResult \<times> 'h Shim) option" where
  "writev_loop H M args cpu 0 index written shim = Some (Inr written, shim)"
| "writev_loop H M args cpu (Suc n) index written shim = do {
     v \<leftarrow> read_iovec M (cpu_memory cpu) (args ! 1) index;
     (case v of
        Inl e \<Rightarrow> Some (Inl e, shim)
      | Inr iov \<Rightarrow>
          if iov_len iov = 0 then writev_loop H M args cpu n (index + 1) written shim
          else do {
            (r, shim1) \<leftarrow> transfer_out H M shim cpu (ucast (args ! 0)) (iov_base iov, iov_len iov);
            (case r of
               Inl e \<Rightarrow> Some (Inl e, shim1)
             | Inr count \<Rightarrow> do {
                 written1 \<leftarrow> checked_add written count;
                 if count < iov_len iov then Some (Inr written1, shim1)
                 else writev_loop H M args cpu n (index + 1) written1 shim1
               })
          })
   }"

definition writev ::
  "'h host_ops \<Rightarrow> 'm mem_ops \<Rightarrow> 'h Shim \<Rightarrow> ('m, 's) Cpu \<Rightarrow> args \<Rightarrow> (SysResult \<times> 'h Shim) option" where
  "writev H M shim cpu args = writev_loop H M args cpu (unat (args ! 2)) 0 0 shim"

definition transfer_in ::
  "'h host_ops \<Rightarrow> 'm mem_ops \<Rightarrow> 'h Shim \<Rightarrow> ('m, 's) Cpu \<Rightarrow> i32 \<Rightarrow> u64 \<times> u64
     \<Rightarrow> (SysResult \<times> 'h Shim \<times> ('m, 's) Cpu) option" where
  "transfer_in H M shim cpu fd buffer = do {
     let (address, len) = buffer;
     (r, bs, h) \<leftarrow> host_read H (shim_host shim) fd (replicate (unat (min len MAX_TRANSFER)) 0);
     let shim1 = shim\<lparr>shim_host := h\<rparr>;
     (case r of
        Inl e \<Rightarrow> Some (Inl e, shim1, cpu)
      | Inr count \<Rightarrow>
          if unat count \<le> length bs then do {
            (w, m) \<leftarrow> write_or_fault M (cpu_memory cpu) address (take (unat count) bs);
            let cpu1 = cpu\<lparr>cpu_memory := m\<rparr>;
            (case w of
               Inl e \<Rightarrow> Some (Inl e, shim1, cpu1)
             | Inr _ \<Rightarrow> Some (Inr count, shim1, cpu1))
          } else None)
   }"

definition sys_read ::
  "'h host_ops \<Rightarrow> 'm mem_ops \<Rightarrow> 'h Shim \<Rightarrow> ('m, 's) Cpu \<Rightarrow> args
     \<Rightarrow> (SysResult \<times> 'h Shim \<times> ('m, 's) Cpu) option" where
  "sys_read H M shim cpu args = transfer_in H M shim cpu (ucast (args ! 0)) (args ! 1, args ! 2)"

primrec readv_loop ::
  "'h host_ops \<Rightarrow> 'm mem_ops \<Rightarrow> args \<Rightarrow> nat \<Rightarrow> u64 \<Rightarrow> u64 \<Rightarrow> 'h Shim \<Rightarrow> ('m, 's) Cpu
     \<Rightarrow> (SysResult \<times> 'h Shim \<times> ('m, 's) Cpu) option" where
  "readv_loop H M args 0 index tot shim cpu = Some (Inr tot, shim, cpu)"
| "readv_loop H M args (Suc n) index tot shim cpu = do {
     v \<leftarrow> read_iovec M (cpu_memory cpu) (args ! 1) index;
     (case v of
        Inl e \<Rightarrow> Some (Inl e, shim, cpu)
      | Inr iov \<Rightarrow> do {
          (r, shim1, cpu1) \<leftarrow> transfer_in H M shim cpu (ucast (args ! 0)) (iov_base iov, iov_len iov);
          (case r of
             Inl e \<Rightarrow> Some (Inl e, shim1, cpu1)
           | Inr count \<Rightarrow> do {
               tot1 \<leftarrow> checked_add tot count;
               if count < iov_len iov then Some (Inr tot1, shim1, cpu1)
               else readv_loop H M args n (index + 1) tot1 shim1 cpu1
             })
        })
   }"

definition readv ::
  "'h host_ops \<Rightarrow> 'm mem_ops \<Rightarrow> 'h Shim \<Rightarrow> ('m, 's) Cpu \<Rightarrow> args
     \<Rightarrow> (SysResult \<times> 'h Shim \<times> ('m, 's) Cpu) option" where
  "readv H M shim cpu args = readv_loop H M args (unat (args ! 2)) 0 0 shim cpu"

text \<open>\<open>for offset in 0..MAX_PATH\<close>: \<open>n\<close> iterations are left.\<close>

primrec read_c_string_loop ::
  "'m mem_ops \<Rightarrow> 'm \<Rightarrow> u64 \<Rightarrow> nat \<Rightarrow> u64 \<Rightarrow> bytes \<Rightarrow> (Errno + bytes) option" where
  "read_c_string_loop M m address 0 offs acc = Some (Inl Inval)"
| "read_c_string_loop M m address (Suc n) offs acc = do {
     a \<leftarrow> checked_add address offs;
     r \<leftarrow> read_uint M m a 1;
     (case r of
        Inl _ \<Rightarrow> Some (Inl Fault)
      | Inr v \<Rightarrow> let byte = (ucast v :: u8) in
          if byte = 0 then Some (Inr acc)
          else read_c_string_loop M m address n (offs + 1) (acc @ [byte]))
   }"

definition read_c_string :: "'m mem_ops \<Rightarrow> 'm \<Rightarrow> u64 \<Rightarrow> (Errno + bytes) option" where
  "read_c_string M m address = read_c_string_loop M m address (unat MAX_PATH) 0 []"

definition sys_open ::
  "'h host_ops \<Rightarrow> 'm mem_ops \<Rightarrow> 'h Shim \<Rightarrow> ('m, 's) Cpu \<Rightarrow> args \<Rightarrow> (SysResult \<times> 'h Shim) option" where
  "sys_open H M shim cpu args = do {
     p \<leftarrow> read_c_string M (cpu_memory cpu) (args ! 1);
     (case p of
        Inl e \<Rightarrow> Some (Inl e, shim)
      | Inr path \<Rightarrow> do {
          (r, h) \<leftarrow> host_open H (shim_host shim) path (args ! 2);
          Some (r, shim\<lparr>shim_host := h\<rparr>)
        })
   }"

definition fstat ::
  "'h host_ops \<Rightarrow> 'm mem_ops \<Rightarrow> 'h Shim \<Rightarrow> ('m, 's) Cpu \<Rightarrow> i32 \<Rightarrow> u64
     \<Rightarrow> (SysResult \<times> 'h Shim \<times> ('m, 's) Cpu) option" where
  "fstat H M shim cpu fd address = do {
     (r, h) \<leftarrow> host_size_of H (shim_host shim) fd;
     (case r of
        Inl e \<Rightarrow> Some (Inl e, shim\<lparr>shim_host := h\<rparr>, cpu)
      | Inr sz \<Rightarrow> do {
          (is_terminal, h1) \<leftarrow> host_is_terminal H h fd;
          (w, m) \<leftarrow> write_stat M (cpu_memory cpu) address (is_terminal, sz);
          Some (case w of Inl e \<Rightarrow> Inl e | Inr _ \<Rightarrow> Inr 0, shim\<lparr>shim_host := h1\<rparr>, cpu\<lparr>cpu_memory := m\<rparr>)
        })
   }"

definition getrandom ::
  "'h host_ops \<Rightarrow> 'm mem_ops \<Rightarrow> 'h Shim \<Rightarrow> ('m, 's) Cpu \<Rightarrow> args
     \<Rightarrow> (SysResult \<times> 'h Shim \<times> ('m, 's) Cpu) option" where
  "getrandom H M shim cpu args = do {
     let len = unat (min (args ! 1) MAX_TRANSFER);
     (bs, h) \<leftarrow> host_random H (shim_host shim) (replicate len 0);
     (w, m) \<leftarrow> write_or_fault M (cpu_memory cpu) (args ! 0) bs;
     Some (case w of Inl e \<Rightarrow> Inl e | Inr _ \<Rightarrow> Inr (of_nat len), shim\<lparr>shim_host := h\<rparr>, cpu\<lparr>cpu_memory := m\<rparr>)
   }"

definition ioctl :: "'h host_ops \<Rightarrow> 'h Shim \<Rightarrow> args \<Rightarrow> (SysResult \<times> 'h Shim) option" where
  "ioctl H shim args = do {
     (b, h) \<leftarrow> host_is_terminal H (shim_host shim) (ucast (args ! 0));
     Some (if b then Inr 0 else Inl NoTty, shim\<lparr>shim_host := h\<rparr>)
   }"

definition affinity :: "'m mem_ops \<Rightarrow> ('m, 's) Cpu \<Rightarrow> args \<Rightarrow> (SysResult \<times> ('m, 's) Cpu) option" where
  "affinity M cpu args = (if args ! 1 < 8 then Some (Inl Inval, cpu)
     else do {
       (w, m) \<leftarrow> write_uint_or_fault M (cpu_memory cpu) (args ! 2) 8 1;
       Some (case w of Inl e \<Rightarrow> Inl e | Inr _ \<Rightarrow> Inr 8, cpu\<lparr>cpu_memory := m\<rparr>)
     })"

text \<open>The match of \<open>other\<close>, arm by arm.\<close>

definition other ::
  "'h host_ops \<Rightarrow> 'm mem_ops \<Rightarrow> 'h Shim \<Rightarrow> ('m, 's) Cpu \<Rightarrow> u64 \<Rightarrow> args
     \<Rightarrow> (Outcome \<times> 'h Shim \<times> ('m, 's) Cpu) option" where
  "other H M shim cpu number args = do {
     (result, shim', cpu') \<leftarrow>
       (if number = BRK then
          let (b, mm) = set_brk (shim_map shim) (args ! 0) in Some (Inr b, shim\<lparr>shim_map := mm\<rparr>, cpu)
        else if number = MMAP then
          let (b, mm) = arena_map (shim_map shim) (args ! 1) in
          Some (case b of None \<Rightarrow> Inl NoMem | Some a \<Rightarrow> Inr a, shim\<lparr>shim_map := mm\<rparr>, cpu)
        else if number \<in> {MUNMAP, MPROTECT, MADVISE} then Some (Inr 0, shim, cpu)
        else if number = OPENAT then do { (r, s) \<leftarrow> sys_open H M shim cpu args; Some (r, s, cpu) }
        else if number = CLOSE then do {
          (r, h) \<leftarrow> host_close H (shim_host shim) (ucast (args ! 0)); Some (r, shim\<lparr>shim_host := h\<rparr>, cpu) }
        else if number = FSTAT then fstat H M shim cpu (ucast (args ! 0)) (args ! 1)
        else if number = NEWFSTATAT then fstat H M shim cpu (ucast (args ! 0)) (args ! 2)
        else if number = UNAME then do {
          (w, m) \<leftarrow> write_utsname M (cpu_memory cpu) (args ! 0);
          Some (case w of Inl e \<Rightarrow> Inl e | Inr _ \<Rightarrow> Inr 0, shim, cpu\<lparr>cpu_memory := m\<rparr>) }
        else if number = CLOCK_GETTIME then do {
          (nanos, h) \<leftarrow> host_monotonic_nanos H (shim_host shim);
          (r, m) \<leftarrow> write_timespec M (cpu_memory cpu) (args ! 1) nanos;
          Some (r, shim\<lparr>shim_host := h\<rparr>, cpu\<lparr>cpu_memory := m\<rparr>) }
        else if number = GETRANDOM then getrandom H M shim cpu args
        else if number = IOCTL then do { (r, s) \<leftarrow> ioctl H shim args; Some (r, s, cpu) }
        else if number = LSEEK then Some (Inr 0, shim, cpu)
        else if number \<in> {FACCESSAT, READLINKAT, GETCWD} then Some (Inl NoEnt, shim, cpu)
        else if number \<in> {SET_TID_ADDRESS, GETTID, GETPID} then Some (Inr 1, shim, cpu)
        else if number \<in> {SET_ROBUST_LIST, RSEQ, PRLIMIT64} then Some (Inr 0, shim, cpu)
        else if number \<in> {RT_SIGACTION, RT_SIGPROCMASK, FCNTL} then Some (Inr 0, shim, cpu)
        else if number = GETPPID then Some (Inr 0, shim, cpu)
        else if number \<in> {GETUID, GETEUID, GETGID, GETEGID} then Some (Inr 0, shim, cpu)
        else if number = SCHED_GETAFFINITY then do { (r, c) \<leftarrow> affinity M cpu args; Some (r, shim, c) }
        else if number \<in> {CLONE, FUTEX} then Some (Inl NoSys, shim, cpu)
        else if number \<in> {EXECVE, WAIT4, TGKILL} then Some (Inl NoSys, shim, cpu)
        else do { s \<leftarrow> record_unhandled shim number; Some (Inl NoSys, s, cpu) });
     Some (Returned result, shim', cpu')
   }"

definition call ::
  "'h host_ops \<Rightarrow> 'm mem_ops \<Rightarrow> 'h Shim \<Rightarrow> ('m, 's) Cpu \<Rightarrow> u64 \<Rightarrow> args
     \<Rightarrow> (Outcome \<times> 'h Shim \<times> ('m, 's) Cpu) option" where
  "call H M shim cpu number args =
     (if number \<in> {EXIT, EXIT_GROUP} then Some (Outcome_Exited (ucast (args ! 0)), shim, cpu)
      else if number = WRITE then do { (r, s) \<leftarrow> sys_write H M shim cpu args; Some (Returned r, s, cpu) }
      else if number = WRITEV then do { (r, s) \<leftarrow> writev H M shim cpu args; Some (Returned r, s, cpu) }
      else if number = READ then do { (r, s, c) \<leftarrow> sys_read H M shim cpu args; Some (Returned r, s, c) }
      else if number = READV then do { (r, s, c) \<leftarrow> readv H M shim cpu args; Some (Returned r, s, c) }
      else other H M shim cpu number args)"


section \<open>The run loop (mod.rs)\<close>

definition service ::
  "'h host_ops \<Rightarrow> 'm mem_ops \<Rightarrow> 'h Shim \<Rightarrow> ('m, 's) Cpu \<Rightarrow> (i32 option \<times> 'h Shim \<times> ('m, 's) Cpu) option" where
  "service H M shim cpu = do {
     number \<leftarrow> read_x (cpu_regs cpu) (Gpr_X 8);
     a0 \<leftarrow> read_x (cpu_regs cpu) (Gpr_X 0);
     a1 \<leftarrow> read_x (cpu_regs cpu) (Gpr_X 1);
     a2 \<leftarrow> read_x (cpu_regs cpu) (Gpr_X 2);
     a3 \<leftarrow> read_x (cpu_regs cpu) (Gpr_X 3);
     a4 \<leftarrow> read_x (cpu_regs cpu) (Gpr_X 4);
     a5 \<leftarrow> read_x (cpu_regs cpu) (Gpr_X 5);
     (outcome, shim1, cpu1) \<leftarrow> call H M shim cpu number [a0, a1, a2, a3, a4, a5];
     (case outcome of
        Returned result \<Rightarrow> do {
          r \<leftarrow> write_x (cpu_regs cpu1) (Gpr_X 0) (case result of Inl e \<Rightarrow> to_return_value e | Inr v \<Rightarrow> v);
          Some (None, shim1, cpu1\<lparr>cpu_regs := r\<rparr>)
        }
      | Outcome_Exited status \<Rightarrow> do {
          h \<leftarrow> host_exit H (shim_host shim1) status;
          Some (Some status, shim1\<lparr>shim_host := h\<rparr>, cpu1)
        })
   }"

partial_function (option) shim_loop ::
  "'h host_ops \<Rightarrow> 'm mem_ops \<Rightarrow> 's sink_ops \<Rightarrow> u64 \<Rightarrow> 'h Shim \<Rightarrow> ('m, 's) Cpu
     \<Rightarrow> (ShimExit \<times> 'h Shim \<times> ('m, 's) Cpu) option" where
  "shim_loop H M K deadline shim cpu =
     (if icount cpu < deadline then do {
        budget \<leftarrow> checked_sub deadline (icount cpu);
        p \<leftarrow> run M K cpu budget;
        (case fst p of
           BudgetExhausted \<Rightarrow> Some (Shim_BudgetExhausted, shim, snd p)
         | Trapped t \<Rightarrow>
             (case t of
                SupervisorCall pc1 imm \<Rightarrow> do {
                  q \<leftarrow> service H M shim (snd p);
                  (case fst q of
                     Some status \<Rightarrow> Some (Shim_Exited status, snd q)
                   | None \<Rightarrow>
                       let cpu2 = snd (snd q) in
                       shim_loop H M K deadline (fst (snd q))
                         (cpu2\<lparr>cpu_regs := set_pc (cpu_regs cpu2) (pc1 + INSN_BYTES)\<rparr>))
                }
              | _ \<Rightarrow> Some (Shim_Trapped t, shim, snd p)))
      }
      else Some (Shim_BudgetExhausted, shim, cpu))"

definition shim_run ::
  "'h host_ops \<Rightarrow> 'm mem_ops \<Rightarrow> 's sink_ops \<Rightarrow> 'h Shim \<Rightarrow> ('m, 's) Cpu \<Rightarrow> u64
     \<Rightarrow> (ShimExit \<times> 'h Shim \<times> ('m, 's) Cpu) option" where
  "shim_run H M K shim cpu budget =
     shim_loop H M K (saturating_add (icount cpu) budget) shim cpu"


section \<open>The unhandled-syscall log\<close>

definition unhandled_wf :: "'h Shim \<Rightarrow> bool" where
  "unhandled_wf s \<longleftrightarrow> (\<exists>us. distinct us \<and> length us \<le> 32 \<and> shim_unhandled_count s = length us
     \<and> shim_unhandled s = map Some us @ replicate (32 - length us) None)"

definition unhandled_keys :: "'h Shim \<Rightarrow> u64 list" where
  "unhandled_keys s = List.map_filter id (take (shim_unhandled_count s) (shim_unhandled s))"

lemma map_filter_Some: "List.map_filter id (map Some us) = us"
  by (induction us) (simp_all add: List.map_filter_simps)

lemma unhandled_wfE:
  assumes "unhandled_wf s"
  obtains us where "distinct us" "length us \<le> 32" "shim_unhandled_count s = length us"
    "shim_unhandled s = map Some us @ replicate (32 - length us) None"
    "unhandled s = Some us" "unhandled_keys s = us"
proof -
  obtain us where *: "distinct us" "length us \<le> 32" "shim_unhandled_count s = length us"
      "shim_unhandled s = map Some us @ replicate (32 - length us) None"
    using assms by (auto simp: unhandled_wf_def)
  moreover from * have "unhandled s = Some us" "unhandled_keys s = us"
    by (simp_all add: unhandled_def unhandled_keys_def map_filter_Some)
  ultimately show thesis by (rule that)
qed

lemma shim_new_wf: "unhandled_wf (shim_new h l)" "unhandled_keys (shim_new h l) = []"
  by (simp_all add: unhandled_wf_def shim_new_def UNHANDLED_CAPACITY_def unhandled_keys_def List.map_filter_simps)

lemma record_unhandled_ok:
  assumes "unhandled_wf s"
  shows "\<exists>s'. record_unhandled s n = Some s' \<and> unhandled_wf s'
    \<and> unhandled_keys s' = log_insert UNHANDLED_CAPACITY (unhandled_keys s) n
    \<and> shim_host s' = shim_host s \<and> shim_map s' = shim_map s"
proof -
  obtain us where us: "distinct us" "length us \<le> 32" "shim_unhandled_count s = length us"
      "shim_unhandled s = map Some us @ replicate (32 - length us) None"
      "unhandled s = Some us" "unhandled_keys s = us"
    using assms by (rule unhandled_wfE)
  show ?thesis
  proof (cases "n \<notin> set us \<and> length us < 32")
    case False
    with us assms show ?thesis by (auto simp: record_unhandled_def log_insert_def UNHANDLED_CAPACITY_def)
  next
    case True
    let ?s = "s\<lparr>shim_unhandled := (shim_unhandled s)[length us := Some n], shim_unhandled_count := length us + 1\<rparr>"
    have "32 - length us = Suc (32 - length (us @ [n]))" using True by auto
    then have r: "replicate (32 - length us) (None :: u64 option) = None # replicate (32 - length (us @ [n])) None"
      by (simp only: replicate_Suc)
    have "shim_unhandled ?s = map Some (us @ [n]) @ replicate (32 - length (us @ [n])) None"
      using us(4) r by (simp add: list_update_append)
    then have "unhandled_wf ?s" "unhandled_keys ?s = us @ [n]"
      using True us(1) map_filter_Some [of "us @ [n]"]
      by (auto simp: unhandled_wf_def unhandled_keys_def intro!: exI [of _ "us @ [n]"])
    moreover have "record_unhandled s n = Some ?s"
      using True us by (simp add: record_unhandled_def UNHANDLED_CAPACITY_def)
    ultimately show ?thesis
      using True us(6) by (simp add: log_insert_def UNHANDLED_CAPACITY_def)
  qed
qed

interpretation unhandled_log: bounded_log UNHANDLED_CAPACITY record_unhandled unhandled_keys "\<lambda>_. unhandled_wf"
proof unfold_locales
  fix n k :: nat and l :: "'h Shim" and u
  show "unhandled_wf l \<Longrightarrow> \<exists>l'. record_unhandled l u = Some l' \<and> unhandled_wf l'
      \<and> unhandled_keys l' = log_insert UNHANDLED_CAPACITY (unhandled_keys l) u"
    using record_unhandled_ok [of l u] by blast
  show "unhandled_wf l \<Longrightarrow> distinct (unhandled_keys l) \<and> length (unhandled_keys l) \<le> UNHANDLED_CAPACITY"
    by (erule unhandled_wfE) (simp add: UNHANDLED_CAPACITY_def)
qed

end
