(* ===== verification/Shim_Run.thy ===== *)
theory Shim_Run
  imports Shim Isa
begin

text \<open>
  The shim over any machine and any host that keep their contracts: no handler panics whatever the
  guest passes, every handler keeps the invariants of the machine, the host, the arena and the log of
  unhandled numbers, and the run loop returns. \<open>lo\<close> and \<open>hi\<close> bound the addresses of guest memory: they
  bound how far consecutive supervisor calls can walk without retiring an instruction, and how much a
  vectored transfer can add up to.
\<close>

section \<open>How a run ends\<close>

definition trap_pc :: "Trap \<Rightarrow> u64" where
  "trap_pc t = (case t of UndefinedInstruction p _ \<Rightarrow> p | SupervisorCall p _ \<Rightarrow> p | Breakpoint p _ \<Rightarrow> p
     | DataAbort p _ _ \<Rightarrow> p | InstructionAbort p \<Rightarrow> p)"

text \<open>Every trap names the instruction that raised it.\<close>

lemma isa_step_trap_pc: "isa_step M r m = Inl t \<Longrightarrow> trap_pc t = rf_pc r"
proof -
  have mem: "isa_mem M i r m = Inl t \<Longrightarrow> trap_pc t = rf_pc r" for i
    by (auto simp: isa_mem_def Let_def trap_pc_def split: Form.splits option.splits if_splits sum.splits prod.splits)
  have "isa_exec M i r m = Inl t \<Longrightarrow> trap_pc t = rf_pc r" for i
    unfolding isa_exec_def Let_def
    by (auto dest: mem simp: trap_pc_def split: if_splits option.splits sum.splits Form.splits)
  then show "isa_step M r m = Inl t \<Longrightarrow> trap_pc t = rf_pc r"
    by (auto simp: isa_step_def trap_pc_def split: option.splits sum.splits)
qed

context machine
begin

lemma step_trapped:
  assumes "cpu_ok inv sink_ok (Suc n) c" "step M K c = Some (Inl t, c')"
  shows "trap_pc t = rf_pc (cpu_regs c')" "cpu_regs c' = cpu_regs c"
    "\<forall>p k. t = SupervisorCall p k \<longrightarrow> mapped (cpu_memory c') p 4"
proof -
  from step_refines [OF assms(1)] assms(2) have i: "isa_step M (cpu_regs c) (cpu_memory c) = Inl t"
    and r: "cpu_regs c' = cpu_regs c" "cpu_memory c' = cpu_memory c" by auto
  from isa_step_trap_pc [OF i] r show p: "trap_pc t = rf_pc (cpu_regs c')" "cpu_regs c' = cpu_regs c" by simp_all
  have "t = InstructionAbort (rf_pc (cpu_regs c))" if "\<not> mapped (cpu_memory c) (rf_pc (cpu_regs c)) 4"
    using step_unmapped [OF assms(1) that] assms(2) by simp
  then have "mapped (cpu_memory c) (rf_pc (cpu_regs c)) 4" if "t = SupervisorCall p k" for p k
    using that by (cases "mapped (cpu_memory c) (rf_pc (cpu_regs c)) 4") simp_all
  with p r show "\<forall>p k. t = SupervisorCall p k \<longrightarrow> mapped (cpu_memory c') p 4"
    by (auto simp: trap_pc_def)
qed

text \<open>A run, with the steps it took: \<open>a\<close> retired instructions, and one more step when it trapped.\<close>

lemma run_loop_steps:
  "cpu_ok inv sink_ok N c \<Longrightarrow> n \<le> N \<Longrightarrow>
     \<exists>stop c' a. run_loop M K n c = Some (stop, c') \<and> unat (cpu_icount c') = unat (cpu_icount c) + a
       \<and> mapped (cpu_memory c') = mapped (cpu_memory c)
       \<and> (case stop of
            BudgetExhausted \<Rightarrow> a = n \<and> cpu_ok inv sink_ok (N - a) c'
          | Trapped t \<Rightarrow> a < n \<and> cpu_ok inv sink_ok (N - a - 1) c' \<and> trap_pc t = rf_pc (cpu_regs c')
              \<and> (a = 0 \<longrightarrow> cpu_regs c' = cpu_regs c)
              \<and> (\<forall>p k. t = SupervisorCall p k \<longrightarrow> mapped (cpu_memory c') p 4))"
proof (induction n arbitrary: c N)
  case 0
  then show ?case by simp
next
  case (Suc n)
  then obtain N' where N: "N = Suc N'" by (cases N) auto
  have ok: "cpu_ok inv sink_ok (Suc N') c" using Suc.prems N by simp
  from step_ok [OF ok] obtain r c1 where
    s: "step M K c = Some (r, c1)" "cpu_ok inv sink_ok N' c1" "mapped (cpu_memory c1) = mapped (cpu_memory c)"
      "isl r \<longrightarrow> cpu_icount c1 = cpu_icount c" "\<not> isl r \<longrightarrow> cpu_icount c1 = cpu_icount c + 1"
    by blast
  show ?case
  proof (cases r)
    case (Inl t)
    have "step M K c = Some (Inl t, c1)" using s(1) Inl by simp
    note st = step_trapped [OF ok this]
    have "run_loop M K (Suc n) c = Some (Trapped t, c1)" using s(1) Inl by simp
    then show ?thesis
      using s(2-4) st Inl N by (intro exI [of _ "Trapped t"] exI [of _ c1] exI [of _ 0]) simp
  next
    case (Inr u)
    have ic: "unat (cpu_icount c1) = unat (cpu_icount c) + 1"
      using s(5) Inr ok by (simp add: cpu_ok_def unat_add_ok)
    from Suc.IH [OF s(2)] Suc.prems(2) N obtain stop c' a where
      h: "run_loop M K n c1 = Some (stop, c')" "unat (cpu_icount c') = unat (cpu_icount c1) + a"
        "mapped (cpu_memory c') = mapped (cpu_memory c1)"
        "case stop of
            BudgetExhausted \<Rightarrow> a = n \<and> cpu_ok inv sink_ok (N' - a) c'
          | Trapped t \<Rightarrow> a < n \<and> cpu_ok inv sink_ok (N' - a - 1) c' \<and> trap_pc t = rf_pc (cpu_regs c')
              \<and> (a = 0 \<longrightarrow> cpu_regs c' = cpu_regs c1)
              \<and> (\<forall>p k. t = SupervisorCall p k \<longrightarrow> mapped (cpu_memory c') p 4)"
      by auto
    have "run_loop M K (Suc n) c = Some (stop, c')" using s(1) Inr h(1) by simp
    then show ?thesis
      using h(2-4) ic s(3) N
      by (intro exI [of _ stop] exI [of _ c'] exI [of _ "Suc a"]) (cases stop; clarsimp)
  qed
qed

end


section \<open>The handlers\<close>

locale linux_shim = machine M inv mapped byte_at K sink_ok + host_io H host_ok
  for M :: "'m mem_ops" and inv mapped byte_at and K :: "'s sink_ops" and sink_ok
    and H :: "'h host_ops" and host_ok +
  fixes lo hi :: nat
  assumes mapped_window: "inv m \<Longrightarrow> mapped m a n \<Longrightarrow> 0 < n \<Longrightarrow> lo \<le> unat a \<and> unat a + n \<le> hi"
    and window_small: "inv m \<Longrightarrow> hi \<le> lo + 2 ^ 40"
begin

text \<open>What a handler may do: use the host, and write guest memory.\<close>

definition host_step :: "nat \<Rightarrow> 'h Shim \<Rightarrow> 'h Shim \<Rightarrow> bool" where
  "host_step k s s' \<longleftrightarrow> (\<exists>h. s' = s\<lparr>shim_host := h\<rparr> \<and> host_ok k h)"

definition mem_step :: "('m, 's) Cpu \<Rightarrow> ('m, 's) Cpu \<Rightarrow> bool" where
  "mem_step c c' \<longleftrightarrow> (\<exists>m. c' = c\<lparr>cpu_memory := m\<rparr> \<and> inv m \<and> mapped m = mapped (cpu_memory c))"

lemma host_step_refl [simp]: "host_ok k (shim_host s) \<Longrightarrow> host_step k s s"
  unfolding host_step_def by (intro exI [of _ "shim_host s"]) simp

lemma host_step_host [simp]: "host_ok k h \<Longrightarrow> host_step k s (s\<lparr>shim_host := h\<rparr>)"
  by (auto simp: host_step_def)

lemma host_step_trans: "host_step k s s1 \<Longrightarrow> host_step k s1 s2 \<Longrightarrow> host_step k s s2"
  by (auto simp: host_step_def)

lemma host_stepD: "host_step k s s' \<Longrightarrow> host_ok k (shim_host s')"
  by (auto simp: host_step_def)

lemma mem_step_refl [simp]: "inv (cpu_memory c) \<Longrightarrow> mem_step c c"
  unfolding mem_step_def by (intro exI [of _ "cpu_memory c"]) simp

lemma mem_step_mem [simp]:
  "inv m \<Longrightarrow> mapped m = mapped (cpu_memory c) \<Longrightarrow> mem_step c (c\<lparr>cpu_memory := m\<rparr>)"
  by (auto simp: mem_step_def)

lemma mem_step_trans: "mem_step c c1 \<Longrightarrow> mem_step c1 c2 \<Longrightarrow> mem_step c c2"
  by (auto simp: mem_step_def)

lemma mem_stepD: "mem_step c c' \<Longrightarrow> inv (cpu_memory c')" "mem_step c c' \<Longrightarrow> mapped (cpu_memory c') = mapped (cpu_memory c)"
  by (auto simp: mem_step_def)

lemma transfer_len: "unat (min len MAX_TRANSFER) \<le> 2 ^ 20" "unat (min len MAX_TRANSFER) \<le> unat len"
  by (auto simp: min_def word_le_nat_alt MAX_TRANSFER_def)

lemma transfer_out_ok:
  assumes "inv (cpu_memory c)" "host_ok k (shim_host s)"
  shows "\<exists>r s'. transfer_out H M s c fd (a, len) = Some (r, s') \<and> host_step k s s'
    \<and> (\<forall>n. r = Inr n \<longrightarrow> unat n \<le> 2 ^ 20)"
proof (cases "mapped (cpu_memory c) a (unat (min len MAX_TRANSFER))")
  case False
  then have "mem_read M (cpu_memory c) a (unat (min len MAX_TRANSFER)) = Some (Inl \<lparr> af_address = a, af_is_write = False \<rparr>)"
    using transfer_len(1) [of len] by (intro read_unmapped assms(1)) simp_all
  with assms show ?thesis by (simp add: transfer_out_def host_step_refl)
next
  case True
  let ?n = "unat (min len MAX_TRANSFER)"
  let ?bs = "map (\<lambda>i. byte_at (cpu_memory c) (a + of_nat i)) [0..<?n]"
  from host_write_ok [OF assms(2), of fd ?bs] obtain r h where
    w: "host_write H (shim_host s) fd ?bs = Some (r, h)" "host_ok k h" "\<forall>n. r = Inr n \<longrightarrow> unat n \<le> ?n" by auto
  have "transfer_out H M s c fd (a, len) = Some (r, s\<lparr>shim_host := h\<rparr>)"
    using read_mapped [OF assms(1) True] w(1) by (simp add: transfer_out_def)
  with w(2,3) transfer_len(1) [of len] show ?thesis by fastforce
qed

lemma transfer_in_ok:
  assumes "inv (cpu_memory c)" "host_ok k (shim_host s)"
  shows "\<exists>r s' c'. transfer_in H M s c fd (a, len) = Some (r, s', c') \<and> host_step k s s' \<and> mem_step c c'
    \<and> (\<forall>n. r = Inr n \<longrightarrow> unat n \<le> 2 ^ 20)"
proof -
  let ?b = "replicate (unat (min len MAX_TRANSFER)) (0 :: u8)"
  from host_read_ok [OF assms(2), of fd ?b] obtain r bs h where
    r: "host_read H (shim_host s) fd ?b = Some (r, bs, h)" "host_ok k h" "length bs = length ?b"
      "\<forall>n. r = Inr n \<longrightarrow> unat n \<le> length ?b" by blast
  show ?thesis
  proof (cases r)
    case (Inl e)
    with r assms(1) show ?thesis by (simp add: transfer_in_def Let_def mem_step_refl)
  next
    case (Inr n)
    have n: "unat n \<le> length bs" "unat n \<le> 2 ^ 20" using Inr r(3,4) transfer_len(1) [of len] by auto
    have "length (take (unat n) bs) = unat n" "unat n < 2 ^ 63" using n by simp_all
    from write_or_fault_ok [OF assms(1) this, of a] obtain m' where
      w: "write_or_fault M (cpu_memory c) a (take (unat n) bs)
          = Some (if mapped (cpu_memory c) a (unat n) then Inr () else Inl Fault, m')"
        "inv m'" "mapped m' = mapped (cpu_memory c)" by blast
    have "transfer_in H M s c fd (a, len)
        = Some (if mapped (cpu_memory c) a (unat n) then Inr n else Inl Fault, s\<lparr>shim_host := h\<rparr>, c\<lparr>cpu_memory := m'\<rparr>)"
      using r(1) Inr n(1) w(1) by (simp add: transfer_in_def Let_def)
    with w(2,3) r(2) n(2) show ?thesis by (auto split: if_splits)
  qed
qed

text \<open>The vectored transfers: every entry read so far was mapped, so that neither the entry's address
  nor the running total can overflow.\<close>

definition vec_inv :: "u64 \<Rightarrow> u64 \<Rightarrow> u64 \<Rightarrow> bool" where
  "vec_inv a i tot \<longleftrightarrow> unat a + 16 * unat i < 2 ^ 64 \<and> (i = 0 \<or> lo \<le> unat a) \<and> unat tot \<le> 2 ^ 20 * unat i"

lemma vec_next:
  assumes "inv m" "vec_inv a i tot" "unat n \<le> 2 ^ 20"
    and "mapped m (a + 16 * i) 8" "mapped m (a + 16 * i + 8) 8" "unat a + 16 * unat i + 16 < 2 ^ 64"
  shows "checked_add tot n = Some (tot + n)" "vec_inv a (i + 1) (tot + n)" "vec_inv a (i + 1) tot"
proof -
  have u16: "unat (16 * i) = 16 * unat i" using assms(6) by (simp add: unat_word_ariths(2))
  have e: "unat (a + 16 * i) = unat a + 16 * unat i" using assms(6) u16 by (subst unat_add_ok) simp_all
  have e8: "unat (a + 16 * i + 8) = unat a + 16 * unat i + 8" using assms(6) e by (subst unat_add_ok) simp_all
  have lo: "lo \<le> unat a"
    using assms(2) mapped_window [OF assms(1,4)] e by (auto simp: vec_inv_def)
  have "unat a + 16 * unat i + 16 \<le> hi" using mapped_window [OF assms(1,5)] e8 by simp
  with lo window_small [OF assms(1)] have i: "unat i + 1 \<le> 2 ^ 36" by simp
  then have i1: "unat (i + 1) = unat i + 1" by (subst unat_add_ok) simp_all
  have t: "unat tot + unat n \<le> 2 ^ 20 * (unat i + 1)" using assms(2,3) by (simp add: vec_inv_def)
  with i have t64: "unat tot + unat n < 2 ^ 64" by simp
  then have tn: "unat (tot + n) = unat tot + unat n" by (subst unat_add_ok) simp_all
  show "checked_add tot n = Some (tot + n)" using t64 by (simp add: checked_add_def)
  show "vec_inv a (i + 1) (tot + n)" using t tn i1 lo assms(6) by (simp add: vec_inv_def)
  show "vec_inv a (i + 1) tot" using t i1 lo assms(6) by (simp add: vec_inv_def)
qed

lemma writev_loop_ok:
  "inv (cpu_memory c) \<Longrightarrow> host_ok k (shim_host s) \<Longrightarrow> vec_inv (args ! 1) i tot \<Longrightarrow>
     \<exists>r s'. writev_loop H M args c n i tot s = Some (r, s') \<and> host_step k s s'"
proof (induction n arbitrary: i tot s)
  case 0
  then show ?case by simp
next
  case (Suc n)
  note m = Suc.prems(1) and h = Suc.prems(2) and v = Suc.prems(3)
  from read_iovec_ok [OF m, of "args ! 1" i] v obtain e where
    e: "read_iovec M (cpu_memory c) (args ! 1) i = Some e"
      "\<And>x. e = Inr x \<Longrightarrow> mapped (cpu_memory c) (args ! 1 + 16 * i) 8 \<and> mapped (cpu_memory c) (args ! 1 + 16 * i + 8) 8
        \<and> unat (args ! 1) + 16 * unat i + 16 < 2 ^ 64"
    by (auto simp: vec_inv_def)
  show ?case
  proof (cases e)
    case (Inl x)
    with e(1) h show ?thesis by simp
  next
    case (Inr x)
    note nx = vec_next [OF m v _ conjunct1 [OF e(2) [OF Inr]] conjunct1 [OF conjunct2 [OF e(2) [OF Inr]]]
        conjunct2 [OF conjunct2 [OF e(2) [OF Inr]]]]
    from transfer_out_ok [OF m h, of "ucast (args ! 0)" "iov_base x" "iov_len x"] obtain r s1 where
      t: "transfer_out H M s c (ucast (args ! 0)) (iov_base x, iov_len x) = Some (r, s1)" "host_step k s s1"
        "\<forall>n. r = Inr n \<longrightarrow> unat n \<le> 2 ^ 20" by blast
    show ?thesis
    proof (cases "iov_len x = 0")
      case True
      with Suc.IH [OF m h nx(3) [of 0]] e(1) Inr show ?thesis by simp
    next
      case False
      show ?thesis
      proof (cases r)
        case Inl': (Inl y)
        with False e(1) Inr t show ?thesis by simp
      next
        case Inr': (Inr y)
        have y: "unat y \<le> 2 ^ 20" using t(3) Inr' by simp
        from Suc.IH [OF m host_stepD [OF t(2)] nx(2) [OF y]] obtain r2 s2 where
          "writev_loop H M args c n (i + 1) (tot + y) s1 = Some (r2, s2)" "host_step k s1 s2" by blast
        with False e(1) Inr Inr' t nx(1) [OF y] host_step_trans [OF t(2)] show ?thesis by simp
      qed
    qed
  qed
qed

lemma readv_loop_ok:
  "inv (cpu_memory c) \<Longrightarrow> host_ok k (shim_host s) \<Longrightarrow> vec_inv (args ! 1) i tot \<Longrightarrow>
     \<exists>r s' c'. readv_loop H M args n i tot s c = Some (r, s', c') \<and> host_step k s s' \<and> mem_step c c'"
proof (induction n arbitrary: i tot s c)
  case 0
  then show ?case by simp
next
  case (Suc n)
  note m = Suc.prems(1) and h = Suc.prems(2) and v = Suc.prems(3)
  from read_iovec_ok [OF m, of "args ! 1" i] v obtain e where
    e: "read_iovec M (cpu_memory c) (args ! 1) i = Some e"
      "\<And>x. e = Inr x \<Longrightarrow> mapped (cpu_memory c) (args ! 1 + 16 * i) 8 \<and> mapped (cpu_memory c) (args ! 1 + 16 * i + 8) 8
        \<and> unat (args ! 1) + 16 * unat i + 16 < 2 ^ 64"
    by (auto simp: vec_inv_def)
  show ?case
  proof (cases e)
    case (Inl x)
    with e(1) h m show ?thesis by simp
  next
    case (Inr x)
    note nx = vec_next [OF m v _ conjunct1 [OF e(2) [OF Inr]] conjunct1 [OF conjunct2 [OF e(2) [OF Inr]]]
        conjunct2 [OF conjunct2 [OF e(2) [OF Inr]]]]
    from transfer_in_ok [OF m h, of "ucast (args ! 0)" "iov_base x" "iov_len x"] obtain r s1 c1 where
      t: "transfer_in H M s c (ucast (args ! 0)) (iov_base x, iov_len x) = Some (r, s1, c1)" "host_step k s s1"
        "mem_step c c1" "\<forall>n. r = Inr n \<longrightarrow> unat n \<le> 2 ^ 20" by blast
    show ?thesis
    proof (cases r)
      case Inl': (Inl y)
      with e(1) Inr t show ?thesis by simp
    next
      case Inr': (Inr y)
      have y: "unat y \<le> 2 ^ 20" using t(4) Inr' by simp
      from Suc.IH [OF mem_stepD(1) [OF t(3)] host_stepD [OF t(2)] nx(2) [OF y]] obtain r2 s2 c2 where
        "readv_loop H M args n (i + 1) (tot + y) s1 c1 = Some (r2, s2, c2)" "host_step k s1 s2" "mem_step c1 c2" by blast
      with e(1) Inr Inr' t nx(1) [OF y] host_step_trans [OF t(2)] mem_step_trans [OF t(3)] show ?thesis by simp
    qed
  qed
qed

text \<open>A path is read byte by byte; the last address of the address space is never mapped, so the
  fault comes before the address can wrap.\<close>

lemma read_c_string_loop_ok:
  "inv m \<Longrightarrow> unat a + unat i < 2 ^ 64 \<Longrightarrow> read_c_string_loop M m a n i acc \<noteq> None"
proof (induction n arbitrary: i acc)
  case 0
  then show ?case by simp
next
  case (Suc n)
  have ad: "checked_add a i = Some (a + i)" "unat (a + i) = unat a + unat i"
    using Suc.prems(2) by (simp_all add: checked_add_def unat_add_ok)
  show ?case
  proof (cases "mapped m (a + i) 1")
    case False
    then have "read_uint M m (a + i) 1 = Some (Inl \<lparr> af_address = a + i, af_is_write = False \<rparr>)"
      using read_unmapped [OF Suc.prems(1) False] by (simp add: read_uint_def)
    with ad show ?thesis by simp
  next
    case True
    obtain v where v: "read_uint M m (a + i) 1 = Some (Inr v)"
      using read_mapped [OF Suc.prems(1) True] by (simp add: read_uint_def)
    have nw: "unat a + unat i + 1 < 2 ^ 64" using mapped_no_wrap [OF Suc.prems(1) True] ad(2) by simp
    then have "unat (i + 1) = unat i + 1" by (subst unat_add_ok) simp_all
    with Suc.IH [OF Suc.prems(1), of "i + 1"] nw v ad show ?thesis by (simp add: Let_def)
  qed
qed

text \<open>Every system call: no panic, the invariants kept, and of the CPU only memory touched.\<close>

definition shim_ok :: "nat \<Rightarrow> 'h Shim \<Rightarrow> bool" where
  "shim_ok k s \<longleftrightarrow> host_ok k (shim_host s) \<and> map_wf (shim_map s) \<and> unhandled_wf s"

lemma shim_ok_Suc: "shim_ok (Suc k) s \<Longrightarrow> shim_ok k s"
  by (simp add: shim_ok_def host_ok_Suc)

lemma shim_ok_mono: "shim_ok n s \<Longrightarrow> k \<le> n \<Longrightarrow> shim_ok k s"
  by (auto simp: shim_ok_def intro: host_ok_mono)

lemma shim_ok_host_step: "shim_ok k s \<Longrightarrow> host_step j s s' \<Longrightarrow> shim_ok j s'"
  by (auto simp: shim_ok_def host_step_def unhandled_wf_def)

definition call_ok :: "nat \<Rightarrow> ('m, 's) Cpu \<Rightarrow> ('r \<times> 'h Shim \<times> ('m, 's) Cpu) option \<Rightarrow> bool" where
  "call_ok k c res \<longleftrightarrow> (\<exists>r s' c'. res = Some (r, s', c') \<and> shim_ok k s' \<and> mem_step c c')"

lemma call_okI: "shim_ok k s' \<Longrightarrow> mem_step c c' \<Longrightarrow> call_ok k c (Some (r, s', c'))"
  by (simp add: call_ok_def)

lemma call_ok_if: "(b \<Longrightarrow> call_ok k c x) \<Longrightarrow> (\<not> b \<Longrightarrow> call_ok k c y) \<Longrightarrow> call_ok k c (if b then x else y)"
  by simp

lemma host_arm:
  "\<exists>r s'. f = Some (r, s') \<and> host_step k s s' \<Longrightarrow> shim_ok j s \<Longrightarrow> inv (cpu_memory c) \<Longrightarrow>
     call_ok k c (do { (r, s') \<leftarrow> f; Some (g r, s', c) })"
  by (auto intro!: call_okI intro: shim_ok_host_step)

lemma both_arm:
  "\<exists>r s' c'. f = Some (r, s', c') \<and> host_step k s s' \<and> mem_step c c' \<Longrightarrow> shim_ok j s \<Longrightarrow>
     call_ok k c (do { (r, s', c') \<leftarrow> f; Some (g r, s', c') })"
  by (auto intro!: call_okI intro: shim_ok_host_step)

lemma both_arm_plain:
  "\<exists>r s' c'. f = Some (r, s', c') \<and> host_step k s s' \<and> mem_step c c' \<Longrightarrow> shim_ok j s \<Longrightarrow> call_ok k c f"
  by (auto intro!: call_okI intro: shim_ok_host_step)

lemma sys_open_ok:
  assumes "shim_ok k s" "inv (cpu_memory c)"
  shows "\<exists>r s'. sys_open H M s c args = Some (r, s') \<and> host_step k s s'"
proof -
  have h: "host_ok k (shim_host s)" using assms(1) by (simp add: shim_ok_def)
  have "read_c_string M (cpu_memory c) (args ! 1) \<noteq> None"
    unfolding read_c_string_def using unat_u64_less [of "args ! 1"]
    by (intro read_c_string_loop_ok assms(2)) simp
  then obtain p where p: "read_c_string M (cpu_memory c) (args ! 1) = Some p" by blast
  show ?thesis
  proof (cases p)
    case (Inl e)
    with p h show ?thesis by (simp add: sys_open_def)
  next
    case (Inr path)
    with p host_open_ok [OF h, of path "args ! 2"] show ?thesis by (auto simp: sys_open_def)
  qed
qed

lemma fstat_ok:
  assumes "shim_ok k s" "inv (cpu_memory c)"
  shows "\<exists>r s' c'. fstat H M s c fd a = Some (r, s', c') \<and> host_step k s s' \<and> mem_step c c'"
proof -
  have h: "host_ok k (shim_host s)" using assms(1) by (simp add: shim_ok_def)
  from host_size_of_ok [OF h, of fd] obtain r h1 where r: "host_size_of H (shim_host s) fd = Some (r, h1)" "host_ok k h1"
    by blast
  from host_is_terminal_ok [OF r(2), of fd] obtain b h2 where b: "host_is_terminal H h1 fd = Some (b, h2)" "host_ok k h2"
    by blast
  show ?thesis
  proof (cases r)
    case (Inl e)
    with r assms(2) show ?thesis by (simp add: fstat_def)
  next
    case (Inr sz)
    from write_stat_ok [OF assms(2), of a "(b, sz)"] obtain w m' where
      "write_stat M (cpu_memory c) a (b, sz) = Some (w, m')" "inv m'" "mapped m' = mapped (cpu_memory c)" by blast
    with Inr r b show ?thesis by (simp add: fstat_def)
  qed
qed

lemma getrandom_ok:
  assumes "shim_ok k s" "inv (cpu_memory c)"
  shows "\<exists>r s' c'. getrandom H M s c args = Some (r, s', c') \<and> host_step k s s' \<and> mem_step c c'"
proof -
  have h: "host_ok k (shim_host s)" using assms(1) by (simp add: shim_ok_def)
  let ?n = "unat (min (args ! 1) MAX_TRANSFER)"
  from host_random_ok [OF h, of "replicate ?n 0"] obtain bs h1 where
    r: "host_random H (shim_host s) (replicate ?n 0) = Some (bs, h1)" "host_ok k h1" "length bs = ?n" by auto
  have "?n < 2 ^ 63" using transfer_len(1) [of "args ! 1"] by simp
  from write_or_fault_ok [OF assms(2) r(3) this, of "args ! 0"] obtain w m' where
    "write_or_fault M (cpu_memory c) (args ! 0) bs = Some (w, m')" "inv m'" "mapped m' = mapped (cpu_memory c)" by blast
  with r show ?thesis by (simp add: getrandom_def Let_def)
qed

lemma affinity_ok:
  assumes "inv (cpu_memory c)"
  shows "\<exists>r c'. affinity M c args = Some (r, c') \<and> mem_step c c'"
proof -
  from write_or_fault_ok [OF assms, of "to_le 8 (1 :: u64)" 8 "args ! 2"] obtain w m' where
    "write_or_fault M (cpu_memory c) (args ! 2) (to_le 8 (1 :: u64)) = Some (w, m')" "inv m'"
    "mapped m' = mapped (cpu_memory c)" by auto
  with assms show ?thesis by (simp add: affinity_def write_uint_or_fault_8)
qed

lemma clock_ok:
  assumes "shim_ok (Suc k) s" "inv (cpu_memory c)"
  shows "call_ok k c (do {
     (nanos, h) \<leftarrow> host_monotonic_nanos H (shim_host s);
     (r, m) \<leftarrow> write_timespec M (cpu_memory c) a nanos;
     Some (r, s\<lparr>shim_host := h\<rparr>, c\<lparr>cpu_memory := m\<rparr>) })"
proof -
  from host_nanos_ok [of k "shim_host s"] assms(1) obtain t h where
    t: "host_monotonic_nanos H (shim_host s) = Some (t, h)" "host_ok k h" by (auto simp: shim_ok_def)
  from write_timespec_ok [OF assms(2), of a t] obtain r m' where
    w: "write_timespec M (cpu_memory c) a t = Some (r, m')" "inv m'" "mapped m' = mapped (cpu_memory c)" by blast
  have "shim_ok k (s\<lparr>shim_host := h\<rparr>)" using shim_ok_host_step [OF assms(1) host_step_host [OF t(2)]] .
  with t(1) w show ?thesis by (simp add: call_ok_def)
qed

lemma uname_ok:
  assumes "shim_ok k s" "inv (cpu_memory c)"
  shows "call_ok k c (do { (w, m) \<leftarrow> write_utsname M (cpu_memory c) a; Some (g w, s, c\<lparr>cpu_memory := m\<rparr>) })"
  using write_utsname_ok [OF assms(2), of a] assms(1) by (auto intro!: call_okI)

lemma brk_ok: "shim_ok k s \<Longrightarrow> inv (cpu_memory c) \<Longrightarrow>
    call_ok k c (let (b, mm) = set_brk (shim_map s) q in Some (g b, s\<lparr>shim_map := mm\<rparr>, c))"
  by (cases "set_brk (shim_map s) q")
    (auto simp: shim_ok_def unhandled_wf_def dest: set_brk_wf intro!: call_okI)

lemma mmap_ok: "shim_ok k s \<Longrightarrow> inv (cpu_memory c) \<Longrightarrow>
    call_ok k c (let (b, mm) = arena_map (shim_map s) q in Some (g b, s\<lparr>shim_map := mm\<rparr>, c))"
  by (cases "arena_map (shim_map s) q")
    (auto simp: shim_ok_def unhandled_wf_def dest: arena_map_wf intro!: call_okI)

lemma unhandled_ok: "shim_ok k s \<Longrightarrow> inv (cpu_memory c) \<Longrightarrow>
    call_ok k c (do { s' \<leftarrow> record_unhandled s n; Some (g, s', c) })"
  using record_unhandled_ok [of s n] by (auto simp: shim_ok_def intro!: call_okI)

lemma call_ok_result: "call_ok k c f \<Longrightarrow> call_ok k c (do { (r, s', c') \<leftarrow> f; Some (g r, s', c') })"
  by (auto simp: call_ok_def)

lemma other_ok:
  assumes "shim_ok (Suc k) s" "inv (cpu_memory c)"
  shows "call_ok k c (other H M s c number args)"
proof -
  have sk: "shim_ok k s" using assms(1) by (rule shim_ok_Suc)
  then have hk: "host_ok k (shim_host s)" by (simp add: shim_ok_def)
  have const: "call_ok k c (Some (r, s, c))" for r :: SysResult
    using sk assms(2) by (intro call_okI) simp_all
  have close: "call_ok k c (do { (r, h) \<leftarrow> host_close H (shim_host s) fd; Some (r, s\<lparr>shim_host := h\<rparr>, c) })" for fd
    using host_close_ok [OF hk, of fd] assms(2) by (auto intro!: call_okI shim_ok_host_step [OF sk])
  have ioctl: "\<exists>r s'. ioctl H s args = Some (r, s') \<and> host_step k s s'"
    using host_is_terminal_ok [OF hk, of "ucast (args ! 0)"] by (auto simp: ioctl_def)
  have aff: "call_ok k c (do { (r, c') \<leftarrow> affinity M c args; Some (r, s, c') })"
    using affinity_ok [OF assms(2), of args] sk by (auto intro!: call_okI)
  show ?thesis
    unfolding other_def
    by (rule call_ok_result, intro call_ok_if const brk_ok mmap_ok host_arm [where g = "\<lambda>r. r", OF sys_open_ok]
        close both_arm_plain [OF fstat_ok] uname_ok clock_ok both_arm_plain [OF getrandom_ok]
        host_arm [where g = "\<lambda>r. r", OF ioctl] aff unhandled_ok sk assms) (rule sk)+
qed

lemma call_ok_all:
  assumes "shim_ok (Suc k) s" "inv (cpu_memory c)"
  shows "call_ok k c (call H M s c number args)"
proof -
  have sk: "shim_ok k s" using assms(1) by (rule shim_ok_Suc)
  then have hk: "host_ok k (shim_host s)" by (simp add: shim_ok_def)
  have v0: "vec_inv (args ! 1) 0 0" using unat_u64_less [of "args ! 1"] by (simp add: vec_inv_def)
  have w: "\<exists>r s'. sys_write H M s c args = Some (r, s') \<and> host_step k s s'"
    unfolding sys_write_def using transfer_out_ok [OF assms(2) hk] by blast
  have wv: "\<exists>r s'. writev H M s c args = Some (r, s') \<and> host_step k s s'"
    unfolding writev_def by (rule writev_loop_ok [OF assms(2) hk v0])
  have r: "\<exists>r s' c'. sys_read H M s c args = Some (r, s', c') \<and> host_step k s s' \<and> mem_step c c'"
    unfolding sys_read_def using transfer_in_ok [OF assms(2) hk] by blast
  have rv: "\<exists>r s' c'. readv H M s c args = Some (r, s', c') \<and> host_step k s s' \<and> mem_step c c'"
    unfolding readv_def by (rule readv_loop_ok [OF assms(2) hk v0])
  have ex: "call_ok k c (Some (Outcome_Exited x, s, c))" for x
    using sk assms(2) by (intro call_okI) simp_all
  show ?thesis
    unfolding call_def
    by (intro call_ok_if ex host_arm [OF w sk assms(2)] host_arm [OF wv sk assms(2)] both_arm [OF r sk]
        both_arm [OF rv sk] other_ok assms)
qed

text \<open>Servicing a call writes the result, or \<open>-errno\<close>, to \<open>x0\<close> and nothing else of the registers.\<close>

lemma service_ok:
  assumes "shim_ok (Suc k) s" "cpu_ok inv sink_ok n c"
  shows "\<exists>r s' c'. service H M s c = Some (r, s', c') \<and> shim_ok k s' \<and> cpu_ok inv sink_ok n c'
    \<and> mapped (cpu_memory c') = mapped (cpu_memory c) \<and> cpu_icount c' = cpu_icount c
    \<and> (\<exists>v. cpu_regs c' = (if r = None then x_upd (cpu_regs c) (Gpr_X 0) v else cpu_regs c))"
proof -
  have ok: "regs_wf (cpu_regs c)" "inv (cpu_memory c)" using assms(2) by (auto simp: cpu_ok_def)
  let ?x = "\<lambda>i. x_val (cpu_regs c) (Gpr_X i)"
  let ?args = "[?x 0, ?x 1, ?x 2, ?x 3, ?x 4, ?x 5]"
  from call_ok_all [OF assms(1) ok(2), of "?x 8" ?args] obtain out s1 m where
    call: "call H M s c (?x 8) ?args = Some (out, s1, c\<lparr>cpu_memory := m\<rparr>)" and s1: "shim_ok k s1"
      and m: "inv m" "mapped m = mapped (cpu_memory c)"
    by (auto simp: call_ok_def mem_step_def)
  have rd: "read_x (cpu_regs c) (Gpr_X i) = Some (?x i)" if "i < 31" for i
    using that ok(1) by (intro read_x_ok) simp_all
  have sv: "service H M s c = (case out of
      Returned result \<Rightarrow> Some (None, s1, c\<lparr>cpu_memory := m, cpu_regs := x_upd (cpu_regs c) (Gpr_X 0)
        (case result of Inl e \<Rightarrow> to_return_value e | Inr v \<Rightarrow> v)\<rparr>)
    | Outcome_Exited status \<Rightarrow> host_exit H (shim_host s1) status \<bind>
        (\<lambda>h. Some (Some status, s1\<lparr>shim_host := h\<rparr>, c\<lparr>cpu_memory := m\<rparr>)))"
    using call rd ok(1)
    by (simp add: service_def write_x_ok del: read_x.simps write_x.simps x_upd.simps x_val.simps split: Outcome.split)
  have c': "cpu_ok inv sink_ok n (c\<lparr>cpu_memory := m\<rparr>)"
      "cpu_ok inv sink_ok n (c\<lparr>cpu_memory := m, cpu_regs := x_upd (cpu_regs c) (Gpr_X 0) v\<rparr>)" for v
    using assms(2) m(1) by (simp_all add: cpu_ok_def del: x_upd.simps)
  show ?thesis
  proof (cases out)
    case (Returned result)
    with sv s1 c' m(2) show ?thesis by (auto simp del: x_upd.simps)
  next
    case (Outcome_Exited st)
    from host_exit_ok [of k "shim_host s1" st] s1 obtain h where
      "host_exit H (shim_host s1) st = Some h" "host_ok k h" by (auto simp: shim_ok_def)
    with sv s1 c' m(2) Outcome_Exited show ?thesis
      by (auto intro!: shim_ok_host_step [OF s1])
  qed
qed


text \<open>The run loop. A supervisor call does not retire an instruction, so the instruction count alone
  does not decrease: the loop's measure is the remaining budget first, then the distance of the
  program counter from the end of guest memory, which bounds the calls that can follow each other.\<close>

definition pc_rank :: "('m, 's) Cpu \<Rightarrow> nat" where
  "pc_rank c = (hi - max lo (unat (rf_pc (cpu_regs c)))) div 4"

definition loop_rank :: "u64 \<Rightarrow> ('m, 's) Cpu \<Rightarrow> nat" where
  "loop_rank deadline c = (unat deadline - unat (cpu_icount c)) * ((hi - lo) div 4 + 2) + pc_rank c"

definition exit_ok :: "u64 \<Rightarrow> ShimExit \<Rightarrow> ('m, 's) Cpu \<Rightarrow> bool" where
  "exit_ok deadline e c \<longleftrightarrow> (case e of
       Shim_BudgetExhausted \<Rightarrow> deadline \<le> cpu_icount c
     | Shim_Trapped t \<Rightarrow> trap_pc t = rf_pc (cpu_regs c) \<and> (\<forall>p k. t \<noteq> SupervisorCall p k)
     | Shim_Exited _ \<Rightarrow> True)"

lemma pc_rank_le: "pc_rank c \<le> (hi - lo) div 4"
  unfolding pc_rank_def by (rule div_le_mono) simp

lemma pass_rank:
  assumes D: "D' + a = (D :: nat)" and q: "q \<le> Q" "q' \<le> Q" and z: "a = 0 \<Longrightarrow> q' + 1 \<le> q"
  shows "D' * (Q + 2) + q' + a + 1 \<le> D * (Q + 2) + q"
proof (cases a)
  case 0
  with z D show ?thesis by simp
next
  case (Suc b)
  have "D * (Q + 2) = D' * (Q + 2) + a * (Q + 2)"
    unfolding D [symmetric] by (rule add_mult_distrib)
  moreover have "a * (Q + 2) = b * Q + Q + a + a" using Suc by (simp add: algebra_simps)
  ultimately show ?thesis using q Suc by simp
qed

lemma svc_pc_rank:
  assumes "inv m" "mapped m p 4" "rf_pc (cpu_regs c) = p" "rf_pc (cpu_regs c') = p + 4"
  shows "pc_rank c' + 1 \<le> pc_rank c"
proof -
  have w: "lo \<le> unat p" "unat p + 4 \<le> hi" using mapped_window [OF assms(1,2)] by auto
  have "unat p + 4 < 2 ^ 64" using mapped_no_wrap [OF assms(1,2)] .
  then have "unat (p + 4) = unat p + 4" by (subst unat_add_ok) simp_all
  then have "pc_rank c' = (hi - (unat p + 4)) div 4" using w assms(4) by (simp add: pc_rank_def max_def)
  moreover have "hi - unat p = (hi - (unat p + 4)) + 4" using w by simp
  then have "pc_rank c = (hi - (unat p + 4)) div 4 + 1" using w assms(3) by (simp add: pc_rank_def max_def)
  ultimately show ?thesis by simp
qed

lemma shim_loop_ok:
  "cpu_ok inv sink_ok N c \<Longrightarrow> shim_ok N s \<Longrightarrow> loop_rank deadline c \<le> N \<Longrightarrow>
     \<exists>e s' c'. shim_loop H M K deadline s c = Some (e, s', c') \<and> shim_ok 0 s' \<and> cpu_ok inv sink_ok 0 c'
       \<and> exit_ok deadline e c' \<and> unat (cpu_icount c) \<le> unat (cpu_icount c')
       \<and> unat (cpu_icount c') \<le> max (unat (cpu_icount c)) (unat deadline)"
proof (induction N arbitrary: c s rule: less_induct)
  case (less N)
  note ok = less.prems(1) and sok = less.prems(2) and rk = less.prems(3)
  show ?case
  proof (cases "cpu_icount c < deadline")
    case False
    then have "shim_loop H M K deadline s c = Some (Shim_BudgetExhausted, s, c)"
      by (subst shim_loop.simps) (simp add: icount_def)
    with False cpu_ok_mono [OF ok, of 0] shim_ok_mono [OF sok, of 0] show ?thesis by (simp add: exit_ok_def)
  next
    case True
    let ?D = "unat deadline - unat (cpu_icount c)"
    have "cpu_icount c \<le> deadline" using True by simp
    then have D: "unat (deadline - cpu_icount c) = ?D" "0 < ?D"
      using True by (simp_all add: unat_sub) (simp add: word_less_nat_alt)
    have "?D \<le> ?D * ((hi - lo) div 4 + 2)" by simp
    then have "?D \<le> N" using rk unfolding loop_rank_def by linarith
    from run_loop_steps [OF ok this] obtain stop c1 a where
      run: "run_loop M K ?D c = Some (stop, c1)" and ic: "unat (cpu_icount c1) = unat (cpu_icount c) + a"
      and st: "case stop of BudgetExhausted \<Rightarrow> a = ?D \<and> cpu_ok inv sink_ok (N - a) c1
          | Trapped t \<Rightarrow> a < ?D \<and> cpu_ok inv sink_ok (N - a - 1) c1 \<and> trap_pc t = rf_pc (cpu_regs c1)
              \<and> (a = 0 \<longrightarrow> cpu_regs c1 = cpu_regs c) \<and> (\<forall>p k. t = SupervisorCall p k \<longrightarrow> mapped (cpu_memory c1) p 4)"
      by blast
    have lp: "shim_loop H M K deadline s c = (case stop of
        BudgetExhausted \<Rightarrow> Some (Shim_BudgetExhausted, s, c1)
      | Trapped t \<Rightarrow> (case t of
          SupervisorCall pc1 imm \<Rightarrow> do {
            q \<leftarrow> service H M s c1;
            (case fst q of
               Some status \<Rightarrow> Some (Shim_Exited status, snd q)
             | None \<Rightarrow> let cpu2 = snd (snd q) in shim_loop H M K deadline (fst (snd q))
                 (cpu2\<lparr>cpu_regs := set_pc (cpu_regs cpu2) (pc1 + INSN_BYTES)\<rparr>))
          }
        | _ \<Rightarrow> Some (Shim_Trapped t, s, c1)))"
      using True D(1) run
      by (subst shim_loop.simps)
        (simp add: icount_def checked_sub_def run_def word_less_nat_alt word_le_nat_alt split: Stop.split Trap.split)
    have le: "unat (cpu_icount c1) \<le> unat deadline" if "a \<le> ?D" using that ic D(2) by linarith
    show ?thesis
    proof (cases "\<exists>p k. stop = Trapped (SupervisorCall p k)")
      case False
      have "\<exists>e. shim_loop H M K deadline s c = Some (e, s, c1) \<and> exit_ok deadline e c1 \<and> a \<le> ?D
          \<and> cpu_ok inv sink_ok 0 c1"
      proof (cases stop)
        case BudgetExhausted
        with st ic D(2) lp show ?thesis
          by (auto simp: exit_ok_def word_le_nat_alt intro: cpu_ok_mono)
      next
        case (Trapped t)
        then have "shim_loop H M K deadline s c = Some (Shim_Trapped t, s, c1)"
          using False lp by (auto split: Trap.split)
        with Trapped False st show ?thesis by (auto simp: exit_ok_def intro: cpu_ok_mono)
      qed
      then show ?thesis using ic le shim_ok_mono [OF sok, of 0] by auto
    next
      case svc: True
      then obtain p k where stop: "stop = Trapped (SupervisorCall p k)" by blast
      then have a: "a < ?D" and c1: "cpu_ok inv sink_ok (N - a - 1) c1" "p = rf_pc (cpu_regs c1)"
          "a = 0 \<Longrightarrow> cpu_regs c1 = cpu_regs c" "mapped (cpu_memory c1) p 4"
        using st by (auto simp: trap_pc_def)
      have inv1: "inv (cpu_memory c1)" using c1(1) by (simp add: cpu_ok_def)
      have N1: "Suc (N - 1) = N" using \<open>?D \<le> N\<close> D(2) by simp
      from service_ok [of "N - 1" s "N - a - 1" c1] sok c1(1) N1 obtain r s2 c2 v where
        sv: "service H M s c1 = Some (r, s2, c2)" "shim_ok (N - 1) s2" "cpu_ok inv sink_ok (N - a - 1) c2"
          "cpu_icount c2 = cpu_icount c1"
          "cpu_regs c2 = (if r = None then x_upd (cpu_regs c1) (Gpr_X 0) v else cpu_regs c1)"
        by auto
      show ?thesis
      proof (cases r)
        case (Some status)
        with sv lp stop ic le a shim_ok_mono [OF sv(2), of 0] cpu_ok_mono [OF sv(3), of 0] show ?thesis
          by (simp add: exit_ok_def)
      next
        case None
        let ?c3 = "c2\<lparr>cpu_regs := set_pc (cpu_regs c2) (p + 4)\<rparr>"
        have lp': "shim_loop H M K deadline s c = shim_loop H M K deadline s2 ?c3"
          using lp stop sv(1) None by (simp add: INSN_BYTES_def)
        have q: "a = 0 \<Longrightarrow> pc_rank ?c3 + 1 \<le> pc_rank c"
          using c1(2,3) by (intro svc_pc_rank [OF inv1 c1(4)]) (simp_all add: set_pc_def)
        have ic3: "cpu_icount ?c3 = cpu_icount c1" using sv(4) by simp
        have "loop_rank deadline ?c3 + a + 1 \<le> loop_rank deadline c"
          unfolding loop_rank_def ic3 ic
          by (rule pass_rank [OF _ pc_rank_le pc_rank_le q]) (use a in simp_all)
        then have r3: "loop_rank deadline ?c3 \<le> N - a - 1" using rk by linarith
        have "cpu_ok inv sink_ok (N - a - 1) ?c3" using sv(3) by (simp add: cpu_ok_def)
        from less.IH [OF _ this shim_ok_mono [OF sv(2)] r3] N1 a ic le show ?thesis
          unfolding lp' ic3 by fastforce
      qed
    qed
  qed
qed

end


section \<open>The shim over flat memory\<close>

text \<open>Flat memory with fixed bounds: the base and length of \<open>FlatMemory\<close> never change.\<close>

definition flat_window :: "nat \<Rightarrow> nat \<Rightarrow> FlatMemory \<Rightarrow> bool" where
  "flat_window lo hi m \<longleftrightarrow> flat_wf m \<and> unat (fm_base m) = lo \<and> lo + length (fm_bytes m) = hi
     \<and> length (fm_bytes m) \<le> 2 ^ 40"

lemma flat_write_shape:
  "flat_write m a bs = Some (r, m') \<Longrightarrow> fm_base m' = fm_base m \<and> length (fm_bytes m') = length (fm_bytes m)"
  by (auto simp: flat_write_def split: sum.splits if_splits)

interpretation flat_shim: linux_shim flat_ops "flat_window lo hi" flat_mapped flat_byte null_sink "\<lambda>_. True"
    capturing_ops capturing_ok lo hi
  for lo hi
proof unfold_locales
  fix m a n and bs :: bytes
  assume m: "flat_window lo hi m"
  then have wf: "flat_wf m" by (simp add: flat_window_def)
  show "flat_mapped m a n \<Longrightarrow> mem_read flat_ops m a n = Some (Inr (map (\<lambda>i. flat_byte m (a + of_nat i)) [0..<n]))"
    by (rule flat.read_mapped [OF wf])
  show "\<not> flat_mapped m a n \<Longrightarrow> n < 2 ^ 63 \<Longrightarrow>
      mem_read flat_ops m a n = Some (Inl \<lparr>af_address = a, af_is_write = False\<rparr>)"
    by (rule flat.read_unmapped [OF wf])
  show "\<not> flat_mapped m a (length bs) \<Longrightarrow> length bs < 2 ^ 63 \<Longrightarrow>
      mem_write flat_ops m a bs = Some (Inl \<lparr>af_address = a, af_is_write = True\<rparr>, m)"
    by (rule flat.write_unmapped [OF wf])
  show "flat_mapped m a n \<Longrightarrow> i + k \<le> n \<Longrightarrow> flat_mapped m (a + of_nat i) k" for i k
    by (rule flat.mapped_sub [OF wf])
  show "flat_mapped m a n \<Longrightarrow> unat a + n < 2 ^ 64"
    by (rule flat.mapped_no_wrap [OF wf])
  show "flat_mapped m a n \<Longrightarrow> 0 < n \<Longrightarrow> lo \<le> unat a \<and> unat a + n \<le> hi"
    using m by (auto simp: flat_window_def flat_mapped_def)
  show "hi \<le> lo + 2 ^ 40" using m by (auto simp: flat_window_def)
  assume "flat_mapped m a (length bs)"
  from flat.write_mapped [OF wf this] obtain m' where
    w: "mem_write flat_ops m a bs = Some (Inr (), m')" "flat_wf m'" "flat_mapped m' = flat_mapped m"
      "\<forall>x. flat_mapped m x 1 \<longrightarrow>
          flat_byte m' x = (if in_span x a (length bs) then bs ! (unat x - unat a) else flat_byte m x)"
    by blast
  have "flat_window lo hi m'"
    using m w(1,2) flat_write_shape [of m a bs "Inr ()" m'] by (simp add: flat_window_def flat_ops_def)
  with w show "\<exists>m'. mem_write flat_ops m a bs = Some (Inr (), m') \<and> flat_window lo hi m' \<and> flat_mapped m' = flat_mapped m
      \<and> (\<forall>x. flat_mapped m x 1 \<longrightarrow>
          flat_byte m' x = (if in_span x a (length bs) then bs ! (unat x - unat a) else flat_byte m x))"
    by blast
qed

end
