(* ===== verification/Shim_Properties.thy ===== *)
theory Shim_Properties
  imports Shim_Run Interp_Properties
begin

text \<open>
  The properties of the syscall shim: the arena and the break, the structures a guest reads back, the
  unhandled-syscall log, and that servicing a call and running a guest never panic and always return.
\<close>

text \<open>C3: running a guest under the shim returns. Over flat memory and the capturing host, whatever
  the guest's code and data, the run loop ends without a panic: with an exit status, at a trap that is
  not a supervisor call and that names the current program counter, or with the budget used up; it
  never retires more than \<open>budget\<close> instructions. \<open>N\<close> bounds the steps the counters must have room for:
  supervisor calls do not count against the budget, but at most one per word of memory can follow
  each other.\<close>

theorem shim_run_returns:
  fixes c :: "(FlatMemory, unit) Cpu"
  assumes "cpu_ok (flat_window lo hi) (\<lambda>_. True) N c" "capturing_ok N (shim_host s)"
    and "map_wf (shim_map s)" "unhandled_wf s"
    and "unat (icount c) + unat budget < 2 ^ 64"
    and "unat budget * ((hi - lo) div 4 + 2) + (hi - lo) div 4 \<le> N"
  shows "\<exists>e s' c'. shim_run capturing_ops flat_ops null_sink s c budget = Some (e, s', c')
    \<and> unat (icount c) \<le> unat (icount c') \<and> unat (icount c') \<le> unat (icount c) + unat budget
    \<and> (case e of
         Shim_BudgetExhausted \<Rightarrow> unat (icount c') = unat (icount c) + unat budget
       | Shim_Trapped t \<Rightarrow> trap_pc t = rf_pc (cpu_regs c') \<and> (\<forall>p k. t \<noteq> SupervisorCall p k)
       | Shim_Exited _ \<Rightarrow> True)"
proof -
  let ?d = "icount c + budget"
  have d: "saturating_add (icount c) budget = ?d" "unat ?d = unat (icount c) + unat budget"
    using assms(5) by (simp_all add: saturating_add_def unat_add_ok)
  have s: "flat_shim.shim_ok N s" using assms(2-4) by (simp add: flat_shim.shim_ok_def)
  have "flat_shim.loop_rank lo hi ?d c \<le> N"
    using assms(6) flat_shim.pc_rank_le [of lo hi c] d(2)
    by (simp add: flat_shim.loop_rank_def icount_def)
  from flat_shim.shim_loop_ok [OF assms(1) s this] obtain e s' c' where
    "shim_loop capturing_ops flat_ops null_sink ?d s c = Some (e, s', c')" "flat_shim.exit_ok ?d e c'"
    "unat (cpu_icount c) \<le> unat (cpu_icount c')" "unat (cpu_icount c') \<le> max (unat (cpu_icount c)) (unat ?d)"
    by blast
  then show ?thesis
    using d unfolding shim_run_def d(1)
    by (auto simp: flat_shim.exit_ok_def icount_def word_le_nat_alt split: ShimExit.splits)
qed

lemma demo_window: "n < 2 ^ 64 \<Longrightarrow> cpu_ok (flat_window 0x1000 0x1008) (\<lambda>_. True) n (demo_cpu t)"
  using cpu_with_sink_ok [of "flat_window 0x1000 0x1008" demo_memory "\<lambda>_. True" t n]
  by (simp add: demo_cpu_def cpu_ok_def flat_wf_def flat_window_def demo_memory_def regs_wf_new)

definition demo_layout :: ArenaLayout where
  "demo_layout = \<lparr> heap_base = 0x1000, heap_limit = 0x1004, mmap_base = 0x1004, mmap_limit = 0x1008 \<rparr>"

lemma demo_shim_ok:
  "map_wf (shim_map (shim_new capturing_new demo_layout))" "unhandled_wf (shim_new h l)"
  "n < 1000 \<Longrightarrow> capturing_ok n (shim_host (shim_new capturing_new demo_layout))"
  by (simp_all add: shim_new_wf) (simp_all add: shim_new_def map_new_wf layout_wf_def demo_layout_def
    capturing_ok_def capturing_new_def)

theorem shim_run_returns_witness:
  "\<exists>e s' c'. shim_run capturing_ops flat_ops null_sink (shim_new capturing_new demo_layout) (demo_cpu ()) 3
      = Some (e, s', c') \<and> unat (icount c') \<le> 3"
proof -
  have "icount (demo_cpu ()) = 0" by (simp add: demo_cpu_def cpu_with_sink_def icount_def)
  with shim_run_returns [where lo = "0x1000" and hi = "0x1008" and N = 20 and c = "demo_cpu ()"
      and s = "shim_new capturing_new demo_layout" and budget = 3] demo_window [of 20 "()"] demo_shim_ok(1,3) demo_shim_ok(2) [of capturing_new demo_layout]
  show ?thesis by auto
qed

text \<open>C15: servicing a system call is safe for every guest. Whatever the registers and memory hold,
  \<open>service\<close> does not panic, keeps the machine, the host, the arena and the log well formed, keeps the
  extent of guest memory and the instruction count, and changes no register but \<open>x0\<close>; an exit changes
  no register at all.\<close>

theorem shim_service_safe:
  fixes c :: "(FlatMemory, unit) Cpu"
  assumes "cpu_ok (flat_window lo hi) (\<lambda>_. True) n c" "capturing_ok (Suc k) (shim_host s)"
    and "map_wf (shim_map s)" "unhandled_wf s"
  shows "\<exists>r s' c'. service capturing_ops flat_ops s c = Some (r, s', c')
    \<and> cpu_ok (flat_window lo hi) (\<lambda>_. True) n c' \<and> capturing_ok k (shim_host s') \<and> map_wf (shim_map s') \<and> unhandled_wf s'
    \<and> flat_mapped (cpu_memory c') = flat_mapped (cpu_memory c) \<and> icount c' = icount c
    \<and> (\<exists>v. cpu_regs c' = (if r = None then x_upd (cpu_regs c) (Gpr_X 0) v else cpu_regs c))"
proof -
  have "flat_shim.shim_ok (Suc k) s" using assms(2-4) by (simp add: flat_shim.shim_ok_def)
  from flat_shim.service_ok [OF this assms(1)] show ?thesis
    by (auto simp: flat_shim.shim_ok_def icount_def)
qed

theorem shim_service_safe_witness:
  "\<exists>r s' c'. service capturing_ops flat_ops (shim_new capturing_new demo_layout) (demo_cpu ()) = Some (r, s', c')
     \<and> unhandled_wf s' \<and> icount c' = 0"
proof -
  have "icount (demo_cpu ()) = 0" by (simp add: demo_cpu_def cpu_with_sink_def icount_def)
  with shim_service_safe [where lo = "0x1000" and hi = "0x1008" and n = 10 and c = "demo_cpu ()" and k = 0
      and s = "shim_new capturing_new demo_layout"] demo_window [of 10 "()"] demo_shim_ok(1) demo_shim_ok(2) [of capturing_new demo_layout]
    demo_shim_ok(3) [of 1] show ?thesis by auto
qed

text \<open>what the guest prints is what the host captures. A \<open>write\<close> of at most 1 MiB of mapped memory
  to descriptor 1 appends exactly those bytes to the captured output and returns their number; to an
  unmapped buffer it returns \<open>EFAULT\<close> and captures nothing.\<close>

theorem write_captures_stdout:
  assumes "flat_wf (cpu_memory c)" "args ! 0 = 1" "args ! 2 \<le> MAX_TRANSFER"
  shows "sys_write capturing_ops flat_ops s c args =
    Some (if flat_mapped (cpu_memory c) (args ! 1) (unat (args ! 2))
      then let bs = map (\<lambda>i. flat_byte (cpu_memory c) (args ! 1 + of_nat i)) [0..<unat (args ! 2)] in
        (Inr (args ! 2), s\<lparr>shim_host := (shim_host s)\<lparr>ch_stdout := ch_stdout (shim_host s) @ bs\<rparr>\<rparr>)
      else (Inl Fault, s))"
proof -
  have l: "min (args ! 2) MAX_TRANSFER = args ! 2" using assms(3) by (simp add: min_def)
  have "unat (args ! 2) < 2 ^ 63" using assms(3) by (simp add: word_le_nat_alt MAX_TRANSFER_def)
  with flat.read_mapped [OF assms(1)] flat.read_unmapped [OF assms(1)] show ?thesis
    by (simp add: sys_write_def transfer_out_def l assms(2) capturing_ops_def ch_write_def Let_def)
qed

theorem write_captures_stdout_witness:
  "sys_write capturing_ops flat_ops (shim_new capturing_new demo_layout) (demo_cpu ()) [1, 0x1002, 2, 0, 0, 0] =
    Some (Inr 2, (shim_new capturing_new demo_layout)\<lparr>shim_host := capturing_new\<lparr>ch_stdout := [0x00, 0x91]\<rparr>\<rparr>)"
proof -
  have m: "cpu_memory (demo_cpu ()) = demo_memory" by (simp add: demo_cpu_def cpu_with_sink_def)
  have "flat_wf demo_memory" "flat_mapped demo_memory 0x1002 2"
      "map (\<lambda>i. flat_byte demo_memory (0x1002 + of_nat i)) [0..<2] = [0x00, 0x91]"
    by (simp_all add: flat_wf_def demo_memory_def flat_mapped_def flat_byte_def upt_rec)
  with write_captures_stdout [of "demo_cpu ()" "[1, 0x1002, 2, 0, 0, 0]" "shim_new capturing_new demo_layout"] m
  show ?thesis by (simp add: MAX_TRANSFER_def shim_new_def capturing_new_def Let_def)
qed

text \<open>C20: \<open>mmap\<close> hands out disjoint blocks. For any sequence of requests against a well-formed arena,
  every granted block is non-empty, lies inside the window and a whole number of pages above its start,
  and lies entirely above every block granted before it.\<close>

theorem mmap_blocks_disjoint:
  assumes "map_wf m"
  shows "blocks_ok (unat (mm_next m)) (unat (mmap_limit (mm_layout m))) lens (fst (map_all m lens))"
  using assms by (intro map_all_ok) (simp add: map_wf_def word_le_nat_alt)

theorem mmap_blocks_disjoint_witness:
  "let m = map_new \<lparr>heap_base = 0, heap_limit = 0, mmap_base = 0x10000, mmap_limit = 0x14000\<rparr> in
   fst (map_all m [1, 0, 0x3001, 0x1000]) = [Some 0x10000, None, None, Some 0x11000]
   \<and> blocks_ok 0x10000 0x14000 [1, 0, 0x3001, 0x1000] (fst (map_all m [1, 0, 0x3001, 0x1000]))"
proof -
  let ?m = "map_new \<lparr>heap_base = 0, heap_limit = 0, mmap_base = 0x10000, mmap_limit = 0x14000\<rparr>"
  have "map_wf ?m" by (rule map_new_wf) (simp add: layout_wf_def)
  note b = mmap_blocks_disjoint [OF this, of "[1, 0, 0x3001, 0x1000]"]
  have n: "unat (mm_next ?m) = 0x10000" "unat (mmap_limit (mm_layout ?m)) = 0x14000" by (simp_all add: map_new_def)
  have "fst (map_all ?m [1, 0, 0x3001, 0x1000]) = [Some 0x10000, None, None, Some 0x11000]"
    by (simp add: arena_map_eq page_round_def map_new_def)
  with b [unfolded n] show ?thesis unfolding Let_def by blast
qed

text \<open>the break moves only inside its window. A request inside the heap window becomes the break and
  is returned; any other request returns the break unchanged, which is how the guest detects a refusal.
  The map stays well formed and its layout fixed.\<close>

theorem brk_stays_in_window:
  assumes "map_wf m"
  shows "\<exists>m'. set_brk m q = (mm_brk m', m') \<and> map_wf m' \<and> mm_layout m' = mm_layout m \<and> mm_next m' = mm_next m
    \<and> mm_brk m' = (if heap_base (mm_layout m) \<le> q \<and> q \<le> heap_limit (mm_layout m) then q else mm_brk m)"
  using assms set_brk_eq [of m q] by (auto simp: map_wf_def Let_def)

theorem brk_stays_in_window_witness:
  "fst (set_brk (map_new demo_layout) 0x1002) = 0x1002 \<and> fst (set_brk (map_new demo_layout) 0x2000) = 0x1000"
proof -
  have "map_wf (map_new demo_layout)" by (rule map_new_wf) (simp add: layout_wf_def demo_layout_def)
  from brk_stays_in_window [OF this, of "0x1002"] brk_stays_in_window [OF this, of "0x2000"]
  show ?thesis by (auto simp: map_new_def demo_layout_def)
qed

text \<open>C36: the structures the guest reads back. \<open>uname\<close> into 390 mapped bytes leaves the six names, each
  padded with zeros to its 65-byte slot and zero terminated, and nothing else; \<open>fstat\<close> into 128 mapped
  bytes leaves the mode, the size, the block size and the block count at their offsets with zeros
  elsewhere; either one reports \<open>EFAULT\<close> without touching memory when the buffer is not mapped.\<close>

theorem kernel_structures_read_back:
  assumes "flat_wf m"
  shows "(\<exists>m'. write_utsname flat_ops m a = Some (if flat_mapped m a 390 then Inr () else Inl Fault, m')
      \<and> (if flat_mapped m a 390 then flat_read m' a 390 = Some (Inr (concat (map pad_field utsname_fields)))
         else m' = m))
    \<and> (\<exists>m'. write_stat flat_ops m a (t, sz) = Some (if flat_mapped m a 128 then Inr () else Inl Fault, m')
      \<and> (if flat_mapped m a 128 then flat_read m' a 128 = Some (Inr (stat_bytes (t, sz))) else m' = m))"
  using flat.write_utsname_ok [OF assms, of a] flat.write_stat_ok [OF assms, of a "(t, sz)"]
  by (auto simp: flat_ops_def split: if_splits)

theorem kernel_structures_read_back_witness:
  "flat_mapped (flat_new 400) 0x40000000 390
   \<and> (\<exists>m'. write_utsname flat_ops (flat_new 400) 0x40000000 = Some (Inr (), m')
        \<and> flat_read m' 0x40000000 390 = Some (Inr (concat (map pad_field utsname_fields))))"
proof -
  have m: "flat_mapped (flat_new 400) 0x40000000 390" "flat_wf (flat_new 400)"
    by (simp only: flat_mapped_def flat_new_def flat_at_def PHYS_RAM_BASE_def, simp)
      (rule flat_new_wf, simp)
  from kernel_structures_read_back [OF m(2), of "0x40000000" True 0] m(1) show ?thesis by auto
qed

text \<open>the log of unimplemented system calls keeps the first 32 distinct numbers in the order the
  guest first asked for them, never panics and never grows further.\<close>

theorem unhandled_first_seen:
  "\<exists>s'. record_all record_unhandled (shim_new h l) ns = Some s' \<and> unhandled s' = Some (take 32 (first_seen ns))"
proof -
  from unhandled_log.record_all_fresh [OF shim_new_wf [of h l], of ns] obtain s' where
    s': "record_all record_unhandled (shim_new h l) ns = Some s'" "unhandled_wf s'"
      "unhandled_keys s' = take UNHANDLED_CAPACITY (first_seen ns)" by blast
  from s'(2) have "unhandled s' = Some (unhandled_keys s')" by (rule unhandled_wfE) simp
  with s' show ?thesis by (simp add: UNHANDLED_CAPACITY_def)
qed

text \<open>guest RAM is where the layout says. On a 32-bit or wider host a RAM size is reserved exactly
  when it is a positive whole number of pages within the limit, and then any guest-physical range is
  translated to its offset in linear memory exactly when it lies inside that RAM.\<close>

theorem guest_ram_layout:
  assumes "32 \<le> pw" "reserve pw n = Some (Inr (start, limit))"
  shows "ram_size_ok n \<and> start = RAM_BASE \<and> limit = start + n
    \<and> linear_offset pw g n = Some (if in_ram g n then Some (start + (unat g - unat PHYS_RAM_BASE)) else None)"
  using assms linear_offset_eq [of n pw g] by (auto simp: reserve_ok_iff ram_size_ok_def)

theorem guest_ram_layout_witness:
  "reserve 64 0x10000 = Some (Inr (RAM_BASE, RAM_BASE + 0x10000))
   \<and> linear_offset 64 0x40000010 0x10000 = Some (Some (RAM_BASE + 0x10))"
proof -
  have r: "reserve 64 0x10000 = Some (Inr (RAM_BASE, RAM_BASE + 0x10000))"
    by (simp add: reserve_ok_iff ram_size_ok_def layout_defs)
  from guest_ram_layout [OF _ r, of "0x40000010"] r show ?thesis
    by (simp add: in_ram_def PHYS_RAM_BASE_def)
qed

text \<open>the largest RAM size is refused by arithmetic on a 32-bit host. \<open>reserve\<close> fails with a panic
  exactly for the admissible sizes whose end does not fit the pointer width, and on 32 bits the
  advertised maximum is one of them.\<close>

theorem reserve_overflow_32:
  "(reserve pw n = None \<longleftrightarrow> ram_size_ok n \<and> 2 ^ pw \<le> RAM_BASE + n) \<and> reserve 32 MAX_RAM_BYTES = None"
  by (simp add: reserve_panics_iff) (simp add: ram_size_ok_def layout_defs)

end
