(* ===== verification/Fp_Decompose.thy ===== *)
theory Fp_Decompose
  imports Fp_Operand
begin

unbundle bit_operations_syntax

text \<open>
  Unpacking a finite value into sign, exponent and significand, and the single rounding step that
  packs a result: \<open>fp/softfloat/decompose.rs\<close>.
\<close>

section \<open>Unpacking\<close>

definition GUARD_BITS :: nat where "GUARD_BITS = 3"

record Unpacked =
  up_negative :: bool
  up_exponent :: int
  up_significand :: u64

definition unpacked_zero :: "bool \<Rightarrow> Unpacked" where
  "unpacked_zero is_negative = \<lparr> up_negative = is_negative, up_exponent = 0, up_significand = 0 \<rparr>"

definition unpacked_is_zero :: "Unpacked \<Rightarrow> bool" where
  "unpacked_is_zero v \<longleftrightarrow> up_significand v = 0"

definition significand_mask :: "FpFormat \<Rightarrow> u64" where
  "significand_mask f = push_bit (mantissa_bits f + 1 + GUARD_BITS) 1 - 1"

definition implicit_bit :: "FpFormat \<Rightarrow> u64" where
  "implicit_bit f = push_bit (mantissa_bits f + GUARD_BITS) 1"

text \<open>Subtraction of two \<open>u32\<close> counts: below zero it panics.\<close>

definition count_sub :: "nat \<Rightarrow> nat \<Rightarrow> nat option" where
  "count_sub a b = (if b \<le> a then Some (a - b) else None)"

definition unpack :: "u64 \<Rightarrow> FpFormat \<Rightarrow> Unpacked option" where
  "unpack b f =
     (let is_negative = fp_is_negative f b;
          raw_exponent = uint (drop_bit (mantissa_bits f) b AND ucast (max_exponent f));
          mantissa = b AND mantissa_mask f
      in if raw_exponent = 0 then
           if mantissa = 0 then Some (unpacked_zero is_negative)
           else do {
             shift \<leftarrow> count_sub (leading_zeros mantissa) (64 - (mantissa_bits f + 1));
             sig \<leftarrow> shl_chk mantissa (shift + GUARD_BITS);
             Some \<lparr> up_negative = is_negative,
                    up_exponent = 1 - exponent_bias f - int shift,
                    up_significand = sig AND significand_mask f \<rparr>
           }
         else Some \<lparr> up_negative = is_negative,
                     up_exponent = raw_exponent - exponent_bias f,
                     up_significand =
                       push_bit GUARD_BITS (mantissa OR push_bit (mantissa_bits f) 1) \<rparr>)"


section \<open>Rounding\<close>

record RoundingContext =
  rc_rounding :: FpRounding
  rc_sticky :: bool
  rc_control :: FpControl

text \<open>The two loops of \<open>normalise\<close>. The first ends because a right shift makes a significand above
  the target smaller, the second because a left shift moves a non-zero one towards the target.\<close>

function normalise_down :: "FpFormat \<Rightarrow> Unpacked \<Rightarrow> bool \<Rightarrow> Unpacked \<times> bool" where
  "normalise_down f v is_sticky =
     (if push_bit 1 (implicit_bit f) \<le> up_significand v then
        normalise_down f
          (v\<lparr>up_significand := drop_bit 1 (up_significand v), up_exponent := up_exponent v + 1\<rparr>)
          (is_sticky \<or> up_significand v AND 1 \<noteq> 0)
      else (v, is_sticky))"
  by pat_completeness auto

function normalise_up :: "FpFormat \<Rightarrow> Unpacked \<Rightarrow> Unpacked" where
  "normalise_up f v =
     (if up_significand v < implicit_bit f \<and> up_significand v \<noteq> 0 then
        normalise_up f
          (v\<lparr>up_significand := push_bit 1 (up_significand v), up_exponent := up_exponent v - 1\<rparr>)
      else v)"
  by pat_completeness auto

text \<open>Facts the two termination proofs and the later sections share.\<close>

lemma mantissa_bits_bounds: "10 \<le> mantissa_bits f" "mantissa_bits f \<le> 52"
  by (cases f; simp)+

lemma unat_push_bit_small:
  "unat w * 2 ^ k < 2 ^ LENGTH('a) \<Longrightarrow> unat (push_bit k w) = unat (w :: 'a::len word) * 2 ^ k"
  by (simp only: unsigned_push_bit_eq push_bit_eq_mult [where 'a = nat] take_bit_nat_eq_self_iff)

lemma unat_drop_bit: "unat (drop_bit k w) = unat (w :: 'a::len word) div 2 ^ k"
  by (simp only: unat_drop_bit_eq drop_bit_eq_div [where 'a = nat])

lemma unat_pow2: "k < LENGTH('a) \<Longrightarrow> unat ((2 :: 'a::len word) ^ k) = 2 ^ k"
  using unat_push_bit_small [of "1 :: 'a word" k] by simp

lemma unat_implicit_bit: "unat (implicit_bit f) = 2 ^ (mantissa_bits f + 3)"
  using mantissa_bits_bounds [of f] by (simp add: implicit_bit_def GUARD_BITS_def unat_pow2)

termination normalise_down
proof (relation "measure (\<lambda>(f, v, s). unat (up_significand v))")
  fix f v s
  assume "push_bit 1 (implicit_bit f) \<le> up_significand v"
  moreover have "push_bit 1 (implicit_bit f) \<noteq> 0" by (cases f) (simp_all add: implicit_bit_def GUARD_BITS_def)
  ultimately have "0 < unat (up_significand v)" by (auto simp: unat_gt_0)
  then show "((f, v\<lparr>up_significand := drop_bit 1 (up_significand v), up_exponent := up_exponent v + 1\<rparr>,
      s \<or> up_significand v AND 1 \<noteq> 0), (f, v, s)) \<in> measure (\<lambda>(f, v, s). unat (up_significand v))"
    by (simp add: unat_drop_bit)
qed simp

lemma double_below_implicit:
  "w < implicit_bit f \<Longrightarrow> unat (push_bit 1 w) = 2 * unat w"
proof -
  assume "w < implicit_bit f"
  then have "unat w < 2 ^ (mantissa_bits f + 3)" by (simp add: word_less_nat_alt unat_implicit_bit)
  also have "\<dots> \<le> 2 ^ 55" using mantissa_bits_bounds [of f] by (intro power_increasing) simp_all
  finally show ?thesis by (subst unat_push_bit_small) simp_all
qed

termination normalise_up
proof (relation "measure (\<lambda>(f, v). unat (implicit_bit f) - unat (up_significand v))")
  fix f v
  assume "up_significand v < implicit_bit f \<and> up_significand v \<noteq> 0"
  then show "((f, v\<lparr>up_significand := push_bit 1 (up_significand v), up_exponent := up_exponent v - 1\<rparr>),
      (f, v)) \<in> measure (\<lambda>(f, v). unat (implicit_bit f) - unat (up_significand v))"
    using double_below_implicit [of "up_significand v" f] unat_gt_0 [of "up_significand v"]
    by (auto simp: word_less_nat_alt)
qed simp

declare normalise_down.simps [simp del] normalise_up.simps [simp del]

definition normalise :: "Unpacked \<Rightarrow> bool \<Rightarrow> FpFormat \<Rightarrow> Unpacked \<times> bool" where
  "normalise v is_sticky f =
     (let (v1, s) = normalise_down f v is_sticky in (normalise_up f v1, s))"

definition should_round_up :: "u64 \<Rightarrow> bool \<Rightarrow> u64 \<Rightarrow> FpRounding \<Rightarrow> bool \<Rightarrow> bool" where
  "should_round_up discarded is_sticky significand rounding1 is_negative =
     (let half = push_bit (GUARD_BITS - 1) 1;
          is_above_half = (discarded > half \<or> (discarded = half \<and> is_sticky));
          is_exactly_half = (discarded = half \<and> \<not> is_sticky)
      in case rounding1 of
           Fp_Nearest \<Rightarrow> is_above_half \<or> (is_exactly_half \<and> significand AND push_bit GUARD_BITS 1 \<noteq> 0)
         | Fp_NearestAway \<Rightarrow> discarded \<ge> half
         | Fp_Zero \<Rightarrow> False
         | Fp_Plus \<Rightarrow> \<not> is_negative
         | Fp_Minus \<Rightarrow> is_negative
         | Fp_Odd \<Rightarrow> False)"

definition round_significand ::
  "u64 \<Rightarrow> int \<Rightarrow> bool \<Rightarrow> FpRounding \<Rightarrow> bool \<Rightarrow> (u64 \<times> int \<times> FpExceptions) option" where
  "round_significand significand exponent is_sticky rounding1 is_negative =
     (let discarded = significand AND (push_bit GUARD_BITS 1 - 1);
          is_inexact = (discarded \<noteq> 0 \<or> is_sticky)
      in if \<not> is_inexact then Some (significand, exponent, fx_NONE)
         else do {
           let increment = should_round_up discarded is_sticky significand rounding1 is_negative;
           rounded0 \<leftarrow> checked_add significand (if increment then push_bit GUARD_BITS 1 else 0);
           let rounded1 = rounded0 AND NOT (push_bit GUARD_BITS 1 - 1);
           (if leading_zeros rounded1 < leading_zeros significand
            then Some (drop_bit 1 rounded1, exponent + 1, fx_INEXACT)
            else Some (rounded1, exponent, fx_INEXACT))
         })"

definition round_to_zero_or_minimum :: "bool \<Rightarrow> FpFormat \<Rightarrow> FpRounding \<Rightarrow> u64" where
  "round_to_zero_or_minimum is_negative f rounding1 =
     (let is_away = (case rounding1 of Fp_Plus \<Rightarrow> \<not> is_negative | Fp_Minus \<Rightarrow> is_negative | _ \<Rightarrow> False)
      in fp_zero f is_negative OR of_bool is_away)"

definition fp_overflow :: "bool \<Rightarrow> FpFormat \<Rightarrow> FpRounding \<Rightarrow> FpResult" where
  "fp_overflow is_negative f rounding1 =
     (let goes_to_infinity = (case rounding1 of
            Fp_Nearest \<Rightarrow> True | Fp_NearestAway \<Rightarrow> True
          | Fp_Zero \<Rightarrow> False
          | Fp_Plus \<Rightarrow> \<not> is_negative
          | Fp_Minus \<Rightarrow> is_negative
          | Fp_Odd \<Rightarrow> False);
          b = (if goes_to_infinity then signed_infinity f is_negative
               else max_finite f OR fp_zero f is_negative)
      in res_raising b (fx_union fx_OVERFLOW fx_INEXACT))"

definition pack_subnormal ::
  "Unpacked \<Rightarrow> bool \<Rightarrow> FpFormat \<Rightarrow> RoundingContext \<Rightarrow> FpResult option" where
  "pack_subnormal v is_sticky0 f ctx =
     (let minimum_exponent = 1 - exponent_bias f;
          shift = nat (minimum_exponent - up_exponent v);
          width = mantissa_bits f + 1 + GUARD_BITS
      in if shift \<ge> width then
           Some (res_raising (round_to_zero_or_minimum (up_negative v) f (rc_rounding ctx))
                   (fx_union fx_UNDERFLOW fx_INEXACT))
         else do {
           one \<leftarrow> shl_chk 1 shift;
           let is_sticky = (is_sticky0 \<or> up_significand v AND (one - 1) \<noteq> 0);
           shifted \<leftarrow> shr_chk (up_significand v) shift;
           (significand, _, inexact) \<leftarrow> round_significand shifted minimum_exponent is_sticky
              (rc_rounding ctx) (up_negative v);
           let mantissa = drop_bit GUARD_BITS significand;
           let b = push_bit (sign_shift f) (of_bool (up_negative v)) OR mantissa;
           let raised = (if fx_is_empty inexact then fx_NONE else fx_union inexact fx_UNDERFLOW);
           Some (res_raising b raised)
         })"

definition pack_normalised :: "Unpacked \<times> bool \<Rightarrow> FpFormat \<Rightarrow> RoundingContext \<Rightarrow> FpResult option" where
  "pack_normalised vs f ctx =
     (let v = fst vs; is_sticky = snd vs; minimum_exponent = 1 - exponent_bias f in
      if up_exponent v < minimum_exponent then pack_subnormal v is_sticky f ctx
      else do {
        (significand, exponent, raised) \<leftarrow>
          round_significand (up_significand v) (up_exponent v) is_sticky (rc_rounding ctx) (up_negative v);
        (if exponent > exponent_bias f then Some (fp_overflow (up_negative v) f (rc_rounding ctx))
         else
           let biased = word_of_int (exponent + exponent_bias f) :: u64;
               b = push_bit (sign_shift f) (of_bool (up_negative v))
                   OR push_bit (mantissa_bits f) biased
                   OR (drop_bit GUARD_BITS significand AND mantissa_mask f)
           in Some (res_raising b raised))
      })"

text \<open>The \<open>match format\<close> that \<open>apply_flush_to_zero\<close> and \<open>flush_input\<close> open with.\<close>

definition is_flushing :: "FpFormat \<Rightarrow> FpControl \<Rightarrow> bool" where
  "is_flushing f control = (case f of
       Fp_Half \<Rightarrow> is_flush_to_zero_fp16 control
     | Fp_Single \<Rightarrow> is_flush_to_zero control
     | Fp_Double \<Rightarrow> is_flush_to_zero control)"

definition apply_flush_to_zero :: "FpResult \<Rightarrow> FpFormat \<Rightarrow> FpControl \<Rightarrow> FpResult" where
  "apply_flush_to_zero result f control =
     (if \<not> is_flushing f control \<or> \<not> is_subnormal f (res_bits result) then result
      else res_raising (fp_zero f (fp_is_negative f (res_bits result)))
             (fx_union (fx_union (res_raised result) fx_UNDERFLOW) fx_INEXACT))"

definition round_and_pack :: "Unpacked \<Rightarrow> FpFormat \<Rightarrow> RoundingContext \<Rightarrow> FpResult option" where
  "round_and_pack v f ctx =
     (if unpacked_is_zero v then Some (res_exact (fp_zero f (up_negative v)))
      else do {
        let normalised = normalise v (rc_sticky ctx) f;
        overflowed \<leftarrow> pack_normalised normalised f ctx;
        Some (apply_flush_to_zero overflowed f (rc_control ctx))
      })"

end
