(* ===== verification/Fp_Value.thy ===== *)
theory Fp_Value
  imports Complex_Main Fp_Decompose
begin

unbundle bit_operations_syntax

text \<open>
  The real number a bit pattern stands for, and the specification of rounding: what IEEE 754 calls
  the correctly rounded result of an exact real value. The significand code is compared with these
  definitions in the theories that follow.
\<close>

section \<open>Fields\<close>

definition fp_exp :: "FpFormat \<Rightarrow> u64 \<Rightarrow> nat" where
  "fp_exp f b = unat (take_bit (exponent_bits f) (drop_bit (mantissa_bits f) b))"

definition fp_man :: "FpFormat \<Rightarrow> u64 \<Rightarrow> nat" where
  "fp_man f b = unat (take_bit (mantissa_bits f) b)"

text \<open>A register value of the format: nothing above the sign bit.\<close>

definition fp_wf :: "FpFormat \<Rightarrow> u64 \<Rightarrow> bool" where
  "fp_wf f b \<longleftrightarrow> unat b < 2 ^ fp_bits f"

definition fp_finite :: "FpFormat \<Rightarrow> u64 \<Rightarrow> bool" where
  "fp_finite f b \<longleftrightarrow> fp_wf f b \<and> \<not> is_nan f b \<and> \<not> is_infinite f b"

lemma format_widths:
  "fp_bits f = mantissa_bits f + exponent_bits f + 1" "sign_shift f = mantissa_bits f + exponent_bits f"
  "fp_bits f \<le> 64" "sign_shift f < 64" "5 \<le> exponent_bits f" "exponent_bits f \<le> 11"
  by (cases f; simp add: exponent_bits_def sign_shift_def)+

lemma exponent_bias_pos: "15 \<le> exponent_bias f" "exponent_bias f \<le> 1023"
  by (cases f; simp add: exponent_bias_def exponent_bits_def)+

lemma max_exponent_bias: "2 ^ exponent_bits f = 2 * exponent_bias f + 2"
  by (cases f) (simp_all add: exponent_bias_def exponent_bits_def)

lemma max_exponent_mask: "(ucast (max_exponent f) :: u64) = 2 ^ exponent_bits f - 1"
  by (cases f) (simp_all add: max_exponent_def exponent_bits_def)

lemma exponent_field:
  "drop_bit (mantissa_bits f) (b :: u64) AND ucast (max_exponent f)
     = take_bit (exponent_bits f) (drop_bit (mantissa_bits f) b)"
  by (simp add: max_exponent_mask and_mask_take_bit)

lemma mantissa_field: "b AND mantissa_mask f = take_bit (mantissa_bits f) b"
  by (simp add: mantissa_mask_def and_mask_take_bit)

lemma fp_exp_less: "fp_exp f b < 2 ^ exponent_bits f"
  unfolding fp_exp_def by (rule take_bit_word_le_mask)

lemma fp_man_less: "fp_man f b < 2 ^ mantissa_bits f"
  unfolding fp_man_def by (rule take_bit_word_le_mask)

lemma fp_man_eq: "fp_man f b = unat b mod 2 ^ mantissa_bits f"
  by (simp only: fp_man_def unsigned_take_bit_eq take_bit_eq_mod [where 'a = nat])

lemma fp_exp_eq: "fp_exp f b = unat b div 2 ^ mantissa_bits f mod 2 ^ exponent_bits f"
  by (simp only: fp_exp_def unsigned_take_bit_eq take_bit_eq_mod [where 'a = nat] unat_drop_bit)

lemma fp_is_negative_bit: "fp_is_negative f b \<longleftrightarrow> bit b (sign_shift f)"
  by (simp add: fp_is_negative_def bit_iff_odd_drop_bit and_one_eq odd_iff_mod_2_eq_one)

lemma bit_top_ge_iff: "unat w < 2 ^ Suc k \<Longrightarrow> bit w k \<longleftrightarrow> 2 ^ k \<le> unat (w :: 'a::len word)"
proof -
  assume "unat w < 2 ^ Suc k"
  then have "unat w div 2 ^ k < 2" by (simp add: less_mult_imp_div_less)
  then have "odd (unat w div 2 ^ k) \<longleftrightarrow> unat w div 2 ^ k \<noteq> 0" by (auto simp: less_2_cases_iff)
  also have "\<dots> \<longleftrightarrow> 2 ^ k \<le> unat w" by (simp add: div_eq_0_iff not_less)
  finally have "odd (unat w div 2 ^ k) \<longleftrightarrow> 2 ^ k \<le> unat w" .
  moreover have "bit w k \<longleftrightarrow> bit (unat w) k" by (auto simp: bit_unsigned_iff dest: bit_imp_le_length)
  ultimately show ?thesis by (simp only: bit_iff_odd [where 'a = nat])
qed

lemma fp_is_negative_iff: "fp_wf f b \<Longrightarrow> fp_is_negative f b \<longleftrightarrow> 2 ^ sign_shift f \<le> unat b"
  unfolding fp_is_negative_bit by (rule bit_top_ge_iff) (simp add: fp_wf_def format_widths)

lemma fp_fields_eq:
  assumes "fp_wf f b"
  shows "unat b = of_bool (fp_is_negative f b) * 2 ^ sign_shift f
    + fp_exp f b * 2 ^ mantissa_bits f + fp_man f b"
proof -
  let ?m = "mantissa_bits f" and ?e = "exponent_bits f" and ?u = "unat b"
  have "?u = ?u div 2 ^ ?m * 2 ^ ?m + fp_man f b" by (simp add: fp_man_eq div_mult_mod_eq)
  moreover have "?u div 2 ^ ?m = ?u div 2 ^ ?m div 2 ^ ?e * 2 ^ ?e + fp_exp f b" by (simp add: fp_exp_eq div_mult_mod_eq)
  moreover have "?u div 2 ^ ?m div 2 ^ ?e = of_bool (fp_is_negative f b)"
  proof -
    have "?u div 2 ^ ?m div 2 ^ ?e = ?u div 2 ^ sign_shift f"
      by (simp add: format_widths power_add div_mult2_eq)
    moreover have "?u < 2 ^ sign_shift f * 2" using assms by (simp add: fp_wf_def format_widths)
    ultimately show ?thesis
      using fp_is_negative_iff [OF assms] by (auto simp: div_nat_eqI)
  qed
  ultimately show ?thesis
    by (simp add: format_widths power_add algebra_simps)
qed

lemma is_nan_iff: "is_nan f b \<longleftrightarrow> fp_exp f b = 2 ^ exponent_bits f - 1 \<and> fp_man f b \<noteq> 0"
  and is_infinite_iff: "is_infinite f b \<longleftrightarrow> fp_exp f b = 2 ^ exponent_bits f - 1 \<and> fp_man f b = 0"
  and is_subnormal_iff: "is_subnormal f b \<longleftrightarrow> fp_exp f b = 0 \<and> fp_man f b \<noteq> 0"
proof -
  have *: "take_bit (exponent_bits f) (drop_bit (mantissa_bits f) b) = ucast (max_exponent f)
    \<longleftrightarrow> fp_exp f b = 2 ^ exponent_bits f - 1"
  proof -
    have "unat (ucast (max_exponent f) :: u64) = 2 ^ exponent_bits f - 1"
      by (cases f) (simp_all add: max_exponent_def exponent_bits_def)
    then show ?thesis by (simp add: fp_exp_def flip: unat_inj)
  qed
  show "is_nan f b \<longleftrightarrow> fp_exp f b = 2 ^ exponent_bits f - 1 \<and> fp_man f b \<noteq> 0"
    by (simp add: is_nan_def exponent_field mantissa_field * fp_man_def unat_eq_0)
  show "is_infinite f b \<longleftrightarrow> fp_exp f b = 2 ^ exponent_bits f - 1 \<and> fp_man f b = 0"
    by (simp add: is_infinite_def exponent_field mantissa_field * fp_man_def unat_eq_0)
  show "is_subnormal f b \<longleftrightarrow> fp_exp f b = 0 \<and> fp_man f b \<noteq> 0"
    by (simp add: is_subnormal_def exponent_field mantissa_field fp_man_def fp_exp_def unat_eq_0)
qed

lemma fp_magnitude:
  assumes "fp_wf f b"
  shows "fp_exp f b * 2 ^ mantissa_bits f + fp_man f b < 2 ^ sign_shift f"
    and "unat b mod 2 ^ sign_shift f = fp_exp f b * 2 ^ mantissa_bits f + fp_man f b"
proof -
  let ?M = "fp_exp f b * 2 ^ mantissa_bits f + fp_man f b"
  have "?M < (fp_exp f b + 1) * 2 ^ mantissa_bits f"
    using fp_man_less [of f b] by simp
  also have "\<dots> \<le> 2 ^ exponent_bits f * 2 ^ mantissa_bits f"
    using fp_exp_less [of f b] by (intro mult_right_mono) simp_all
  finally show less: "?M < 2 ^ sign_shift f" by (simp add: format_widths power_add mult.commute)
  have "unat b = of_bool (fp_is_negative f b) * 2 ^ sign_shift f + ?M"
    using fp_fields_eq [OF assms] by simp
  then have "unat b mod 2 ^ sign_shift f = ?M mod 2 ^ sign_shift f" by (simp only: mod_mult_self3)
  with less show "unat b mod 2 ^ sign_shift f = ?M" by simp
qed

lemma fp_is_zero_iff:
  assumes "fp_wf f b"
  shows "fp_is_zero f b \<longleftrightarrow> fp_exp f b = 0 \<and> fp_man f b = 0"
proof -
  let ?s = "sign_shift f"
  have "b AND NOT (push_bit ?s 1) = 0 \<longleftrightarrow> take_bit ?s b = 0"
  proof -
    have "i < ?s" if "bit b i" "i \<noteq> ?s" for i
    proof -
      have "take_bit (fp_bits f) b = b"
        using assms by (simp add: fp_wf_def unsigned_take_bit_eq take_bit_nat_eq_self_iff flip: unat_inj)
      then have "bit (take_bit (fp_bits f) b) i" using that by simp
      then show ?thesis using that by (simp add: bit_take_bit_iff sign_shift_def)
    qed
    then have "b AND NOT (push_bit ?s 1) = take_bit ?s b"
      using format_widths(4) [of f]
      by (intro bit_word_eqI) (auto simp: bit_simps)
    then show ?thesis by simp
  qed
  also have "\<dots> \<longleftrightarrow> unat b mod 2 ^ ?s = 0"
    by (simp only: unat_eq_0 [symmetric] unsigned_take_bit_eq take_bit_eq_mod [where 'a = nat])
  also have "\<dots> \<longleftrightarrow> fp_exp f b * 2 ^ mantissa_bits f + fp_man f b = 0"
    by (simp only: fp_magnitude(2) [OF assms])
  finally show ?thesis by (simp add: fp_is_zero_def)
qed


section \<open>The value of a bit pattern\<close>

text \<open>\<open>fp_sig * 2 ^ fp_unit\<close> is the magnitude: the integer significand, with its implicit bit, times
  the weight of its last place. The pattern of an infinity gets the value just above the largest
  finite one, so that the order of values covers the infinities too.\<close>

definition fp_sig :: "FpFormat \<Rightarrow> u64 \<Rightarrow> nat" where
  "fp_sig f b = (if fp_exp f b = 0 then fp_man f b else 2 ^ mantissa_bits f + fp_man f b)"

definition fp_unit :: "FpFormat \<Rightarrow> u64 \<Rightarrow> int" where
  "fp_unit f b = max 1 (int (fp_exp f b)) - exponent_bias f - int (mantissa_bits f)"

definition fp_abs :: "FpFormat \<Rightarrow> u64 \<Rightarrow> real" where
  "fp_abs f b = real (fp_sig f b) * 2 powi fp_unit f b"

definition fp_val :: "FpFormat \<Rightarrow> u64 \<Rightarrow> real" where
  "fp_val f b = (if fp_is_negative f b then - fp_abs f b else fp_abs f b)"

lemma fp_abs_nonneg: "0 \<le> fp_abs f b"
  by (simp add: fp_abs_def)

lemma abs_fp_val: "\<bar>fp_val f b\<bar> = fp_abs f b"
  by (simp add: fp_val_def fp_abs_nonneg)

lemma fp_abs_eq_0_iff: "fp_abs f b = 0 \<longleftrightarrow> fp_exp f b = 0 \<and> fp_man f b = 0"
  by (simp add: fp_abs_def fp_sig_def)


section \<open>Correct rounding\<close>

text \<open>The exact value \<open>x\<close> lies in the binade of exponent \<open>\<lfloor>log 2 \<bar>x\<bar>\<rfloor>\<close>; below the smallest normal number
  the exponent is the minimal one. \<open>fp_quantum\<close> is the distance of the representable values there.
  \<open>round_int\<close> rounds a non-negative real number to an integer, and \<open>fp_rounded\<close> rounds to a multiple
  of the quantum, as though the exponent range were unbounded above.\<close>

definition fp_min_exponent :: "FpFormat \<Rightarrow> int" where
  "fp_min_exponent f = 1 - exponent_bias f"

definition fp_quantum :: "FpFormat \<Rightarrow> real \<Rightarrow> real" where
  "fp_quantum f x =
     2 powi (max \<lfloor>log 2 \<bar>x\<bar>\<rfloor> (fp_min_exponent f) - int (mantissa_bits f))"

definition round_int :: "FpRounding \<Rightarrow> bool \<Rightarrow> real \<Rightarrow> int" where
  "round_int r is_negative x = (case r of
       Fp_Nearest \<Rightarrow> if x - \<lfloor>x\<rfloor> < 1 / 2 \<or> (x - \<lfloor>x\<rfloor> = 1 / 2 \<and> even \<lfloor>x\<rfloor>) then \<lfloor>x\<rfloor> else \<lfloor>x\<rfloor> + 1
     | Fp_NearestAway \<Rightarrow> if x - \<lfloor>x\<rfloor> < 1 / 2 then \<lfloor>x\<rfloor> else \<lfloor>x\<rfloor> + 1
     | Fp_Zero \<Rightarrow> \<lfloor>x\<rfloor>
     | Fp_Plus \<Rightarrow> if is_negative then \<lfloor>x\<rfloor> else \<lceil>x\<rceil>
     | Fp_Minus \<Rightarrow> if is_negative then \<lceil>x\<rceil> else \<lfloor>x\<rfloor>
     | Fp_Odd \<Rightarrow> if odd \<lfloor>x\<rfloor> \<or> x = \<lfloor>x\<rfloor> then \<lfloor>x\<rfloor> else \<lfloor>x\<rfloor> + 1)"

definition fp_rounded :: "FpFormat \<Rightarrow> FpRounding \<Rightarrow> real \<Rightarrow> real" where
  "fp_rounded f r x =
     sgn x * round_int r (x < 0) (\<bar>x\<bar> / fp_quantum f x) * fp_quantum f x"

definition fp_overflow_value :: "FpFormat \<Rightarrow> FpRounding \<Rightarrow> bool \<Rightarrow> u64" where
  "fp_overflow_value f r is_negative =
     (if r = Fp_Zero \<or> (r = Fp_Plus \<and> is_negative) \<or> (r = Fp_Minus \<and> \<not> is_negative) \<or> r = Fp_Odd
      then max_finite f OR fp_zero f is_negative else signed_infinity f is_negative)"

text \<open>\<open>correctly_rounded f r x b\<close>: the bits are those of the value \<open>x\<close> rounded once in mode \<open>r\<close>, with the
  sign of \<open>x\<close> also where it rounds to zero; a value that rounds beyond the largest finite number overflows as the mode directs.\<close>

definition correctly_rounded :: "FpFormat \<Rightarrow> FpRounding \<Rightarrow> real \<Rightarrow> u64 \<Rightarrow> bool" where
  "correctly_rounded f r x b \<longleftrightarrow>
     (if \<bar>fp_rounded f r x\<bar> < 2 powi (exponent_bias f + 1)
      then fp_finite f b \<and> fp_val f b = fp_rounded f r x \<and> (x \<noteq> 0 \<longrightarrow> fp_is_negative f b = (x < 0))
      else b = fp_overflow_value f r (x < 0))"

text \<open>The exception flags: overflow and inexact beyond the finite range, nothing for an exact result,
  inexact otherwise, with underflow when the exact value was below the normal range (tininess before
  rounding).\<close>

definition fp_flags :: "FpFormat \<Rightarrow> FpRounding \<Rightarrow> real \<Rightarrow> FpExceptions" where
  "fp_flags f r x =
     (if 2 powi (exponent_bias f + 1) \<le> \<bar>fp_rounded f r x\<bar> then fx_union fx_OVERFLOW fx_INEXACT
      else if fp_rounded f r x = x then fx_NONE
      else if \<bar>x\<bar> < 2 powi fp_min_exponent f then fx_union fx_INEXACT fx_UNDERFLOW
      else fx_INEXACT)"

definition ieee_result :: "FpFormat \<Rightarrow> FpRounding \<Rightarrow> real \<Rightarrow> FpResult \<Rightarrow> bool" where
  "ieee_result f r x res \<longleftrightarrow> correctly_rounded f r x (res_bits res) \<and> res_raised res = fp_flags f r x"

lemma ieee_overflowI:
  "2 powi (exponent_bias f + 1) \<le> \<bar>fp_rounded f r x\<bar> \<Longrightarrow>
     ieee_result f r x (res_raising (fp_overflow_value f r (x < 0)) (fx_union fx_OVERFLOW fx_INEXACT))"
  by (simp add: ieee_result_def correctly_rounded_def fp_flags_def res_raising_def)

lemma ieee_finiteI:
  "\<bar>fp_rounded f r x\<bar> < 2 powi (exponent_bias f + 1) \<Longrightarrow> fp_finite f b \<Longrightarrow> fp_val f b = fp_rounded f r x \<Longrightarrow>
     (x \<noteq> 0 \<Longrightarrow> fp_is_negative f b = (x < 0)) \<Longrightarrow>
     raised = (if fp_rounded f r x = x then fx_NONE
       else if \<bar>x\<bar> < 2 powi fp_min_exponent f then fx_union fx_INEXACT fx_UNDERFLOW else fx_INEXACT) \<Longrightarrow>
     ieee_result f r x (res_raising b raised)"
  by (simp add: ieee_result_def correctly_rounded_def fp_flags_def res_raising_def)

text \<open>Where the code departs from this: a value below the normal range that rounds up to a power of
  two.\<close>

definition subnormal_carry :: "FpFormat \<Rightarrow> FpRounding \<Rightarrow> real \<Rightarrow> bool" where
  "subnormal_carry f r x \<longleftrightarrow> \<bar>x\<bar> < 2 powi fp_min_exponent f \<and> \<bar>x\<bar> < \<bar>fp_rounded f r x\<bar>
     \<and> (\<exists>k. \<bar>fp_rounded f r x\<bar> = 2 powi k)"

definition with_sign :: "bool \<Rightarrow> real \<Rightarrow> real" where
  "with_sign is_negative x = (if is_negative then - x else x)"

lemma fp_val_with_sign: "fp_val f b = with_sign (fp_is_negative f b) (fp_abs f b)"
  by (simp add: fp_val_def with_sign_def)

lemma with_sign_neg: "0 < x \<Longrightarrow> (with_sign n x < 0) = n"
  by (simp add: with_sign_def)

lemma abs_with_sign: "0 \<le> x \<Longrightarrow> \<bar>with_sign n x\<bar> = x"
  by (simp add: with_sign_def)

text \<open>What the packing of an exact value gives in every case: the IEEE result, except that a subnormal
  carry of a value of at least an eighth of the smallest subnormal yields half of the correctly rounded
  number of units, rounded down, with the sign and the flags of the correct result.\<close>

definition fp_least :: "FpFormat \<Rightarrow> real" where
  "fp_least f = 2 powi (fp_min_exponent f - int (mantissa_bits f))"

definition packed_result :: "FpFormat \<Rightarrow> FpRounding \<Rightarrow> real \<Rightarrow> FpResult \<Rightarrow> bool" where
  "packed_result f r x res \<longleftrightarrow>
     (if subnormal_carry f r x \<and> fp_least f / 8 \<le> \<bar>x\<bar>
      then \<exists>n. \<bar>fp_rounded f r x\<bar> = real n * fp_least f \<and> fp_finite f (res_bits res)
        \<and> fp_is_negative f (res_bits res) = (x < 0)
        \<and> \<bar>fp_val f (res_bits res)\<bar> = real (n div 2) * fp_least f \<and> res_raised res = fp_flags f r x
      else ieee_result f r x res)"

lemma packed_ieee: "\<not> subnormal_carry f r x \<Longrightarrow> packed_result f r x res = ieee_result f r x res"
  by (simp add: packed_result_def)

lemma no_carry_zero: "\<not> subnormal_carry f r 0"
  by (simp add: subnormal_carry_def fp_rounded_def)


section \<open>Leading zeros\<close>

lemma bit_imp_le_unat: "bit w i \<Longrightarrow> 2 ^ i \<le> unat (w :: 'a::len word)"
proof (rule ccontr)
  assume "bit w i" "\<not> 2 ^ i \<le> unat w"
  then have "\<not> bit (unat w) i" by (simp add: bit_iff_odd)
  with \<open>bit w i\<close> show False by (auto simp: bit_unsigned_iff dest: bit_imp_le_length)
qed

lemma leading_zeros_bounds:
  assumes "w \<noteq> (0 :: 'a::len word)"
  shows "leading_zeros w < LENGTH('a)"
    and "2 ^ (LENGTH('a) - 1 - leading_zeros w) \<le> unat w"
    and "unat w < 2 ^ (LENGTH('a) - leading_zeros w)"
proof -
  note * = highest_bit [OF assms]
  show "leading_zeros w < LENGTH('a)" by (rule *(1))
  show "2 ^ (LENGTH('a) - 1 - leading_zeros w) \<le> unat w" by (rule bit_imp_le_unat [OF *(2)])
  have "take_bit (LENGTH('a) - leading_zeros w) w = w"
  proof (rule bit_word_eqI)
    fix n
    have "\<not> bit w n" if "\<not> n < LENGTH('a) - leading_zeros w"
      using *(1) that by (intro *(3)) simp
    then show "bit (take_bit (LENGTH('a) - leading_zeros w) w) n = bit w n"
      by (auto simp: bit_take_bit_iff)
  qed
  then show "unat w < 2 ^ (LENGTH('a) - leading_zeros w)"
    using take_bit_word_le_mask [of "LENGTH('a) - leading_zeros w" w] by simp
qed

lemma leading_zeros_eqI:
  assumes "2 ^ h \<le> unat w" "unat w < 2 ^ Suc h"
  shows "leading_zeros (w :: 'a::len word) = LENGTH('a) - Suc h"
proof -
  have "w \<noteq> 0" using assms(1) by auto
  note * = leading_zeros_bounds [OF this]
  have "(2::nat) ^ h < 2 ^ (LENGTH('a) - leading_zeros w)" using assms(1) *(3) by (rule le_less_trans)
  moreover have "(2::nat) ^ (LENGTH('a) - 1 - leading_zeros w) < 2 ^ Suc h" using *(2) assms(2) by (rule le_less_trans)
  ultimately have "h < LENGTH('a) - leading_zeros w" "LENGTH('a) - 1 - leading_zeros w < Suc h"
    by (simp_all only: power_strict_increasing_iff one_less_numeral_iff semiring_norm)
  then show ?thesis using *(1) by simp
qed

end
