(* ===== verification/Fp_Rounding.thy ===== *)
theory Fp_Rounding
  imports Fp_Value
begin

unbundle bit_operations_syntax

text \<open>
  The rounding step of \<open>fp/softfloat/decompose.rs\<close> against the specification of \<open>Fp_Value\<close>:
  unpacking keeps the value, normalising keeps the exact value (significand plus discarded tail), and
  \<open>round_and_pack\<close> gives the correctly rounded result with the flags IEEE 754 asks for, except where a
  subnormal rounds up to a power of two.
\<close>

section \<open>Powers of two\<close>

lemma powi_add [simp]: "(2::real) powi (a + b) = 2 powi a * 2 powi b"
  by (simp add: power_int_add)

lemma powi_nat_diff: "(2::real) powi (a - int n) * 2 ^ n = 2 powi a"
  by (simp add: power_int_diff)

lemma powi_le_iff: "(2::real) powi a \<le> 2 powi b \<longleftrightarrow> a \<le> b"
proof (cases "a \<le> b")
  case True
  then show ?thesis by (simp add: power_int_increasing)
next
  case False
  then show ?thesis using power_int_strict_increasing [of b a "2 :: real"] by simp
qed

lemma powi_less_iff: "(2::real) powi a < 2 powi b \<longleftrightarrow> a < b"
  using powi_le_iff [of b a] by (simp add: not_le [symmetric])

lemma floor_log_eq:
  assumes "2 powi k \<le> x" "x < 2 powi (k + 1)"
  shows "\<lfloor>log 2 x\<rfloor> = k"
proof -
  have "0 < x" using assms(1) by (rule less_le_trans [rotated]) simp
  moreover have "2 powr real_of_int k = 2 powi k" "2 powr (real_of_int k + 1) = 2 powi (k + 1)"
    using powr_real_of_int' [of 2 k] powr_real_of_int' [of 2 "k + 1"] by simp_all
  ultimately show ?thesis
    using assms by (simp add: floor_log_eq_powr_iff del: powi_add)
qed


lemma floor_log_less:
  assumes "0 < x" "x < 2 powi k"
  shows "\<lfloor>log 2 x\<rfloor> < k"
proof -
  have "log 2 x < real_of_int k" using assms by (subst log_less_iff) (simp_all add: powr_real_of_int')
  then show ?thesis by (simp add: floor_less_iff)
qed

lemma unat_take_bit_mod: "unat (take_bit k w) = unat (w :: 'a::len word) mod 2 ^ k"
  by (simp only: unsigned_take_bit_eq take_bit_eq_mod [where 'a = nat])

lemma unat_low_bits: "unat (w AND (push_bit k 1 - 1)) = unat (w :: 'a::len word) mod 2 ^ k"
proof -
  have "w AND (push_bit k 1 - 1) = take_bit k w" by (simp add: and_mask_take_bit)
  then show ?thesis by (simp only: unat_take_bit_mod)
qed

lemma low_bits_eq_0: "w AND (push_bit k 1 - 1) = 0 \<longleftrightarrow> unat (w :: 'a::len word) mod 2 ^ k = 0"
  by (simp only: unat_low_bits [symmetric] unat_eq_0)


section \<open>Unpacking keeps the value\<close>

text \<open>\<open>unpacked_ok f u x\<close>: a normalised significand with empty guard bits stands for the positive
  value \<open>x\<close>.\<close>

definition up_mag :: "FpFormat \<Rightarrow> Unpacked \<Rightarrow> real \<Rightarrow> real" where
  "up_mag f u d = (real (unat (up_significand u)) + d) * 2 powi (up_exponent u - int (mantissa_bits f + 3))"

definition unpacked_ok :: "FpFormat \<Rightarrow> Unpacked \<Rightarrow> real \<Rightarrow> bool" where
  "unpacked_ok f u x \<longleftrightarrow> 2 ^ (mantissa_bits f + 3) \<le> unat (up_significand u)
     \<and> unat (up_significand u) < 2 ^ (mantissa_bits f + 4) \<and> 8 dvd unat (up_significand u)
     \<and> up_mag f u 0 = x \<and> fp_min_exponent f - int (mantissa_bits f) \<le> up_exponent u
     \<and> up_exponent u \<le> exponent_bias f + 1"

lemma pow_mantissa_less: "j \<le> 11 \<Longrightarrow> (2::nat) ^ (mantissa_bits f + j) < 2 ^ 64"
  using mantissa_bits_bounds [of f] by (intro power_strict_increasing) simp_all

lemma unpack_zero:
  assumes "fp_wf f b" "fp_is_zero f b"
  shows "unpack b f = Some (unpacked_zero (fp_is_negative f b))"
proof -
  have "fp_exp f b = 0" "fp_man f b = 0" using assms by (simp_all add: fp_is_zero_iff)
  then have "drop_bit (mantissa_bits f) b AND ucast (max_exponent f) = 0" "b AND mantissa_mask f = 0"
    by (simp_all add: exponent_field mantissa_field fp_exp_def fp_man_def unat_eq_0)
  then show ?thesis by (simp add: unpack_def)
qed

lemma unpack_normal:
  assumes "fp_exp f b \<noteq> 0"
  shows "\<exists>u. unpack b f = Some u \<and> up_negative u = fp_is_negative f b \<and> unpacked_ok f u (fp_abs f b)"
proof -
  let ?m = "mantissa_bits f"
  define u where "u = \<lparr> up_negative = fp_is_negative f b,
    up_exponent = int (fp_exp f b) - exponent_bias f,
    up_significand = push_bit GUARD_BITS ((b AND mantissa_mask f) OR push_bit ?m 1) \<rparr>"
  have "uint (drop_bit ?m b AND ucast (max_exponent f)) = int (fp_exp f b)"
    by (simp add: exponent_field fp_exp_def)
  then have unp: "unpack b f = Some u" using assms by (simp add: unpack_def u_def)
  have "(take_bit ?m b OR push_bit ?m 1) = take_bit ?m b + push_bit ?m 1"
    by (rule disjunctive_add_eq_or [symmetric], rule bit_word_eqI) (auto simp: bit_simps)
  moreover have "unat (take_bit ?m b + push_bit ?m 1) = fp_man f b + 2 ^ ?m"
  proof -
    have "unat (push_bit ?m 1 :: u64) = 2 ^ ?m" using mantissa_bits_bounds [of f] by (simp add: unat_pow2)
    moreover have "fp_man f b + 2 ^ ?m < 2 ^ 64"
      using fp_man_less [of f b] pow_mantissa_less [of 1 f] by simp
    ultimately show ?thesis by (simp add: unat_add_ok fp_man_def)
  qed
  ultimately have "unat ((b AND mantissa_mask f) OR push_bit ?m 1) = 2 ^ ?m + fp_man f b"
    by (simp add: mantissa_field)
  moreover have "(2 ^ ?m + fp_man f b) * 2 ^ 3 < 2 ^ 64"
    using fp_man_less [of f b] pow_mantissa_less [of 4 f] by (simp add: power_add)
  ultimately have sig: "unat (up_significand u) = 8 * (2 ^ ?m + fp_man f b)"
    using unat_push_bit_small [of "(b AND mantissa_mask f) OR push_bit ?m 1" 3]
    by (simp add: u_def GUARD_BITS_def del: push_bit_or push_bit_and)
  have "up_mag f u 0 = real (2 ^ ?m + fp_man f b) * 2 powi (int (fp_exp f b) - exponent_bias f - int ?m)"
    by (simp add: up_mag_def sig, simp add: u_def power_int_diff field_simps)
  then have "up_mag f u 0 = fp_abs f b"
    using assms by (simp add: fp_abs_def fp_sig_def fp_unit_def)
  moreover have "up_exponent u \<le> exponent_bias f + 1"
  proof -
    have "int (fp_exp f b) < 2 ^ exponent_bits f" using fp_exp_less [of f b] by (simp flip: of_nat_less_iff)
    then show ?thesis using max_exponent_bias [of f] by (simp add: u_def)
  qed
  ultimately have "unpacked_ok f u (fp_abs f b)"
    using assms fp_man_less [of f b]
    by (simp add: unpacked_ok_def sig power_add fp_min_exponent_def) (simp add: u_def)
  with unp show ?thesis by (auto simp: u_def)
qed

lemma unpack_subnormal:
  assumes "fp_exp f b = 0" "fp_man f b \<noteq> 0"
  shows "\<exists>u. unpack b f = Some u \<and> up_negative u = fp_is_negative f b \<and> unpacked_ok f u (fp_abs f b)"
proof -
  let ?m = "mantissa_bits f" and ?w = "take_bit (mantissa_bits f) b"
  have uw: "unat ?w = fp_man f b" by (simp add: fp_man_def)
  then have "?w \<noteq> 0" using assms(2) by auto
  note lz = leading_zeros_bounds [OF this]
  define h where "h = 63 - leading_zeros ?w"
  have "64 - leading_zeros ?w = Suc h" using lz(1) by (simp add: h_def)
  then have h1: "2 ^ h \<le> fp_man f b" and h2: "fp_man f b < 2 ^ Suc h"
    using lz(2,3) uw by (simp_all add: h_def)
  have hm: "h < ?m"
  proof -
    have "(2::nat) ^ h < 2 ^ ?m" using h1 fp_man_less [of f b] by (rule le_less_trans)
    then show ?thesis by simp
  qed
  have le: "leading_zeros ?w = 63 - h" using lz(1) by (simp add: h_def)
  have shift: "count_sub (leading_zeros ?w) (63 - ?m) = Some (?m - h)"
    using hm mantissa_bits_bounds [of f] by (simp add: le count_sub_def)
  define k where "k = ?m - h + 3"
  have k3: "3 \<le> k" and k: "k < 64" and mk: "?m - h + 3 = k"
    using hm mantissa_bits_bounds [of f] by (simp_all add: k_def)
  have fits: "fp_man f b * 2 ^ k < 2 ^ (?m + 4)"
  proof -
    have "fp_man f b * 2 ^ k < 2 ^ Suc h * 2 ^ k" using h2 by simp
    also have "\<dots> = 2 ^ (Suc h + k)" by (rule power_add [symmetric])
    also have "Suc h + k = ?m + 4" using hm by (simp add: k_def)
    finally show ?thesis .
  qed
  have sig: "unat (push_bit k ?w) = fp_man f b * 2 ^ k"
    using fits pow_mantissa_less [of 4 f] uw by (subst unat_push_bit_small) auto
  have "push_bit k ?w AND significand_mask f = push_bit k ?w"
  proof -
    have "significand_mask f = 2 ^ (?m + 4) - 1" by (simp add: significand_mask_def GUARD_BITS_def add.commute)
    moreover have "take_bit (?m + 4) (push_bit k ?w) = push_bit k ?w"
      using fits sig by (simp add: unsigned_take_bit_eq take_bit_nat_eq_self_iff flip: unat_inj)
    ultimately show ?thesis by (simp only: and_mask_take_bit)
  qed
  then have unp: "unpack b f = Some \<lparr> up_negative = fp_is_negative f b,
      up_exponent = 1 - exponent_bias f - int (?m - h), up_significand = push_bit k ?w \<rparr>"
    (is "_ = Some ?u")
    using assms(1) \<open>?w \<noteq> 0\<close> k
    by (simp add: unpack_def exponent_field mantissa_field shift GUARD_BITS_def fp_exp_def
        unat_eq_0 Let_def mk del: add_diff_assoc2)
  have "2 ^ (?m + 3) \<le> fp_man f b * 2 ^ k"
  proof -
    have "?m + 3 = h + k" using hm by (simp add: k_def)
    then have "(2::nat) ^ (?m + 3) = 2 ^ h * 2 ^ k" by (metis power_add)
    then show ?thesis using h1 by simp
  qed
  moreover have "up_mag f ?u 0 = fp_abs f b"
  proof -
    have "up_mag f ?u 0 = real (fp_man f b) * (2 ^ k
        * 2 powi (1 - exponent_bias f - int (?m - h) - int (?m + 3)))"
      by (simp add: up_mag_def sig)
    also have "(2::real) ^ k * 2 powi (1 - exponent_bias f - int (?m - h) - int (?m + 3))
        = 2 powi (1 - exponent_bias f - int ?m)"
      unfolding k_def by (simp add: power_int_diff power_int_minus power_add field_simps)
    finally show ?thesis using assms by (simp add: fp_abs_def fp_sig_def fp_unit_def)
  qed
  moreover have "8 dvd fp_man f b * 2 ^ k"
    using le_imp_power_dvd [OF k3, of "2 :: nat"] by (intro dvd_mult) simp
  ultimately have "unpacked_ok f ?u (fp_abs f b)"
    using fits hm exponent_bias_pos [of f]
    by (simp add: unpacked_ok_def sig fp_min_exponent_def)
  with unp show ?thesis by simp
qed

lemma unpack_ok:
  assumes "fp_wf f b" "\<not> fp_is_zero f b"
  shows "\<exists>u. unpack b f = Some u \<and> up_negative u = fp_is_negative f b \<and> unpacked_ok f u (fp_abs f b)"
  using assms unpack_subnormal [of f b] unpack_normal [of f b] by (auto simp: fp_is_zero_iff)


section \<open>Normalising keeps the exact value\<close>

text \<open>The exact value behind a significand \<open>S\<close> and a sticky bit is \<open>S + d\<close> with a tail \<open>d\<close> that is
  positive exactly when the bit is set. One left shift may double the tail of an even significand.\<close>

definition tail_ok :: "nat \<Rightarrow> real \<Rightarrow> bool \<Rightarrow> bool" where
  "tail_ok S d is_sticky \<longleftrightarrow> 0 \<le> d \<and> (0 < d \<longleftrightarrow> is_sticky) \<and> (d < 1 \<or> (d < 2 \<and> even S))"

lemma tail_ok_shift:
  assumes "tail_ok S d s" "0 < k"
  shows "tail_ok (S div 2 ^ k) ((real (S mod 2 ^ k) + d) / 2 ^ k) (s \<or> S mod 2 ^ k \<noteq> 0)"
    and "real (S div 2 ^ k) + (real (S mod 2 ^ k) + d) / 2 ^ k = (real S + d) / 2 ^ k"
    and "real (S mod 2 ^ k) + d < 2 ^ k"
proof -
  have d: "0 \<le> d" "0 < d \<longleftrightarrow> s" using assms(1) by (simp_all add: tail_ok_def)
  show less: "real (S mod 2 ^ k) + d < 2 ^ k"
  proof -
    have lt: "S mod 2 ^ k < 2 ^ k" by simp
    show ?thesis
    proof (cases "d < 1")
      case True
      from lt have "real (S mod 2 ^ k) + 1 \<le> 2 ^ k"
        by (metis Suc_leI add.commute of_nat_Suc of_nat_le_iff of_nat_numeral of_nat_power)
      with True show ?thesis by simp
    next
      case False
      then have "even S" "d < 2" using assms(1) by (auto simp: tail_ok_def)
      then have "even (S mod 2 ^ k)" using assms(2) by (intro dvd_mod) simp_all
      then obtain i where i: "S mod 2 ^ k = 2 * i" by (rule evenE)
      from assms(2) have "even ((2::nat) ^ k)" by simp
      then obtain j where j: "(2::nat) ^ k = 2 * j" by (rule evenE)
      have "S mod 2 ^ k + 2 \<le> 2 ^ k" using lt unfolding i unfolding j by simp
      then have "real (S mod 2 ^ k) + 2 \<le> 2 ^ k" by (metis of_nat_add of_nat_le_iff of_nat_numeral of_nat_power)
      with \<open>d < 2\<close> show ?thesis by simp
    qed
  qed
  from less have "(real (S mod 2 ^ k) + d) / 2 ^ k < 1" by simp
  moreover have "0 < (real (S mod 2 ^ k) + d) / 2 ^ k \<longleftrightarrow> s \<or> S mod 2 ^ k \<noteq> 0"
  proof (cases "S mod 2 ^ k = 0")
    case True
    then show ?thesis using d by (simp add: zero_less_divide_iff)
  next
    case False
    then have "0 < real (S mod 2 ^ k)" by (simp only: of_nat_0_less_iff)
    then have "0 < real (S mod 2 ^ k) + d" using d(1) by (rule add_pos_nonneg)
    then show ?thesis using False by simp
  qed
  ultimately show "tail_ok (S div 2 ^ k) ((real (S mod 2 ^ k) + d) / 2 ^ k) (s \<or> S mod 2 ^ k \<noteq> 0)"
    using d(1) by (simp add: tail_ok_def)
  have "real S = real (S div 2 ^ k) * 2 ^ k + real (S mod 2 ^ k)"
    using arg_cong [OF div_mult_mod_eq [of S "2 ^ k", symmetric], of real]
    by (simp only: of_nat_add of_nat_mult of_nat_power of_nat_numeral)
  moreover have "a + (c + d) / 2 ^ k = (x + d) / 2 ^ k" if "x = a * 2 ^ k + c" for a c x :: real
    by (simp add: that field_simps)
  ultimately show "real (S div 2 ^ k) + (real (S mod 2 ^ k) + d) / 2 ^ k = (real S + d) / 2 ^ k"
    by blast
qed

lemma up_mag_cong: "up_mag f u d = (real S + d) * 2 powi (e - int (mantissa_bits f + 3))"
  if "unat (up_significand u) = S" "up_exponent u = e"
  using that by (simp add: up_mag_def)

lemma normalise_down_ok:
  assumes "tail_ok (unat (up_significand v)) d s" "d < 1"
  shows "\<exists>d'. let (v', s') = normalise_down f v s in
    tail_ok (unat (up_significand v')) d' s' \<and> d' < 1
    \<and> unat (up_significand v') < 2 ^ (mantissa_bits f + 4)
    \<and> (2 ^ (mantissa_bits f + 3) \<le> unat (up_significand v') \<or> (v' = v \<and> s' = s))
    \<and> up_negative v' = up_negative v \<and> up_mag f v' d' = up_mag f v d"
  using assms
proof (induction f v s arbitrary: d rule: normalise_down.induct)
  case (1 f v s)
  let ?S = "unat (up_significand v)" and ?m = "mantissa_bits f"
  have ib: "unat (push_bit 1 (implicit_bit f)) = 2 ^ (?m + 4)"
    using pow_mantissa_less [of 4 f]
    by (subst unat_push_bit_small) (simp_all add: unat_implicit_bit power_add)
  show ?case
  proof (cases "push_bit 1 (implicit_bit f) \<le> up_significand v")
    case False
    then have "?S < 2 ^ (?m + 4)" by (simp only: word_le_nat_alt ib not_le)
    with False show ?thesis
      using 1(2,3) by (subst normalise_down.simps) (intro exI [of _ d], simp)
  next
    case True
    let ?v = "v\<lparr>up_significand := drop_bit 1 (up_significand v), up_exponent := up_exponent v + 1\<rparr>"
    let ?s = "s \<or> up_significand v AND 1 \<noteq> 0"
    let ?d = "(real (?S mod 2) + d) / 2"
    have S: "unat (up_significand ?v) = ?S div 2" using unat_drop_bit [of 1 "up_significand v"] by simp
    have low: "(up_significand v AND 1 \<noteq> 0) = (?S mod 2 \<noteq> 0)"
      using low_bits_eq_0 [of "up_significand v" 1] by simp
    note shift = tail_ok_shift [OF 1(2) zero_less_one, unfolded power_one_right]
    have t: "tail_ok (unat (up_significand ?v)) ?d ?s" unfolding S low by (rule shift(1))
    note sum = shift(2)
    have "?S mod 2 \<le> 1" by simp
    then have "real (?S mod 2) \<le> real 1" by (rule of_nat_mono)
    then have "?d < 1" using 1(3) by simp
    note IH = 1(1) [OF True t this]
    have mag: "up_mag f ?v ?d = up_mag f v d"
    proof -
      have "up_mag f ?v ?d = (real ?S + d) / 2 * 2 powi (up_exponent v + 1 - int (?m + 3))"
        by (subst up_mag_cong [OF S, of "up_exponent v + 1"]) (simp, simp only: sum)
      also have "\<dots> = up_mag f v d"
        by (simp add: up_mag_def power_int_diff field_simps)
      finally show ?thesis .
    qed
    have "2 ^ (?m + 4) \<le> ?S" using True by (simp only: word_le_nat_alt ib)
    then have "2 ^ (?m + 3) \<le> ?S div 2" by (simp add: power_add)
    then have big: "2 ^ (?m + 3) \<le> unat (up_significand ?v)" unfolding S .
    obtain v' s' where v': "normalise_down f ?v ?s = (v', s')" by (cases "normalise_down f ?v ?s")
    have eq: "normalise_down f v s = (v', s')"
      using True by (subst normalise_down.simps) (simp only: if_True v')
    have "up_negative ?v = up_negative v" by simp
    with IH big show ?thesis unfolding v' eq mag by (auto simp: Let_def)
  qed
qed

lemma normalise_up_ok:
  "up_significand v \<noteq> 0 \<Longrightarrow> \<exists>k.
     unat (up_significand (normalise_up f v)) = unat (up_significand v) * 2 ^ k
     \<and> up_exponent (normalise_up f v) = up_exponent v - int k
     \<and> up_negative (normalise_up f v) = up_negative v
     \<and> 2 ^ (mantissa_bits f + 3) \<le> unat (up_significand (normalise_up f v))
     \<and> (k = 0 \<or> unat (up_significand v) * 2 ^ k < 2 ^ (mantissa_bits f + 4))"
proof (induction f v rule: normalise_up.induct)
  case (1 f v)
  let ?S = "unat (up_significand v)" and ?m = "mantissa_bits f"
  show ?case
  proof (cases "up_significand v < implicit_bit f")
    case False
    then have "2 ^ (?m + 3) \<le> ?S" by (simp only: word_less_nat_alt unat_implicit_bit not_less)
    with False show ?thesis by (subst (1 2 3 4) normalise_up.simps) (intro exI [of _ 0], simp)
  next
    case True
    let ?v = "v\<lparr>up_significand := push_bit 1 (up_significand v), up_exponent := up_exponent v - 1\<rparr>"
    have S: "unat (up_significand ?v) = 2 * ?S" using double_below_implicit [OF True] by simp
    moreover have "?S \<noteq> 0" using "1.prems" by (simp add: unat_eq_0)
    ultimately have "up_significand ?v \<noteq> 0" by (metis mult_eq_0_iff numeral_neq_zero unat_0)
    from 1(1) [OF _ this] True "1.prems" obtain k where k:
      "unat (up_significand (normalise_up f ?v)) = 2 * ?S * 2 ^ k"
      "up_exponent (normalise_up f ?v) = up_exponent v - 1 - int k"
      "up_negative (normalise_up f ?v) = up_negative v"
      "2 ^ (?m + 3) \<le> unat (up_significand (normalise_up f ?v))"
      "k = 0 \<or> 2 * ?S * 2 ^ k < 2 ^ (?m + 4)"
      unfolding S by auto
    have "?S < 2 ^ (?m + 3)" using True by (simp only: word_less_nat_alt unat_implicit_bit)
    then have "?S * 2 ^ Suc k < 2 ^ (?m + 4)" using k(5) by (auto simp: power_add)
    moreover have "normalise_up f v = normalise_up f ?v"
      using True "1.prems" by (subst normalise_up.simps) simp
    ultimately show ?thesis using k by (intro exI [of _ "Suc k"]) simp
  qed
qed

lemma normalise_ok:
  assumes "tail_ok (unat (up_significand v)) d s" "d < 1" "up_significand v \<noteq> 0"
    and "s \<Longrightarrow> 2 ^ (mantissa_bits f + 2) \<le> unat (up_significand v)"
  obtains v' s' d' where "normalise v s f = (v', s')" "tail_ok (unat (up_significand v')) d' s'"
    "2 ^ (mantissa_bits f + 3) \<le> unat (up_significand v')"
    "unat (up_significand v') < 2 ^ (mantissa_bits f + 4)"
    "up_negative v' = up_negative v" "up_mag f v' d' = up_mag f v d"
proof -
  let ?m = "mantissa_bits f"
  obtain v1 s1 where v1: "normalise_down f v s = (v1, s1)" by (cases "normalise_down f v s")
  obtain d1 where d1: "tail_ok (unat (up_significand v1)) d1 s1" "d1 < 1"
    "unat (up_significand v1) < 2 ^ (?m + 4)"
    "2 ^ (?m + 3) \<le> unat (up_significand v1) \<or> (v1 = v \<and> s1 = s)"
    "up_negative v1 = up_negative v" "up_mag f v1 d1 = up_mag f v d"
    using normalise_down_ok [OF assms(1,2), of f] by (auto simp: v1)
  have "up_significand v1 \<noteq> 0" using d1(4) assms(3) by auto
  from normalise_up_ok [OF this, of f] obtain k where k:
    "unat (up_significand (normalise_up f v1)) = unat (up_significand v1) * 2 ^ k"
    "up_exponent (normalise_up f v1) = up_exponent v1 - int k"
    "up_negative (normalise_up f v1) = up_negative v1"
    "2 ^ (?m + 3) \<le> unat (up_significand (normalise_up f v1))"
    "k = 0 \<or> unat (up_significand v1) * 2 ^ k < 2 ^ (?m + 4)" by blast
  have k1: "k \<le> 1" if "s1"
  proof -
    have "2 ^ (?m + 2) \<le> unat (up_significand v1)"
      using d1(4)
    proof
      assume "2 ^ (?m + 3) \<le> unat (up_significand v1)"
      moreover have "(2::nat) ^ (?m + 2) \<le> 2 ^ (?m + 3)" by (rule power_increasing) simp_all
      ultimately show ?thesis by (rule order_trans [rotated])
    next
      assume "v1 = v \<and> s1 = s"
      then show ?thesis using that assms(4) by simp
    qed
    then have "2 ^ (?m + 2) * 2 ^ k \<le> unat (up_significand v1) * 2 ^ k" by (rule mult_right_mono) simp
    then have le: "2 ^ (?m + 2 + k) \<le> unat (up_significand v1) * 2 ^ k" by (simp only: power_add)
    from k(5) show ?thesis
    proof
      assume "unat (up_significand v1) * 2 ^ k < 2 ^ (?m + 4)"
      with le have "(2::nat) ^ (?m + 2 + k) < 2 ^ (?m + 4)" by (rule le_less_trans)
      then have "?m + 2 + k < ?m + 4" by (rule power_less_imp_less_exp [rotated]) simp
      then show ?thesis by simp
    qed simp
  qed
  have "tail_ok (unat (up_significand (normalise_up f v1))) (d1 * 2 ^ k) s1"
  proof (cases s1)
    case True
    with k1 have "k = 0 \<or> k = 1" by auto
    then show ?thesis using d1(1,2) by (auto simp: k(1) tail_ok_def)
  next
    case False
    then show ?thesis using d1(1) by (auto simp: k(1) tail_ok_def)
  qed
  moreover have "unat (up_significand (normalise_up f v1)) < 2 ^ (?m + 4)"
    using k(1,5) d1(3) by auto
  moreover have "up_mag f (normalise_up f v1) (d1 * 2 ^ k) = up_mag f v d"
  proof -
    have "up_mag f (normalise_up f v1) (d1 * 2 ^ k)
        = (real (unat (up_significand v1)) + d1) * (2 ^ k * 2 powi (up_exponent v1 - int (?m + 3) - int k))"
      unfolding up_mag_def k(1,2) by (simp add: algebra_simps)
    also have "(2::real) ^ k * 2 powi (up_exponent v1 - int (?m + 3) - int k)
        = 2 powi (up_exponent v1 - int (?m + 3))"
      by (subst mult.commute) (rule powi_nat_diff)
    finally show ?thesis using d1(6) by (simp only: up_mag_def)
  qed
  ultimately show ?thesis
    using k(3,4) d1(5) by (intro that [of "normalise_up f v1" s1 "d1 * 2 ^ k"]) (simp_all add: normalise_def v1)
qed

end
