(* ===== verification/Fp_Pack.thy ===== *)
theory Fp_Pack
  imports Fp_Rounding
begin

unbundle bit_operations_syntax

text \<open>
  \<open>round_and_pack\<close> (\<open>fp/softfloat/decompose.rs\<close>) gives the correctly rounded result: the decision to
  round up, the carry into the next binade, the encoding of normal and subnormal results, overflow and
  underflow, each against the definitions of \<open>Fp_Value\<close>.
\<close>

section \<open>The rounding decision\<close>

definition rounds_up :: "FpRounding \<Rightarrow> nat \<Rightarrow> bool \<Rightarrow> bool \<Rightarrow> bool" where
  "rounds_up r S s is_negative \<longleftrightarrow> (S mod 8 \<noteq> 0 \<or> s) \<and> (case r of
       Fp_Nearest \<Rightarrow> 4 < S mod 8 \<or> (S mod 8 = 4 \<and> (s \<or> odd (S div 8)))
     | Fp_NearestAway \<Rightarrow> 4 \<le> S mod 8
     | Fp_Plus \<Rightarrow> \<not> is_negative
     | Fp_Minus \<Rightarrow> is_negative
     | _ \<Rightarrow> False)"

lemma tail_fraction:
  assumes "tail_ok S d s"
  defines "x \<equiv> (real S + d) / 8"
  shows "\<lfloor>x\<rfloor> = int (S div 8)"
    and "x - real (S div 8) < 1 / 2 \<longleftrightarrow> S mod 8 < 4"
    and "x - real (S div 8) = 1 / 2 \<longleftrightarrow> S mod 8 = 4 \<and> \<not> s"
    and "x = real (S div 8) \<longleftrightarrow> S mod 8 = 0 \<and> \<not> s"
    and "0 \<le> x"
proof -
  define q t where "q = S div 8" and "t = S mod 8"
  have S: "real S = 8 * real q + real t"
    using arg_cong [OF mult_div_mod_eq [of 8 S, symmetric], of real]
    by (simp only: q_def t_def of_nat_add of_nat_mult of_nat_numeral)
  have t: "t < 8" by (simp add: t_def)
  have d: "0 \<le> d" "0 < d \<longleftrightarrow> s" "d < 1 \<or> (d < 2 \<and> even t)"
    using assms(1) by (auto simp: tail_ok_def t_def dvd_mod_iff)
  have x: "x - real q = (real t + d) / 8" by (simp add: x_def S field_simps)
  have "t \<in> {0, 1, 2, 3, 4, 5, 6, 7}" using t by auto
  then have lim: "real t + d < 8" "real t + d < 4 \<longleftrightarrow> t < 4" "real t + d = 4 \<longleftrightarrow> t = 4 \<and> \<not> s"
    "real t + d = 0 \<longleftrightarrow> t = 0 \<and> \<not> s"
    using d by auto
  have half: "y / 8 < 1 / 2 \<longleftrightarrow> y < 4" "y / 8 = 1 / 2 \<longleftrightarrow> y = 4" for y :: real
    by (intro iffI; linarith)+
  have nn: "0 \<le> (real t + d) / 8" using d(1) by simp
  show "\<lfloor>x\<rfloor> = int (S div 8)"
    unfolding q_def [symmetric] using x nn lim(1) by (intro floor_unique) (simp_all add: field_simps)
  show "x - real (S div 8) < 1 / 2 \<longleftrightarrow> S mod 8 < 4"
    unfolding q_def [symmetric] t_def [symmetric] x half lim ..
  show "x - real (S div 8) = 1 / 2 \<longleftrightarrow> S mod 8 = 4 \<and> \<not> s"
    unfolding q_def [symmetric] t_def [symmetric] x half lim ..
  show "x = real (S div 8) \<longleftrightarrow> S mod 8 = 0 \<and> \<not> s"
  proof -
    have "x = real q \<longleftrightarrow> x - real q = 0" by simp
    also have "\<dots> \<longleftrightarrow> real t + d = 0" unfolding x by simp
    finally have "x = real q \<longleftrightarrow> real t + d = 0" .
    then show ?thesis unfolding q_def [symmetric] t_def [symmetric] using lim(4) by simp
  qed
  show "0 \<le> x" using d(1) by (simp add: x_def)
qed

lemma round_int_tail:
  assumes "tail_ok S d s" "r \<noteq> Fp_Odd"
  shows "round_int r n ((real S + d) / 8) = int (S div 8 + of_bool (rounds_up r S s n))"
proof -
  note f = tail_fraction [OF assms(1)]
  let ?x = "(real S + d) / 8"
  have c: "\<lceil>?x\<rceil> = int (S div 8) + of_bool (S mod 8 \<noteq> 0 \<or> s)"
  proof (cases "S mod 8 = 0 \<and> \<not> s")
    case True
    then have "?x = real (S div 8)" using f(4) by simp
    then show ?thesis using True by simp
  next
    case False
    then have "?x \<noteq> real_of_int \<lfloor>?x\<rfloor>" using f(1,4) by simp
    then show ?thesis using False f(1) by (simp add: ceiling_altdef)
  qed
  have fl: "real_of_int \<lfloor>?x\<rfloor> = real (S div 8)" using f(1) by simp
  have nearest: "S mod 8 < 4 \<or> (S mod 8 = 4 \<and> \<not> s \<and> even (S div 8))
      \<longleftrightarrow> \<not> rounds_up Fp_Nearest S s n"
    by (auto simp: rounds_up_def)
  show ?thesis
  proof (cases r)
    case Fp_Nearest
    then show ?thesis
      unfolding round_int_def Fp_Nearest FpRounding.case fl f(2,3) using nearest by (auto simp: f(1))
  next
    case Fp_NearestAway
    then show ?thesis
      unfolding round_int_def Fp_NearestAway FpRounding.case fl f(2) by (auto simp: f(1) rounds_up_def)
  qed (use assms(2) in \<open>simp_all add: round_int_def f(1) c rounds_up_def\<close>)
qed

lemma should_round_up_eq:
  assumes "unat w mod 8 \<noteq> 0 \<or> s"
  shows "should_round_up (w AND (push_bit GUARD_BITS 1 - 1)) s w r n = rounds_up r (unat w) s n"
proof -
  let ?d = "w AND (push_bit GUARD_BITS 1 - 1)"
  have d: "unat ?d = unat w mod 8" using unat_low_bits [of w 3] by (simp add: GUARD_BITS_def)
  have half: "push_bit (GUARD_BITS - 1) 1 = (4 :: u64)" by (simp add: GUARD_BITS_def)
  have "4 < x \<longleftrightarrow> 4 < unat x" "x = 4 \<longleftrightarrow> unat x = 4" "4 \<le> x \<longleftrightarrow> 4 \<le> unat x" for x :: u64
    by (simp_all add: word_less_nat_alt word_le_nat_alt word_unat_eq_iff)
  note cmp = this [of ?d, unfolded d]
  have odd: "w AND push_bit GUARD_BITS 1 \<noteq> 0 \<longleftrightarrow> odd (unat w div 8)"
  proof -
    have "w AND push_bit GUARD_BITS 1 \<noteq> 0 \<longleftrightarrow> bit w 3"
      by (simp add: GUARD_BITS_def bit_iff_and_push_bit_not_eq_0)
    also have "\<dots> \<longleftrightarrow> bit (unat w) 3" by (simp add: bit_unsigned_iff)
    finally show ?thesis by (simp add: bit_iff_odd)
  qed
  show ?thesis
    using assms unfolding should_round_up_def rounds_up_def half Let_def cmp odd by (cases r) auto
qed

text \<open>\<open>round_significand\<close> on a significand whose leading bit is bit \<open>h\<close>. The result is eight times the
  rounded value, halved with the exponent raised when rounding carried past bit \<open>h\<close>.\<close>

lemma leading_zeros_0: "leading_zeros (0 :: 'a::len word) = LENGTH('a)"
  by (simp add: leading_zeros_def takeWhile_eq_all_conv [THEN iffD2])

lemma clear_guard_bits: "v AND NOT (push_bit GUARD_BITS 1 - 1) = push_bit 3 (drop_bit 3 (v :: u64))"
proof -
  have "push_bit GUARD_BITS 1 - 1 = (mask 3 :: u64)" by (simp add: GUARD_BITS_def mask_eq_exp_minus_1)
  then show ?thesis by (intro bit_word_eqI) (auto simp: bit_simps)
qed

lemma round_significand_ok:
  assumes "2 ^ h \<le> unat w" "unat w < 2 ^ Suc h" "h < 62"
    and n_def: "n = unat w div 8 + of_bool (rounds_up r (unat w) s neg)"
  shows "\<exists>w'. round_significand w e s r neg
      = Some (w', if 8 * n < 2 ^ Suc h then e else e + 1,
              if unat w mod 8 \<noteq> 0 \<or> s then fx_INEXACT else fx_NONE)
    \<and> unat w' = (if 8 * n < 2 ^ Suc h then 8 * n else 4 * n)"
proof (cases "unat w mod 8 \<noteq> 0 \<or> s")
  case False
  then have "n = unat w div 8" "unat w mod 8 = 0" by (auto simp: n_def rounds_up_def)
  then have "unat w = 8 * n" by presburger
  moreover have "w AND (push_bit GUARD_BITS 1 - 1) = 0"
    using False low_bits_eq_0 [of w 3] by (simp add: GUARD_BITS_def)
  ultimately show ?thesis
    using False assms(2) by (simp add: round_significand_def)
next
  case True
  let ?d = "w AND (push_bit GUARD_BITS 1 - 1)" and ?inc = "rounds_up r (unat w) s neg"
  have d: "?d \<noteq> 0 \<or> s" using True low_bits_eq_0 [of w 3] by (simp add: GUARD_BITS_def)
  have small: "unat w < 2 ^ 62"
  proof -
    have "(2::nat) ^ Suc h \<le> 2 ^ 62" using assms(3) by (intro power_increasing) simp_all
    with assms(2) show ?thesis by (rule less_le_trans)
  qed
  let ?r0 = "w + (if ?inc then push_bit GUARD_BITS 1 else 0)"
  have r0: "checked_add w (if ?inc then push_bit GUARD_BITS 1 else 0) = Some ?r0"
    "unat ?r0 = unat w + 8 * of_bool ?inc"
    using small by (simp_all add: checked_add_def GUARD_BITS_def unat_add_ok)
  define r1 where "r1 = ?r0 AND NOT (push_bit GUARD_BITS 1 - 1)"
  have r1: "r1 = push_bit 3 (drop_bit 3 ?r0)" unfolding r1_def by (rule clear_guard_bits)
  have ur1: "unat r1 = 8 * n"
  proof -
    have "(unat w + 8 * of_bool ?inc) div 8 = n" by (simp add: n_def)
    then have "unat (drop_bit 3 ?r0) = n" using unat_drop_bit [of 3 ?r0] r0(2) by simp
    moreover have "n * 8 \<le> unat w + 8"
      using div_times_less_eq_dividend [of "unat w" 8] by (cases ?inc) (simp_all add: n_def)
    then have "n * 8 < 2 ^ 64" using small by simp
    ultimately show ?thesis using r1 unat_push_bit_small [of "drop_bit 3 ?r0" 3] by simp
  qed
  have lz: "leading_zeros w = 64 - Suc h" using leading_zeros_eqI [OF assms(1,2)] by simp
  have carry: "leading_zeros r1 < leading_zeros w \<longleftrightarrow> 2 ^ Suc h \<le> 8 * n"
  proof (cases "r1 = 0")
    case True
    then show ?thesis using ur1 by (simp add: leading_zeros_0 lz)
  next
    case False
    note b = leading_zeros_bounds [OF this]
    show ?thesis
    proof
      assume "leading_zeros r1 < leading_zeros w"
      then have "Suc h \<le> 63 - leading_zeros r1" using assms(3) by (simp add: lz)
      then have "(2::nat) ^ Suc h \<le> 2 ^ (63 - leading_zeros r1)" by (intro power_increasing) simp_all
      also have "\<dots> \<le> unat r1" using b(2) by simp
      finally show "2 ^ Suc h \<le> 8 * n" by (simp only: ur1)
    next
      assume "2 ^ Suc h \<le> 8 * n"
      moreover have "8 * n < 2 ^ (64 - leading_zeros r1)" using b(3) by (simp add: ur1)
      ultimately have "(2::nat) ^ Suc h < 2 ^ (64 - leading_zeros r1)" by (rule le_less_trans)
      then have "Suc h < 64 - leading_zeros r1" by (rule power_less_imp_less_exp [rotated]) simp
      then show "leading_zeros r1 < leading_zeros w" by (simp add: lz)
    qed
  qed
  have up: "should_round_up ?d s w r neg = ?inc" using True by (rule should_round_up_eq)
  have "round_significand w e s r neg =
      Some (if 2 ^ Suc h \<le> 8 * n then (drop_bit 1 r1, e + 1, fx_INEXACT) else (r1, e, fx_INEXACT))"
    unfolding round_significand_def Let_def up r0(1) bind.simps r1_def [symmetric] carry
    using d by simp
  moreover have "unat (drop_bit 1 r1) = 4 * n" using unat_drop_bit [of 1 r1] by (simp add: ur1)
  ultimately show ?thesis using True ur1 by (auto simp: not_less)
qed


section \<open>Encoding\<close>

lemma bit_imp_less: "unat w < 2 ^ k \<Longrightarrow> bit w i \<Longrightarrow> i < k" for w :: "'a::len word"
proof -
  assume "unat w < 2 ^ k" "bit w i"
  then have "(2::nat) ^ i < 2 ^ k" using bit_imp_le_unat [of w i] by (meson le_less_trans)
  then show "i < k" by simp
qed

lemma encode_fields:
  fixes X Y :: u64
  assumes X: "unat X < 2 ^ exponent_bits f" and Y: "unat Y < 2 ^ mantissa_bits f"
    and b: "b = push_bit (sign_shift f) (of_bool neg) OR push_bit (mantissa_bits f) X OR Y"
  shows "fp_wf f b" "fp_exp f b = unat X" "fp_man f b = unat Y" "fp_is_negative f b = neg"
proof -
  let ?m = "mantissa_bits f" and ?e = "exponent_bits f"
  note w = format_widths [of f]
  have s: "sign_shift f = ?m + ?e" and me: "?m + ?e < 64" using w by simp_all
  have Xb: "bit X i \<Longrightarrow> i < ?e" and Yb: "bit Y i \<Longrightarrow> i < ?m" for i
    using bit_imp_less [OF X] bit_imp_less [OF Y] by blast+
  have bb: "bit b i \<longleftrightarrow> (i = ?m + ?e \<and> neg) \<or> (?m \<le> i \<and> bit X (i - ?m)) \<or> bit Y i" for i
    using me by (auto simp: b s bit_simps dest: Xb Yb)
  have "take_bit ?m b = Y"
    by (rule bit_word_eqI) (auto simp: bit_take_bit_iff bb dest: Yb)
  then show "fp_man f b = unat Y" by (simp add: fp_man_def)
  have "take_bit ?e (drop_bit ?m b) = X"
    using Yb by (intro bit_word_eqI) (fastforce simp: bit_take_bit_iff bit_drop_bit_eq bb dest: Xb)
  then show "fp_exp f b = unat X" by (simp add: fp_exp_def)
  have "\<not> bit X ?e" "\<not> bit Y (?m + ?e)" using Xb Yb by fastforce+
  then show "fp_is_negative f b = neg" by (simp add: fp_is_negative_bit s bb)
  have "take_bit (fp_bits f) b = b"
    using w(1) by (intro bit_word_eqI) (auto simp: bit_take_bit_iff bb dest: Xb Yb)
  then show "fp_wf f b" using take_bit_word_le_mask [of "fp_bits f" b] by (simp add: fp_wf_def)
qed

text \<open>The value of an encoded magnitude: \<open>n\<close> units of the last place of exponent \<open>e\<close>.\<close>

lemma encode_finite:
  assumes "fp_wf f b" "fp_exp f b = ex" "ex < 2 ^ exponent_bits f - 1"
  shows "fp_finite f b"
  using assms by (simp add: fp_finite_def is_nan_iff is_infinite_iff)

lemma abs_normal:
  assumes "fp_exp f b = ex" "0 < ex" "fp_man f b = n - 2 ^ mantissa_bits f" "2 ^ mantissa_bits f \<le> n"
    "int ex = e + exponent_bias f"
  shows "fp_abs f b = real n * 2 powi (e - int (mantissa_bits f))"
  using assms by (simp add: fp_abs_def fp_sig_def fp_unit_def)

lemma abs_subnormal:
  assumes "fp_exp f b = 0" "fp_man f b = n"
  shows "fp_abs f b = real n * 2 powi (fp_min_exponent f - int (mantissa_bits f))"
  using assms by (simp add: fp_abs_def fp_sig_def fp_unit_def fp_min_exponent_def)


section \<open>The rounded value of a significand\<close>

lemma rounded_significand:
  assumes t: "tail_ok S d s" and r: "r \<noteq> Fp_Odd"
    and q: "max \<lfloor>log 2 x\<rfloor> (fp_min_exponent f) - int (mantissa_bits f) = q"
    and x: "x = (real S + d) / 8 * 2 powi q" "0 < x"
    and n: "n = S div 8 + of_bool (rounds_up r S s neg)"
  shows "fp_rounded f r (with_sign neg x) = with_sign neg (real n * 2 powi q)"
    and "fp_rounded f r (with_sign neg x) = with_sign neg x \<longleftrightarrow> S mod 8 = 0 \<and> \<not> s"
proof -
  have fq: "fp_quantum f (with_sign neg x) = 2 powi q"
    using x(2) q by (simp add: fp_quantum_def abs_with_sign)
  have quot: "\<bar>with_sign neg x\<bar> / fp_quantum f (with_sign neg x) = (real S + d) / 8"
    using x by (simp add: fq abs_with_sign)
  have sign: "(with_sign neg x < 0) = neg" "sgn (with_sign neg x) = (if neg then - 1 else 1)"
    using x(2) by (simp_all add: with_sign_def)
  show *: "fp_rounded f r (with_sign neg x) = with_sign neg (real n * 2 powi q)"
    unfolding fp_rounded_def unfolding quot unfolding sign fq round_int_tail [OF t r] n [symmetric]
    by (simp add: with_sign_def)
  have "real n * 2 powi q = x \<longleftrightarrow> real n = (real S + d) / 8" unfolding x(1) by simp
  also have "\<dots> \<longleftrightarrow> S mod 8 = 0 \<and> \<not> s"
  proof (cases "S mod 8 = 0 \<and> \<not> s")
    case True
    then have "n = S div 8" by (simp add: n rounds_up_def)
    moreover have "(real S + d) / 8 = real (S div 8)" by (rule tail_fraction(4) [OF t, THEN iffD2, OF True])
    ultimately show ?thesis using True by (simp only: simp_thms)
  next
    case False
    let ?x = "(real S + d) / 8"
    have "?x \<noteq> real (S div 8)" using False by (simp only: tail_fraction(4) [OF t] simp_thms)
    moreover have "real (S div 8) \<le> ?x" "?x < real (S div 8) + 1"
      using tail_fraction(1) [OF t] by (simp_all add: floor_eq_iff)
    ultimately have "real (S div 8) < ?x" "?x < real (S div 8) + 1" by simp_all
    then show ?thesis using False by (cases "rounds_up r S s neg") (simp_all add: n)
  qed
  finally show "fp_rounded f r (with_sign neg x) = with_sign neg x \<longleftrightarrow> S mod 8 = 0 \<and> \<not> s"
    unfolding * by (simp add: with_sign_def)
qed


section \<open>Normal results\<close>

lemma tail_sum_less: "tail_ok S d s \<Longrightarrow> S < 2 ^ k \<Longrightarrow> 0 < k \<Longrightarrow> real S + d < 2 ^ k"
  using tail_ok_shift(3) [of S d s k] by simp

lemma fp_overflow_ok:
  "r \<noteq> Fp_Odd \<Longrightarrow> fp_overflow n f r
    = res_raising (fp_overflow_value f r n) (fx_union fx_OVERFLOW fx_INEXACT)"
  by (cases r) (simp_all add: fp_overflow_def fp_overflow_value_def)

text \<open>A normalised significand puts the value into the binade of its exponent.\<close>

lemma mag_binade:
  assumes t: "tail_ok (unat (up_significand v)) d s"
    and S: "2 ^ (mantissa_bits f + 3) \<le> unat (up_significand v)"
      "unat (up_significand v) < 2 ^ (mantissa_bits f + 4)"
  defines "q \<equiv> up_exponent v - int (mantissa_bits f)"
  shows "up_mag f v d = (real (unat (up_significand v)) + d) / 8 * 2 powi q"
    and "2 powi up_exponent v \<le> up_mag f v d" and "up_mag f v d < 2 powi (up_exponent v + 1)"
    and "0 < up_mag f v d" and "\<lfloor>log 2 (up_mag f v d)\<rfloor> = up_exponent v"
proof -
  let ?m = "mantissa_bits f" and ?S = "unat (up_significand v)" and ?e = "up_exponent v"
  show x: "up_mag f v d = (real ?S + d) / 8 * 2 powi q"
    by (simp add: up_mag_def q_def power_int_diff field_simps)
  have m3: "(2::real) ^ (?m + 3) = 8 * 2 ^ ?m" "(2::real) ^ (?m + 4) = 16 * 2 ^ ?m" by (simp_all add: power_add)
  have "2 ^ (?m + 3) \<le> real ?S" using of_nat_mono [OF S(1), where 'a = real] by simp
  then have lo: "2 ^ ?m \<le> (real ?S + d) / 8" using t m3 by (simp add: tail_ok_def)
  have hi: "(real ?S + d) / 8 < 2 * 2 ^ ?m" using tail_sum_less [OF t S(2)] m3 by simp
  have pq: "2 ^ ?m * 2 powi q = (2::real) powi ?e" "2 * 2 ^ ?m * 2 powi q = (2::real) powi (?e + 1)"
    by (simp_all add: q_def power_int_diff)
  show xlo: "2 powi ?e \<le> up_mag f v d"
    unfolding x pq(1) [symmetric] using lo by (intro mult_right_mono) simp_all
  show xhi: "up_mag f v d < 2 powi (?e + 1)"
    unfolding x pq(2) [symmetric] using hi by (intro mult_strict_right_mono) simp_all
  show "0 < up_mag f v d" using xlo by (rule less_le_trans [rotated]) simp
  show "\<lfloor>log 2 (up_mag f v d)\<rfloor> = ?e" using xlo xhi by (rule floor_log_eq)
qed

lemma encode_normal:
  assumes N: "2 ^ mantissa_bits f \<le> N" "N < 2 ^ Suc (mantissa_bits f)" "unat w div 8 = N"
    and e: "fp_min_exponent f \<le> e" "e \<le> exponent_bias f"
    and b: "b = push_bit (sign_shift f) (of_bool neg)
      OR push_bit (mantissa_bits f) (word_of_int (e + exponent_bias f) :: u64)
      OR (drop_bit GUARD_BITS w AND mantissa_mask f)"
  shows "fp_finite f b" "fp_val f b = with_sign neg (real N * 2 powi (e - int (mantissa_bits f)))"
    "fp_is_negative f b = neg"
proof -
  let ?m = "mantissa_bits f" and ?X = "word_of_int (e + exponent_bias f) :: u64"
  let ?Y = "drop_bit GUARD_BITS w AND mantissa_mask f"
  define ex where "ex = nat (e + exponent_bias f)"
  have exe: "int ex = e + exponent_bias f" "0 < ex" using e by (auto simp: ex_def fp_min_exponent_def)
  have "int ex < 2 ^ exponent_bits f - 1" using e(2) exe(1) max_exponent_bias [of f] by simp
  then have "int ex < int (2 ^ exponent_bits f - 1)" by (simp add: of_nat_diff)
  then have exl: "ex < 2 ^ exponent_bits f - 1" by (simp only: of_nat_less_iff)
  have X: "unat ?X = ex"
  proof -
    have "ex < 2 ^ 64"
      using exl power_increasing [OF format_widths(6) [of f], of "2 :: nat"] by simp
    moreover have "?X = word_of_nat ex" using exe(1) by (metis of_int_of_nat_eq)
    ultimately show ?thesis using unat_of_nat_small [of ex, where 'a = 64] by simp
  qed
  have "unat (drop_bit GUARD_BITS w) = N"
    using unat_drop_bit [of 3 w] N(3) by (simp add: GUARD_BITS_def)
  then have "unat ?Y = N mod 2 ^ ?m" unfolding mantissa_field unat_take_bit_mod by (simp only:)
  also have "\<dots> = N - 2 ^ ?m" using N by (simp add: mod_if)
  finally have Y: "unat ?Y = N - 2 ^ ?m" .
  have "unat ?X < 2 ^ exponent_bits f" "unat ?Y < 2 ^ ?m" using exl X Y N by simp_all
  note enc = encode_fields [OF this b, unfolded X Y]
  show "fp_finite f b" using enc(1,2) exl by (rule encode_finite)
  show "fp_is_negative f b = neg" by (rule enc(4))
  have "fp_abs f b = real N * 2 powi (e - int ?m)"
    using enc(2) exe(2) enc(3) N(1) exe(1) by (rule abs_normal)
  then show "fp_val f b = with_sign neg (real N * 2 powi (e - int ?m))"
    by (simp only: fp_val_with_sign enc(4))
qed

lemma pack_normal_ok:
  assumes t: "tail_ok (unat (up_significand v)) d s" and r: "rc_rounding ctx \<noteq> Fp_Odd"
    and S: "2 ^ (mantissa_bits f + 3) \<le> unat (up_significand v)"
      "unat (up_significand v) < 2 ^ (mantissa_bits f + 4)"
    and e: "fp_min_exponent f \<le> up_exponent v"
  shows "\<exists>res. pack_normalised (v, s) f ctx = Some res
    \<and> ieee_result f (rc_rounding ctx) (with_sign (up_negative v) (up_mag f v d)) res"
proof -
  let ?m = "mantissa_bits f" and ?S = "unat (up_significand v)" and ?e = "up_exponent v"
  let ?neg = "up_negative v" and ?r = "rc_rounding ctx" and ?x = "up_mag f v d"
  define n where "n = ?S div 8 + of_bool (rounds_up ?r ?S s ?neg)"
  define q where "q = ?e - int ?m"
  note bin = mag_binade [OF t S, folded q_def]
  have max: "max \<lfloor>log 2 ?x\<rfloor> (fp_min_exponent f) - int ?m = q" using e by (simp add: q_def bin(5))
  note rnd = rounded_significand [OF t r max bin(1,4) n_def]
  have abs: "\<bar>fp_rounded f ?r (with_sign ?neg ?x)\<bar> = real n * 2 powi q"
    unfolding rnd(1) by (rule abs_with_sign) simp
  define N where "N = (if n < 2 ^ Suc ?m then n else 2 ^ ?m)"
  define e' where "e' = (if n < 2 ^ Suc ?m then ?e else ?e + 1)"
  have nlo: "2 ^ ?m \<le> n" and nhi: "n \<le> 2 ^ Suc ?m" using S by (auto simp: n_def power_add)
  then have N: "2 ^ ?m \<le> N" "N < 2 ^ Suc ?m" "real n * 2 powi q = real N * 2 powi (e' - int ?m)"
    by (auto simp: N_def e'_def q_def power_int_diff)
  let ?fl = "if ?S mod 8 \<noteq> 0 \<or> s then fx_INEXACT else fx_NONE"
  obtain w where rs: "round_significand (up_significand v) ?e s ?r ?neg = Some (w, e', ?fl)"
    and w: "unat w div 8 = N"
  proof -
    have "?m + 3 < 62" using mantissa_bits_bounds [of f] by simp
    moreover have "unat (up_significand v) < 2 ^ Suc (?m + 3)" using S(2) by (simp add: power_add)
    ultimately show ?thesis
      using round_significand_ok [OF S(1) _ _ n_def, of ?e] that nhi
      by (auto simp: power_add e'_def N_def)
  qed
  have lim: "2 powi e' \<le> real n * 2 powi q" "real n * 2 powi q < 2 powi (e' + 1)"
  proof -
    have "real (2 ^ ?m) \<le> real N" "real N < real (2 ^ Suc ?m)" using N(1,2) by (simp_all only: of_nat_le_iff of_nat_less_iff)
    then show "2 powi e' \<le> real n * 2 powi q" "real n * 2 powi q < 2 powi (e' + 1)"
      unfolding N(3) by (simp_all add: power_int_diff field_simps)
  qed
  have le_min: "2 powi fp_min_exponent f \<le> ?x" using e bin(2) by (meson order_trans powi_le_iff)
  show ?thesis
  proof (cases "e' > exponent_bias f")
    case True
    then have "2 powi (exponent_bias f + 1) \<le> (2::real) powi e'" by (simp add: powi_le_iff del: powi_add)
    then have "ieee_result f ?r (with_sign ?neg ?x) (fp_overflow ?neg f ?r)"
      using lim(1) ieee_overflowI [of f ?r "with_sign ?neg ?x"]
      unfolding abs fp_overflow_ok [OF r] with_sign_neg [OF bin(4)] by linarith
    then show ?thesis
      using True rs e by (simp add: pack_normalised_def fp_min_exponent_def)
  next
    case False
    let ?b = "push_bit (sign_shift f) (of_bool ?neg)
      OR push_bit ?m (word_of_int (e' + exponent_bias f) :: u64) OR (drop_bit GUARD_BITS w AND mantissa_mask f)"
    have "fp_min_exponent f \<le> e'" "e' \<le> exponent_bias f" using e False by (auto simp: e'_def)
    note enc = encode_normal [OF N(1,2) w this refl, of ?neg]
    have val: "fp_val f ?b = fp_rounded f ?r (with_sign ?neg ?x)" by (simp only: enc(2) N(3) rnd(1))
    have "(2::real) powi (e' + 1) \<le> 2 powi (exponent_bias f + 1)"
      using False by (simp add: powi_le_iff del: powi_add)
    then have "ieee_result f ?r (with_sign ?neg ?x) (res_raising ?b ?fl)"
      using lim(2) le_min bin(4) enc(3) with_sign_neg [OF bin(4), of ?neg]
      by (intro ieee_finiteI [OF _ enc(1) val]) (simp_all only: abs rnd(2), simp_all add: abs_with_sign del: powi_add)
    then show ?thesis
      using False rs e by (simp add: pack_normalised_def fp_min_exponent_def Let_def)
  qed
qed


section \<open>Subnormal results\<close>

lemma encode_subnormal:
  assumes "unat Y < 2 ^ mantissa_bits f" "unat Y = n"
    and "b = push_bit (sign_shift f) (of_bool neg) OR Y"
  shows "fp_finite f b" "fp_is_negative f b = neg"
    and "fp_val f b = with_sign neg (real n * 2 powi (fp_min_exponent f - int (mantissa_bits f)))"
proof -
  have "unat (0 :: u64) < 2 ^ exponent_bits f" by simp
  note enc = encode_fields [OF this assms(1), of b neg]
  have b: "b = push_bit (sign_shift f) (of_bool neg) OR push_bit (mantissa_bits f) 0 OR Y"
    using assms(3) by simp
  show "fp_is_negative f b = neg" by (rule enc(4) [OF b])
  have "(32::nat) \<le> 2 ^ exponent_bits f"
    using power_increasing [OF format_widths(5) [of f], of "2 :: nat"] by simp
  then show "fp_finite f b" using enc(1,2) [OF b] by (intro encode_finite [where ex = 0]) simp_all
  have "fp_abs f b = real n * 2 powi (fp_min_exponent f - int (mantissa_bits f))"
    using enc(2,3) [OF b] assms(2) by (intro abs_subnormal) simp_all
  then show "fp_val f b = with_sign neg (real n * 2 powi (fp_min_exponent f - int (mantissa_bits f)))"
    by (simp only: fp_val_with_sign enc(4) [OF b])
qed

lemma subnormal_quantum:
  assumes "0 < x" "x < 2 powi fp_min_exponent f"
  shows "max \<lfloor>log 2 x\<rfloor> (fp_min_exponent f) - int (mantissa_bits f)
    = fp_min_exponent f - int (mantissa_bits f)"
  using floor_log_less [OF assms] by simp

text \<open>A subnormal result: \<open>n\<close> units of the smallest subnormal, with the flags of an underflow.\<close>

lemma subnormal_result:
  assumes t: "tail_ok S d s" and r: "r \<noteq> Fp_Odd"
    and x: "x = (real S + d) / 8 * 2 powi (fp_min_exponent f - int (mantissa_bits f))" "0 < x"
      "x < 2 powi fp_min_exponent f"
    and n: "n = S div 8 + of_bool (rounds_up r S s neg)" "n < 2 ^ mantissa_bits f"
    and Y: "unat Y = n" and b: "b = push_bit (sign_shift f) (of_bool neg) OR Y"
    and raised: "raised = (if S mod 8 = 0 \<and> \<not> s then fx_NONE else fx_union fx_INEXACT fx_UNDERFLOW)"
  shows "ieee_result f r (with_sign neg x) (res_raising b raised)"
proof -
  let ?q = "fp_min_exponent f - int (mantissa_bits f)"
  note max = subnormal_quantum [OF x(2,3)]
  note rnd = rounded_significand [OF t r max x(1,2) n(1)]
  have "real n < 2 ^ mantissa_bits f" using n(2) by (metis of_nat_less_iff of_nat_numeral of_nat_power)
  then have "real n * 2 powi ?q < 2 ^ mantissa_bits f * 2 powi ?q" by (intro mult_strict_right_mono) simp_all
  also have "\<dots> = 2 powi fp_min_exponent f" by (simp add: power_int_diff)
  also have "\<dots> \<le> 2 powi (exponent_bias f + 1)"
    using exponent_bias_pos [of f] by (simp add: powi_le_iff fp_min_exponent_def del: powi_add)
  finally have fin: "\<bar>fp_rounded f r (with_sign neg x)\<bar> < 2 powi (exponent_bias f + 1)"
    unfolding rnd(1) by (simp add: abs_with_sign del: powi_add)
  note enc = encode_subnormal [OF n(2) [folded Y] Y b]
  have "fp_val f b = fp_rounded f r (with_sign neg x)" by (simp only: enc(3) rnd(1))
  then show ?thesis
    using fin enc(1) x(2,3) raised
    by (intro ieee_finiteI) (simp_all add: rnd(2) abs_with_sign enc(2) with_sign_neg [OF x(2)] del: powi_add)
qed

lemma rounds_up_far: "rounds_up r 0 True neg \<longleftrightarrow> (r = Fp_Plus \<and> \<not> neg) \<or> (r = Fp_Minus \<and> neg)"
  by (cases r) (simp_all add: rounds_up_def)

lemma zero_or_minimum_eq:
  "round_to_zero_or_minimum neg f r
    = push_bit (sign_shift f) (of_bool neg) OR of_bool (rounds_up r 0 True neg)"
  by (cases r) (simp_all add: round_to_zero_or_minimum_def fp_zero_def rounds_up_far)

text \<open>Without a carry, the rounded significand keeps its leading bit.\<close>

lemma no_carry:
  assumes t: "tail_ok S d s" and r: "r \<noteq> Fp_Odd" and h: "S < 2 ^ Suc h"
    and x: "x = (real S + d) / 8 * 2 powi (fp_min_exponent f - int (mantissa_bits f))" "0 < x"
      "x < 2 powi fp_min_exponent f"
    and n: "n = S div 8 + of_bool (rounds_up r S s neg)"
    and nc: "\<not> subnormal_carry f r (with_sign neg x)"
  shows "8 * n < 2 ^ Suc h"
proof (rule ccontr)
  let ?q = "fp_min_exponent f - int (mantissa_bits f)"
  assume "\<not> 8 * n < 2 ^ Suc h"
  then have big: "2 ^ Suc h \<le> 8 * n" by simp
  have "real S + d < 2 ^ Suc h" using tail_sum_less [OF t h] by simp
  also have "\<dots> \<le> 8 * real n" using of_nat_mono [OF big, where 'a = real] by simp
  finally have "x < real n * 2 powi ?q"
    unfolding x(1) by (intro mult_strict_right_mono) simp_all
  moreover have "\<exists>j. n = 2 ^ j"
  proof (cases "h < 3")
    case True
    then have "(2::nat) ^ Suc h \<le> 2 ^ 3" by (intro power_increasing) simp_all
    then have "S div 8 = 0" using h by simp
    then have "n = 2 ^ 0" using big by (cases "rounds_up r S s neg") (simp_all add: n)
    then show ?thesis ..
  next
    case False
    then have "Suc h = 3 + (h - 2)" by simp
    then have p: "(2::nat) ^ Suc h = 8 * 2 ^ (h - 2)"
      using power_add [of "2 :: nat" 3 "h - 2"] by (simp only:) simp
    have "S div 8 < 2 ^ (h - 2)" using h unfolding p by (simp add: less_mult_imp_div_less mult.commute)
    moreover have "2 ^ (h - 2) \<le> n" using big unfolding p by simp
    ultimately have "n = 2 ^ (h - 2)" by (cases "rounds_up r S s neg") (simp_all add: n)
    then show ?thesis ..
  qed
  then obtain j where "n = 2 ^ j" ..
  then have "real n * 2 powi ?q = 2 powi (int j + ?q)" by (simp del: powi_add add: power_int_add)
  moreover have "\<bar>fp_rounded f r (with_sign neg x)\<bar> = real n * 2 powi ?q"
  proof -
    note max = subnormal_quantum [OF x(2,3)]
    show ?thesis
      unfolding rounded_significand(1) [OF t r max x(1,2) n] by (rule abs_with_sign) simp
  qed
  ultimately show False
    using nc x(2,3) unfolding subnormal_carry_def by (auto simp: abs_with_sign simp del: powi_add)
qed

text \<open>Conversely, without a carry of the significand the value is not one of the exceptions.\<close>

lemma no_carry_value:
  assumes t: "tail_ok S d s" and r: "r \<noteq> Fp_Odd" and h: "2 ^ h \<le> S"
    and x: "x = (real S + d) / 8 * 2 powi (fp_min_exponent f - int (mantissa_bits f))" "0 < x"
      "x < 2 powi fp_min_exponent f"
    and n: "n = S div 8 + of_bool (rounds_up r S s neg)"
    and small: "8 * n < 2 ^ Suc h"
  shows "\<not> subnormal_carry f r (with_sign neg x)"
proof
  let ?q = "fp_min_exponent f - int (mantissa_bits f)"
  assume carry: "subnormal_carry f r (with_sign neg x)"
  have "\<bar>fp_rounded f r (with_sign neg x)\<bar> = real n * 2 powi ?q"
    unfolding rounded_significand(1) [OF t r subnormal_quantum [OF x(2,3)] x(1,2) n] by (rule abs_with_sign) simp
  with carry obtain k where lt: "x < real n * 2 powi ?q" and k: "real n * 2 powi ?q = 2 powi k"
    using x(2) by (auto simp: subnormal_carry_def abs_with_sign)
  have "(real S + d) / 8 < real n" using lt unfolding x(1) by simp
  then have "real S < 8 * real n" using t by (simp add: tail_ok_def)
  then have S: "S < 8 * n" using of_nat_less_iff [of S "8 * n", where 'a = real] by simp
  have nk: "real n = 2 powi (k - ?q)" unfolding power_int_diff [of "2::real", OF disjI1, simplified] k [symmetric] by simp
  have "0 \<le> k - ?q"
  proof (rule ccontr)
    assume "\<not> 0 \<le> k - ?q"
    then have "real n < 2 powi 0" unfolding nk by (intro power_int_strict_increasing) simp_all
    then show False using S by simp
  qed
  then have "real n = real (2 ^ nat (k - ?q))" unfolding nk by (simp add: power_int_def)
  then have n2: "n = 2 ^ nat (k - ?q)" by (simp only: of_nat_eq_iff)
  have "2 ^ h < (2::nat) ^ (nat (k - ?q) + 3)" using h S by (simp add: n2 power_add)
  then have "Suc h \<le> nat (k - ?q) + 3" by (simp only: power_strict_increasing_iff one_less_numeral_iff semiring_norm Suc_le_eq)
  then have "(2::nat) ^ Suc h \<le> 2 ^ (nat (k - ?q) + 3)" by (rule power_increasing) simp
  then show False using small by (simp add: n2 power_add)
qed

lemma fx_union_commute: "fx_union a b = fx_union b a"
  by (simp add: fx_union_def or.commute)

lemma fx_INEXACT_not_empty: "\<not> fx_is_empty fx_INEXACT" "fx_is_empty fx_NONE"
  by (simp_all add: fx_is_empty_def fx_defs)

text \<open>The lost carry: half of the units, and the flags of the correct result.\<close>

lemma halved_result:
  assumes t: "tail_ok S d s" and r: "r \<noteq> Fp_Odd"
    and x: "x = (real S + d) / 8 * 2 powi (fp_min_exponent f - int (mantissa_bits f))" "0 < x"
      "x < 2 powi fp_min_exponent f"
    and n: "n = S div 8 + of_bool (rounds_up r S s neg)" "n \<le> 2 ^ mantissa_bits f"
    and carry: "subnormal_carry f r (with_sign neg x)" "fp_least f / 8 \<le> x"
    and Y: "unat Y = n div 2" and b: "b = push_bit (sign_shift f) (of_bool neg) OR Y"
    and raised: "raised = (if S mod 8 = 0 \<and> \<not> s then fx_NONE else fx_union fx_INEXACT fx_UNDERFLOW)"
  shows "packed_result f r (with_sign neg x) (res_raising b raised)"
proof -
  let ?q = "fp_min_exponent f - int (mantissa_bits f)"
  note rnd = rounded_significand [OF t r subnormal_quantum [OF x(2,3)] x(1,2) n(1)]
  have "real n \<le> 2 ^ mantissa_bits f" using n(2) by (metis of_nat_le_iff of_nat_numeral of_nat_power)
  then have "real n * 2 powi ?q \<le> 2 ^ mantissa_bits f * 2 powi ?q" by (intro mult_right_mono) simp_all
  also have "\<dots> = 2 powi fp_min_exponent f" by (simp add: power_int_diff)
  also have "\<dots> < 2 powi (exponent_bias f + 1)"
    using exponent_bias_pos [of f] by (intro power_int_strict_increasing) (simp_all add: fp_min_exponent_def)
  finally have fin: "\<bar>fp_rounded f r (with_sign neg x)\<bar> < 2 powi (exponent_bias f + 1)"
    unfolding rnd(1) by (simp add: abs_with_sign del: powi_add)
  have "0 < n" using carry(1) unfolding subnormal_carry_def rnd(1) by (auto simp: abs_with_sign x(2) intro!: Nat.gr0I)
  then have "n div 2 < n" by simp
  with n(2) Y have "unat Y < 2 ^ mantissa_bits f" by simp
  note enc = encode_subnormal [OF this Y b]
  have flags: "raised = fp_flags f r (with_sign neg x)"
    using fin x(2,3) by (simp add: raised fp_flags_def rnd(2) abs_with_sign del: powi_add)
  have val: "\<bar>fp_val f b\<bar> = real (n div 2) * fp_least f"
    unfolding enc(3) fp_least_def by (rule abs_with_sign) simp
  have rd: "\<bar>fp_rounded f r (with_sign neg x)\<bar> = real n * fp_least f"
    unfolding rnd(1) fp_least_def by (rule abs_with_sign) simp
  have "fp_least f / 8 \<le> \<bar>with_sign neg x\<bar>" using carry(2) x(2) by (simp add: abs_with_sign)
  with carry(1) show ?thesis
    unfolding packed_result_def using rd enc(1,2) val flags with_sign_neg [OF x(2), of neg]
    by (auto simp: res_raising_def)
qed

lemma pack_subnormal_ok:
  assumes t: "tail_ok (unat (up_significand v)) d s" and r: "rc_rounding ctx \<noteq> Fp_Odd"
    and S: "2 ^ (mantissa_bits f + 3) \<le> unat (up_significand v)"
      "unat (up_significand v) < 2 ^ (mantissa_bits f + 4)"
    and e: "up_exponent v < fp_min_exponent f"
  shows "\<exists>res. pack_normalised (v, s) f ctx = Some res
    \<and> packed_result f (rc_rounding ctx) (with_sign (up_negative v) (up_mag f v d)) res"
proof -
  let ?m = "mantissa_bits f" and ?S = "unat (up_significand v)" and ?e = "up_exponent v"
  let ?neg = "up_negative v" and ?r = "rc_rounding ctx" and ?x = "up_mag f v d"
  define k where "k = nat (fp_min_exponent f - ?e)"
  have k: "0 < k" "int k = fp_min_exponent f - ?e" using e by (simp_all add: k_def)
  define S1 d1 s1 where "S1 = ?S div 2 ^ k" and "d1 = (real (?S mod 2 ^ k) + d) / 2 ^ k"
    and "s1 = (s \<or> ?S mod 2 ^ k \<noteq> 0)"
  note sh = tail_ok_shift(1,2) [OF t k(1), folded S1_def d1_def s1_def]
  note bin = mag_binade [OF t S]
  have x: "?x = (real S1 + d1) / 8 * 2 powi (fp_min_exponent f - int ?m)"
  proof -
    have "?e - int ?m = fp_min_exponent f - int ?m - int k" using k(2) by simp
    then have "(2::real) powi (?e - int ?m) = 2 powi (fp_min_exponent f - int ?m) / 2 ^ k"
      using powi_nat_diff [of "fp_min_exponent f - int ?m" k] by (simp only: eq_divide_eq) simp
    then show ?thesis unfolding bin(1) sh(2) by simp
  qed
  have xmin: "?x < 2 powi fp_min_exponent f"
    using e by (intro less_le_trans [OF bin(3)]) (simp add: powi_le_iff del: powi_add)
  define n where "n = S1 div 8 + of_bool (rounds_up ?r S1 s1 ?neg)"
  note result = subnormal_result [OF sh(1) r x bin(4) xmin n_def]
  have least: "2 powi (fp_min_exponent f - int ?m - 3) = fp_least f / 8"
    using powi_nat_diff [of "fp_min_exponent f - int ?m" 3] by (simp add: fp_least_def)
  have xabs: "\<bar>with_sign ?neg ?x\<bar> = ?x" using bin(4) by (simp add: abs_with_sign)
  have sub: "pack_normalised (v, s) f ctx = pack_subnormal v s f ctx"
    using e by (simp add: pack_normalised_def fp_min_exponent_def)
  have shift: "nat (1 - exponent_bias f - ?e) = k" by (simp add: k_def fp_min_exponent_def)
  show ?thesis
  proof (cases "?m + 4 \<le> k")
    case True
    then have "(2::nat) ^ (?m + 4) \<le> 2 ^ k" by (intro power_increasing) simp_all
    then have lt: "?S < 2 ^ k" using S(2) by (rule less_le_trans [rotated])
    then have "S1 = 0" "?S mod 2 ^ k = ?S" by (simp_all add: S1_def)
    moreover have "0 < ?S" using S(1) by (rule less_le_trans [rotated]) simp
    ultimately have s1: "S1 = 0" "s1" by (simp_all add: s1_def)
    have n1: "n = of_bool (rounds_up ?r 0 True ?neg)" using s1 by (simp add: n_def)
    have "n < 2 ^ ?m" using one_less_power [of "2 :: nat" ?m] mantissa_bits_bounds(1) [of f] by (simp add: n1)
    then have "ieee_result f ?r (with_sign ?neg ?x)
        (res_raising (round_to_zero_or_minimum ?neg f ?r) (fx_union fx_UNDERFLOW fx_INEXACT))"
      using s1 n1 by (intro result [OF _ _ zero_or_minimum_eq]) (simp_all add: fx_union_commute)
    moreover have "?x < fp_least f / 8"
      using True k(2) unfolding least [symmetric] by (intro less_le_trans [OF bin(3)]) (simp add: powi_le_iff del: powi_add)
    ultimately have "packed_result f ?r (with_sign ?neg ?x)
        (res_raising (round_to_zero_or_minimum ?neg f ?r) (fx_union fx_UNDERFLOW fx_INEXACT))"
      by (simp add: packed_result_def xabs)
    then show ?thesis using True sub shift by (simp add: pack_subnormal_def Let_def GUARD_BITS_def)
  next
    case False
    define h where "h = ?m + 3 - k"
    have hk: "?m + 3 = h + k" using False by (simp add: h_def)
    let ?w = "drop_bit k (up_significand v)"
    have w: "unat ?w = S1" by (simp only: unat_drop_bit S1_def)
    have hk4: "?m + 4 = Suc h + k" using hk by simp
    have "2 ^ h \<le> S1"
      using S(1) unfolding hk by (simp add: S1_def less_eq_div_iff_mult_less_eq power_add)
    moreover have "S1 < 2 ^ Suc h"
      using S(2) unfolding hk4 by (simp add: S1_def div_less_iff_less_mult power_add)
    ultimately have hS: "2 ^ h \<le> unat ?w" "unat ?w < 2 ^ Suc h" unfolding w by simp_all
    have h62: "h < 62" using hk mantissa_bits_bounds [of f] by simp
    obtain w' e' where rs: "round_significand ?w (1 - exponent_bias f) s1 ?r ?neg
        = Some (w', e', if S1 mod 8 \<noteq> 0 \<or> s1 then fx_INEXACT else fx_NONE)"
      and w': "unat w' = (if 8 * n < 2 ^ Suc h then 8 * n else 4 * n)"
      using round_significand_ok [OF hS h62 n_def [folded w], of "1 - exponent_bias f"] by (auto simp: w)
    have Y: "unat (drop_bit GUARD_BITS w') = (if 8 * n < 2 ^ Suc h then n else n div 2)"
      using unat_drop_bit [of 3 w'] by (auto simp: w' GUARD_BITS_def)
    have le: "(2::nat) ^ Suc h \<le> 2 ^ (?m + 3)" using hk k(1) by (intro power_increasing) simp_all
    let ?res = "res_raising (push_bit (sign_shift f) (of_bool ?neg) OR drop_bit GUARD_BITS w')
        (if S1 mod 8 = 0 \<and> \<not> s1 then fx_NONE else fx_union fx_INEXACT fx_UNDERFLOW)"
    have "packed_result f ?r (with_sign ?neg ?x) ?res"
    proof (cases "8 * n < 2 ^ Suc h")
      case True
      then have "n < 2 ^ ?m" using le by (simp add: power_add)
      then show ?thesis
        using result [OF _ _ refl refl] Y True no_carry_value [OF sh(1) r hS(1) [unfolded w] x bin(4) xmin n_def True]
        by (simp add: packed_ieee)
    next
      case False
      have "subnormal_carry f ?r (with_sign ?neg ?x)"
        using no_carry [OF sh(1) r hS(2) [unfolded w] x bin(4) xmin n_def] False by blast
      moreover have "n \<le> 2 ^ ?m"
      proof -
        have "S1 < 2 ^ (?m + 3)" using hS(2) le unfolding w by simp
        then have "S1 div 8 < 2 ^ ?m" by (simp add: power_add div_less_iff_less_mult)
        then show ?thesis by (simp add: n_def)
      qed
      moreover have "fp_least f / 8 \<le> ?x"
        using \<open>\<not> ?m + 4 \<le> k\<close> k(2) unfolding least [symmetric]
        by (intro order_trans [OF _ bin(2)]) (simp add: powi_le_iff del: powi_add)
      ultimately show ?thesis
        using Y False by (intro halved_result [OF sh(1) r x bin(4) xmin n_def _ _ _ _ refl refl]) simp_all
    qed
    moreover have "pack_subnormal v s f ctx = Some (res_raising
        (push_bit (sign_shift f) (of_bool ?neg) OR drop_bit GUARD_BITS w')
        (if S1 mod 8 = 0 \<and> \<not> s1 then fx_NONE else fx_union fx_INEXACT fx_UNDERFLOW))"
    proof -
      have "up_significand v AND (push_bit k 1 - 1) \<noteq> 0 \<longleftrightarrow> ?S mod 2 ^ k \<noteq> 0" by (simp only: low_bits_eq_0)
      moreover have "k < 64" "\<not> ?m + 1 + GUARD_BITS \<le> k"
        using False mantissa_bits_bounds [of f] by (simp_all add: GUARD_BITS_def)
      ultimately show ?thesis
        using rs unfolding pack_subnormal_def Let_def shift s1_def
        by (auto simp: fx_INEXACT_not_empty)
    qed
    ultimately show ?thesis using sub by auto
  qed
qed


section \<open>Rounding and packing\<close>

text \<open>The exact value is the significand with a tail below one unit. A significand with a tail must have
  lost at most one leading bit: the three guard bits then still decide the rounding.\<close>

theorem round_and_pack_ok:
  assumes "tail_ok (unat (up_significand v)) d (rc_sticky ctx)" "d < 1" "up_significand v \<noteq> 0"
    and "rc_sticky ctx \<Longrightarrow> 2 ^ (mantissa_bits f + 2) \<le> unat (up_significand v)"
    and "rc_rounding ctx \<noteq> Fp_Odd" "\<not> is_flushing f (rc_control ctx)"
    and x: "x = with_sign (up_negative v) (up_mag f v d)"
  shows "\<exists>res. round_and_pack v f ctx = Some res \<and> packed_result f (rc_rounding ctx) x res"
proof -
  obtain v' s' d' where n: "normalise v (rc_sticky ctx) f = (v', s')"
    and n': "tail_ok (unat (up_significand v')) d' s'"
      "2 ^ (mantissa_bits f + 3) \<le> unat (up_significand v')"
      "unat (up_significand v') < 2 ^ (mantissa_bits f + 4)"
      "up_negative v' = up_negative v" "up_mag f v' d' = up_mag f v d"
    using normalise_ok [OF assms(1-4)] by blast
  have "\<exists>res. pack_normalised (v', s') f ctx = Some res \<and> packed_result f (rc_rounding ctx) x res"
  proof (cases "fp_min_exponent f \<le> up_exponent v'")
    case True
    then have "2 powi fp_min_exponent f \<le> (2::real) powi up_exponent v'" by (simp add: powi_le_iff)
    also have "\<dots> \<le> up_mag f v' d'" by (rule mag_binade(2) [OF n'(1-3)])
    finally have "2 powi fp_min_exponent f \<le> \<bar>x\<bar>"
      using mag_binade(4) [OF n'(1-3)] by (simp add: x n'(5) abs_with_sign)
    then have "\<not> subnormal_carry f (rc_rounding ctx) x" by (simp add: subnormal_carry_def)
    then show ?thesis
      using pack_normal_ok [OF n'(1) assms(5) n'(2,3) True] by (simp add: packed_ieee n'(4,5) x)
  next
    case False
    then have "up_exponent v' < fp_min_exponent f" by simp
    then show ?thesis
      using pack_subnormal_ok [OF n'(1) assms(5) n'(2,3)] by (simp add: n'(4,5) x)
  qed
  then show ?thesis
    using assms(3,6) n
    by (auto simp: round_and_pack_def unpacked_is_zero_def apply_flush_to_zero_def)
qed

text \<open>A multiple of the smallest subnormal below the normal range is exact.\<close>

lemma round_int_of_nat: "round_int r n (real k) = int k"
  by (cases r) (simp_all add: round_int_def)

lemma rounded_multiple:
  assumes "\<bar>x\<bar> = real N * 2 powi (fp_min_exponent f - int (mantissa_bits f))"
    and "\<bar>x\<bar> < 2 powi fp_min_exponent f"
  shows "fp_rounded f r x = x"
proof (cases "x = 0")
  case False
  then have "0 < \<bar>x\<bar>" by simp
  then have q: "fp_quantum f x = 2 powi (fp_min_exponent f - int (mantissa_bits f))"
    using subnormal_quantum [OF _ assms(2)] by (simp add: fp_quantum_def)
  have "\<bar>x\<bar> / fp_quantum f x = real N" unfolding q assms(1) by simp
  then have "fp_rounded f r x = sgn x * (real N * fp_quantum f x)"
    by (simp add: fp_rounded_def round_int_of_nat)
  also have "\<dots> = sgn x * \<bar>x\<bar>" by (simp only: q assms(1))
  finally show ?thesis by (simp add: sgn_mult_abs)
qed (simp add: fp_rounded_def)

lemma no_subnormal_carry:
  "2 powi fp_min_exponent f \<le> \<bar>x\<bar> \<Longrightarrow> \<not> subnormal_carry f r x"
  "\<bar>x\<bar> = real N * 2 powi (fp_min_exponent f - int (mantissa_bits f)) \<Longrightarrow> \<not> subnormal_carry f r x"
  using rounded_multiple [of x N f r] by (auto simp: subnormal_carry_def)

lemma rounded_zero: "fp_rounded f r 0 = 0"
  by (simp add: fp_rounded_def)

lemma fp_zero_fields:
  "fp_finite f (fp_zero f n)" "fp_val f (fp_zero f n) = 0" "fp_is_negative f (fp_zero f n) = n"
proof -
  have "unat (0 :: u64) < 2 ^ exponent_bits f" "unat (0 :: u64) < 2 ^ mantissa_bits f" by simp_all
  note enc = encode_fields [OF this, of "fp_zero f n" n]
  have "fp_zero f n = push_bit (sign_shift f) (of_bool n) OR push_bit (mantissa_bits f) 0 OR 0"
    by (simp add: fp_zero_def)
  note enc = enc [OF this]
  show "fp_is_negative f (fp_zero f n) = n" by (rule enc(4))
  have "(32::nat) \<le> 2 ^ exponent_bits f"
    using power_increasing [OF format_widths(5) [of f], of "2 :: nat"] by simp
  then show "fp_finite f (fp_zero f n)" using enc(1,2) by (intro encode_finite [where ex = 0]) simp_all
  show "fp_val f (fp_zero f n) = 0"
    using enc(2,3) fp_abs_eq_0_iff [of f "fp_zero f n"] by (simp add: fp_val_def)
qed

lemma zero_result_ok: "ieee_result f r 0 (res_exact (fp_zero f n))"
proof -
  have "0 < (2::real) powi (exponent_bias f + 1)" by simp
  then have "\<not> (2::real) powi (exponent_bias f + 1) \<le> 0" by (simp only: not_le)
  then show ?thesis
    by (simp add: ieee_result_def correctly_rounded_def fp_flags_def res_exact_def rounded_zero
        fp_zero_fields del: powi_add)
qed

end
