(* ===== verification/Fp_Arithmetic.thy ===== *)
theory Fp_Arithmetic
  imports Fp_Decompose
begin

unbundle bit_operations_syntax

text \<open>
  Add, subtract, multiply, divide and square root over unpacked significands:
  \<open>fp/softfloat/arithmetic.rs\<close>. An option is a panic, as everywhere; the cases a special operand
  decides (\<open>Option\<close> in the source) are options nested inside.
\<close>

record Context =
  cx_format :: FpFormat
  cx_rounding :: FpRounding
  cx_control :: FpControl

definition rounding_context :: "Context \<Rightarrow> bool \<Rightarrow> RoundingContext" where
  "rounding_context cx is_sticky =
     \<lparr> rc_rounding = cx_rounding cx, rc_sticky = is_sticky, rc_control = cx_control cx \<rparr>"

definition cx_pack :: "Context \<Rightarrow> Unpacked \<Rightarrow> bool \<Rightarrow> FpResult option" where
  "cx_pack cx v is_sticky = round_and_pack v (cx_format cx) (rounding_context cx is_sticky)"

definition flush_input :: "u64 \<Rightarrow> Context \<Rightarrow> u64 \<times> FpExceptions" where
  "flush_input b cx =
     (if \<not> is_flushing (cx_format cx) (cx_control cx) \<or> \<not> is_subnormal (cx_format cx) b
      then (b, fx_NONE)
      else (fp_zero (cx_format cx) (fp_is_negative (cx_format cx) b), fx_INPUT_DENORMAL))"

definition flush_pair :: "u64 \<Rightarrow> u64 \<Rightarrow> Context \<Rightarrow> u64 \<times> u64 \<times> FpExceptions" where
  "flush_pair lhs rhs cx =
     (let (lhs1, from_lhs) = flush_input lhs cx;
          (rhs1, from_rhs) = flush_input rhs cx
      in (lhs1, rhs1, fx_union from_lhs from_rhs))"

definition fp_with_flags :: "FpResult \<Rightarrow> FpExceptions \<Rightarrow> FpResult" where
  "fp_with_flags result raised = res_raising (res_bits result) (fx_union (res_raised result) raised)"


section \<open>Addition\<close>

definition add_infinities :: "u64 \<Rightarrow> u64 \<Rightarrow> Context \<Rightarrow> FpResult option" where
  "add_infinities lhs rhs cx =
     (let f = cx_format cx;
          is_lhs_infinite = is_infinite f lhs;
          is_rhs_infinite = is_infinite f rhs
      in if \<not> is_lhs_infinite \<and> \<not> is_rhs_infinite then None
         else if is_lhs_infinite \<and> is_rhs_infinite then
           if fp_is_negative f lhs \<noteq> fp_is_negative f rhs then Some (invalid_operation f)
           else Some (res_exact lhs)
         else Some (res_exact (if is_lhs_infinite then lhs else rhs)))"

definition is_larger :: "Unpacked \<Rightarrow> Unpacked \<Rightarrow> bool" where
  "is_larger lhs rhs \<longleftrightarrow> up_exponent lhs > up_exponent rhs
     \<or> (up_exponent lhs = up_exponent rhs \<and> up_significand lhs \<ge> up_significand rhs)"

definition fp_align :: "u64 \<Rightarrow> nat \<Rightarrow> u64 \<times> bool" where
  "fp_align significand shift =
     (if shift \<ge> 64 then (0, significand \<noteq> 0)
      else let discarded = significand AND (push_bit shift 1 - 1)
           in (drop_bit shift significand, discarded \<noteq> 0))"

definition subtract_aligned :: "Unpacked \<Rightarrow> u64 \<Rightarrow> bool \<Rightarrow> Context \<Rightarrow> (Unpacked \<times> bool) option" where
  "subtract_aligned larger aligned is_sticky0 cx = do {
     (significand, is_sticky) \<leftarrow>
       (if is_sticky0 then do {
          d \<leftarrow> checked_sub (up_significand larger) aligned;
          d1 \<leftarrow> checked_sub d 1;
          Some (d1, True)
        } else do {
          d \<leftarrow> checked_sub (up_significand larger) aligned;
          Some (d, False)
        });
     (if significand = 0 \<and> \<not> is_sticky
      then Some (unpacked_zero (cx_rounding cx = Fp_Minus), False)
      else Some (larger\<lparr>up_significand := significand\<rparr>, is_sticky))
   }"

definition add_finite :: "Unpacked \<Rightarrow> Unpacked \<Rightarrow> Context \<Rightarrow> (Unpacked \<times> bool) option" where
  "add_finite lhs rhs cx =
     (if unpacked_is_zero lhs \<and> unpacked_is_zero rhs then
        let is_negative = (if up_negative lhs = up_negative rhs then up_negative lhs
                           else cx_rounding cx = Fp_Minus)
        in Some (unpacked_zero is_negative, False)
      else if unpacked_is_zero lhs then Some (rhs, False)
      else if unpacked_is_zero rhs then Some (lhs, False)
      else
        let (larger, smaller) = (if is_larger lhs rhs then (lhs, rhs) else (rhs, lhs));
            shift = nat (up_exponent larger - up_exponent smaller);
            (aligned, is_sticky) = fp_align (up_significand smaller) shift
        in if up_negative larger = up_negative smaller then do {
             s \<leftarrow> checked_add (up_significand larger) aligned;
             Some (larger\<lparr>up_significand := s\<rparr>, is_sticky)
           }
           else subtract_aligned larger aligned is_sticky cx)"

definition fp_add :: "u64 \<Rightarrow> u64 \<Rightarrow> bool \<Rightarrow> Context \<Rightarrow> FpResult option" where
  "fp_add lhs0 rhs0 is_subtracting cx =
     (let (lhs, rhs1, denormal) = flush_pair lhs0 rhs0 cx;
          f = cx_format cx;
          rhs = (if is_subtracting then rhs1 XOR push_bit (sign_shift f) 1 else rhs1)
      in case propagate [lhs, rhs] f (cx_control cx) of
           Some result \<Rightarrow> Some (fp_with_flags result denormal)
         | None \<Rightarrow>
             (case add_infinities lhs rhs cx of
                Some result \<Rightarrow> Some (fp_with_flags result denormal)
              | None \<Rightarrow> do {
                  left \<leftarrow> unpack lhs f;
                  right \<leftarrow> unpack rhs f;
                  (v, is_sticky) \<leftarrow> add_finite left right cx;
                  result \<leftarrow> cx_pack cx v is_sticky;
                  Some (fp_with_flags result denormal)
                }))"


section \<open>Multiplication\<close>

definition significand_scale :: "FpFormat \<Rightarrow> nat" where
  "significand_scale f = mantissa_bits f + GUARD_BITS"

definition narrow :: "u128 \<Rightarrow> nat \<Rightarrow> u64 \<times> bool" where
  "narrow product shift =
     (let discarded = product AND (push_bit shift 1 - 1)
      in (ucast (drop_bit shift product), discarded \<noteq> 0))"

definition multiply_specials :: "u64 \<Rightarrow> u64 \<Rightarrow> bool \<Rightarrow> Context \<Rightarrow> FpResult option" where
  "multiply_specials lhs rhs is_negative cx =
     (let f = cx_format cx;
          is_lhs_infinite = is_infinite f lhs; is_rhs_infinite = is_infinite f rhs;
          is_lhs_zero = fp_is_zero f lhs; is_rhs_zero = fp_is_zero f rhs
      in if (is_lhs_infinite \<and> is_rhs_zero) \<or> (is_lhs_zero \<and> is_rhs_infinite)
         then Some (invalid_operation f)
         else if is_lhs_infinite \<or> is_rhs_infinite then Some (res_exact (signed_infinity f is_negative))
         else if is_lhs_zero \<or> is_rhs_zero then Some (res_exact (fp_zero f is_negative))
         else None)"

definition fp_multiply :: "u64 \<Rightarrow> u64 \<Rightarrow> Context \<Rightarrow> FpResult option" where
  "fp_multiply lhs0 rhs0 cx =
     (let (lhs, rhs, denormal) = flush_pair lhs0 rhs0 cx;
          f = cx_format cx
      in case propagate [lhs, rhs] f (cx_control cx) of
           Some result \<Rightarrow> Some (fp_with_flags result denormal)
         | None \<Rightarrow>
             let is_negative = (fp_is_negative f lhs \<noteq> fp_is_negative f rhs) in
             (case multiply_specials lhs rhs is_negative cx of
                Some result \<Rightarrow> Some (fp_with_flags result denormal)
              | None \<Rightarrow> do {
                  left \<leftarrow> unpack lhs f;
                  right \<leftarrow> unpack rhs f;
                  product \<leftarrow> checked_mul (ucast (up_significand left) :: u128) (ucast (up_significand right));
                  let (significand, is_sticky) = narrow product (significand_scale f);
                  result \<leftarrow> cx_pack cx \<lparr> up_negative = is_negative,
                      up_exponent = up_exponent left + up_exponent right,
                      up_significand = significand \<rparr> is_sticky;
                  Some (fp_with_flags result denormal)
                }))"


section \<open>Division\<close>

text \<open>\<open>a / b\<close> on \<open>u128\<close>, which panics for a zero divisor.\<close>

definition checked_div :: "'a::len word \<Rightarrow> 'a word \<Rightarrow> 'a word option" where
  "checked_div a b = (if b = 0 then None else Some (a div b))"

definition divide_specials :: "u64 \<Rightarrow> u64 \<Rightarrow> bool \<Rightarrow> Context \<Rightarrow> FpResult option" where
  "divide_specials lhs rhs is_negative cx =
     (let f = cx_format cx;
          is_lhs_infinite = is_infinite f lhs; is_rhs_infinite = is_infinite f rhs;
          is_lhs_zero = fp_is_zero f lhs; is_rhs_zero = fp_is_zero f rhs
      in if (is_lhs_infinite \<and> is_rhs_infinite) \<or> (is_lhs_zero \<and> is_rhs_zero)
         then Some (invalid_operation f)
         else if is_lhs_infinite then Some (res_exact (signed_infinity f is_negative))
         else if is_rhs_infinite then Some (res_exact (fp_zero f is_negative))
         else if is_rhs_zero then Some (res_raising (signed_infinity f is_negative) fx_DIVIDE_BY_ZERO)
         else if is_lhs_zero then Some (res_exact (fp_zero f is_negative))
         else None)"

definition fp_divide :: "u64 \<Rightarrow> u64 \<Rightarrow> Context \<Rightarrow> FpResult option" where
  "fp_divide lhs0 rhs0 cx =
     (let (lhs, rhs, denormal) = flush_pair lhs0 rhs0 cx;
          f = cx_format cx
      in case propagate [lhs, rhs] f (cx_control cx) of
           Some result \<Rightarrow> Some (fp_with_flags result denormal)
         | None \<Rightarrow>
             let is_negative = (fp_is_negative f lhs \<noteq> fp_is_negative f rhs) in
             (case divide_specials lhs rhs is_negative cx of
                Some result \<Rightarrow> Some (fp_with_flags result denormal)
              | None \<Rightarrow> do {
                  left \<leftarrow> unpack lhs f;
                  right \<leftarrow> unpack rhs f;
                  let numerator = push_bit (significand_scale f) (ucast (up_significand left) :: u128);
                  quotient \<leftarrow> checked_div numerator (ucast (up_significand right));
                  let is_sticky = (numerator mod ucast (up_significand right) \<noteq> 0);
                  result \<leftarrow> cx_pack cx \<lparr> up_negative = is_negative,
                      up_exponent = up_exponent left - up_exponent right,
                      up_significand = ucast quotient \<rparr> is_sticky;
                  Some (fp_with_flags result denormal)
                }))"


section \<open>Square root\<close>

text \<open>The loop of \<open>isqrt_u128\<close>: \<open>bit\<close> moves down two places each round and ends the loop at zero.\<close>

function isqrt_loop :: "u128 \<Rightarrow> u128 \<Rightarrow> u128 \<Rightarrow> u128 option" where
  "isqrt_loop bit1 remainder root =
     (if bit1 \<noteq> 0 then do {
        trial \<leftarrow> checked_add root bit1;
        if trial \<le> remainder then do {
          r \<leftarrow> checked_add (drop_bit 1 root) bit1;
          isqrt_loop (drop_bit 2 bit1) (remainder - trial) r
        } else isqrt_loop (drop_bit 2 bit1) remainder (drop_bit 1 root)
      } else Some root)"
  by pat_completeness auto

lemma unat_drop_2_less: "bit1 \<noteq> 0 \<Longrightarrow> unat (drop_bit 2 bit1) < unat (bit1 :: u128)"
proof -
  assume "bit1 \<noteq> 0"
  then have "0 < unat bit1" by (simp add: unat_gt_0)
  then show ?thesis by (subst unat_drop_bit) simp
qed

termination isqrt_loop
  by (relation "measure (\<lambda>(b, r, q). unat b)") (auto intro: unat_drop_2_less)

declare isqrt_loop.simps [simp del]

definition isqrt_u128 :: "u128 \<Rightarrow> u128 option" where
  "isqrt_u128 value =
     (if value = 0 then Some 0
      else do {
        top \<leftarrow> count_sub 127 (leading_zeros value);
        bit1 \<leftarrow> shl_chk 1 (2 * (top div 2));
        isqrt_loop bit1 value 0
      })"

definition integer_square_root :: "Unpacked \<Rightarrow> FpFormat \<Rightarrow> (u64 \<times> bool) option" where
  "integer_square_root v f =
     (let scaled0 = ucast (up_significand v) :: u128;
          scaled1 = (if up_exponent v mod 2 \<noteq> 0 then push_bit 1 scaled0 else scaled0);
          scaled = push_bit (significand_scale f) scaled1
      in do {
        root \<leftarrow> isqrt_u128 scaled;
        square \<leftarrow> checked_mul root root;
        Some (ucast root, square \<noteq> scaled)
      })"

definition square_root :: "u64 \<Rightarrow> Context \<Rightarrow> FpResult option" where
  "square_root value0 cx =
     (let (value, denormal) = flush_input value0 cx;
          f = cx_format cx
      in case propagate [value] f (cx_control cx) of
           Some result \<Rightarrow> Some (fp_with_flags result denormal)
         | None \<Rightarrow>
             if fp_is_zero f value then Some (fp_with_flags (res_exact value) denormal)
             else if fp_is_negative f value then Some (fp_with_flags (invalid_operation f) denormal)
             else if is_infinite f value then Some (fp_with_flags (res_exact value) denormal)
             else do {
               unpacked \<leftarrow> unpack value f;
               (significand, is_sticky) \<leftarrow> integer_square_root unpacked f;
               result \<leftarrow> cx_pack cx \<lparr> up_negative = False,
                   up_exponent = up_exponent unpacked div 2,
                   up_significand = significand \<rparr> is_sticky;
               Some (fp_with_flags result denormal)
             })"

end
