(* ===== verification/Fp_Add.thy ===== *)
theory Fp_Add
  imports Fp_Pack Fp_Arithmetic
begin

unbundle bit_operations_syntax

text \<open>
  Addition and subtraction (\<open>add\<close> of \<open>fp/softfloat/arithmetic.rs\<close>) give the correctly rounded sum
  for every pair of finite operands, with the sign of an exact zero as IEEE 754 fixes it.
\<close>

section \<open>Finite operands take the arithmetic path\<close>

lemma finite_no_nan:
  assumes "\<forall>b\<in>set bs. fp_finite f b"
  shows "propagate bs f c = None"
proof -
  have "find (is_nan f) bs = None"
    using assms by (auto simp: find_None_iff fp_finite_def)
  then show ?thesis by (simp add: propagate_def)
qed

lemma flush_input_off: "\<not> is_flushing (cx_format cx) (cx_control cx) \<Longrightarrow> flush_input b cx = (b, fx_NONE)"
  by (simp add: flush_input_def)

lemma flush_pair_off:
  "\<not> is_flushing (cx_format cx) (cx_control cx) \<Longrightarrow> flush_pair a b cx = (a, b, fx_NONE)"
  by (simp add: flush_pair_def flush_input_off fx_union_def fx_NONE_def)

lemma fp_with_flags_NONE: "fp_with_flags res fx_NONE = res"
  by (simp add: fp_with_flags_def res_raising_def fx_union_def fx_NONE_def)

lemma flip_bit: "bit (b XOR push_bit (sign_shift f) 1) i \<longleftrightarrow> (if i = sign_shift f then \<not> bit b i else bit (b :: u64) i)"
  using format_widths(4) [of f] by (auto simp: bit_simps dest: bit_imp_le_length)

lemma flip_fields:
  fixes b :: u64 and f :: FpFormat
  defines "c \<equiv> b XOR push_bit (sign_shift f) 1"
  shows "fp_man f c = fp_man f b" "fp_exp f c = fp_exp f b"
proof -
  note w = format_widths [of f] and bc = flip_bit [of b f, folded c_def]
  have "take_bit (mantissa_bits f) c = take_bit (mantissa_bits f) b"
    using w(2,5) by (intro bit_word_eqI) (auto simp: bit_take_bit_iff bc)
  moreover have "take_bit (exponent_bits f) (drop_bit (mantissa_bits f) c)
      = take_bit (exponent_bits f) (drop_bit (mantissa_bits f) b)"
    using w(2) by (intro bit_word_eqI) (auto simp: bit_take_bit_iff bit_drop_bit_eq bc)
  ultimately show "fp_man f c = fp_man f b" "fp_exp f c = fp_exp f b"
    by (simp_all add: fp_man_def fp_exp_def)
qed

lemma flip_sign:
  assumes "fp_finite f b"
  defines "c \<equiv> b XOR push_bit (sign_shift f) 1"
  shows "fp_finite f c" "fp_val f c = - fp_val f b" "fp_is_negative f c \<longleftrightarrow> \<not> fp_is_negative f b"
proof -
  note w = format_widths [of f] and bc = flip_bit [of b f, folded c_def] and fields = flip_fields [of f b, folded c_def]
  show neg: "fp_is_negative f c \<longleftrightarrow> \<not> fp_is_negative f b" by (simp add: fp_is_negative_bit bc)
  have "take_bit (fp_bits f) b = b"
    using assms(1) by (simp add: fp_finite_def fp_wf_def unsigned_take_bit_eq take_bit_nat_eq_self_iff flip: unat_inj)
  then have "i < fp_bits f" if "bit b i" for i using that by (metis bit_take_bit_iff)
  then have "take_bit (fp_bits f) c = c"
    using w(1,2) by (intro bit_word_eqI) (auto simp: bit_take_bit_iff bc)
  then have "fp_wf f c" using take_bit_word_le_mask [of "fp_bits f" c] by (simp add: fp_wf_def)
  then show "fp_finite f c" using assms(1) fields by (auto simp: fp_finite_def is_nan_iff is_infinite_iff)
  show "fp_val f c = - fp_val f b"
    using fields neg by (simp add: fp_val_def fp_abs_def fp_sig_def fp_unit_def)
qed


section \<open>Aligned significands\<close>

lemma fp_align_eq:
  "\<exists>w'. fp_align w k = (w', unat w mod 2 ^ k \<noteq> 0) \<and> unat w' = unat w div 2 ^ k"
proof (cases "64 \<le> k")
  case True
  then have "(2::nat) ^ 64 \<le> 2 ^ k" by (intro power_increasing) simp_all
  then have "unat w < 2 ^ k" using unat_u64_less [of w] by (rule less_le_trans [rotated])
  then show ?thesis using True by (simp add: fp_align_def unat_eq_0 flip: unat_gt_0)
next
  case False
  then show ?thesis
    using low_bits_eq_0 [of w k] unat_drop_bit [of k w] by (simp add: fp_align_def)
qed

text \<open>The smaller operand at the exponent of the larger one: an integer part and a fraction.\<close>

lemma aligned_value:
  assumes "int k = e' - up_exponent u" "unat (up_significand u) = S"
  shows "up_mag f u 0 = (real (S div 2 ^ k) + real (S mod 2 ^ k) / 2 ^ k) * 2 powi (e' - int (mantissa_bits f + 3))"
proof -
  have "real S = real (S div 2 ^ k) * 2 ^ k + real (S mod 2 ^ k)"
    using arg_cong [OF div_mult_mod_eq [of S "2 ^ k", symmetric], of real]
    by (simp only: of_nat_add of_nat_mult of_nat_power of_nat_numeral)
  then have S: "real (S div 2 ^ k) + real (S mod 2 ^ k) / 2 ^ k = real S / 2 ^ k"
    by (simp add: add_divide_distrib)
  have "up_exponent u - int (mantissa_bits f + 3) = (e' - int (mantissa_bits f + 3)) - int k"
    using assms(1) by simp
  then have "(2::real) powi (e' - int (mantissa_bits f + 3))
      = 2 powi (up_exponent u - int (mantissa_bits f + 3)) * 2 ^ k"
    using powi_nat_diff [of "e' - int (mantissa_bits f + 3)" k] by (simp only:)
  then show ?thesis unfolding S up_mag_def assms(2) by simp
qed

text \<open>\<open>exact_sum f x v s\<close>: the significand, with a tail when the sticky bit is set, stands for the
  exact value \<open>x\<close> and is precise enough to be rounded.\<close>

definition exact_rep :: "FpFormat \<Rightarrow> real \<Rightarrow> Unpacked \<Rightarrow> bool \<Rightarrow> bool" where
  "exact_rep f x v s \<longleftrightarrow> (\<exists>d. tail_ok (unat (up_significand v)) d s \<and> d < 1 \<and> up_significand v \<noteq> 0
     \<and> (s \<longrightarrow> 2 ^ (mantissa_bits f + 2) \<le> unat (up_significand v))
     \<and> x = with_sign (up_negative v) (up_mag f v d))"

lemma exact_repI:
  assumes "unat (up_significand v) = S" "0 < S" "0 \<le> d" "d < 1" "0 < d \<longleftrightarrow> s"
    and "s \<Longrightarrow> 2 ^ (mantissa_bits f + 2) \<le> S"
    and "x = with_sign (up_negative v) ((real S + d) * 2 powi (up_exponent v - int (mantissa_bits f + 3)))"
  shows "exact_rep f x v s"
  unfolding exact_rep_def up_mag_def assms(1)
  using assms(2-7) unat_gt_0 [of "up_significand v"] assms(1)
  by (intro exI [of _ d]) (auto simp: tail_ok_def)

lemma exact_rep_nonzero: "exact_rep f x v s \<Longrightarrow> x \<noteq> 0"
proof -
  assume "exact_rep f x v s"
  then obtain d where d: "0 \<le> d" "up_significand v \<noteq> 0" "x = with_sign (up_negative v) (up_mag f v d)"
    by (auto simp: exact_rep_def tail_ok_def)
  have "0 < real (unat (up_significand v))" using d(2) by (simp only: of_nat_0_less_iff unat_gt_0 simp_thms)
  then have "0 < real (unat (up_significand v)) + d" using d(1) by (rule add_pos_nonneg)
  then have "0 < up_mag f v d" unfolding up_mag_def by (intro mult_pos_pos) simp_all
  then show ?thesis using d(3) by (auto simp: with_sign_def)
qed

lemma cx_pack_packed:
  assumes "exact_rep (cx_format cx) x v s" "cx_rounding cx \<noteq> Fp_Odd"
    and "\<not> is_flushing (cx_format cx) (cx_control cx)"
  shows "\<exists>res. cx_pack cx v s = Some res \<and> packed_result (cx_format cx) (cx_rounding cx) x res"
proof -
  from assms(1) obtain d where d: "tail_ok (unat (up_significand v)) d s" "d < 1"
    "up_significand v \<noteq> 0" "s \<longrightarrow> 2 ^ (mantissa_bits (cx_format cx) + 2) \<le> unat (up_significand v)"
    "x = with_sign (up_negative v) (up_mag (cx_format cx) v d)"
    by (auto simp: exact_rep_def)
  show ?thesis
    using round_and_pack_ok [of v d "rounding_context cx s" "cx_format cx" x] d assms(2,3)
    by (simp add: cx_pack_def rounding_context_def)
qed

lemma cx_pack_ok:
  assumes "exact_rep (cx_format cx) x v s" "cx_rounding cx \<noteq> Fp_Odd"
    and "\<not> is_flushing (cx_format cx) (cx_control cx)"
    and "\<not> subnormal_carry (cx_format cx) (cx_rounding cx) x"
  shows "\<exists>res. cx_pack cx v s = Some res \<and> ieee_result (cx_format cx) (cx_rounding cx) x res"
  using cx_pack_packed [OF assms(1-3)] assms(4) by (simp add: packed_ieee)

lemma unpacked_pos:
  assumes "unpacked_ok f u x"
  shows "0 < unat (up_significand u)" "\<not> unpacked_is_zero u" "0 < x"
proof -
  have "(2::nat) ^ (mantissa_bits f + 3) \<le> unat (up_significand u)" using assms by (simp add: unpacked_ok_def)
  then show pos: "0 < unat (up_significand u)" by (rule less_le_trans [rotated]) simp
  then show "\<not> unpacked_is_zero u" by (auto simp: unpacked_is_zero_def)
  have "x = real (unat (up_significand u)) * 2 powi (up_exponent u - int (mantissa_bits f + 3))"
    using assms by (simp add: unpacked_ok_def up_mag_def)
  moreover have "0 < real (unat (up_significand u))" using pos by (simp only: of_nat_0_less_iff)
  ultimately show "0 < x" by (simp only:) simp
qed


section \<open>The exact sum\<close>

lemma same_sign_sum:
  assumes l: "unpacked_ok f l a" and r: "unpacked_ok f r b"
    and k: "int k = up_exponent l - up_exponent r"
    and w: "unat w = unat (up_significand r) div 2 ^ k" and neg: "up_negative r = up_negative l"
  shows "checked_add (up_significand l) w = Some (up_significand l + w)"
    and "exact_rep f (with_sign (up_negative l) a + with_sign (up_negative r) b)
           (l\<lparr>up_significand := up_significand l + w\<rparr>) (unat (up_significand r) mod 2 ^ k \<noteq> 0)"
proof -
  let ?m = "mantissa_bits f" and ?L = "unat (up_significand l)" and ?R = "unat (up_significand r)"
  have L: "2 ^ (?m + 3) \<le> ?L" "?L < 2 ^ (?m + 4)" "up_mag f l 0 = a"
    and R: "?R < 2 ^ (?m + 4)" "up_mag f r 0 = b"
    using l r by (simp_all add: unpacked_ok_def)
  have "unat w \<le> ?R" unfolding w by (rule div_le_dividend)
  then have "?L + unat w < 2 ^ (?m + 5)" using L(2) R(1) by (simp add: power_add)
  then have fit: "?L + unat w < 2 ^ LENGTH(64)" using pow_mantissa_less [of 5 f] by simp
  show "checked_add (up_significand l) w = Some (up_significand l + w)" by (rule checked_add_ok [OF fit])
  have sum: "unat (up_significand (l\<lparr>up_significand := up_significand l + w\<rparr>)) = ?L + ?R div 2 ^ k"
    using unat_add_ok [OF fit] w by simp
  have pos: "0 < ?L" using L(1) by (rule less_le_trans [rotated]) simp
  have le: "2 ^ (?m + 2) \<le> ?L" using L(1) by (rule order_trans [rotated]) (simp add: power_add)
  have "a + b = (real (?L + ?R div 2 ^ k) + real (?R mod 2 ^ k) / 2 ^ k)
      * 2 powi (up_exponent l - int (?m + 3))"
    using aligned_value [OF k refl, of f] L(3) R(2) by (simp add: up_mag_def algebra_simps)
  moreover have "real (?R mod 2 ^ k) < 2 ^ k"
    by (metis mod_less_divisor of_nat_less_iff of_nat_numeral of_nat_power zero_less_numeral zero_less_power)
  moreover have "(0 < real (?R mod 2 ^ k)) = (?R mod 2 ^ k \<noteq> 0)" by (simp only: of_nat_0_less_iff) simp
  ultimately show "exact_rep f (with_sign (up_negative l) a + with_sign (up_negative r) b)
      (l\<lparr>up_significand := up_significand l + w\<rparr>) (?R mod 2 ^ k \<noteq> 0)"
    using pos le neg
    by (intro exact_repI [OF sum, of "real (?R mod 2 ^ k) / 2 ^ k"])
      (auto simp: with_sign_def zero_less_divide_iff)
qed

text \<open>The guard bits of an unpacked operand are empty, so a shift that loses bits is a long one.\<close>

lemma sticky_shift_long:
  assumes "8 dvd (S :: nat)" "S mod 2 ^ k \<noteq> 0"
  shows "4 \<le> k"
proof (rule ccontr)
  assume "\<not> 4 \<le> k"
  then have "(2::nat) ^ k dvd 2 ^ 3" by (intro le_imp_power_dvd) simp
  then have "2 ^ k dvd (8 :: nat)" by simp
  then have "2 ^ k dvd S" using assms(1) by (rule dvd_trans)
  with assms(2) show False by simp
qed

lemma larger_aligned:
  assumes l: "unpacked_ok f l a" and r: "unpacked_ok f r b" and "is_larger l r"
    and k: "int k = up_exponent l - up_exponent r"
  shows "unat (up_significand r) div 2 ^ k \<le> unat (up_significand l)"
proof (cases "k = 0")
  case True
  then show ?thesis using assms(3) k by (simp add: is_larger_def word_le_nat_alt)
next
  case False
  have "unat (up_significand r) div 2 ^ k \<le> unat (up_significand r) div 2 ^ 1"
    using False by (intro div_le_mono2 power_increasing) simp_all
  also have "\<dots> < 2 ^ (mantissa_bits f + 3)" using r by (auto simp: unpacked_ok_def power_add)
  also have "\<dots> \<le> unat (up_significand l)" using l by (simp add: unpacked_ok_def)
  finally show ?thesis by simp
qed

lemma opposite_sign_sum:
  assumes l: "unpacked_ok f l a" and r: "unpacked_ok f r b" and larger: "is_larger l r"
    and k: "int k = up_exponent l - up_exponent r"
    and w: "unat w = unat (up_significand r) div 2 ^ k" and neg: "up_negative r \<noteq> up_negative l"
  defines "x \<equiv> with_sign (up_negative l) a + with_sign (up_negative r) b"
    and "s \<equiv> unat (up_significand r) mod 2 ^ k \<noteq> 0"
  shows "(x = 0 \<and> subtract_aligned l w s cx = Some (unpacked_zero (cx_rounding cx = Fp_Minus), False))
    \<or> (\<exists>v. subtract_aligned l w s cx = Some (v, s) \<and> exact_rep f x v s)"
proof -
  let ?m = "mantissa_bits f" and ?L = "unat (up_significand l)" and ?R = "unat (up_significand r)"
  let ?p = "2 powi (up_exponent l - int (?m + 3)) :: real"
  have L: "2 ^ (?m + 3) \<le> ?L" "up_mag f l 0 = a" and R: "?R < 2 ^ (?m + 4)" "up_mag f r 0 = b" "8 dvd ?R"
    using l r by (simp_all add: unpacked_ok_def)
  have le: "unat w \<le> ?L" unfolding w by (rule larger_aligned [OF l r larger k])
  then have sub: "checked_sub (up_significand l) w = Some (up_significand l - w)"
    and usub: "unat (up_significand l - w) = ?L - unat w"
    by (simp_all add: checked_sub_def word_le_nat_alt unat_sub)
  have x: "x = with_sign (up_negative l) ((real ?L - real (?R div 2 ^ k) - real (?R mod 2 ^ k) / 2 ^ k) * ?p)"
    using aligned_value [OF k refl, of f] L(2) R(2) neg
    by (auto simp: x_def with_sign_def up_mag_def algebra_simps)
  show ?thesis
  proof (cases s)
    case False
    then have R0: "?R mod 2 ^ k = 0" by (simp add: s_def)
    have D: "real (?L - unat w) = real ?L - real (?R div 2 ^ k)" using le w by simp
    have x1: "x = with_sign (up_negative l) (real (?L - unat w) * ?p)" unfolding x R0 D by simp
    show ?thesis
    proof (cases "?L = unat w")
      case True
      then have "x = 0" unfolding x1 by (simp add: with_sign_def)
      moreover have "up_significand l - w = 0" using True by (simp add: unat_inj)
      ultimately show ?thesis using False sub by (simp add: subtract_aligned_def)
    next
      case nz: False
      then have "up_significand l - w \<noteq> 0" by auto
      moreover have "exact_rep f x (l\<lparr>up_significand := up_significand l - w\<rparr>) s"
        using False nz le x1 usub by (intro exact_repI [of _ "?L - unat w" 0]) simp_all
      ultimately show ?thesis using False sub by (simp add: subtract_aligned_def)
    qed
  next
    case True
    then have "4 \<le> k" using sticky_shift_long [OF R(3), of k] by (simp add: s_def)
    then have "?R div 2 ^ k \<le> ?R div 2 ^ 4" by (intro div_le_mono2 power_increasing) simp_all
    also have "\<dots> < 2 ^ ?m" using R(1) by (simp add: power_add)
    finally have wl: "unat w < 2 ^ ?m" by (simp only: w)
    then have big: "2 ^ (?m + 2) \<le> ?L - unat w - 1" and gt: "1 \<le> ?L - unat w"
      using L(1) by (simp_all add: power_add)
    from gt have sub1: "checked_sub (up_significand l - w) 1 = Some (up_significand l - w - 1)"
      and usub1: "unat (up_significand l - w - 1) = ?L - unat w - 1"
      by (simp_all add: checked_sub_def word_le_nat_alt usub unat_sub)
    let ?t = "real (?R mod 2 ^ k) / 2 ^ k"
    have "real (?L - unat w - 1) + (1 - ?t) = real ?L - real (?R div 2 ^ k) - ?t"
      using gt w by simp
    then have x1: "x = with_sign (up_negative l) ((real (?L - unat w - 1) + (1 - ?t)) * ?p)"
      by (simp only: x)
    have "?R mod 2 ^ k < 2 ^ k" "0 < ?R mod 2 ^ k" using True by (simp_all add: s_def)
    then have "real (?R mod 2 ^ k) < real (2 ^ k)" "0 < real (?R mod 2 ^ k)"
      by (simp_all only: of_nat_less_iff of_nat_0_less_iff)
    then have t: "0 < ?t" "?t < 1" by simp_all
    have pos: "0 < ?L - unat w - 1" using big by (rule less_le_trans [rotated]) simp
    have "exact_rep f x (l\<lparr>up_significand := up_significand l - w - 1\<rparr>) s"
      by (rule exact_repI [of _ "?L - unat w - 1" "1 - ?t"])
        (use t True big pos usub1 x1 in \<open>simp_all\<close>)
    then show ?thesis using True sub sub1 by (simp add: subtract_aligned_def)
  qed
qed

lemma add_finite_ok:
  assumes l: "unpacked_ok f l a" and r: "unpacked_ok f r b"
  defines "x \<equiv> with_sign (up_negative l) a + with_sign (up_negative r) b"
  shows "(x = 0 \<and> up_negative l \<noteq> up_negative r
      \<and> add_finite l r cx = Some (unpacked_zero (cx_rounding cx = Fp_Minus), False))
    \<or> (\<exists>v s. add_finite l r cx = Some (v, s) \<and> exact_rep f x v s)"
proof -
  define M where "M = (if is_larger l r then l else r)"
  define N where "N = (if is_larger l r then r else l)"
  obtain c d where M: "unpacked_ok f M c" and N: "unpacked_ok f N d" and larger: "is_larger M N"
    and x: "x = with_sign (up_negative M) c + with_sign (up_negative N) d"
    and neg: "up_negative M = up_negative N \<longleftrightarrow> up_negative l = up_negative r"
  proof (cases "is_larger l r")
    case True
    then show ?thesis using that [of a b] l r by (simp add: M_def N_def x_def)
  next
    case False
    then have "is_larger r l" by (auto simp: is_larger_def)
    then show ?thesis using that [of b a] l r False by (auto simp: M_def N_def x_def)
  qed
  define k where "k = nat (up_exponent M - up_exponent N)"
  have k: "int k = up_exponent M - up_exponent N" using larger by (auto simp: k_def is_larger_def)
  obtain w where al: "fp_align (up_significand N) k = (w, unat (up_significand N) mod 2 ^ k \<noteq> 0)"
    and w: "unat w = unat (up_significand N) div 2 ^ k"
    using fp_align_eq by blast
  note unpacked_pos(2) [OF l] unpacked_pos(2) [OF r]
  moreover have "(if is_larger l r then (l, r) else (r, l)) = (M, N)" by (simp add: M_def N_def)
  ultimately have af: "add_finite l r cx =
      (if up_negative M = up_negative N then do {
         s \<leftarrow> checked_add (up_significand M) w;
         Some (M\<lparr>up_significand := s\<rparr>, unat (up_significand N) mod 2 ^ k \<noteq> 0)
       } else subtract_aligned M w (unat (up_significand N) mod 2 ^ k \<noteq> 0) cx)"
    unfolding add_finite_def using al by (simp only: Let_def split if_False simp_thms k_def [symmetric])
  show ?thesis
  proof (cases "up_negative M = up_negative N")
    case True
    then show ?thesis using same_sign_sum [OF M N k w] by (auto simp: af x)
  next
    case False
    then show ?thesis
      using opposite_sign_sum [OF M N larger k w, of cx] neg unfolding af x by auto
  qed
qed

text \<open>Every finite value is a multiple of the smallest subnormal, so a sum in the subnormal range is
  exact.\<close>

lemma fp_abs_multiple: "\<exists>N. fp_abs f b = real N * 2 powi (fp_min_exponent f - int (mantissa_bits f))"
proof -
  define k where "k = nat (fp_unit f b - (fp_min_exponent f - int (mantissa_bits f)))"
  have "int k = fp_unit f b - (fp_min_exponent f - int (mantissa_bits f))"
    by (simp add: k_def fp_unit_def fp_min_exponent_def)
  then have "fp_unit f b = int k + (fp_min_exponent f - int (mantissa_bits f))" by simp
  then have "fp_abs f b = real (fp_sig f b * 2 ^ k) * 2 powi (fp_min_exponent f - int (mantissa_bits f))"
    by (simp only: fp_abs_def powi_add power_int_of_nat of_nat_mult of_nat_power of_nat_numeral mult.assoc)
  then show ?thesis ..
qed

lemma sum_multiple:
  "\<exists>N. \<bar>fp_val f b + fp_val f c\<bar> = real N * 2 powi (fp_min_exponent f - int (mantissa_bits f))"
proof -
  let ?q = "2 powi (fp_min_exponent f - int (mantissa_bits f)) :: real"
  obtain M N where MN: "fp_abs f b = real M * ?q" "fp_abs f c = real N * ?q" using fp_abs_multiple by meson
  define i where "i = (if fp_is_negative f b then - int M else int M) + (if fp_is_negative f c then - int N else int N)"
  have "fp_val f b + fp_val f c = real_of_int i * ?q"
    unfolding fp_val_def MN by (simp add: i_def algebra_simps)
  then have "\<bar>fp_val f b + fp_val f c\<bar> = real (nat \<bar>i\<bar>) * ?q" by (simp add: abs_mult)
  then show ?thesis ..
qed

lemma unpacked_exact: "unpacked_ok f u x \<Longrightarrow> exact_rep f (with_sign (up_negative u) x) u False"
  using unpacked_pos(1) [of f u x]
  by (intro exact_repI [OF refl, of _ 0]) (simp_all add: unpacked_ok_def up_mag_def)

lemma unpacked_zero_simps: "up_negative (unpacked_zero n) = n" "unpacked_is_zero (unpacked_zero n)"
  by (simp_all add: unpacked_zero_def unpacked_is_zero_def)

lemma add_finite_zero:
  "add_finite (unpacked_zero m) (unpacked_zero n) cx
     = Some (unpacked_zero (if m = n then m else cx_rounding cx = Fp_Minus), False)"
  "\<not> unpacked_is_zero u \<Longrightarrow> add_finite (unpacked_zero m) u cx = Some (u, False)"
  "\<not> unpacked_is_zero u \<Longrightarrow> add_finite u (unpacked_zero m) cx = Some (u, False)"
  by (simp_all add: add_finite_def unpacked_zero_simps)

lemma pack_zero: "cx_pack cx (unpacked_zero n) False = Some (res_exact (fp_zero (cx_format cx) n))"
  by (simp add: cx_pack_def round_and_pack_def unpacked_zero_def unpacked_is_zero_def)


section \<open>Addition and subtraction\<close>

lemma finite_cases:
  assumes "fp_finite f b"
  obtains "fp_is_zero f b" "fp_val f b = 0" "unpack b f = Some (unpacked_zero (fp_is_negative f b))"
  | u where "\<not> fp_is_zero f b" "unpack b f = Some u" "up_negative u = fp_is_negative f b"
      "unpacked_ok f u (fp_abs f b)" "fp_val f b = with_sign (up_negative u) (fp_abs f b)"
proof (cases "fp_is_zero f b")
  case True
  have wf: "fp_wf f b" using assms by (simp add: fp_finite_def)
  have "fp_abs f b = 0" using True wf by (simp add: fp_abs_eq_0_iff fp_is_zero_iff)
  then show ?thesis using True unpack_zero [OF wf True] by (intro that(1)) (simp_all add: fp_val_def)
next
  case False
  have wf: "fp_wf f b" using assms by (simp add: fp_finite_def)
  then show ?thesis using unpack_ok [OF wf False] False that(2) by (auto simp: fp_val_with_sign)
qed

theorem fp_add_ok:
  fixes is_subtracting :: bool
  assumes "fp_finite (cx_format cx) a" "fp_finite (cx_format cx) b" "cx_rounding cx \<noteq> Fp_Odd"
    and "\<not> is_flushing (cx_format cx) (cx_control cx)"
  defines "f \<equiv> cx_format cx"
  defines "x \<equiv> fp_val f a + (if is_subtracting then - fp_val f b else fp_val f b)"
    and "same_sign \<equiv> fp_is_negative f a = (fp_is_negative f b \<noteq> is_subtracting)"
  shows "\<exists>res. fp_add a b is_subtracting cx = Some res \<and> ieee_result f (cx_rounding cx) x res
    \<and> (x = 0 \<longrightarrow> fp_is_negative f (res_bits res)
          = (if same_sign then fp_is_negative f a else cx_rounding cx = Fp_Minus))"
proof -
  define c where "c = (if is_subtracting then b XOR push_bit (sign_shift f) 1 else b)"
  have c: "fp_finite f c" "x = fp_val f a + fp_val f c" "same_sign = (fp_is_negative f a = fp_is_negative f c)"
    using flip_sign [OF assms(2)] assms(2) by (auto simp: c_def x_def same_sign_def f_def)
  have a: "fp_finite f a" using assms(1) by (simp add: f_def)
  have "\<not> subnormal_carry f (cx_rounding cx) x"
    using sum_multiple [of f a c] no_subnormal_carry(2) unfolding c(2) by blast
  note pack = cx_pack_ok [OF _ assms(3,4), folded f_def, OF _ this]
  have core: "fp_add a b is_subtracting cx = do {
      left \<leftarrow> unpack a f; right \<leftarrow> unpack c f; (v, s) \<leftarrow> add_finite left right cx; cx_pack cx v s }"
    using finite_no_nan [of "[a, c]" f] a c(1) assms(4)
    by (simp add: fp_add_def flush_pair_off fp_with_flags_NONE f_def [symmetric] c_def [symmetric]
        add_infinities_def fp_finite_def)
  define zneg where "zneg = (if same_sign then fp_is_negative f a else cx_rounding cx = Fp_Minus)"
  obtain left right v s where "unpack a f = Some left" "unpack c f = Some right"
    and af: "add_finite left right cx = Some (v, s)"
    and v: "(x = 0 \<and> v = unpacked_zero zneg \<and> \<not> s) \<or> exact_rep f x v s"
  proof (cases rule: finite_cases [OF a])
    case a0: 1
    show ?thesis
    proof (cases rule: finite_cases [OF c(1)])
      case 1
      then show ?thesis
        using a0 by (intro that [OF a0(3) 1(3), of "unpacked_zero zneg" False])
          (simp_all add: add_finite_zero c zneg_def)
    next
      case (2 u)
      then show ?thesis
        using a0 unpacked_exact [OF 2(4)] unpacked_pos(2) [OF 2(4)]
        by (intro that [OF a0(3) 2(2), of u False]) (simp_all add: add_finite_zero c(2))
    qed
  next
    case a1: (2 l)
    show ?thesis
    proof (cases rule: finite_cases [OF c(1)])
      case 1
      then show ?thesis
        using a1 unpacked_exact [OF a1(4)] unpacked_pos(2) [OF a1(4)]
        by (intro that [OF a1(2) 1(3), of l False]) (simp_all add: add_finite_zero c(2))
    next
      case (2 r)
      have x: "x = with_sign (up_negative l) (fp_abs f a) + with_sign (up_negative r) (fp_abs f c)"
        unfolding c(2) a1(5) 2(5) ..
      show ?thesis
        using add_finite_ok [OF a1(4) 2(4), of cx, folded x] that [OF a1(2) 2(2)]
        by (auto simp: zneg_def c(3) a1(3) 2(3))
    qed
  qed
  then have run: "fp_add a b is_subtracting cx = cx_pack cx v s" by (simp add: core)
  from v show ?thesis
  proof
    assume "x = 0 \<and> v = unpacked_zero zneg \<and> \<not> s"
    then show ?thesis
      using zero_result_ok [of f "cx_rounding cx" zneg] fp_zero_fields(3) [of f zneg]
      by (simp add: run pack_zero f_def [symmetric] zneg_def [symmetric]) (simp add: res_exact_def)
  next
    assume "exact_rep f x v s"
    with pack [OF this] show ?thesis by (auto simp: run dest: exact_rep_nonzero)
  qed
qed

end
