(* ===== verification/Fp_Mul_Div.thy ===== *)
theory Fp_Mul_Div
  imports Fp_Add
begin

unbundle bit_operations_syntax

text \<open>
  Multiplication, division and square root (\<open>fp/softfloat/arithmetic.rs\<close>) give the correctly rounded
  result for finite operands; the integer square root they rest on is exact.
\<close>

section \<open>Double-width intermediates\<close>

lemma unat_ucast_128: "unat (ucast (w :: u64) :: u128) = unat w"
  by (rule unat_ucast_up) simp

lemma unat_ucast_64: "unat (w :: u128) < 2 ^ 64 \<Longrightarrow> unat (ucast w :: u64) = unat w"
  by (simp add: unsigned_ucast_eq take_bit_nat_eq_self_iff)

lemma div_tail:
  fixes P :: nat
  assumes "0 < q"
  shows "real P / real q = real (P div q) + real (P mod q) / real q"
    and "0 \<le> real (P mod q) / real q" "real (P mod q) / real q < 1"
    and "0 < real (P mod q) / real q \<longleftrightarrow> P mod q \<noteq> 0"
proof -
  have "real P = real (P div q) * real q + real (P mod q)"
    using arg_cong [OF div_mult_mod_eq [of P q, symmetric], of real]
    by (simp only: of_nat_add of_nat_mult)
  then show "real P / real q = real (P div q) + real (P mod q) / real q"
    using assms by (simp add: add_divide_distrib)
  have "P mod q < q" using assms by simp
  then have "real (P mod q) < real q" by (simp only: of_nat_less_iff)
  then show "real (P mod q) / real q < 1" using assms by simp
  show "0 < real (P mod q) / real q \<longleftrightarrow> P mod q \<noteq> 0" using assms by (simp add: zero_less_divide_iff)
qed simp

lemma exact_quotient:
  assumes "unat w = P div q" "0 < q" "2 ^ (mantissa_bits f + 2) \<le> P div q"
    and "x = real P / real q * 2 powi (e - int (mantissa_bits f + 3))"
  shows "exact_rep f (with_sign n x) \<lparr> up_negative = n, up_exponent = e, up_significand = w \<rparr> (P mod q \<noteq> 0)"
proof -
  have "0 < P div q" using assms(3) by (rule less_le_trans [rotated]) simp
  then show ?thesis
    using assms(1,3,4) div_tail [OF assms(2), of P]
    by (intro exact_repI [of _ "P div q" "real (P mod q) / real q"]) simp_all
qed


section \<open>Multiplication\<close>

lemma product_ok:
  assumes l: "unpacked_ok f l a" and r: "unpacked_ok f r b"
  shows "\<exists>P w. checked_mul (ucast (up_significand l) :: u128) (ucast (up_significand r)) = Some P
    \<and> narrow P (significand_scale f) = (w, unat P mod 2 ^ (mantissa_bits f + 3) \<noteq> 0)
    \<and> exact_rep f (with_sign n (a * b))
        \<lparr> up_negative = n, up_exponent = up_exponent l + up_exponent r, up_significand = w \<rparr>
        (unat P mod 2 ^ (mantissa_bits f + 3) \<noteq> 0)"
proof -
  let ?m = "mantissa_bits f" and ?L = "unat (up_significand l)" and ?R = "unat (up_significand r)"
  let ?P = "ucast (up_significand l) * ucast (up_significand r) :: u128"
  have L: "2 ^ (?m + 3) \<le> ?L" "?L < 2 ^ (?m + 4)" and R: "2 ^ (?m + 3) \<le> ?R" "?R < 2 ^ (?m + 4)"
    using l r by (simp_all add: unpacked_ok_def)
  have lt: "?L * ?R < 2 ^ (?m + 4) * 2 ^ (?m + 4)" using L(2) R(2) by (intro mult_strict_mono) simp_all
  also have "\<dots> = 2 ^ ((?m + 4) + (?m + 4))" by (simp only: power_add)
  also have "\<dots> < 2 ^ 128" using mantissa_bits_bounds [of f] by (intro power_strict_increasing) simp_all
  finally have fit: "unat (ucast (up_significand l) :: u128) * unat (ucast (up_significand r) :: u128) < 2 ^ LENGTH(128)"
    by (simp add: unat_ucast_128)
  have P: "unat ?P = ?L * ?R"
    using fit by (simp add: unat_word_ariths unat_ucast_128)
  have cm: "checked_mul (ucast (up_significand l)) (ucast (up_significand r)) = Some ?P"
    using fit by (simp add: checked_mul_def)
  have "2 ^ (?m + 3) * 2 ^ (?m + 3) \<le> ?L * ?R" using L(1) R(1) by (rule mult_mono) simp_all
  then have lo: "2 ^ (?m + 3) \<le> ?L * ?R div 2 ^ (?m + 3)"
    by (simp add: less_eq_div_iff_mult_less_eq)
  have "2 ^ (?m + 4) * 2 ^ (?m + 4) = (2::nat) ^ (?m + 5) * 2 ^ (?m + 3)" by (simp add: power_add)
  then have "?L * ?R div 2 ^ (?m + 3) < 2 ^ (?m + 5)" using lt by (simp add: div_less_iff_less_mult)
  also have "(2::nat) ^ (?m + 5) < 2 ^ 64" by (rule pow_mantissa_less) simp
  finally have "unat (drop_bit (?m + 3) ?P) < 2 ^ 64" by (simp only: unat_drop_bit P)
  then have w: "unat (ucast (drop_bit (?m + 3) ?P) :: u64) = ?L * ?R div 2 ^ (?m + 3)"
    by (simp only: unat_ucast_64 unat_drop_bit P)
  have nar: "narrow ?P (significand_scale f)
      = (ucast (drop_bit (?m + 3) ?P), unat ?P mod 2 ^ (?m + 3) \<noteq> 0)"
    using low_bits_eq_0 [of ?P "?m + 3"]
    by (simp add: narrow_def significand_scale_def GUARD_BITS_def)
  have le: "2 ^ (?m + 2) \<le> ?L * ?R div 2 ^ (?m + 3)" using lo by (rule order_trans [rotated]) (simp add: power_add)
  have "a * b = real (?L * ?R) / real (2 ^ (?m + 3))
      * 2 powi (up_exponent l + up_exponent r - int (?m + 3))"
  proof -
    have ab: "a = real ?L * 2 powi (up_exponent l - int (?m + 3))" "b = real ?R * 2 powi (up_exponent r - int (?m + 3))"
      using l r by (simp_all add: unpacked_ok_def up_mag_def)
    show ?thesis unfolding ab by (simp add: power_int_diff power_int_add power_add field_simps)
  qed
  from exact_quotient [OF w _ le this, of n] cm nar show ?thesis by (auto simp: P)
qed

lemma with_sign_mult: "with_sign m a * with_sign n b = with_sign (m \<noteq> n) (a * b)"
  by (auto simp: with_sign_def)

lemma fp_val_zero_iff: "fp_wf f b \<Longrightarrow> fp_val f b = 0 \<longleftrightarrow> fp_is_zero f b"
  using fp_abs_eq_0_iff [of f b] by (simp add: fp_val_def fp_is_zero_iff)

text \<open>An exact zero result: its bits, flags and sign.\<close>

lemma zero_resultI:
  "x = 0 \<Longrightarrow> \<exists>res. Some (res_exact (fp_zero f n)) = Some res \<and> ieee_result f r x res
     \<and> (x = 0 \<longrightarrow> fp_is_negative f (res_bits res) = n)"
  using zero_result_ok [of f r n] fp_zero_fields(3) [of f n] by (simp add: res_exact_def)

lemma zero_packedI:
  "x = 0 \<Longrightarrow> \<exists>res. Some (res_exact (fp_zero f n)) = Some res \<and> packed_result f r x res
     \<and> (x = 0 \<longrightarrow> fp_is_negative f (res_bits res) = n)"
  using zero_resultI [of x f n r] by (simp add: packed_ieee no_carry_zero)

theorem fp_multiply_ok:
  assumes "fp_finite (cx_format cx) a" "fp_finite (cx_format cx) b" "cx_rounding cx \<noteq> Fp_Odd"
    and "\<not> is_flushing (cx_format cx) (cx_control cx)"
  defines "f \<equiv> cx_format cx"
  defines "x \<equiv> fp_val f a * fp_val f b"
  shows "\<exists>res. fp_multiply a b cx = Some res \<and> packed_result f (cx_rounding cx) x res
    \<and> (x = 0 \<longrightarrow> fp_is_negative f (res_bits res) = (fp_is_negative f a \<noteq> fp_is_negative f b))"
proof -
  let ?n = "fp_is_negative f a \<noteq> fp_is_negative f b"
  have fin: "fp_finite f a" "fp_finite f b" using assms(1,2) by (simp_all add: f_def)
  have core: "fp_multiply a b cx =
      (if fp_is_zero f a \<or> fp_is_zero f b then Some (res_exact (fp_zero f ?n))
       else do {
         left \<leftarrow> unpack a f; right \<leftarrow> unpack b f;
         product \<leftarrow> checked_mul (ucast (up_significand left) :: u128) (ucast (up_significand right));
         let (significand, is_sticky) = narrow product (significand_scale f);
         cx_pack cx \<lparr> up_negative = ?n, up_exponent = up_exponent left + up_exponent right,
           up_significand = significand \<rparr> is_sticky })"
    using finite_no_nan [of "[a, b]" f] fin assms(4)
    by (simp add: fp_multiply_def flush_pair_off fp_with_flags_NONE f_def [symmetric]
        multiply_specials_def fp_finite_def)
  show ?thesis
  proof (cases "fp_is_zero f a \<or> fp_is_zero f b")
    case True
    then have "x = 0" using fin by (auto simp: x_def fp_val_zero_iff fp_finite_def)
    then show ?thesis using True zero_packedI [of x f ?n] by (simp add: core)
  next
    case False
    then obtain l r where l: "unpack a f = Some l" "up_negative l = fp_is_negative f a" "unpacked_ok f l (fp_abs f a)"
      and r: "unpack b f = Some r" "up_negative r = fp_is_negative f b" "unpacked_ok f r (fp_abs f b)"
      using unpack_ok [of f a] unpack_ok [of f b] fin by (auto simp: fp_finite_def)
    have x: "x = with_sign ?n (fp_abs f a * fp_abs f b)"
      by (simp add: x_def fp_val_with_sign with_sign_mult)
    obtain P w where "checked_mul (ucast (up_significand l) :: u128) (ucast (up_significand r)) = Some P"
      "narrow P (significand_scale f) = (w, unat P mod 2 ^ (mantissa_bits f + 3) \<noteq> 0)"
      and rep: "exact_rep f x \<lparr> up_negative = ?n, up_exponent = up_exponent l + up_exponent r, up_significand = w \<rparr>
        (unat P mod 2 ^ (mantissa_bits f + 3) \<noteq> 0)"
      using product_ok [OF l(3) r(3), of ?n, folded x] by blast
    then show ?thesis
      using False l r cx_pack_packed [of cx x, folded f_def, OF rep assms(3) assms(4) [folded f_def]]
        exact_rep_nonzero [OF rep]
      by (simp add: core)
  qed
qed


section \<open>Division\<close>

lemma quotient_ok:
  assumes l: "unpacked_ok f l a" and r: "unpacked_ok f r b"
  defines "num \<equiv> push_bit (significand_scale f) (ucast (up_significand l) :: u128)"
  shows "\<exists>q. checked_div num (ucast (up_significand r)) = Some q
    \<and> exact_rep f (with_sign n (a / b))
        \<lparr> up_negative = n, up_exponent = up_exponent l - up_exponent r, up_significand = ucast q \<rparr>
        (num mod ucast (up_significand r) \<noteq> 0)"
proof -
  let ?m = "mantissa_bits f" and ?L = "unat (up_significand l)" and ?R = "unat (up_significand r)"
  have L: "2 ^ (?m + 3) \<le> ?L" "?L < 2 ^ (?m + 4)" and R: "2 ^ (?m + 3) \<le> ?R" "?R < 2 ^ (?m + 4)"
    using l r by (simp_all add: unpacked_ok_def)
  have Rpos: "0 < ?R" by (rule unpacked_pos(1) [OF r])
  have "?L * 2 ^ (?m + 3) < 2 ^ (?m + 4) * 2 ^ (?m + 3)" using L(2) by simp
  also have "\<dots> = 2 ^ ((?m + 4) + (?m + 3))" by (simp only: power_add)
  also have "\<dots> < 2 ^ 128" using mantissa_bits_bounds [of f] by (intro power_strict_increasing) simp_all
  finally have num: "unat num = ?L * 2 ^ (?m + 3)"
    unfolding num_def by (subst unat_push_bit_small)
      (simp_all add: unat_ucast_128 significand_scale_def GUARD_BITS_def)
  have den: "unat (ucast (up_significand r) :: u128) = ?R" by (rule unat_ucast_128)
  have "(ucast (up_significand r) :: u128) \<noteq> 0" using Rpos den by (metis less_irrefl unat_0)
  then have cd: "checked_div num (ucast (up_significand r)) = Some (num div ucast (up_significand r))"
    by (simp add: checked_div_def)
  let ?Q = "?L * 2 ^ (?m + 3) div ?R"
  have lo: "2 ^ (?m + 2) \<le> ?Q"
  proof -
    have "2 ^ (?m + 2) * ?R \<le> 2 ^ (?m + 2) * 2 ^ (?m + 4)" using R(2) by simp
    also have "\<dots> = 2 ^ (?m + 3) * 2 ^ (?m + 3)" by (simp add: power_add)
    also have "\<dots> \<le> ?L * 2 ^ (?m + 3)" using L(1) by simp
    finally show ?thesis using Rpos by (simp add: less_eq_div_iff_mult_less_eq)
  qed
  have "?Q < 2 ^ (?m + 4)"
  proof -
    have "?L * 2 ^ (?m + 3) < 2 ^ (?m + 4) * 2 ^ (?m + 3)" using L(2) by simp
    also have "\<dots> \<le> 2 ^ (?m + 4) * ?R" using R(1) by simp
    finally show ?thesis using Rpos by (simp add: div_less_iff_less_mult)
  qed
  also have "(2::nat) ^ (?m + 4) < 2 ^ 64" by (rule pow_mantissa_less) simp
  finally have w: "unat (ucast (num div ucast (up_significand r)) :: u64) = ?Q"
    by (subst unat_ucast_64) (simp_all only: unat_div_distrib num den)
  have md: "(num mod ucast (up_significand r) \<noteq> 0) = (?L * 2 ^ (?m + 3) mod ?R \<noteq> 0)"
    by (simp only: unat_eq_0 [symmetric] unat_mod_distrib num den)
  have "a / b = real (?L * 2 ^ (?m + 3)) / real ?R * 2 powi (up_exponent l - up_exponent r - int (?m + 3))"
  proof -
    have ab: "a = real ?L * 2 powi (up_exponent l - int (?m + 3))" "b = real ?R * 2 powi (up_exponent r - int (?m + 3))"
      using l r by (simp_all add: unpacked_ok_def up_mag_def)
    have "real ?R \<noteq> 0" using Rpos by (simp only: of_nat_eq_0_iff)
    then show ?thesis unfolding ab by (simp add: power_int_diff power_add field_simps)
  qed
  from exact_quotient [OF w Rpos lo this, of n] cd md show ?thesis by auto
qed

lemma with_sign_divide: "with_sign m a / with_sign n b = with_sign (m \<noteq> n) (a / b)"
  by (auto simp: with_sign_def)

theorem fp_divide_ok:
  assumes "fp_finite (cx_format cx) a" "fp_finite (cx_format cx) b" "cx_rounding cx \<noteq> Fp_Odd"
    and "\<not> is_flushing (cx_format cx) (cx_control cx)"
  defines "f \<equiv> cx_format cx"
  defines "x \<equiv> fp_val f a / fp_val f b"
  assumes "fp_val f b \<noteq> 0"
  shows "\<exists>res. fp_divide a b cx = Some res \<and> packed_result f (cx_rounding cx) x res
    \<and> (x = 0 \<longrightarrow> fp_is_negative f (res_bits res) = (fp_is_negative f a \<noteq> fp_is_negative f b))"
proof -
  let ?n = "fp_is_negative f a \<noteq> fp_is_negative f b"
  have fin: "fp_finite f a" "fp_finite f b" using assms(1,2) by (simp_all add: f_def)
  have bz: "\<not> fp_is_zero f b" using fin(2) assms(7) by (auto simp: fp_val_zero_iff fp_finite_def)
  have core: "fp_divide a b cx =
      (if fp_is_zero f a then Some (res_exact (fp_zero f ?n))
       else do {
         left \<leftarrow> unpack a f; right \<leftarrow> unpack b f;
         let numerator = push_bit (significand_scale f) (ucast (up_significand left) :: u128);
         quotient \<leftarrow> checked_div numerator (ucast (up_significand right));
         let is_sticky = (numerator mod ucast (up_significand right) \<noteq> 0);
         cx_pack cx \<lparr> up_negative = ?n, up_exponent = up_exponent left - up_exponent right,
           up_significand = ucast quotient \<rparr> is_sticky })"
    using finite_no_nan [of "[a, b]" f] fin assms(4) bz
    by (simp add: fp_divide_def flush_pair_off fp_with_flags_NONE f_def [symmetric]
        divide_specials_def fp_finite_def)
  show ?thesis
  proof (cases "fp_is_zero f a")
    case True
    then have "x = 0" using fin by (auto simp: x_def fp_val_zero_iff fp_finite_def)
    then show ?thesis using True zero_packedI [of x f ?n] by (simp add: core)
  next
    case False
    with bz obtain l r where l: "unpack a f = Some l" "unpacked_ok f l (fp_abs f a)"
      and r: "unpack b f = Some r" "unpacked_ok f r (fp_abs f b)"
      using unpack_ok [of f a] unpack_ok [of f b] fin by (auto simp: fp_finite_def)
    have x: "x = with_sign ?n (fp_abs f a / fp_abs f b)"
      by (simp add: x_def fp_val_with_sign with_sign_divide)
    obtain q where "checked_div (push_bit (significand_scale f) (ucast (up_significand l) :: u128))
        (ucast (up_significand r)) = Some q"
      and rep: "exact_rep f x \<lparr> up_negative = ?n, up_exponent = up_exponent l - up_exponent r, up_significand = ucast q \<rparr>
        (push_bit (significand_scale f) (ucast (up_significand l) :: u128) mod ucast (up_significand r) \<noteq> 0)"
      using quotient_ok [OF l(2) r(2), of ?n, folded x] by blast
    then show ?thesis
      using False l r cx_pack_packed [of cx x, folded f_def, OF rep assms(3) assms(4) [folded f_def]]
        exact_rep_nonzero [OF rep]
      by (simp add: core)
  qed
qed


section \<open>Integer square root\<close>

text \<open>The loop works on bit \<open>4 ^ j\<close> with a partial root \<open>q\<close>, a multiple of \<open>2 ^ (j + 1)\<close> held as
  \<open>2 ^ (j + 1) * q\<close>, and the remainder \<open>N - q\<^sup>2\<close>.\<close>

lemma isqrt_loop_0: "isqrt_loop 0 rest rt = Some rt"
  by (subst isqrt_loop.simps) simp

lemma isqrt_step_bound:
  assumes "q ^ 2 \<le> N" "N < 2 ^ 128" "j \<le> 63" "q = 0 \<or> j < 63"
  shows "2 ^ Suc j * q + 4 ^ j < (2::nat) ^ 128"
proof (cases "q = 0")
  case True
  have "(4::nat) ^ j \<le> 4 ^ 63" using assms(3) by (intro power_increasing) simp_all
  then show ?thesis using True by simp
next
  case False
  have "q ^ 2 < (2 ^ 64) ^ 2" using assms(1,2) by simp
  then have q: "q < 2 ^ 64" by (rule power_less_imp_less_base) simp
  have "j \<le> 62" using False assms(4) by simp
  then have "(2::nat) ^ Suc j \<le> 2 ^ 63" "(4::nat) ^ j \<le> 4 ^ 62" by (intro power_increasing; simp)+
  note p = this
  have "2 ^ Suc j * q \<le> 2 ^ 63 * 2 ^ 64" using p(1) less_imp_le [OF q] by (rule mult_le_mono)
  then have "2 ^ Suc j * q + 4 ^ j \<le> 2 ^ 63 * 2 ^ 64 + 4 ^ 62" using p(2) by (rule add_mono)
  also have "\<dots> < (2::nat) ^ 128" by simp
  finally show ?thesis .
qed

lemma isqrt_loop_step:
  assumes "unat b = 4 ^ j" "unat rest = N - q ^ 2" "unat rt = 2 ^ Suc j * q"
    and "q ^ 2 \<le> N" "N < (q + 2 ^ Suc j) ^ 2" "N < 2 ^ 128" "j \<le> 63" "q = 0 \<or> j < 63"
  obtains rest' rt' q' where "isqrt_loop b rest rt = isqrt_loop (drop_bit 2 b) rest' rt'"
    "unat rest' = N - q' ^ 2" "unat rt' = 2 ^ j * q'" "q' ^ 2 \<le> N" "N < (q' + 2 ^ j) ^ 2"
proof -
  have b0: "b \<noteq> 0" using assms(1) by auto
  have "unat rt + unat b < 2 ^ LENGTH(128)"
    using isqrt_step_bound [OF assms(4,6-8)] by (simp only: assms(1,3) len_num1 len_bit0 len_bit1) simp
  note fit = checked_add_ok [OF this] unat_add_ok [OF this]
  have half: "unat (drop_bit 1 rt) = 2 ^ j * q" using unat_drop_bit [of 1 rt] by (simp add: assms(3))
  have sq: "(q + 2 ^ j) ^ 2 = q ^ 2 + (2 ^ Suc j * q + 4 ^ j)"
    by (simp add: power2_eq_square algebra_simps power_mult_distrib [symmetric] flip: power_mult_distrib)
  show ?thesis
  proof (cases "rt + b \<le> rest")
    case True
    then have "2 ^ Suc j * q + 4 ^ j \<le> N - q ^ 2"
      by (simp only: word_le_nat_alt fit(2) assms(1-3))
    then have q': "(q + 2 ^ j) ^ 2 \<le> N" using assms(4) unfolding sq by simp
    have "unat (drop_bit 1 rt) + unat b < 2 ^ LENGTH(128)"
      using \<open>unat rt + unat b < _\<close> unat_drop_bit [of 1 rt] by simp
    note fit2 = checked_add_ok [OF this] unat_add_ok [OF this]
    show ?thesis
    proof (rule that [of "rest - (rt + b)" "drop_bit 1 rt + b" "q + 2 ^ j"])
      show "isqrt_loop b rest rt = isqrt_loop (drop_bit 2 b) (rest - (rt + b)) (drop_bit 1 rt + b)"
        using b0 True by (subst isqrt_loop.simps) (simp only: fit(1) fit2(1) bind.simps if_True simp_thms)
      show "unat (rest - (rt + b)) = N - (q + 2 ^ j) ^ 2"
        using True by (simp only: unat_sub fit(2) assms(1-3) sq diff_diff_left)
      show "unat (drop_bit 1 rt + b) = 2 ^ j * (q + 2 ^ j)"
        unfolding fit2(2) half assms(1) by (simp add: algebra_simps flip: power_mult_distrib)
      show "N < (q + 2 ^ j + 2 ^ j) ^ 2" using assms(5) by (simp add: mult_2 add.assoc)
    qed (rule q')
  next
    case False
    then have "N - q ^ 2 < 2 ^ Suc j * q + 4 ^ j"
      by (simp only: word_le_nat_alt fit(2) assms(1-3) not_le)
    then have "N < (q + 2 ^ j) ^ 2" using assms(4) unfolding sq by simp
    moreover have "isqrt_loop b rest rt = isqrt_loop (drop_bit 2 b) rest (drop_bit 1 rt)"
      using b0 False by (subst isqrt_loop.simps) (simp only: fit(1) bind.simps if_False if_True simp_thms)
    ultimately show ?thesis using that [of rest "drop_bit 1 rt" q] half assms(2,4) by blast
  qed
qed

lemma isqrt_loop_ok:
  assumes "unat b = 4 ^ j" "unat rest = N - q ^ 2" "unat rt = 2 ^ Suc j * q"
    and "q ^ 2 \<le> N" "N < (q + 2 ^ Suc j) ^ 2" "N < 2 ^ 128" "j \<le> 63" "q = 0 \<or> j < 63"
  shows "\<exists>r. isqrt_loop b rest rt = Some r \<and> unat r ^ 2 \<le> N \<and> N < (unat r + 1) ^ 2"
  using assms
proof (induction j arbitrary: b rest rt q)
  case 0
  obtain rest' rt' q' where s: "isqrt_loop b rest rt = isqrt_loop (drop_bit 2 b) rest' rt'"
    "unat rt' = 2 ^ 0 * q'" "q' ^ 2 \<le> N" "N < (q' + 2 ^ 0) ^ 2"
    using isqrt_loop_step [OF 0] by metis
  have "drop_bit 2 b = 0" using 0(1) unat_drop_bit [of 2 b] by (simp flip: unat_eq_0)
  then show ?case using s by (simp add: isqrt_loop_0)
next
  case (Suc j)
  obtain rest' rt' q' where s: "isqrt_loop b rest rt = isqrt_loop (drop_bit 2 b) rest' rt'"
    "unat rest' = N - q' ^ 2" "unat rt' = 2 ^ Suc j * q'" "q' ^ 2 \<le> N" "N < (q' + 2 ^ Suc j) ^ 2"
    using isqrt_loop_step [OF Suc.prems] by metis
  have "unat (drop_bit 2 b) = 4 ^ j" using Suc.prems(1) unat_drop_bit [of 2 b] by simp
  then show ?case using Suc.IH [OF _ s(2-5) Suc.prems(6)] Suc.prems(7) s(1) by simp
qed

theorem isqrt_u128_ok:
  "\<exists>r. isqrt_u128 v = Some r \<and> unat r ^ 2 \<le> unat v \<and> unat v < (unat r + 1) ^ 2"
proof (cases "v = 0")
  case True
  then show ?thesis by (simp add: isqrt_u128_def)
next
  case False
  note lz = leading_zeros_bounds [OF False]
  define top where "top = 127 - leading_zeros v"
  define j where "j = top div 2"
  have top: "top \<le> 127" "leading_zeros v = 127 - top" using lz(1) by (auto simp: top_def)
  have j: "j \<le> 63" "2 * j \<le> top" "top < 2 * j + 2" using top by (auto simp: j_def)
  have b: "unat (push_bit (2 * j) 1 :: u128) = 4 ^ j"
    using unat_pow2 [of "2 * j", where 'a = 128] j(1) by (simp add: power_mult)
  have "unat v < 2 ^ (top + 1)" using lz(3) top by simp
  also have "(2::nat) ^ (top + 1) \<le> 2 ^ (2 * j + 2)" using j by (intro power_increasing) simp_all
  also have "\<dots> = (0 + 2 ^ Suc j) ^ 2" by (simp add: power_mult [symmetric] power2_eq_square power_add mult.commute flip: power_add)
  finally have "unat v < (0 + 2 ^ Suc j) ^ 2" .
  moreover have "unat v < 2 ^ 128" using unsigned_less [of v] by simp
  ultimately have "\<exists>r. isqrt_loop (push_bit (2 * j) 1) v 0 = Some r \<and> unat r ^ 2 \<le> unat v \<and> unat v < (unat r + 1) ^ 2"
    using j(1) b by (intro isqrt_loop_ok [where j = j and q = 0]) simp_all
  moreover have "isqrt_u128 v = isqrt_loop (push_bit (2 * j) 1) v 0"
    using False top j(1) by (simp add: isqrt_u128_def count_sub_def j_def)
  ultimately show ?thesis by simp
qed


section \<open>Square root\<close>

lemma sqrt_scaled:
  fixes S :: real
  assumes "0 \<le> S"
  shows "sqrt (S * 2 powi (e - k)) = sqrt (S * (if e mod 2 \<noteq> 0 then 2 else 1) * 2 powi k) * 2 powi (e div 2 - k)"
proof -
  have "e div 2 + e div 2 + e mod 2 = e" by simp
  then have "(2::real) powi e = 2 powi (e div 2) * 2 powi (e div 2) * 2 powi (e mod 2)"
    by (metis powi_add)
  moreover have "(2::real) powi (e mod 2) = (if e mod 2 \<noteq> 0 then 2 else 1)"
    by (cases "e mod 2 = 0") (auto simp: not_mod_2_eq_0_eq_1)
  ultimately have "(2::real) powi e = (if e mod 2 \<noteq> 0 then 2 else 1) * (2 powi (e div 2)) ^ 2"
    by (simp only: power2_eq_square mult.commute)
  then have "S * 2 powi (e - k) = S * (if e mod 2 \<noteq> 0 then 2 else 1) * 2 powi k * (2 powi (e div 2 - k)) ^ 2"
    by (simp add: power_int_diff power2_eq_square field_simps)
  moreover have "sqrt (A * y ^ 2) = sqrt A * y" if "0 \<le> y" for A y :: real
    using that by (simp add: real_sqrt_mult)
  ultimately show ?thesis by (simp only: zero_le_power_int zero_le_numeral)
qed

lemma isqrt_real:
  assumes "r ^ 2 \<le> N" "N < (r + 1) ^ 2"
  shows "real r \<le> sqrt (real N)" "sqrt (real N) < real r + 1" "0 < sqrt (real N) - real r \<longleftrightarrow> r * r \<noteq> N"
proof -
  have "real (r ^ 2) \<le> real N" "real N < real ((r + 1) ^ 2)"
    using assms by (simp_all only: of_nat_le_iff of_nat_less_iff)
  then show le: "real r \<le> sqrt (real N)" and "sqrt (real N) < real r + 1"
    by (simp_all add: real_le_rsqrt real_less_lsqrt add.commute)
  have "sqrt (real N) = real r \<longleftrightarrow> real N = real (r ^ 2)"
  proof
    assume "sqrt (real N) = real r"
    then have "sqrt (real N) ^ 2 = real r ^ 2" by simp
    then show "real N = real (r ^ 2)" by (simp del: of_nat_eq_iff)
  qed simp
  then have "sqrt (real N) = real r \<longleftrightarrow> N = r ^ 2" by (simp only: of_nat_eq_iff)
  then show "0 < sqrt (real N) - real r \<longleftrightarrow> r * r \<noteq> N" using le by (auto simp: power2_eq_square)
qed

lemma integer_square_root_ok:
  assumes u: "unpacked_ok f u a"
  shows "\<exists>w s. integer_square_root u f = Some (w, s)
    \<and> exact_rep f (sqrt a) \<lparr> up_negative = False, up_exponent = up_exponent u div 2, up_significand = w \<rparr> s
    \<and> 2 powi (up_exponent u div 2) \<le> sqrt a"
proof -
  let ?m = "mantissa_bits f" and ?S = "unat (up_significand u)" and ?e = "up_exponent u"
  define c where "c = (if ?e mod 2 \<noteq> 0 then 2 else 1 :: nat)"
  define N where "N = ?S * c * 2 ^ (?m + 3)"
  have S: "2 ^ (?m + 3) \<le> ?S" "?S < 2 ^ (?m + 4)" and a: "a = real ?S * 2 powi (?e - int (?m + 3))"
    using u by (simp_all add: unpacked_ok_def up_mag_def)
  define s0 where "s0 = (ucast (up_significand u) :: u128)"
  define s1 where "s1 = (if ?e mod 2 \<noteq> 0 then push_bit 1 s0 else s0)"
  have c2: "c \<le> 2" "1 \<le> c" by (simp_all add: c_def)
  have Sc: "?S * c < 2 ^ (?m + 5)"
  proof -
    have "?S * c \<le> ?S * 2" using c2 by simp
    also have "\<dots> < 2 ^ (?m + 4) * 2" using S(2) by simp
    finally show ?thesis by (simp add: power_add)
  qed
  have big: "2 ^ (?m + 5) * 2 ^ (?m + 3) < (2::nat) ^ 128"
    unfolding power_add [symmetric] using mantissa_bits_bounds [of f] by (intro power_strict_increasing) simp_all
  have s1: "unat s1 = ?S * c"
  proof -
    have "unat s0 * 2 ^ 1 < 2 ^ LENGTH(128)"
      using S(2) pow_mantissa_less [of 4 f] by (simp add: s0_def unat_ucast_128)
    from unat_push_bit_small [OF this] show ?thesis by (simp add: s1_def s0_def unat_ucast_128 c_def)
  qed
  have "?S * c * 2 ^ (?m + 3) < 2 ^ (?m + 5) * 2 ^ (?m + 3)" using Sc by simp
  also note big
  finally have N128: "N < 2 ^ 128" by (simp only: N_def)
  have scaled: "unat (push_bit (?m + 3) s1) = N"
    using N128 unfolding N_def by (subst unat_push_bit_small) (simp_all add: s1)
  obtain r where r: "isqrt_u128 (push_bit (?m + 3) s1) = Some r" "unat r ^ 2 \<le> N" "N < (unat r + 1) ^ 2"
    using isqrt_u128_ok [of "push_bit (?m + 3) s1"] by (auto simp: scaled)
  have rlo: "2 ^ (?m + 3) \<le> unat r"
  proof -
    have "(2 ^ (?m + 3)) ^ 2 = 2 ^ (?m + 3) * (1 * (2::nat) ^ (?m + 3))" by (simp add: power2_eq_square)
    also have "\<dots> \<le> ?S * (c * 2 ^ (?m + 3))" using S(1) c2 by (intro mult_le_mono) simp_all
    also have "\<dots> < (unat r + 1) ^ 2" using r(3) by (simp add: N_def mult.assoc)
    finally have "2 ^ (?m + 3) < unat r + 1" by (rule power_less_imp_less_base) simp
    then show ?thesis by simp
  qed
  have rhi: "unat r < 2 ^ (?m + 4)"
  proof -
    have "unat r ^ 2 \<le> N" by (rule r(2))
    also have "\<dots> < 2 ^ (?m + 5) * 2 ^ (?m + 3)" using Sc by (simp add: N_def)
    also have "\<dots> = (2 ^ (?m + 4)) ^ 2" by (simp add: power_add power2_eq_square)
    finally show ?thesis by (rule power_less_imp_less_base) simp
  qed
  also have "(2::nat) ^ (?m + 4) < 2 ^ 64" by (rule pow_mantissa_less) simp
  finally have w: "unat (ucast r :: u64) = unat r" by (rule unat_ucast_64)
  have mul: "checked_mul r r = Some (r * r)" "unat (r * r) = unat r * unat r"
    using r(2) N128 by (simp_all add: checked_mul_def unat_word_ariths power2_eq_square)
  have st: "r * r \<noteq> push_bit (?m + 3) s1 \<longleftrightarrow> unat r * unat r \<noteq> N"
    unfolding unat_inj [symmetric] mul(2) scaled ..
  note re = isqrt_real [OF r(2,3)]
  have x: "sqrt a = (real (unat r) + (sqrt (real N) - real (unat r))) * 2 powi (?e div 2 - int (?m + 3))"
  proof -
    have "real ?S * (if ?e mod 2 \<noteq> 0 then 2 else 1) * 2 powi int (?m + 3) = real N"
      by (simp only: N_def c_def of_nat_mult power_int_of_nat of_nat_power of_nat_numeral) simp
    then show ?thesis unfolding a sqrt_scaled [OF of_nat_0_le_iff] by simp
  qed
  have rep: "exact_rep f (sqrt a) \<lparr> up_negative = False, up_exponent = ?e div 2, up_significand = ucast r \<rparr>
      (unat r * unat r \<noteq> N)"
  proof (rule exact_repI [of _ "unat r" "sqrt (real N) - real (unat r)"])
    show "0 < unat r" using rlo by (rule less_le_trans [rotated]) simp
    show "2 ^ (?m + 2) \<le> unat r" using rlo by (rule order_trans [rotated]) (simp add: power_add)
  qed (use w re x in \<open>simp_all add: with_sign_def\<close>)
  have "2 powi (?e div 2) = real (2 ^ (?m + 3)) * 2 powi (?e div 2 - int (?m + 3))"
    using powi_nat_diff [of "?e div 2" "?m + 3"] by (simp add: mult.commute)
  also have "\<dots> \<le> sqrt (real N) * 2 powi (?e div 2 - int (?m + 3))"
    using of_nat_mono [OF rlo, where 'a = real] re(1) by (intro mult_right_mono order_trans [OF _ re(1)]) simp_all
  finally have "2 powi (?e div 2) \<le> sqrt a" using x by simp
  moreover have "integer_square_root u f = Some (ucast r, unat r * unat r \<noteq> N)"
    unfolding integer_square_root_def Let_def significand_scale_def GUARD_BITS_def
      s0_def [symmetric] s1_def [symmetric] r(1) bind.simps mul(1) st ..
  ultimately show ?thesis using rep by blast
qed

theorem square_root_ok:
  assumes "fp_finite (cx_format cx) a" "cx_rounding cx \<noteq> Fp_Odd"
    and "\<not> is_flushing (cx_format cx) (cx_control cx)" "0 < fp_val (cx_format cx) a"
  defines "f \<equiv> cx_format cx"
  shows "\<exists>res. square_root a cx = Some res \<and> ieee_result f (cx_rounding cx) (sqrt (fp_val f a)) res"
proof -
  have fin: "fp_finite f a" and pos: "0 < fp_val f a" using assms(1,4) by (simp_all add: f_def)
  have nz: "\<not> fp_is_zero f a" using fin pos fp_val_zero_iff [of f a] by (auto simp: fp_finite_def)
  have neg: "\<not> fp_is_negative f a"
  proof
    assume "fp_is_negative f a"
    then show False using pos fp_abs_nonneg [of f a] by (simp add: fp_val_def)
  qed
  then have val: "fp_val f a = fp_abs f a" by (simp add: fp_val_def)
  obtain u where u: "unpack a f = Some u" "unpacked_ok f u (fp_abs f a)"
    using unpack_ok [of f a] fin nz by (auto simp: fp_finite_def)
  obtain w s where isq: "integer_square_root u f = Some (w, s)"
    and rep: "exact_rep f (sqrt (fp_val f a))
      \<lparr> up_negative = False, up_exponent = up_exponent u div 2, up_significand = w \<rparr> s"
    and lo: "2 powi (up_exponent u div 2) \<le> sqrt (fp_val f a)"
    using integer_square_root_ok [OF u(2)] by (auto simp: val)
  have "fp_min_exponent f \<le> up_exponent u div 2"
    using u(2) by (cases f) (auto simp: unpacked_ok_def fp_min_exponent_def exponent_bias_def exponent_bits_def)
  then have "2 powi fp_min_exponent f \<le> \<bar>sqrt (fp_val f a)\<bar>"
    using lo pos by (simp add: powi_le_iff order_trans [OF _ lo])
  then have "\<not> subnormal_carry f (cx_rounding cx) (sqrt (fp_val f a))" by (rule no_subnormal_carry(1))
  moreover have "square_root a cx = cx_pack cx
      \<lparr> up_negative = False, up_exponent = up_exponent u div 2, up_significand = w \<rparr> s"
    using finite_no_nan [of "[a]" f] fin nz neg u(1) isq assms(3)
    by (simp add: square_root_def flush_input_off fp_with_flags_NONE f_def [symmetric] fp_finite_def)
  ultimately show ?thesis
    using cx_pack_ok [of cx _ _ s, folded f_def, OF rep assms(2) assms(3) [folded f_def]] by simp
qed

end
