(* ===== verification/Fp_Compare.thy ===== *)
theory Fp_Compare
  imports Fp_Operand
begin

unbundle bit_operations_syntax

text \<open>
  Comparison and the minimum and maximum families: \<open>fp/softfloat/compare.rs\<close>.
\<close>

definition fp_ordering :: "u64 \<Rightarrow> u64 \<Rightarrow> FpFormat \<Rightarrow> FpComparison" where
  "fp_ordering lhs rhs f =
     (if fp_is_zero f lhs \<and> fp_is_zero f rhs then Fp_Equal
      else if lhs = rhs then Fp_Equal
      else
        let is_lhs_negative = fp_is_negative f lhs;
            is_rhs_negative = fp_is_negative f rhs
        in if is_lhs_negative \<noteq> is_rhs_negative then
             if is_lhs_negative then Fp_Less else Fp_Greater
           else
             let magnitude = (\<lambda>b. b AND NOT (push_bit (sign_shift f) 1));
                 is_less = (if is_lhs_negative then magnitude lhs > magnitude rhs
                            else magnitude lhs < magnitude rhs)
             in if is_less then Fp_Less else Fp_Greater)"

definition fp_compare :: "u64 \<Rightarrow> u64 \<Rightarrow> FpFormat \<Rightarrow> bool \<Rightarrow> FpComparison \<times> FpExceptions" where
  "fp_compare lhs rhs f is_signalling =
     (let operands = [lhs, rhs] in
      if any_nan operands f then
        let is_invalid = (is_signalling \<or> signalling_among operands f);
            raised = (if is_invalid then fx_INVALID else fx_NONE)
        in (Fp_Unordered, raised)
      else (fp_ordering lhs rhs f, fx_NONE))"

datatype Extremum = Ext_Max | Ext_Min | Ext_MaxNum | Ext_MinNum

definition is_maximum :: "Extremum \<Rightarrow> bool" where
  "is_maximum w \<longleftrightarrow> w = Ext_Max \<or> w = Ext_MaxNum"

definition ignores_quiet_nan :: "Extremum \<Rightarrow> bool" where
  "ignores_quiet_nan w \<longleftrightarrow> w = Ext_MaxNum \<or> w = Ext_MinNum"

definition numeric_nan_case :: "u64 \<Rightarrow> u64 \<Rightarrow> Extremum \<Rightarrow> FpFormat \<Rightarrow> FpResult option" where
  "numeric_nan_case lhs rhs which f =
     (if \<not> ignores_quiet_nan which then None
      else if signalling_among [lhs, rhs] f then None
      else (case (is_nan f lhs, is_nan f rhs) of
              (True, False) \<Rightarrow> Some (res_exact rhs)
            | (False, True) \<Rightarrow> Some (res_exact lhs)
            | _ \<Rightarrow> None))"

definition extremum :: "u64 \<Rightarrow> u64 \<Rightarrow> Extremum \<Rightarrow> FpFormat \<Rightarrow> FpControl \<Rightarrow> FpResult" where
  "extremum lhs rhs which f control =
     (case numeric_nan_case lhs rhs which f of
        Some result \<Rightarrow> result
      | None \<Rightarrow>
          (case propagate [lhs, rhs] f control of
             Some result \<Rightarrow> result
           | None \<Rightarrow>
               if fp_is_zero f lhs \<and> fp_is_zero f rhs then
                 let is_negative = (if is_maximum which
                                    then fp_is_negative f lhs \<and> fp_is_negative f rhs
                                    else fp_is_negative f lhs \<or> fp_is_negative f rhs)
                 in res_exact (fp_zero f is_negative)
               else
                 let is_lhs_greater = (fp_ordering lhs rhs f = Fp_Greater);
                     takes_lhs = (is_lhs_greater = is_maximum which)
                 in res_exact (if takes_lhs then lhs else rhs)))"

end
