(* ===== verification/Fp_Order.thy ===== *)
theory Fp_Order
  imports Fp_Pack Fp_Compare
begin

unbundle bit_operations_syntax

text \<open>
  The order of values is the order of sign and magnitude bits: what \<open>fp/softfloat/compare.rs\<close> relies
  on, and with it that distinct finite encodings of one sign have distinct values.
\<close>

section \<open>Magnitudes\<close>

definition fp_magnitude_of :: "FpFormat \<Rightarrow> u64 \<Rightarrow> nat" where
  "fp_magnitude_of f b = fp_exp f b * 2 ^ mantissa_bits f + fp_man f b"

definition magnitude_value :: "FpFormat \<Rightarrow> nat \<Rightarrow> real" where
  "magnitude_value f M = (let e = M div 2 ^ mantissa_bits f; t = M mod 2 ^ mantissa_bits f in
     real (if e = 0 then t else 2 ^ mantissa_bits f + t)
       * 2 powi (max 1 (int e) - exponent_bias f - int (mantissa_bits f)))"

lemma fp_abs_magnitude: "fp_abs f b = magnitude_value f (fp_magnitude_of f b)"
proof -
  have "fp_magnitude_of f b div 2 ^ mantissa_bits f = fp_exp f b"
    "fp_magnitude_of f b mod 2 ^ mantissa_bits f = fp_man f b"
    using fp_man_less [of f b] by (simp_all add: fp_magnitude_of_def)
  then show ?thesis by (simp add: magnitude_value_def fp_abs_def fp_sig_def fp_unit_def)
qed

lemma magnitude_value_step: "magnitude_value f M < magnitude_value f (Suc M)"
proof -
  let ?m = "mantissa_bits f" and ?e = "M div 2 ^ mantissa_bits f" and ?t = "M mod 2 ^ mantissa_bits f"
  let ?p = "\<lambda>e. 2 powi (max 1 (int e) - exponent_bias f - int ?m) :: real"
  show ?thesis
  proof (cases "Suc ?t < 2 ^ ?m")
    case True
    then have "Suc M div 2 ^ ?m = ?e" "Suc M mod 2 ^ ?m = Suc ?t"
      by (simp_all add: div_Suc mod_Suc)
    then show ?thesis by (simp add: magnitude_value_def Let_def)
  next
    case False
    then have carry: "Suc ?t = 2 ^ ?m"
      by (metis Suc_leI le_antisym mod_less_divisor not_less zero_less_numeral zero_less_power)
    then have "Suc M div 2 ^ ?m = Suc ?e" "Suc M mod 2 ^ ?m = 0"
      by (simp_all add: div_Suc mod_Suc)
    then have next_value: "magnitude_value f (Suc M) = 2 ^ ?m * ?p (Suc ?e)"
      by (simp add: magnitude_value_def)
    have t: "real ?t < 2 ^ ?m" using carry by (metis lessI of_nat_less_iff of_nat_numeral of_nat_power)
    show ?thesis
    proof (cases "?e = 0")
      case True
      then have "magnitude_value f M = real ?t * ?p (Suc ?e)" by (simp add: magnitude_value_def)
      then show ?thesis unfolding next_value using t by simp
    next
      case False
      then have "?p (Suc ?e) = 2 * ?p ?e" by (simp add: power_int_diff max_def power_int_add)
      moreover have "magnitude_value f M = (2 ^ ?m + real ?t) * ?p ?e" using False by (simp add: magnitude_value_def)
      ultimately show ?thesis unfolding next_value using t by simp
    qed
  qed
qed

lemma magnitude_value_less_iff: "magnitude_value f M < magnitude_value f N \<longleftrightarrow> M < N"
proof -
  have "strict_mono (magnitude_value f)"
    by (simp add: strict_mono_Suc_iff magnitude_value_step)
  then show ?thesis by (rule strict_mono_less)
qed

lemma fp_abs_less_iff: "fp_abs f b < fp_abs f c \<longleftrightarrow> fp_magnitude_of f b < fp_magnitude_of f c"
  by (simp add: fp_abs_magnitude magnitude_value_less_iff)

lemma fp_abs_eq_iff: "fp_abs f b = fp_abs f c \<longleftrightarrow> fp_magnitude_of f b = fp_magnitude_of f c"
  using fp_abs_less_iff [of f b c] fp_abs_less_iff [of f c b] by (metis linorder_neq_iff)

lemma fp_bits_eqI:
  assumes "fp_wf f b" "fp_wf f c" "fp_is_negative f b = fp_is_negative f c" "fp_abs f b = fp_abs f c"
  shows "b = c"
proof -
  have "unat b = unat c"
    using fp_fields_eq [OF assms(1)] fp_fields_eq [OF assms(2)] assms(3,4)
    by (simp add: fp_abs_eq_iff fp_magnitude_of_def)
  then show ?thesis by (simp add: unat_inj)
qed

text \<open>Two finite patterns of the same non-zero value are the same pattern.\<close>

lemma fp_val_inj:
  assumes "fp_wf f b" "fp_wf f c" "fp_val f b = fp_val f c" "fp_val f c \<noteq> 0"
  shows "b = c"
proof -
  have nb: "fp_is_negative f d \<longleftrightarrow> fp_val f d < 0" if "fp_val f d \<noteq> 0" for d
    using that fp_abs_nonneg [of f d] by (auto simp: fp_val_def split: if_splits)
  show ?thesis
    using assms nb [of b] nb [of c] abs_fp_val [of f b] abs_fp_val [of f c]
    by (intro fp_bits_eqI [OF assms(1,2)]) simp_all
qed


section \<open>Comparison\<close>

lemma magnitude_bits:
  assumes "fp_wf f b"
  shows "unat (b AND NOT (push_bit (sign_shift f) 1)) = fp_magnitude_of f b"
proof -
  have "i < sign_shift f" if "bit b i" "i \<noteq> sign_shift f" for i
    using assms that bit_imp_less [of b "fp_bits f" i] format_widths(1,2) [of f] by (simp add: fp_wf_def)
  then have "b AND NOT (push_bit (sign_shift f) 1) = take_bit (sign_shift f) b"
    using format_widths(4) [of f] by (intro bit_word_eqI) (auto simp: bit_simps)
  then show ?thesis
    using fp_magnitude(2) [OF assms] by (simp only: unat_take_bit_mod fp_magnitude_of_def)
qed

definition compare_values :: "real \<Rightarrow> real \<Rightarrow> FpComparison" where
  "compare_values x y = (if x < y then Fp_Less else if x = y then Fp_Equal else Fp_Greater)"

lemma fp_ordering_ok:
  assumes "fp_wf f a" "fp_wf f b"
  shows "fp_ordering a b f = compare_values (fp_val f a) (fp_val f b)"
proof -
  let ?M = "fp_magnitude_of f"
  have z: "fp_is_zero f c \<longleftrightarrow> ?M c = 0" if "fp_wf f c" for c
    using that by (simp add: fp_is_zero_iff fp_magnitude_of_def)
  have abs0: "fp_abs f c = 0 \<longleftrightarrow> ?M c = 0" for c
    by (auto simp: fp_abs_eq_0_iff fp_magnitude_of_def)
  have cmp: "a AND NOT (push_bit (sign_shift f) 1) < b AND NOT (push_bit (sign_shift f) 1) \<longleftrightarrow> fp_abs f a < fp_abs f b"
    "b AND NOT (push_bit (sign_shift f) 1) < a AND NOT (push_bit (sign_shift f) 1) \<longleftrightarrow> fp_abs f b < fp_abs f a"
    by (simp_all only: word_less_nat_alt magnitude_bits [OF assms(1)] magnitude_bits [OF assms(2)] fp_abs_less_iff)
  have eq: "a = b \<longleftrightarrow> fp_is_negative f a = fp_is_negative f b \<and> fp_abs f a = fp_abs f b"
    using fp_bits_eqI [OF assms] by blast
  have zero: "fp_is_zero f a \<longleftrightarrow> fp_abs f a = 0" "fp_is_zero f b \<longleftrightarrow> fp_abs f b = 0"
    using assms by (simp_all add: z abs0)
  note nn = fp_abs_nonneg [of f a] fp_abs_nonneg [of f b]
  show ?thesis
    unfolding fp_ordering_def Let_def cmp eq zero compare_values_def fp_val_def
    using nn by auto
qed

theorem fp_compare_ok:
  assumes "fp_wf f a" "fp_wf f b"
  shows "fp_compare a b f sig =
    (if is_nan f a \<or> is_nan f b
     then (Fp_Unordered, if sig \<or> is_signalling_nan f a \<or> is_signalling_nan f b then fx_INVALID else fx_NONE)
     else (compare_values (fp_val f a) (fp_val f b), fx_NONE))"
  using fp_ordering_ok [OF assms] by (simp add: fp_compare_def any_nan_def signalling_among_def)


section \<open>Minimum and maximum\<close>

text \<open>For operands that are not NaNs the result is one of them (as a value) and bounds both; the
  maximum of two zeroes of opposite sign is the positive one, the minimum the negative one.\<close>

theorem extremum_ok:
  assumes wf: "fp_wf f a" "fp_wf f b" and nan: "\<not> is_nan f a" "\<not> is_nan f b"
  shows "fp_val f (res_bits (extremum a b which f c))
      = (if is_maximum which then max (fp_val f a) (fp_val f b) else min (fp_val f a) (fp_val f b))"
    and "res_raised (extremum a b which f c) = fx_NONE"
    and "fp_is_zero f a \<Longrightarrow> fp_is_zero f b \<Longrightarrow> fp_is_negative f (res_bits (extremum a b which f c))
      = (if is_maximum which then fp_is_negative f a \<and> fp_is_negative f b
         else fp_is_negative f a \<or> fp_is_negative f b)"
proof -
  have "signalling_among [a, b] f = False" using nan by (simp add: signalling_among_def is_signalling_nan_def)
  moreover have "numeric_nan_case a b which f = None" using nan by (simp add: numeric_nan_case_def)
  moreover have "propagate [a, b] f c = None" using nan by (simp add: propagate_def)
  ultimately have ext: "extremum a b which f c =
      (if fp_is_zero f a \<and> fp_is_zero f b
       then res_exact (fp_zero f (if is_maximum which then fp_is_negative f a \<and> fp_is_negative f b
                                  else fp_is_negative f a \<or> fp_is_negative f b))
       else res_exact (if (fp_ordering a b f = Fp_Greater) = is_maximum which then a else b))"
    by (simp add: extremum_def Let_def)
  have zero: "fp_val f d = 0" if "fp_is_zero f d" "fp_wf f d" for d
    using that fp_abs_eq_0_iff [of f d] by (simp add: fp_val_def fp_is_zero_iff)
  show "fp_val f (res_bits (extremum a b which f c))
      = (if is_maximum which then max (fp_val f a) (fp_val f b) else min (fp_val f a) (fp_val f b))"
    unfolding ext fp_ordering_ok [OF wf]
    using zero wf by (auto simp: compare_values_def res_exact_def fp_zero_fields)
  show "res_raised (extremum a b which f c) = fx_NONE" unfolding ext by (simp add: res_exact_def)
  show "fp_is_negative f (res_bits (extremum a b which f c))
      = (if is_maximum which then fp_is_negative f a \<and> fp_is_negative f b
         else fp_is_negative f a \<or> fp_is_negative f b)" if "fp_is_zero f a" "fp_is_zero f b"
    using that unfolding ext by (simp add: res_exact_def fp_zero_fields)
qed


section \<open>NaN operands\<close>

lemma quieten_quiet: "is_nan f b \<Longrightarrow> is_nan f (quieten f b) \<and> \<not> is_signalling_nan f (quieten f b)"
proof -
  assume n: "is_nan f b"
  let ?q = "mantissa_bits f - 1"
  have q: "?q < mantissa_bits f" "?q < 64" using mantissa_bits_bounds [of f] by simp_all
  have qb: "b AND quiet_bit f = 0 \<longleftrightarrow> \<not> bit b ?q" for b :: u64
    by (simp add: quiet_bit_def bit_iff_and_push_bit_not_eq_0)
  let ?b = "b OR quiet_bit f"
  have "take_bit (exponent_bits f) (drop_bit (mantissa_bits f) ?b)
      = take_bit (exponent_bits f) (drop_bit (mantissa_bits f) b)"
    using q by (intro bit_word_eqI) (auto simp: bit_simps quiet_bit_def)
  then have "fp_exp f ?b = fp_exp f b" by (simp add: fp_exp_def)
  moreover have "bit (take_bit (mantissa_bits f) ?b) ?q" using q by (simp add: bit_simps quiet_bit_def)
  then have "2 ^ ?q \<le> fp_man f ?b" unfolding fp_man_def by (rule bit_imp_le_unat)
  then have "0 < fp_man f ?b" by (rule less_le_trans [rotated]) simp
  ultimately have "is_nan f ?b" using n by (simp add: is_nan_iff)
  moreover have "\<not> is_signalling_nan f ?b"
    using q by (simp add: is_signalling_nan_def qb bit_simps quiet_bit_def)
  ultimately show ?thesis using n by (auto simp: quieten_def)
qed

lemma default_nan_quiet: "is_nan f (default_nan f) \<and> \<not> is_signalling_nan f (default_nan f)"
  by (cases f) (simp_all add: is_nan_def is_signalling_nan_def default_nan_def fp_infinity_def quiet_bit_def
      max_exponent_def exponent_bits_def mantissa_mask_def)

theorem propagate_ok:
  "propagate bs f c = (if \<exists>b\<in>set bs. is_nan f b
     then Some (res_raising
       (if is_default_nan c then default_nan f else quieten f (hd (filter (is_nan f) bs)))
       (if \<exists>b\<in>set bs. is_signalling_nan f b then fx_INVALID else fx_NONE))
     else None)"
proof -
  have "find (is_nan f) bs = (if \<exists>b\<in>set bs. is_nan f b then Some (hd (filter (is_nan f) bs)) else None)"
    by (induction bs) auto
  then show ?thesis by (simp add: propagate_def quiet_result_def list_ex_iff)
qed



section \<open>NaN results bit by bit\<close>

text \<open>The patterns of the NaNs of a format: an exponent of ones and a mantissa that is not zero; a
  signalling NaN has the top bit of its mantissa clear.\<close>

definition nan_pattern :: "FpFormat \<Rightarrow> u64 \<Rightarrow> bool" where
  "nan_pattern f b \<longleftrightarrow> list_all (bit b) [mantissa_bits f..<fp_bits f - 1] \<and> list_ex (bit b) [0..<mantissa_bits f]"

definition signalling_pattern :: "FpFormat \<Rightarrow> u64 \<Rightarrow> bool" where
  "signalling_pattern f b \<longleftrightarrow> nan_pattern f b \<and> \<not> bit b (mantissa_bits f - 1)"

lemma exponent_is_mask: "(ucast (max_exponent f) :: u64) = mask (exponent_bits f)"
  by (cases f) (simp_all add: max_exponent_def exponent_bits_def mask_eq_exp_minus_1)

lemma mantissa_is_mask: "mantissa_mask f = mask (mantissa_bits f)"
  by (simp add: mantissa_mask_def mask_eq_exp_minus_1)

lemma quiet_bit_bit: "bit (quiet_bit f) k \<longleftrightarrow> k = mantissa_bits f - 1"
  using mantissa_bits_bounds [of f] unfolding quiet_bit_def bit_push_bit_iff bit_1_iff by auto

lemma nan_pattern_iff: "is_nan f b \<longleftrightarrow> nan_pattern f b"
proof -
  have e: "exponent_bits f + mantissa_bits f = fp_bits f - 1" "fp_bits f \<le> 64" by (cases f; simp add: exponent_bits_def)+
  have "drop_bit (mantissa_bits f) b AND mask (exponent_bits f) = mask (exponent_bits f)
      \<longleftrightarrow> (\<forall>k < exponent_bits f. bit b (mantissa_bits f + k))"
  proof -
    have "exponent_bits f < 64" by (cases f) (simp_all add: exponent_bits_def)
    then show ?thesis by (auto simp: bit_eq_iff [where 'a = "64 word"] bit_simps) (meson less_trans)
  qed
  also have "\<dots> \<longleftrightarrow> (\<forall>k. mantissa_bits f \<le> k \<and> k < fp_bits f - 1 \<longrightarrow> bit b k)"
    unfolding e(1) [symmetric] by (metis add.commute le_add1 le_add_diff_inverse nat_add_left_cancel_less)
  finally have 1: "drop_bit (mantissa_bits f) b AND mask (exponent_bits f) = mask (exponent_bits f)
      \<longleftrightarrow> list_all (bit b) [mantissa_bits f..<fp_bits f - 1]"
    by (auto simp: list_all_iff)
  have 2: "b AND mask (mantissa_bits f) \<noteq> 0 \<longleftrightarrow> list_ex (bit b) [0..<mantissa_bits f]"
  proof -
    have lt: "n < 64" if "bit b n" for n using bit_imp_le_length [OF that] by simp
    have "b AND mask (mantissa_bits f) \<noteq> 0 \<longleftrightarrow> (\<exists>n<64. bit b n \<and> n < mantissa_bits f)"
      by (auto simp: bit_eq_iff [where 'a = "64 word"] bit_simps)
    also have "\<dots> \<longleftrightarrow> (\<exists>n. bit b n \<and> n < mantissa_bits f)" using lt by blast
    finally show ?thesis by (auto simp: list_ex_iff)
  qed
  show ?thesis
    using 1 2 by (simp add: is_nan_def exponent_is_mask mantissa_is_mask nan_pattern_def)
qed

lemma signalling_pattern_iff: "is_signalling_nan f b \<longleftrightarrow> signalling_pattern f b"
proof -
  have "b AND quiet_bit f = 0 \<longleftrightarrow> \<not> bit b (mantissa_bits f - 1)"
    by (simp add: quiet_bit_def bit_iff_and_push_bit_not_eq_0)
  then show ?thesis by (simp add: is_signalling_nan_def signalling_pattern_def nan_pattern_iff)
qed

lemma default_nan_bits: "bit (default_nan f) k \<longleftrightarrow> mantissa_bits f - 1 \<le> k \<and> k < fp_bits f - 1"
  unfolding default_nan_def fp_infinity_def bit_or_iff quiet_bit_bit exponent_is_mask
  by (cases f) (auto simp: bit_simps exponent_bits_def possible_bit_word)

lemma quieten_bits: "is_nan f b \<Longrightarrow> bit (quieten f b) k \<longleftrightarrow> k = mantissa_bits f - 1 \<or> bit b k"
  by (auto simp: quieten_def signalling_pattern_iff signalling_pattern_def nan_pattern_iff bit_or_iff quiet_bit_bit)

end
