(* ===== verification/Fp_Backend.thy ===== *)
theory Fp_Backend
  imports Fp_Operand
begin

unbundle bit_operations_syntax

text \<open>
  The trait both backends implement and its argument types: \<open>fp/backend.rs\<close>. The trait is a record
  of operations; \<open>copy_sign\<close>, which has a default body that neither backend overrides, is a
  function.
\<close>

datatype FpBinaryOp = FpBin_Add | FpBin_Sub | FpBin_Mul | FpBin_Div | FpBin_Max | FpBin_Min
  | FpBin_MaxNum | FpBin_MinNum

datatype FpUnaryOp = FpUn_Sqrt | FpUn_RoundToIntegral

record IntFormat =
  int_bits :: nat
  int_signed :: bool

definition int_S32 :: IntFormat where "int_S32 = \<lparr> int_bits = 32, int_signed = True \<rparr>"
definition int_U32 :: IntFormat where "int_U32 = \<lparr> int_bits = 32, int_signed = False \<rparr>"
definition int_S64 :: IntFormat where "int_S64 = \<lparr> int_bits = 64, int_signed = True \<rparr>"
definition int_U64 :: IntFormat where "int_U64 = \<lparr> int_bits = 64, int_signed = False \<rparr>"

datatype FpSignOp = Sign_Negate | Sign_Absolute

record FpValue =
  val_bits :: u64
  val_format :: FpFormat

definition value_new :: "u64 \<Rightarrow> FpFormat \<Rightarrow> FpValue" where
  "value_new b f = \<lparr> val_bits = b AND fp_mask f, val_format = f \<rparr>"

record FpOperands =
  op_lhs :: u64
  op_rhs :: u64
  op_format :: FpFormat
  op_rounding :: FpRounding

definition operands_new :: "u64 \<Rightarrow> u64 \<Rightarrow> FpFormat \<Rightarrow> FpRounding \<Rightarrow> FpOperands" where
  "operands_new lhs rhs f r = \<lparr> op_lhs = lhs, op_rhs = rhs, op_format = f, op_rounding = r \<rparr>"

definition lhs_value :: "FpOperands \<Rightarrow> FpValue" where
  "lhs_value ops = value_new (op_lhs ops) (op_format ops)"

definition rhs_value :: "FpOperands \<Rightarrow> FpValue" where
  "rhs_value ops = value_new (op_rhs ops) (op_format ops)"

record FpFmaOperands =
  fma_multiplicand :: u64
  fma_multiplier :: u64
  fma_addend :: u64
  fma_format :: FpFormat
  fma_rounding :: FpRounding
  fma_product_negated :: bool
  fma_addend_negated :: bool

record ToIntegerTarget =
  ti_format :: IntFormat
  ti_rounding :: FpRounding
  ti_fractional_bits :: u8

record FromIntegerSource =
  fi_format :: IntFormat
  fi_target :: FpFormat
  fi_rounding :: FpRounding
  fi_fractional_bits :: u8

record FpBackend =
  be_tracks_exceptions :: bool
  be_binary :: "FpBinaryOp \<Rightarrow> FpOperands \<Rightarrow> FpControl \<Rightarrow> FpResult option"
  be_unary :: "FpUnaryOp \<Rightarrow> FpValue \<Rightarrow> FpRounding \<Rightarrow> FpControl \<Rightarrow> FpResult option"
  be_fused_multiply_add :: "FpFmaOperands \<Rightarrow> FpControl \<Rightarrow> FpResult option"
  be_compare :: "FpOperands \<Rightarrow> bool \<Rightarrow> FpComparison \<times> FpExceptions"
  be_convert_format :: "FpValue \<Rightarrow> FpFormat \<Rightarrow> FpControl \<Rightarrow> FpResult option"
  be_to_integer :: "FpValue \<Rightarrow> ToIntegerTarget \<Rightarrow> FpControl \<Rightarrow> FpResult option"
  be_convert_from_integer :: "u64 \<Rightarrow> FromIntegerSource \<Rightarrow> FpControl \<Rightarrow> FpResult option"

definition be_copy_sign :: "FpValue \<Rightarrow> FpSignOp \<Rightarrow> u64" where
  "be_copy_sign v op =
     (let sign = push_bit (sign_shift (val_format v)) 1
      in case op of Sign_Negate \<Rightarrow> val_bits v XOR sign | Sign_Absolute \<Rightarrow> val_bits v AND NOT sign)"

end
