(* ===== verification/Fp_Convert.thy ===== *)
theory Fp_Convert
  imports Fp_Decompose Fp_Backend
begin

unbundle bit_operations_syntax

text \<open>
  Conversions between formats, to and from integers, and round-to-integral:
  \<open>fp/softfloat/convert.rs\<close>.
\<close>

section \<open>Between formats\<close>

definition rescale :: "u64 \<Rightarrow> FpFormat \<Rightarrow> FpFormat \<Rightarrow> u64 \<times> bool" where
  "rescale significand source target =
     (let source_scale = mantissa_bits source + GUARD_BITS;
          target_scale = mantissa_bits target + GUARD_BITS
      in if target_scale \<ge> source_scale
         then (push_bit (target_scale - source_scale) significand, False)
         else let shift = source_scale - target_scale;
                  discarded = significand AND (push_bit shift 1 - 1)
              in (drop_bit shift significand, discarded \<noteq> 0))"

definition convert_nan :: "u64 \<Rightarrow> FpFormat \<Rightarrow> FpFormat \<Rightarrow> FpControl \<Rightarrow> FpResult" where
  "convert_nan b source target control =
     (let raised = (if is_signalling_nan source b then fx_INVALID else fx_NONE) in
      if is_default_nan control then res_raising (default_nan target) raised
      else
        let payload = b AND mantissa_mask source;
            source_bits = mantissa_bits source;
            target_bits = mantissa_bits target;
            moved = (if target_bits \<ge> source_bits then push_bit (target_bits - source_bits) payload
                     else drop_bit (source_bits - target_bits) payload);
            sign = push_bit (sign_shift target) (of_bool (fp_is_negative source b))
        in res_raising (sign OR fp_infinity target OR quiet_bit target
                          OR (moved AND (quiet_bit target - 1))) raised)"

definition convert_format ::
  "u64 \<Rightarrow> FpFormat \<Rightarrow> FpFormat \<Rightarrow> FpControl \<Rightarrow> FpRounding \<Rightarrow> FpResult option" where
  "convert_format b source target control rounding1 =
     (if is_nan source b then Some (convert_nan b source target control)
      else if is_infinite source b
      then Some (res_exact (signed_infinity target (fp_is_negative source b)))
      else if fp_is_zero source b then Some (res_exact (fp_zero target (fp_is_negative source b)))
      else do {
        v \<leftarrow> unpack b source;
        let significand = rescale (up_significand v) source target;
        round_and_pack (v\<lparr>up_significand := fst significand\<rparr>) target
          \<lparr> rc_rounding = rounding1, rc_sticky = snd significand, rc_control = control \<rparr>
      })"


section \<open>Round to integral\<close>

definition rounds_away :: "u64 \<Rightarrow> u64 \<Rightarrow> nat \<Rightarrow> FpRounding \<Rightarrow> Unpacked \<Rightarrow> bool" where
  "rounds_away truncated remainder shift rounding1 v =
     (let half = push_bit (shift - 1) 1 in
      case rounding1 of
        Fp_Nearest \<Rightarrow> remainder > half \<or> (remainder = half \<and> truncated AND 1 = 1)
      | Fp_NearestAway \<Rightarrow> remainder \<ge> half
      | Fp_Zero \<Rightarrow> False
      | Fp_Plus \<Rightarrow> \<not> up_negative v
      | Fp_Minus \<Rightarrow> up_negative v
      | Fp_Odd \<Rightarrow> truncated AND 1 = 0)"

definition points_away :: "FpRounding \<Rightarrow> bool \<Rightarrow> bool" where
  "points_away rounding1 is_negative \<longleftrightarrow>
     (rounding1 = Fp_Plus \<and> \<not> is_negative) \<or> (rounding1 = Fp_Minus \<and> is_negative)"

definition round_significand_to_integer ::
  "Unpacked \<Rightarrow> nat \<Rightarrow> FpRounding \<Rightarrow> Unpacked option option" where
  "round_significand_to_integer v scale rounding1 =
     (let shift = nat (int scale - up_exponent v) in
      if shift \<ge> 64 then do {
        one \<leftarrow> shl_chk 1 scale;
        Some (if points_away rounding1 (up_negative v)
              then Some (v\<lparr>up_exponent := 0, up_significand := one\<rparr>) else None)
      }
      else do {
        let truncated = drop_bit shift (up_significand v);
        let remainder = up_significand v AND (push_bit shift 1 - 1);
        let is_away = (remainder \<noteq> 0 \<and> rounds_away truncated remainder shift rounding1 v);
        integral \<leftarrow> checked_add truncated (of_bool is_away);
        Some (if integral = 0 then None
              else Some (v\<lparr>up_significand := push_bit shift integral\<rparr>))
      })"

definition round_to_integral ::
  "u64 \<Rightarrow> FpFormat \<Rightarrow> FpRounding \<Rightarrow> FpControl \<Rightarrow> FpResult option" where
  "round_to_integral b f rounding1 control =
     (case propagate [b] f control of
        Some result \<Rightarrow> Some result
      | None \<Rightarrow>
          if is_infinite f b \<or> fp_is_zero f b then Some (res_exact b)
          else do {
            v \<leftarrow> unpack b f;
            let scale = mantissa_bits f + GUARD_BITS;
            (if up_exponent v \<ge> int scale then Some (res_exact b)
             else do {
               rounded \<leftarrow> round_significand_to_integer v scale rounding1;
               (case rounded of
                  None \<Rightarrow> Some (res_exact (fp_zero f (up_negative v)))
                | Some integral \<Rightarrow>
                    round_and_pack
                      \<lparr> up_negative = up_negative v, up_exponent = up_exponent integral,
                        up_significand = up_significand integral \<rparr> f
                      \<lparr> rc_rounding = rounding1, rc_sticky = False, rc_control = control \<rparr>)
             })
          })"


section \<open>To an integer\<close>

definition mask_to_width :: "u64 \<Rightarrow> IntFormat \<Rightarrow> u64" where
  "mask_to_width v target =
     (if int_bits target \<ge> 64 then v else v AND (push_bit (int_bits target) 1 - 1))"

definition magnitude_limit :: "bool \<Rightarrow> IntFormat \<Rightarrow> u128 option" where
  "magnitude_limit is_negative target =
     (let width = int_bits target in
      if \<not> int_signed target then do { p \<leftarrow> shl_chk 1 width; Some (p - 1) }
      else do {
        k \<leftarrow> count_sub width 1;
        p \<leftarrow> shl_chk 1 k;
        Some (if is_negative then p else p - 1)
      })"

definition saturate :: "bool \<Rightarrow> IntFormat \<Rightarrow> u64 option" where
  "saturate is_negative target = do {
     v \<leftarrow> (if \<not> int_signed target then Some (if is_negative then 0 else - 1)
           else do {
             k \<leftarrow> count_sub (int_bits target) 1;
             p \<leftarrow> shl_chk 1 k;
             Some (if is_negative then p else p - 1)
           });
     Some (mask_to_width v target)
   }"

definition integral_magnitude :: "Unpacked \<Rightarrow> nat \<Rightarrow> FpRounding \<Rightarrow> (u128 \<times> bool) option" where
  "integral_magnitude v scale rounding1 =
     (let shift0 = up_exponent v - int scale in
      if shift0 \<ge> 0 then
        if shift0 \<ge> 128 then Some (- 1, False)
        else Some (push_bit (nat shift0) (ucast (up_significand v)), False)
      else
        let shift = nat (- shift0) in
        if shift \<ge> 64 then Some (of_bool (points_away rounding1 (up_negative v)), True)
        else
          let truncated = drop_bit shift (up_significand v);
              remainder = up_significand v AND (push_bit shift 1 - 1)
          in if remainder = 0 then Some (ucast truncated, False)
             else do {
               let is_away = rounds_away truncated remainder shift rounding1 v;
               sum \<leftarrow> checked_add truncated (of_bool is_away);
               Some (ucast sum, True)
             })"

definition encode_integer :: "u128 \<Rightarrow> bool \<Rightarrow> bool \<Rightarrow> IntFormat \<Rightarrow> FpResult option" where
  "encode_integer magnitude is_negative is_inexact target =
     (let inexact = (if is_inexact then fx_INEXACT else fx_NONE) in
      if \<not> int_signed target \<and> is_negative then Some (res_raising 0 fx_INVALID)
      else do {
        limit \<leftarrow> magnitude_limit is_negative target;
        (if magnitude > limit then do {
           s \<leftarrow> saturate is_negative target;
           Some (res_raising s fx_INVALID)
         } else
           let v = (if is_negative then - ucast magnitude else ucast magnitude)
           in Some (res_raising (mask_to_width v target) inexact))
      })"

definition to_integer :: "u64 \<Rightarrow> FpFormat \<Rightarrow> IntFormat \<Rightarrow> FpRounding \<Rightarrow> FpResult option" where
  "to_integer b f target rounding1 =
     (if is_nan f b then Some (res_raising 0 fx_INVALID)
      else
        let is_negative = fp_is_negative f b in
        if is_infinite f b then do {
          s \<leftarrow> saturate is_negative target;
          Some (res_raising s fx_INVALID)
        }
        else if fp_is_zero f b then Some (res_exact 0)
        else do {
          v \<leftarrow> unpack b f;
          let scale = mantissa_bits f + GUARD_BITS;
          (magnitude, is_inexact) \<leftarrow> integral_magnitude v scale rounding1;
          encode_integer magnitude is_negative is_inexact target
        })"


section \<open>From an integer\<close>

definition magnitude_of :: "u64 \<Rightarrow> IntFormat \<Rightarrow> (u64 \<times> bool) option" where
  "magnitude_of value0 source =
     (let v = mask_to_width value0 source in
      if \<not> int_signed source then Some (v, False)
      else do {
        k \<leftarrow> count_sub (int_bits source) 1;
        sign_bit \<leftarrow> shl_chk 1 k;
        Some (if v AND sign_bit = 0 then (v, False) else (mask_to_width (- v) source, True))
      })"

definition from_integer ::
  "u64 \<Rightarrow> IntFormat \<Rightarrow> FpFormat \<Rightarrow> FpRounding \<Rightarrow> FpControl \<Rightarrow> FpResult option" where
  "from_integer v source target rounding1 control = do {
     (magnitude, is_negative) \<leftarrow> magnitude_of v source;
     (if magnitude = 0 then Some (res_exact (fp_zero target False))
      else do {
        let scale = mantissa_bits target + GUARD_BITS;
        leading \<leftarrow> count_sub 63 (leading_zeros magnitude);
        (significand, is_sticky) \<leftarrow>
          (if leading \<le> scale then do {
             s \<leftarrow> shl_chk magnitude (scale - leading);
             Some (s, False)
           } else do {
             let shift = leading - scale;
             one \<leftarrow> shl_chk 1 shift;
             let discarded = magnitude AND (one - 1);
             s \<leftarrow> shr_chk magnitude shift;
             Some (s, discarded \<noteq> 0)
           });
        round_and_pack
          \<lparr> up_negative = is_negative, up_exponent = int leading, up_significand = significand \<rparr> target
          \<lparr> rc_rounding = rounding1, rc_sticky = is_sticky, rc_control = control \<rparr>
      })
   }"

end
