(* ===== verification/Fp_Conversions.thy ===== *)
theory Fp_Conversions
  imports Fp_Mul_Div Fp_Order Fp_Convert
begin

unbundle bit_operations_syntax

text \<open>
  The conversions of \<open>fp/softfloat/convert.rs\<close>: between formats and from integers the result is
  correctly rounded, to integers it is the rounded value clamped to the target's range, and widening a
  value and narrowing it back is the identity.
\<close>

lemma round_and_pack_packed:
  assumes "exact_rep f x v (rc_sticky ctx)" "rc_rounding ctx \<noteq> Fp_Odd" "\<not> is_flushing f (rc_control ctx)"
  shows "\<exists>res. round_and_pack v f ctx = Some res \<and> packed_result f (rc_rounding ctx) x res"
proof -
  from assms(1) obtain d where "tail_ok (unat (up_significand v)) d (rc_sticky ctx)" "d < 1"
    "up_significand v \<noteq> 0" "rc_sticky ctx \<longrightarrow> 2 ^ (mantissa_bits f + 2) \<le> unat (up_significand v)"
    "x = with_sign (up_negative v) (up_mag f v d)"
    by (auto simp: exact_rep_def)
  then show ?thesis using round_and_pack_ok [of v d ctx f x] assms(2,3) by simp
qed

lemma round_and_pack_rep:
  assumes "exact_rep f x v (rc_sticky ctx)" "rc_rounding ctx \<noteq> Fp_Odd" "\<not> is_flushing f (rc_control ctx)"
    and "\<not> subnormal_carry f (rc_rounding ctx) x"
  shows "\<exists>res. round_and_pack v f ctx = Some res \<and> ieee_result f (rc_rounding ctx) x res"
  using round_and_pack_packed [OF assms(1-3)] assms(4) by (simp add: packed_ieee)


section \<open>Between formats\<close>

lemma rescale_ok:
  assumes u: "unpacked_ok s u a"
  shows "exact_rep t (with_sign (up_negative u) a)
    (u\<lparr>up_significand := fst (rescale (up_significand u) s t)\<rparr>) (snd (rescale (up_significand u) s t))"
proof -
  let ?S = "unat (up_significand u)" and ?s = "mantissa_bits s" and ?t = "mantissa_bits t"
  have S: "2 ^ (?s + 3) \<le> ?S" "?S < 2 ^ (?s + 4)" and a: "a = real ?S * 2 powi (up_exponent u - int (?s + 3))"
    using u by (simp_all add: unpacked_ok_def up_mag_def)
  have pos: "0 < ?S" by (rule unpacked_pos(1) [OF u])
  show ?thesis
  proof (cases "?s \<le> ?t")
    case True
    define k where "k = ?t - ?s"
    have rs: "rescale (up_significand u) s t = (push_bit k (up_significand u), False)"
      using True by (simp add: rescale_def k_def)
    have "?S * 2 ^ k < 2 ^ (?s + 4) * 2 ^ k" using S(2) by simp
    also have "\<dots> = 2 ^ (?t + 4)" using True by (simp add: k_def flip: power_add)
    also have "(2::nat) ^ (?t + 4) < 2 ^ 64" by (rule pow_mantissa_less) simp
    finally have w: "unat (push_bit k (up_significand u)) = ?S * 2 ^ k" by (intro unat_push_bit_small) simp
    have "a = real (?S * 2 ^ k) * 2 powi (up_exponent u - int (?t + 3))"
    proof -
      have "up_exponent u - int (?t + 3) = up_exponent u - int (?s + 3) - int k" using True by (simp add: k_def)
      then have "2 ^ k * 2 powi (up_exponent u - int (?t + 3)) = (2::real) powi (up_exponent u - int (?s + 3))"
        using powi_nat_diff [of "up_exponent u - int (?s + 3)" k] by (simp only: mult.commute)
      then show ?thesis unfolding a by (simp add: mult.assoc del: of_nat_add)
    qed
    then show ?thesis
      unfolding rs using w pos by (intro exact_repI [of _ "?S * 2 ^ k" 0]) simp_all
  next
    case False
    define k where "k = ?s - ?t"
    have rs: "rescale (up_significand u) s t = (drop_bit k (up_significand u), ?S mod 2 ^ k \<noteq> 0)"
      using False low_bits_eq_0 [of "up_significand u" k] by (simp add: rescale_def Let_def k_def)
    have "2 ^ (?t + 3) * 2 ^ k = (2::nat) ^ (?s + 3)" using False by (simp add: k_def flip: power_add)
    then have lo: "2 ^ (?t + 3) \<le> ?S div 2 ^ k" using S(1) by (simp add: less_eq_div_iff_mult_less_eq)
    have "a = real ?S / real (2 ^ k) * 2 powi (up_exponent u - int (?t + 3))"
    proof -
      have "up_exponent u - int (?s + 3) = up_exponent u - int (?t + 3) - int k" using False by (simp add: k_def)
      then have "(2::real) powi (up_exponent u - int (?s + 3)) = 2 powi (up_exponent u - int (?t + 3)) / 2 ^ k"
        using powi_nat_diff [of "up_exponent u - int (?t + 3)" k] by (simp only: eq_divide_eq) simp
      then show ?thesis unfolding a by simp
    qed
    then have "a = (real (?S div 2 ^ k) + real (?S mod 2 ^ k) / real (2 ^ k)) * 2 powi (up_exponent u - int (?t + 3))"
      using div_tail(1) [of "2 ^ k" ?S] by (simp only: zero_less_power zero_less_numeral)
    moreover note div_tail(2-4) [of "2 ^ k" ?S]
    moreover have "0 < ?S div 2 ^ k" using lo by (rule less_le_trans [rotated]) simp
    moreover have "2 ^ (?t + 2) \<le> ?S div 2 ^ k" using lo by (rule order_trans [rotated]) (simp add: power_add)
    ultimately show ?thesis
      unfolding rs using unat_drop_bit [of k "up_significand u"]
      by (intro exact_repI [of _ "?S div 2 ^ k" "real (?S mod 2 ^ k) / real (2 ^ k)"]) simp_all
  qed
qed

theorem convert_format_ok:
  assumes "fp_finite s b" "r \<noteq> Fp_Odd" "\<not> is_flushing t c"
  shows "\<exists>res. convert_format b s t c r = Some res \<and> packed_result t r (fp_val s b) res
    \<and> (fp_val s b = 0 \<longrightarrow> fp_is_negative t (res_bits res) = fp_is_negative s b)"
proof (cases rule: finite_cases [OF assms(1)])
  case 1
  then have "convert_format b s t c r = Some (res_exact (fp_zero t (fp_is_negative s b)))"
    using assms(1) by (simp add: convert_format_def fp_finite_def)
  then show ?thesis using zero_packedI [of "fp_val s b" t "fp_is_negative s b" r] 1 by simp
next
  case (2 u)
  let ?sg = "rescale (up_significand u) s t"
  have rep: "exact_rep t (fp_val s b) (u\<lparr>up_significand := fst ?sg\<rparr>) (snd ?sg)"
    using rescale_ok [OF 2(4)] by (simp only: 2(5))
  have "convert_format b s t c r = round_and_pack (u\<lparr>up_significand := fst ?sg\<rparr>) t
      \<lparr> rc_rounding = r, rc_sticky = snd ?sg, rc_control = c \<rparr>"
    using assms(1) 2(1,2) by (simp add: convert_format_def fp_finite_def Let_def)
  then show ?thesis
    using round_and_pack_packed [of t "fp_val s b" _ "\<lparr> rc_rounding = r, rc_sticky = snd ?sg, rc_control = c \<rparr>"]
      rep assms(2,3) exact_rep_nonzero [OF rep] by simp
qed


section \<open>Representable values\<close>

lemma rounded_representable:
  assumes "\<bar>x\<bar> = real N * 2 powi q" "N < 2 ^ Suc (mantissa_bits f)" "fp_min_exponent f - int (mantissa_bits f) \<le> q"
  shows "fp_rounded f r x = x"
proof (cases "x = 0")
  case False
  let ?m = "mantissa_bits f"
  define Q where "Q = max \<lfloor>log 2 \<bar>x\<bar>\<rfloor> (fp_min_exponent f) - int ?m"
  have "real N < real (2 ^ Suc ?m)" using assms(2) by (simp only: of_nat_less_iff)
  then have "real N * 2 powi q < 2 ^ Suc ?m * 2 powi q" by (intro mult_strict_right_mono) simp_all
  also have "\<dots> = 2 powi (int (Suc ?m) + q)" by (simp only: powi_add power_int_of_nat)
  finally have "\<lfloor>log 2 \<bar>x\<bar>\<rfloor> < int (Suc ?m) + q"
    using False unfolding assms(1) [symmetric] by (intro floor_log_less) simp_all
  then have "Q \<le> q" using assms(3) by (simp add: Q_def)
  then have "q = int (nat (q - Q)) + Q" by simp
  then have "2 powi q = 2 ^ nat (q - Q) * (2::real) powi Q" by (metis powi_add power_int_of_nat)
  then have N: "\<bar>x\<bar> = real (N * 2 ^ nat (q - Q)) * 2 powi Q" using assms(1) by simp
  have quant: "fp_quantum f x = 2 powi Q" by (simp add: fp_quantum_def Q_def)
  have "\<bar>x\<bar> / fp_quantum f x = real (N * 2 ^ nat (q - Q))" unfolding quant N by simp
  then have "fp_rounded f r x = sgn x * (real (N * 2 ^ nat (q - Q)) * 2 powi Q)"
    unfolding fp_rounded_def by (simp only: round_int_of_nat quant of_int_of_nat_eq mult.assoc)
  also have "\<dots> = sgn x * \<bar>x\<bar>" by (simp only: N)
  finally show ?thesis by (simp add: sgn_mult_abs)
qed (simp add: fp_rounded_def)

lemma fp_sig_less: "fp_sig f b < 2 ^ Suc (mantissa_bits f)"
  using fp_man_less [of f b] by (simp add: fp_sig_def)

lemma finite_exponent: "fp_finite f b \<Longrightarrow> int (fp_exp f b) \<le> 2 * exponent_bias f"
proof -
  assume "fp_finite f b"
  then have "fp_exp f b \<noteq> 2 ^ exponent_bits f - 1"
    by (auto simp: fp_finite_def is_nan_iff is_infinite_iff)
  then have "fp_exp f b + 2 \<le> 2 ^ exponent_bits f" using fp_exp_less [of f b] by simp
  then have "int (fp_exp f b + 2) \<le> int (2 ^ exponent_bits f)" by (simp only: of_nat_le_iff)
  then show ?thesis using max_exponent_bias [of f] by simp
qed

lemma fp_unit_bounds:
  "fp_min_exponent f - int (mantissa_bits f) \<le> fp_unit f b"
  "fp_finite f b \<Longrightarrow> fp_unit f b \<le> exponent_bias f - int (mantissa_bits f)"
  using finite_exponent [of f b] exponent_bias_pos(1) [of f] by (auto simp: fp_unit_def fp_min_exponent_def)

lemma finite_abs_less: "fp_finite f b \<Longrightarrow> fp_abs f b < 2 powi (exponent_bias f + 1)"
proof -
  assume fin: "fp_finite f b"
  have "real (fp_sig f b) < real (2 ^ Suc (mantissa_bits f))" using fp_sig_less by (simp only: of_nat_less_iff)
  then have "fp_abs f b < 2 ^ Suc (mantissa_bits f) * 2 powi fp_unit f b"
    unfolding fp_abs_def by (intro mult_strict_right_mono) simp_all
  also have "\<dots> = 2 powi (int (Suc (mantissa_bits f)) + fp_unit f b)" by (simp only: powi_add power_int_of_nat)
  also have "\<dots> \<le> 2 powi (exponent_bias f + 1)"
    using fp_unit_bounds(2) [OF fin] by (simp add: powi_le_iff del: powi_add)
  finally show ?thesis .
qed

text \<open>A format whose significand and exponent range contain those of another.\<close>

definition embeds :: "FpFormat \<Rightarrow> FpFormat \<Rightarrow> bool" where
  "embeds s t \<longleftrightarrow> fp_bits s \<le> fp_bits t"

lemma embeds_ranges:
  "embeds s t \<Longrightarrow> mantissa_bits s \<le> mantissa_bits t \<and> exponent_bias s \<le> exponent_bias t
    \<and> fp_min_exponent t - int (mantissa_bits t) \<le> fp_min_exponent s - int (mantissa_bits s)"
  by (cases s; cases t; simp add: embeds_def fp_min_exponent_def exponent_bias_def exponent_bits_def)

lemma embedded_exact:
  assumes "embeds s t" "fp_finite s b"
  shows "fp_rounded t r (fp_val s b) = fp_val s b" "fp_flags t r (fp_val s b) = fx_NONE"
    "\<not> subnormal_carry t r (fp_val s b)" "\<bar>fp_rounded t r (fp_val s b)\<bar> < 2 powi (exponent_bias t + 1)"
proof -
  note e = embeds_ranges [OF assms(1)]
  have "(2::nat) ^ Suc (mantissa_bits s) \<le> 2 ^ Suc (mantissa_bits t)" using e by (intro power_increasing) simp_all
  then have "fp_sig s b < 2 ^ Suc (mantissa_bits t)" using fp_sig_less [of s b] by (rule less_le_trans [rotated])
  then show rounded: "fp_rounded t r (fp_val s b) = fp_val s b"
    using e fp_unit_bounds(1) [of s b]
    by (intro rounded_representable [of _ "fp_sig s b" "fp_unit s b"]) (simp_all add: abs_fp_val fp_abs_def)
  then show "\<not> subnormal_carry t r (fp_val s b)" by (simp add: subnormal_carry_def)
  have "fp_abs s b < 2 powi (exponent_bias s + 1)" by (rule finite_abs_less [OF assms(2)])
  also have "\<dots> \<le> 2 powi (exponent_bias t + 1)" using e by (simp only: powi_le_iff) simp
  finally show less: "\<bar>fp_rounded t r (fp_val s b)\<bar> < 2 powi (exponent_bias t + 1)"
    by (simp add: rounded abs_fp_val del: powi_add)
  then show "fp_flags t r (fp_val s b) = fx_NONE" using rounded by (simp add: fp_flags_def del: powi_add)
qed

lemma convert_exact:
  assumes "embeds u t" "fp_finite u v" "fp_finite s b" "fp_val s b = fp_val u v" "r \<noteq> Fp_Odd" "\<not> is_flushing t c"
  shows "\<exists>w. convert_format b s t c r = Some (res_exact w) \<and> fp_finite t w \<and> fp_val t w = fp_val s b
    \<and> (fp_val s b = 0 \<longrightarrow> fp_is_negative t w = fp_is_negative s b)"
proof -
  note e = embedded_exact [OF assms(1,2), of r, folded assms(4)]
  obtain res where res: "convert_format b s t c r = Some res" "ieee_result t r (fp_val s b) res"
    "fp_val s b = 0 \<longrightarrow> fp_is_negative t (res_bits res) = fp_is_negative s b"
    using convert_format_ok [OF assms(3,5,6)] e(3) packed_ieee by blast
  from res(2) have "fp_finite t (res_bits res)" "fp_val t (res_bits res) = fp_val s b" "res_raised res = fx_NONE"
    using e(1,2,4) by (simp_all add: ieee_result_def correctly_rounded_def del: powi_add)
  then show ?thesis using res(1,3) by (intro exI [of _ "res_bits res"]) (simp add: res_exact_def)
qed

lemma same_value_same_bits:
  assumes "fp_finite f b" "fp_finite f c" "fp_val f b = fp_val f c"
    and "fp_val f c = 0 \<Longrightarrow> fp_is_negative f b = fp_is_negative f c"
  shows "b = c"
proof (cases "fp_val f c = 0")
  case True
  then have "fp_abs f b = fp_abs f c" using assms(3) abs_fp_val [of f b] abs_fp_val [of f c] by simp
  then show ?thesis using assms True by (intro fp_bits_eqI) (simp_all add: fp_finite_def)
next
  case False
  then show ?thesis using assms by (intro fp_val_inj) (simp_all add: fp_finite_def)
qed

theorem widen_narrow:
  assumes "embeds s t" "fp_finite s b" "r \<noteq> Fp_Odd" "r' \<noteq> Fp_Odd" "\<not> is_flushing t c" "\<not> is_flushing s c'"
  shows "\<exists>w. convert_format b s t c r = Some (res_exact w)
    \<and> fp_val t w = fp_val s b \<and> convert_format w t s c' r' = Some (res_exact b)"
proof -
  obtain w where w: "convert_format b s t c r = Some (res_exact w)" "fp_finite t w" "fp_val t w = fp_val s b"
    "fp_val s b = 0 \<longrightarrow> fp_is_negative t w = fp_is_negative s b"
    using convert_exact [OF assms(1,2,2) refl assms(3,5)] by blast
  have "embeds s s" by (simp add: embeds_def)
  from convert_exact [OF this assms(2) w(2,3) assms(4,6)] obtain v where
    v: "convert_format w t s c' r' = Some (res_exact v)" "fp_finite s v" "fp_val s v = fp_val t w"
      "fp_val t w = 0 \<longrightarrow> fp_is_negative s v = fp_is_negative t w" by blast
  have "v = b" using v w(3,4) assms(2) by (intro same_value_same_bits [of s]) auto
  then show ?thesis using w v by auto
qed


section \<open>From an integer\<close>

text \<open>The integer a register holds, read at the width and signedness of the format.\<close>

definition int_wf :: "IntFormat \<Rightarrow> bool" where
  "int_wf i \<longleftrightarrow> int_bits i = 32 \<or> int_bits i = 64"

definition int_value :: "IntFormat \<Rightarrow> u64 \<Rightarrow> int" where
  "int_value i w = (let u = int (unat w mod 2 ^ int_bits i) in
     if int_signed i \<and> 2 ^ (int_bits i - 1) \<le> u then u - 2 ^ int_bits i else u)"

lemma unat_mask_to_width: "int_wf i \<Longrightarrow> unat (mask_to_width w i) = unat w mod 2 ^ int_bits i"
  using unat_low_bits [of w 32] unat_u64_less [of w] by (auto simp: int_wf_def mask_to_width_def)

lemma int_pow_le_iff: "(2::int) ^ k \<le> int u \<longleftrightarrow> 2 ^ k \<le> u"
proof -
  have "(2::int) ^ k = int (2 ^ k)" by simp
  then show ?thesis by (simp only: of_nat_le_iff)
qed

lemma unat_uminus: "v \<noteq> 0 \<Longrightarrow> unat (- v :: u64) = 2 ^ 64 - unat v"
proof -
  assume "v \<noteq> 0"
  then have pos: "0 < unat v" by (simp add: unat_gt_0)
  have "unat (v + - v) = (unat v + unat (- v)) mod 2 ^ 64" using unat_word_ariths(1) [of v "- v"] by simp
  then have "(unat v + unat (- v)) mod 2 ^ 64 = 0" by (metis add.right_inverse unat_0)
  then have "2 ^ 64 dvd unat v + unat (- v)" by (rule dvd_eq_mod_eq_0 [THEN iffD2])
  then obtain k where k: "unat v + unat (- v) = 2 ^ 64 * k" by (rule dvdE)
  moreover have "unat v + unat (- v) < 2 ^ 64 * 2" using unat_u64_less [of v] unat_u64_less [of "- v"] by simp
  ultimately have "k = 1" using pos by (cases k) auto
  then show ?thesis using k by simp
qed

lemma magnitude_of_ok:
  assumes "int_wf i"
  shows "\<exists>M neg. magnitude_of w i = Some (M, neg) \<and> int_value i w = (if neg then - int (unat M) else int (unat M))
    \<and> (neg \<longrightarrow> M \<noteq> 0)"
proof -
  let ?v = "mask_to_width w i" and ?n = "int_bits i"
  have n: "0 < ?n" "?n \<le> 64" using assms by (auto simp: int_wf_def)
  have v: "unat ?v = unat w mod 2 ^ ?n" by (rule unat_mask_to_width [OF assms])
  have sign: "?v AND push_bit (?n - 1) 1 = 0 \<longleftrightarrow> unat ?v < 2 ^ (?n - 1)"
  proof -
    have "bit ?v (?n - 1) \<longleftrightarrow> 2 ^ (?n - 1) \<le> unat ?v" using n(1) by (intro bit_top_ge_iff) (simp add: v)
    then show ?thesis unfolding bit_iff_and_push_bit_not_eq_0 by (meson not_le)
  qed
  have mo: "magnitude_of w i = Some (if int_signed i \<and> 2 ^ (?n - 1) \<le> unat ?v
      then (mask_to_width (- ?v) i, True) else (?v, False))"
    using n sign by (simp add: magnitude_of_def count_sub_def Let_def not_less)
  show ?thesis
  proof (cases "int_signed i \<and> 2 ^ (?n - 1) \<le> unat ?v")
    case False
    have "int_value i w = int (unat ?v)"
      using False unfolding int_value_def Let_def v [symmetric] int_pow_le_iff by simp
    then show ?thesis using False mo by auto
  next
    case True
    then have nz: "unat ?v \<noteq> 0" "?v \<noteq> 0" by (auto intro: ccontr)
    have lt: "unat ?v < 2 ^ ?n" by (simp add: v)
    have M: "unat (mask_to_width (- ?v) i) = 2 ^ ?n - unat ?v"
    proof -
      have "unat (- ?v) = 2 ^ 64 - unat ?v" using nz(2) by (rule unat_uminus)
      also have "\<dots> = (2 ^ ?n - unat ?v) + (2 ^ (64 - ?n) - 1) * 2 ^ ?n"
        using assms lt by (auto simp: int_wf_def)
      finally have "unat (- ?v) mod 2 ^ ?n = (2 ^ ?n - unat ?v) mod 2 ^ ?n" by (simp only: mod_mult_self1)
      then show ?thesis using nz(1) unat_mask_to_width [OF assms, of "- ?v"] by simp
    qed
    have "int_value i w = - int (unat (mask_to_width (- ?v) i))"
      using True lt unfolding int_value_def Let_def v [symmetric] int_pow_le_iff M by (simp add: of_nat_diff)
    moreover have "mask_to_width (- ?v) i \<noteq> 0" using M lt by (metis less_irrefl unat_0 zero_less_diff)
    ultimately show ?thesis using True mo by auto
  qed
qed

text \<open>The significand, exponent and sticky bit \<open>from_integer\<close> hands to the packing step.\<close>

definition scaled_integer :: "FpFormat \<Rightarrow> u64 \<Rightarrow> bool \<Rightarrow> Unpacked \<times> bool" where
  "scaled_integer f M neg =
     (let L = 63 - leading_zeros M; scale = mantissa_bits f + 3 in
      if L \<le> scale
      then (\<lparr> up_negative = neg, up_exponent = int L, up_significand = push_bit (scale - L) M \<rparr>, False)
      else (\<lparr> up_negative = neg, up_exponent = int L, up_significand = drop_bit (L - scale) M \<rparr>,
            unat M mod 2 ^ (L - scale) \<noteq> 0))"

lemma from_integer_eq:
  assumes "magnitude_of w i = Some (M, neg)" "M \<noteq> 0"
  shows "from_integer w i f r c = round_and_pack (fst (scaled_integer f M neg)) f
    \<lparr> rc_rounding = r, rc_sticky = snd (scaled_integer f M neg), rc_control = c \<rparr>"
proof -
  define L where "L = 63 - leading_zeros M"
  have L: "count_sub 63 (leading_zeros M) = Some L" "L < 64"
    using leading_zeros_bounds(1) [OF assms(2)] by (simp_all add: count_sub_def L_def)
  have s: "mantissa_bits f + 3 < 64" by (cases f) simp_all
  have z: "(M AND (push_bit k 1 - 1) \<noteq> 0) = (unat M mod 2 ^ k \<noteq> 0)" for k by (simp only: low_bits_eq_0)
  show ?thesis
    using L s unfolding from_integer_def scaled_integer_def assms(1) L_def [symmetric] Let_def GUARD_BITS_def
    by (cases "L \<le> mantissa_bits f + 3") (simp_all add: assms(2) z del: push_bit_of_1)
qed

lemma scaled_integer_rep:
  assumes "M \<noteq> 0"
  shows "exact_rep f (with_sign neg (real (unat M))) (fst (scaled_integer f M neg)) (snd (scaled_integer f M neg))"
proof -
  let ?s = "mantissa_bits f + 3" and ?M = "unat M"
  define L where "L = 63 - leading_zeros M"
  note z = leading_zeros_bounds [OF assms]
  have "64 - leading_zeros M = Suc L" using z(1) by (simp add: L_def)
  then have M: "2 ^ L \<le> ?M" "?M < 2 ^ Suc L" using z(2,3) by (simp_all add: L_def)
  have pos: "0 < ?M" using assms by (simp add: unat_gt_0)
  show ?thesis
  proof (cases "L \<le> ?s")
    case True
    have si: "scaled_integer f M neg = (\<lparr> up_negative = neg, up_exponent = int L,
        up_significand = push_bit (?s - L) M \<rparr>, False)"
      using True by (simp add: scaled_integer_def Let_def flip: L_def)
    have "?M * 2 ^ (?s - L) < 2 ^ Suc L * 2 ^ (?s - L)" using M(2) by simp
    also have "\<dots> = 2 ^ (mantissa_bits f + 4)" using True by (simp flip: power_add power_Suc)
    also have "(2::nat) ^ (mantissa_bits f + 4) < 2 ^ 64" by (rule pow_mantissa_less) simp
    finally have w: "unat (push_bit (?s - L) M) = ?M * 2 ^ (?s - L)" by (intro unat_push_bit_small) simp
    have "(2::real) ^ (?s - L) * 2 powi (int L - int ?s) = 1"
    proof -
      have "int L - int ?s = - int (?s - L)" using True by simp
      then show ?thesis by (simp only: power_int_minus power_int_of_nat) simp
    qed
    then have "(real (?M * 2 ^ (?s - L)) + 0) * 2 powi (int L - int ?s) = real ?M"
      by (simp only: of_nat_mult of_nat_power of_nat_numeral mult.assoc mult_1_right add_0_right)
    then show ?thesis
      unfolding si using w pos by (intro exact_repI [of _ "?M * 2 ^ (?s - L)" 0]) (simp_all only: fst_conv snd_conv Unpacked.simps, simp_all)
  next
    case False
    define k where "k = L - ?s"
    have si: "scaled_integer f M neg = (\<lparr> up_negative = neg, up_exponent = int L,
        up_significand = drop_bit k M \<rparr>, ?M mod 2 ^ k \<noteq> 0)"
      using False by (simp add: scaled_integer_def Let_def k_def flip: L_def)
    have "2 ^ ?s * 2 ^ k = (2::nat) ^ L" using False by (simp add: k_def flip: power_add)
    then have lo: "2 ^ ?s \<le> ?M div 2 ^ k" using M(1) by (simp only: less_eq_div_iff_mult_less_eq zero_less_power zero_less_numeral)
    have "int L - int ?s = int k" using False by (simp add: k_def)
    then have "real ?M = real ?M / real (2 ^ k) * 2 powi (int L - int ?s)" by (simp only: power_int_of_nat) simp
    then have "real ?M = (real (?M div 2 ^ k) + real (?M mod 2 ^ k) / real (2 ^ k)) * 2 powi (int L - int ?s)"
      using div_tail(1) [of "2 ^ k" ?M] by (simp only: zero_less_power zero_less_numeral)
    moreover note div_tail(2-4) [of "2 ^ k" ?M]
    moreover have "0 < ?M div 2 ^ k" using lo by (rule less_le_trans [rotated]) simp
    moreover have "2 ^ (mantissa_bits f + 2) \<le> ?M div 2 ^ k"
      using lo by (rule order_trans [rotated]) (simp add: power_add)
    ultimately show ?thesis
      unfolding si using unat_drop_bit [of k M]
      by (intro exact_repI [of _ "?M div 2 ^ k" "real (?M mod 2 ^ k) / real (2 ^ k)"]) simp_all
  qed
qed

theorem from_integer_ok:
  assumes "int_wf i" "r \<noteq> Fp_Odd" "\<not> is_flushing f c"
  shows "\<exists>res. from_integer w i f r c = Some res \<and> ieee_result f r (real_of_int (int_value i w)) res
    \<and> (int_value i w = 0 \<longrightarrow> res_bits res = 0)"
proof -
  obtain M neg where M: "magnitude_of w i = Some (M, neg)" "neg \<longrightarrow> M \<noteq> 0"
    "int_value i w = (if neg then - int (unat M) else int (unat M))"
    using magnitude_of_ok [OF assms(1), of w] by blast
  show ?thesis
  proof (cases "M = 0")
    case True
    then have "from_integer w i f r c = Some (res_exact (fp_zero f False))" "int_value i w = 0"
      using M by (simp_all add: from_integer_def)
    then show ?thesis using zero_resultI [of "0" f False r] by (auto simp: res_exact_def fp_zero_def)
  next
    case False
    let ?x = "with_sign neg (real (unat M))"
    have x: "real_of_int (int_value i w) = ?x"
      unfolding M(3) with_sign_def by (cases neg) (simp_all only: of_int_minus of_int_of_nat_eq if_True if_False)
    have "0 < unat M" using False by (simp add: unat_gt_0)
    then have "1 \<le> unat M" by (simp only: Suc_le_eq One_nat_def)
    then have "1 \<le> real (unat M)" using of_nat_mono [of 1 "unat M", where 'a = real] by (simp only: of_nat_1)
    moreover have "2 powi fp_min_exponent f \<le> (1::real)"
      using powi_le_iff [of "fp_min_exponent f" 0] exponent_bias_pos(1) [of f] by (simp add: fp_min_exponent_def)
    ultimately have "2 powi fp_min_exponent f \<le> \<bar>?x\<bar>" by (simp add: abs_with_sign)
    then have "\<not> subnormal_carry f r ?x" by (rule no_subnormal_carry)
    then obtain res where "from_integer w i f r c = Some res" "ieee_result f r ?x res"
      unfolding from_integer_eq [OF M(1) False]
      using round_and_pack_rep [of f ?x "fst (scaled_integer f M neg)"
          "\<lparr> rc_rounding = r, rc_sticky = snd (scaled_integer f M neg), rc_control = c \<rparr>"]
        scaled_integer_rep [OF False, of f neg] assms(2,3) by auto
    moreover have "int_value i w \<noteq> 0" 
      using M(3) \<open>0 < unat M\<close> by (cases neg; simp only: if_True if_False; linarith)
    ultimately show ?thesis unfolding x by blast
  qed
qed


section \<open>To an integer\<close>

text \<open>The exact value rounded to an integer, and the range a register of the format holds.\<close>

definition int_rounded :: "FpRounding \<Rightarrow> real \<Rightarrow> int" where
  "int_rounded r x = (if x < 0 then - round_int r True (- x) else round_int r False x)"

definition int_lowest :: "IntFormat \<Rightarrow> int" where
  "int_lowest i = (if int_signed i then - (2 ^ (int_bits i - 1)) else 0)"

definition int_highest :: "IntFormat \<Rightarrow> int" where
  "int_highest i = (if int_signed i then 2 ^ (int_bits i - 1) - 1 else 2 ^ int_bits i - 1)"

definition int_clamped :: "IntFormat \<Rightarrow> int \<Rightarrow> int" where
  "int_clamped i n = max (int_lowest i) (min (int_highest i) n)"

lemma fraction_tests:
  assumes "0 < k"
    and x_def: "x = real S / 2 ^ k"
  shows "\<lfloor>x\<rfloor> = int (S div 2 ^ k)"
    and "x - real (S div 2 ^ k) < 1 / 2 \<longleftrightarrow> S mod 2 ^ k < 2 ^ (k - 1)"
    and "x - real (S div 2 ^ k) = 1 / 2 \<longleftrightarrow> S mod 2 ^ k = 2 ^ (k - 1)"
    and "x = real (S div 2 ^ k) \<longleftrightarrow> S mod 2 ^ k = 0"
proof -
  let ?t = "S mod 2 ^ k" and ?h = "(2::nat) ^ (k - 1)"
  have p: "(2::real) ^ k = 2 * real ?h" using assms(1) by (cases k) simp_all
  have "real S = real (S div 2 ^ k) * 2 ^ k + real ?t"
    using arg_cong [OF div_mult_mod_eq [of S "2 ^ k", symmetric], of real]
    by (simp only: of_nat_add of_nat_mult of_nat_power of_nat_numeral)
  then have x: "x - real (S div 2 ^ k) = real ?t / 2 ^ k" by (simp add: x_def field_simps)
  have "real ?t / 2 ^ k < 1 / 2 \<longleftrightarrow> real ?t < real ?h" unfolding p by (simp add: field_simps)
  then show "x - real (S div 2 ^ k) < 1 / 2 \<longleftrightarrow> ?t < ?h" unfolding x by (simp only: of_nat_less_iff)
  have half: "real ?t / (2 * h) = 1 / 2 \<longleftrightarrow> real ?t = h" if "0 < h" for h :: real using that by (auto simp: field_simps)
  have "real ?t / 2 ^ k = 1 / 2 \<longleftrightarrow> real ?t = real ?h" unfolding p by (rule half) simp
  then show "x - real (S div 2 ^ k) = 1 / 2 \<longleftrightarrow> ?t = ?h" unfolding x by (simp only: of_nat_eq_iff) 
  show "x = real (S div 2 ^ k) \<longleftrightarrow> ?t = 0" using x by (auto simp: field_simps)
  show "\<lfloor>x\<rfloor> = int (S div 2 ^ k)" unfolding x_def by (metis floor_divide_of_nat_eq of_nat_numeral of_nat_power)
qed

lemma and_one_odd: "(w :: u64) AND 1 = 1 \<longleftrightarrow> odd (unat w)"
  by (simp add: and_one_eq odd_iff_mod_2_eq_one unat_word_ariths word_unat_eq_iff flip: bit_0)

lemma rounds_away_ok:
  assumes "0 < k" "k < 64" "r \<noteq> Fp_Odd" "unat S mod 2 ^ k \<noteq> 0"
  shows "round_int r (up_negative v) (real (unat S) / 2 ^ k)
    = int (unat S div 2 ^ k + of_bool (rounds_away (drop_bit k S) (S AND (push_bit k 1 - 1)) k r v))"
proof -
  let ?S = "unat S"
  note x = fraction_tests [OF assms(1) refl, of ?S]
  have d: "unat (drop_bit k S) = ?S div 2 ^ k" by (rule unat_drop_bit)
  have t: "unat (S AND (push_bit k 1 - 1)) = ?S mod 2 ^ k" by (rule unat_low_bits)
  have h: "unat (push_bit (k - 1) 1 :: u64) = 2 ^ (k - 1)"
  proof -
    have "(2::nat) ^ (k - 1) < 2 ^ 64" using assms(2) by (intro power_strict_increasing) simp_all
    then show ?thesis using unat_push_bit_small [of "1 :: u64" "k - 1"] by simp
  qed
  have odd: "drop_bit k S AND 1 = 1 \<longleftrightarrow> odd (?S div 2 ^ k)"
    using and_one_odd [of "drop_bit k S"] d by simp
  have c: "\<lceil>real ?S / 2 ^ k\<rceil> = int (?S div 2 ^ k) + 1"
  proof -
    have "real ?S / 2 ^ k \<noteq> real_of_int \<lfloor>real ?S / 2 ^ k\<rfloor>" using x(1,4) assms(4) by simp
    then show ?thesis by (simp only: ceiling_altdef x(1) if_False)
  qed
  have fl: "real_of_int \<lfloor>real ?S / 2 ^ k\<rfloor> = real (?S div 2 ^ k)" by (simp only: x(1) of_int_of_nat_eq)
  note cmp = word_less_nat_alt word_le_nat_alt word_unat_eq_iff t h
  show ?thesis
  proof (cases r)
    case Fp_Nearest
    then show ?thesis
      unfolding round_int_def rounds_away_def Fp_Nearest FpRounding.case fl x(2,3) Let_def cmp(1,2) odd
      unfolding word_unat_eq_iff [of "S AND (push_bit k 1 - 1)"] t h x(1) by auto
  next
    case Fp_NearestAway
    then show ?thesis
      unfolding round_int_def rounds_away_def Fp_NearestAway FpRounding.case fl x(2) Let_def cmp(1,2)
      unfolding t h x(1) by auto
  qed (use assms(3) x(1) c in \<open>simp_all only: round_int_def rounds_away_def FpRounding.case Let_def, simp_all\<close>)
qed

lemma round_int_small:
  assumes "0 < x" "x < 1 / 2" "r \<noteq> Fp_Odd"
  shows "round_int r neg x = of_bool (points_away r neg)"
proof -
  have "\<lfloor>x\<rfloor> = 0" "\<lceil>x\<rceil> = 1" using assms(1,2) by (simp_all add: floor_eq_iff ceiling_eq_iff)
  then show ?thesis using assms by (cases r) (simp_all add: round_int_def points_away_def)
qed

lemma integral_magnitude_left:
  "up_exponent u - int s = int j \<Longrightarrow> j < 128 \<Longrightarrow>
     integral_magnitude u s r = Some (push_bit j (ucast (up_significand u)), False)"
  by (simp add: integral_magnitude_def)

lemma integral_magnitude_right:
  assumes "up_exponent u - int s = - int k" "0 < k" "k < 64"
  shows "integral_magnitude u s r = (if unat (up_significand u) mod 2 ^ k = 0
    then Some (ucast (drop_bit k (up_significand u)), False)
    else do { sum \<leftarrow> checked_add (drop_bit k (up_significand u)) (of_bool (rounds_away
           (drop_bit k (up_significand u)) (up_significand u AND (push_bit k 1 - 1)) k r u));
         Some (ucast sum, True) })"
  using assms low_bits_eq_0 [of "up_significand u" k] by (simp add: integral_magnitude_def Let_def)

text \<open>The three ranges of the exponent: an integer, a fraction the rounding cannot reach half of, and a
  significand that straddles the binary point.\<close>

lemma integral_magnitude_integer:
  assumes "up_exponent u - int s = int j" "x = real (unat (up_significand u) * 2 ^ j)" "x < 2 ^ 128" "0 < x"
  shows "\<exists>M. integral_magnitude u s r = Some (M, real_of_int (round_int r neg x) \<noteq> x)
    \<and> int (unat M) = round_int r neg x"
proof -
  let ?w = "up_significand u"
  have "real (unat ?w * 2 ^ j) < real (2 ^ 128)" using assms(2,3) by simp
  then have fits: "unat ?w * 2 ^ j < 2 ^ 128" by (simp only: of_nat_less_iff)
  have "unat ?w \<noteq> 0" using assms(2,4) by (intro notI) simp
  then have "(2::nat) ^ j \<le> unat ?w * 2 ^ j" by simp
  then have "(2::nat) ^ j < 2 ^ 128" using fits by (rule le_less_trans)
  then have "j < 128" by (simp only: power_strict_increasing_iff one_less_numeral_iff semiring_norm)
  then have "integral_magnitude u s r = Some (push_bit j (ucast ?w), False)"
    by (rule integral_magnitude_left [OF assms(1)])
  moreover have "unat (push_bit j (ucast ?w :: u128)) = unat ?w * 2 ^ j"
    using fits unat_push_bit_small [of "ucast ?w :: u128" j] by (simp add: unat_ucast_128)
  ultimately show ?thesis
    unfolding assms(2) round_int_of_nat
    by (intro exI [of _ "push_bit j (ucast ?w)"]) (simp only: of_int_of_nat_eq simp_thms)
qed

lemma tiny_below_half:
  assumes "64 \<le> k" "S < 2 ^ 56" "x = real S / 2 ^ k"
  shows "x < 1 / 2"
proof -
  have "(2::nat) ^ 56 \<le> 2 ^ (k - 1)" using assms(1) by (intro power_increasing) simp_all
  then have "S < 2 ^ (k - 1)" using assms(2) by (rule less_le_trans [rotated])
  moreover have "(2::nat) ^ (k - 1) \<le> 2 ^ k" by (intro power_increasing) simp_all
  ultimately have "S < 2 ^ k" "S < 2 ^ (k - 1)" by (simp_all only: less_le_trans)
  then have "S div 2 ^ k = 0" "S mod 2 ^ k < 2 ^ (k - 1)" by simp_all
  then show "x < 1 / 2" using fraction_tests(2) [OF _ assms(3)] assms(1) by simp
qed

lemma integral_magnitude_tiny:
  assumes "up_exponent u - int s = - int k" "64 \<le> k" "unat (up_significand u) < 2 ^ 56"
    and x: "x = real (unat (up_significand u)) / 2 ^ k" "0 < x" and r: "r \<noteq> Fp_Odd"
  shows "\<exists>M. integral_magnitude u s r = Some (M, real_of_int (round_int r (up_negative u) x) \<noteq> x)
    \<and> int (unat M) = round_int r (up_negative u) x"
proof -
  let ?S = "unat (up_significand u)" and ?n = "up_negative u"
  have half: "x < 1 / 2" by (rule tiny_below_half [OF assms(2,3) x(1)])
  then have ri: "round_int r ?n x = of_bool (points_away r ?n)" using x(2) r by (intro round_int_small)
  moreover have "real_of_int (round_int r ?n x) \<noteq> x" using half x(2) by (auto simp: ri of_bool_def)
  moreover have "integral_magnitude u s r = Some (of_bool (points_away r ?n), True)"
    using assms(1,2) by (simp add: integral_magnitude_def Let_def)
  ultimately show ?thesis by (auto simp: of_bool_def)
qed

lemma integral_magnitude_straddle:
  assumes k: "up_exponent u - int s = - int k" "0 < k" "k < 64" and "unat (up_significand u) < 2 ^ 56"
    and x: "x = real (unat (up_significand u)) / 2 ^ k" and r: "r \<noteq> Fp_Odd"
  shows "\<exists>M. integral_magnitude u s r = Some (M, real_of_int (round_int r (up_negative u) x) \<noteq> x)
    \<and> int (unat M) = round_int r (up_negative u) x"
proof -
  let ?w = "up_significand u" and ?n = "up_negative u"
  let ?S = "unat ?w" and ?a = "rounds_away (drop_bit k ?w) (?w AND (push_bit k 1 - 1)) k r u"
  note t = fraction_tests [OF k(2) x] and im = integral_magnitude_right [OF k]
  show ?thesis
  proof (cases "?S mod 2 ^ k = 0")
    case True
    then have "round_int r ?n x = int (?S div 2 ^ k)" "x = real (?S div 2 ^ k)"
      using t(4) round_int_of_nat [of r ?n "?S div 2 ^ k"] by simp_all
    moreover have "unat (ucast (drop_bit k ?w) :: u128) = ?S div 2 ^ k" by (simp only: unat_ucast_128 unat_drop_bit)
    ultimately show ?thesis
      using True unfolding im by (intro exI [of _ "ucast (drop_bit k ?w)"]) (simp only: of_int_of_nat_eq simp_thms if_True)
  next
    case False
    have ri: "round_int r ?n x = int (?S div 2 ^ k + of_bool ?a)"
      unfolding x by (rule rounds_away_ok [OF k(2,3) r False])
    have "?S div 2 ^ k < 2 ^ 56" using div_le_dividend assms(4) by (rule le_less_trans)
    then have nov: "unat (drop_bit k ?w) + unat (of_bool ?a :: u64) < 2 ^ 64"
      by (simp add: unat_drop_bit of_bool_def)
    then have "unat (ucast (drop_bit k ?w + of_bool ?a) :: u128) = ?S div 2 ^ k + of_bool ?a"
      using unat_add_ok [of "drop_bit k ?w" "of_bool ?a"] by (simp add: unat_ucast_128 unat_drop_bit of_bool_def)
    moreover have "real_of_int (round_int r ?n x) \<noteq> x"
    proof
      assume "real_of_int (round_int r ?n x) = x"
      then have "x = real_of_int \<lfloor>x\<rfloor>" by (metis floor_of_int)
      then show False using t(1,4) False by simp
    qed
    moreover have "integral_magnitude u s r = Some (ucast (drop_bit k ?w + of_bool ?a), True)"
      using False nov unfolding im by (simp add: checked_add_ok)
    ultimately show ?thesis
      by (intro exI [of _ "ucast (drop_bit k ?w + of_bool ?a)"]) (simp only: ri simp_thms)
  qed
qed

lemma integral_magnitude_ok:
  assumes u: "unpacked_ok f u x" and lim: "x < 2 ^ 128" and r: "r \<noteq> Fp_Odd"
  shows "\<exists>M. integral_magnitude u (mantissa_bits f + GUARD_BITS) r
      = Some (M, real_of_int (round_int r (up_negative u) x) \<noteq> x)
    \<and> int (unat M) = round_int r (up_negative u) x"
proof -
  let ?S = "unat (up_significand u)" and ?s = "mantissa_bits f + 3" and ?e = "up_exponent u"
  have g: "mantissa_bits f + GUARD_BITS = ?s" by (simp add: GUARD_BITS_def)
  have S: "?S < 2 ^ (mantissa_bits f + 4)" and x: "x = real ?S * 2 powi (?e - int ?s)"
    using u by (simp_all add: unpacked_ok_def up_mag_def)
  have pos: "0 < x" using unpacked_pos [OF u] by simp
  have small: "?S < 2 ^ 56"
    by (rule less_le_trans [OF S]) (use mantissa_bits_bounds [of f] in \<open>intro power_increasing; simp\<close>)
  consider j where "?e - int ?s = int j" | k where "?e - int ?s = - int k" "0 < k"
    by (cases "?e - int ?s" rule: int_cases) (metis zero_less_Suc)+
  then show ?thesis
  proof cases
    case 1
    then have "x = real (?S * 2 ^ j)" unfolding x 1 by (simp only: power_int_of_nat of_nat_mult of_nat_power of_nat_numeral)
    then show ?thesis unfolding g using 1 lim pos by (intro integral_magnitude_integer)
  next
    case 2
    have xk: "x = real ?S / 2 ^ k" unfolding x 2(1) by (simp only: power_int_minus power_int_of_nat divide_inverse)
    then show ?thesis
      unfolding g using integral_magnitude_tiny [OF 2(1) _ small xk pos r]
        integral_magnitude_straddle [OF 2 _ small xk r] by (cases "k < 64") simp_all
  qed
qed

lemma unat_pow_minus_1: "k \<le> LENGTH('a) \<Longrightarrow> unat (2 ^ k - 1 :: 'a::len word) = 2 ^ k - 1"
proof -
  assume "k \<le> LENGTH('a)"
  then have "int (unat (mask k :: 'a word)) = int (mask k)" by (simp add: uint_mask_eq min_def of_nat_mask_eq)
  then show ?thesis by (simp only: of_nat_eq_iff mask_eq_exp_minus_1)
qed

lemma unat_pow: "k < LENGTH('a) \<Longrightarrow> unat (2 ^ k :: 'a::len word) = 2 ^ k"
  using unat_push_bit_small [of "1 :: 'a word" k] by simp

definition int_limit :: "bool \<Rightarrow> IntFormat \<Rightarrow> nat" where
  "int_limit neg i = (if \<not> int_signed i then 2 ^ int_bits i - 1
     else if neg then 2 ^ (int_bits i - 1) else 2 ^ (int_bits i - 1) - 1)"

lemma magnitude_limit_ok:
  assumes "int_wf i"
  shows "\<exists>l. magnitude_limit neg i = Some l \<and> unat l = int_limit neg i"
  using assms unat_pow_minus_1 [where 'a = 128, of "int_bits i"] unat_pow_minus_1 [where 'a = 128, of "int_bits i - 1"]
    unat_pow [where 'a = 128, of "int_bits i - 1"]
  by (auto simp: magnitude_limit_def int_limit_def count_sub_def int_wf_def)

lemma int_clamped_eq:
  assumes "int_wf i" "0 \<le> m" "\<not> int_signed i \<longrightarrow> \<not> neg"
  shows "int_clamped i (if neg then - m else m)
      = (if int (int_limit neg i) < m then if neg then int_lowest i else int_highest i else if neg then - m else m)"
    and "int (int_limit neg i) < m \<longleftrightarrow> (if neg then - m < int_lowest i else int_highest i < m)"
  using assms by (auto simp: int_clamped_def int_limit_def int_lowest_def int_highest_def int_wf_def)

lemma int_bounds: "int_lowest i \<le> 0" "0 \<le> int_highest i"
  by (simp_all add: int_lowest_def int_highest_def)

lemma saturate_ok:
  assumes "int_wf i"
  shows "saturate neg i = Some (mask_to_width (of_int (if neg then int_lowest i else int_highest i)) i)"
  using assms by (auto simp: saturate_def int_wf_def count_sub_def int_lowest_def int_highest_def mask_to_width_def)

lemma encode_integer_ok:
  assumes "int_wf i" "int (unat M) = m"
  shows "encode_integer M neg inexact i = Some (
    if \<not> int_signed i \<and> neg then res_raising 0 fx_INVALID
    else res_raising (mask_to_width (of_int (int_clamped i (if neg then - m else m))) i)
      (if int (int_limit neg i) < m then fx_INVALID else if inexact then fx_INEXACT else fx_NONE))"
proof (cases "\<not> int_signed i \<and> neg")
  case True
  then show ?thesis by (simp add: encode_integer_def)
next
  case False
  obtain l where l: "magnitude_limit neg i = Some l" "unat l = int_limit neg i"
    using magnitude_limit_ok [OF assms(1)] by blast
  have cmp: "l < M \<longleftrightarrow> int (int_limit neg i) < m" by (simp only: word_less_nat_alt l(2) of_nat_less_iff flip: assms(2))
  have "of_int m = (ucast M :: u64)" unfolding assms(2) [symmetric] by simp
  then show ?thesis
    using False l(1) saturate_ok [OF assms(1), of neg] int_clamped_eq(1) [OF assms(1), of m neg] assms(2)
    by (auto simp: encode_integer_def cmp)
qed

theorem to_integer_ok:
  assumes "fp_finite f b" "int_wf i" "r \<noteq> Fp_Odd" "fp_abs f b < 2 ^ 128"
    and n_def: "n = int_rounded r (fp_val f b)"
  shows "to_integer b f i r = Some (res_raising (mask_to_width (of_int (int_clamped i n)) i)
    (if n < int_lowest i \<or> int_highest i < n \<or> (\<not> int_signed i \<and> fp_val f b < 0) then fx_INVALID
     else if real_of_int n \<noteq> fp_val f b then fx_INEXACT else fx_NONE))"
proof (cases rule: finite_cases [OF assms(1)])
  case 1
  then have "n = 0" by (simp add: n_def int_rounded_def round_int_of_nat [of r False 0, simplified])
  then show ?thesis
    using 1 assms(1) int_bounds [of i] by (simp add: to_integer_def fp_finite_def int_clamped_def res_exact_def res_raising_def mask_to_width_def)
next
  case (2 u)
  let ?x = "fp_abs f b" and ?neg = "up_negative u"
  define m where "m = round_int r ?neg ?x"
  obtain M where M: "integral_magnitude u (mantissa_bits f + GUARD_BITS) r = Some (M, real_of_int m \<noteq> ?x)" "int (unat M) = m"
    using integral_magnitude_ok [OF 2(4) assms(4,3)] by (auto simp: m_def)
  have "0 < ?x" by (rule unpacked_pos(3) [OF 2(4)])
  then have neg: "fp_val f b < 0 \<longleftrightarrow> ?neg" and n: "n = (if ?neg then - m else m)"
    by (simp_all add: n_def m_def int_rounded_def 2(5) with_sign_def)
  have "0 \<le> m" using M(2) by (metis of_nat_0_le_iff)
  then have range: "int (int_limit ?neg i) < m \<longleftrightarrow> n < int_lowest i \<or> int_highest i < n" if "\<not> int_signed i \<longrightarrow> \<not> ?neg"
    using int_clamped_eq(2) [OF assms(2) _ that] int_bounds [of i] unfolding n by auto
  have inexact: "real_of_int n \<noteq> fp_val f b \<longleftrightarrow> real_of_int m \<noteq> ?x" unfolding n 2(5) by (simp add: with_sign_def)
  have "to_integer b f i r = encode_integer M ?neg (real_of_int m \<noteq> ?x) i"
    using 2(1-3) M(1) assms(1) by (simp add: to_integer_def fp_finite_def)
  then show ?thesis
  proof (cases "\<not> int_signed i \<and> ?neg")
    case True
    then have "int_clamped i n = 0" using \<open>0 \<le> m\<close> by (simp add: n int_clamped_def int_lowest_def int_highest_def)
    then show ?thesis
      using True \<open>to_integer b f i r = _\<close> encode_integer_ok [OF assms(2) M(2), of ?neg "real_of_int m \<noteq> ?x"] neg
      by (simp add: mask_to_width_def)
  next
    case False
    then show ?thesis
      using \<open>to_integer b f i r = _\<close> encode_integer_ok [OF assms(2) M(2), of ?neg "real_of_int m \<noteq> ?x"]
      unfolding inexact neg using range by (auto simp flip: n)
  qed
qed

text \<open>An integer the significand holds survives the conversion to the format and back.\<close>

lemma int_value_range: "int_wf i \<Longrightarrow> int_lowest i \<le> int_value i w \<and> int_value i w \<le> int_highest i"
proof -
  assume wf: "int_wf i"
  define u where "u = int (unat w mod 2 ^ int_bits i)"
  have u: "0 \<le> u" "u < 2 ^ int_bits i"
  proof -
    have "unat w mod 2 ^ int_bits i < 2 ^ int_bits i" by simp
    then have "int (unat w mod 2 ^ int_bits i) < int (2 ^ int_bits i)" by (simp only: of_nat_less_iff)
    then show "u < 2 ^ int_bits i" by (simp only: u_def of_nat_power of_nat_numeral)
  qed (simp add: u_def)
  show ?thesis
    using u wf unfolding int_value_def Let_def u_def [symmetric]
    by (auto simp: int_lowest_def int_highest_def int_wf_def)
qed

lemma of_int_int_value: "int_wf i \<Longrightarrow> mask_to_width (of_int (int_value i w)) i = mask_to_width w i"
proof -
  assume wf: "int_wf i"
  let ?p = "(2::int) ^ int_bits i"
  have m: "uint (mask_to_width v i) = uint v mod ?p" for v
    using arg_cong [OF unat_mask_to_width [OF wf, of v], of int] by (simp add: zmod_int)
  have u: "int (unat w mod 2 ^ int_bits i) = uint w mod ?p" by (simp add: zmod_int)
  have "uint (of_int z :: u64) mod ?p = z mod ?p" for z
    using wf by (auto simp: int_wf_def unsigned_of_int take_bit_eq_mod mod_mod_cancel)
  moreover have "int_value i w mod ?p = uint w mod ?p" unfolding int_value_def Let_def u by simp
  ultimately have "uint (mask_to_width (of_int (int_value i w)) i) = uint (mask_to_width w i)" unfolding m by simp
  then show ?thesis by (rule unsigned_word_eqI)
qed

theorem int_roundtrip:
  assumes "int_wf i" "r \<noteq> Fp_Odd" "r' \<noteq> Fp_Odd" "\<not> is_flushing f c"
    and "\<bar>int_value i w\<bar> < 2 ^ Suc (mantissa_bits f)"
  shows "\<exists>b. from_integer w i f r c = Some (res_exact b) \<and> fp_val f b = real_of_int (int_value i w)
    \<and> to_integer b f i r' = Some (res_exact (mask_to_width w i))"
proof -
  let ?n = "int_value i w"
  let ?x = "real_of_int ?n"
  obtain res where res: "from_integer w i f r c = Some res" "ieee_result f r ?x res"
    using from_integer_ok [OF assms(1,2,4)] by blast
  define N where "N = nat \<bar>?n\<bar>"
  have N: "N < 2 ^ Suc (mantissa_bits f)" "\<bar>?x\<bar> = real N * 2 powi 0"
    using assms(5) by (simp_all add: N_def nat_less_iff)
  have rounded: "fp_rounded f r ?x = ?x"
    by (rule rounded_representable [OF N(2,1)]) (use exponent_bias_pos(1) [of f] in \<open>simp add: fp_min_exponent_def\<close>)
  have "real N < real (2 ^ Suc (mantissa_bits f))" using N(1) by (simp only: of_nat_less_iff)
  then have "\<bar>?x\<bar> < 2 ^ Suc (mantissa_bits f)" using N(2) by simp
  also have "\<dots> = 2 powi int (Suc (mantissa_bits f))" by (simp only: power_int_of_nat)
  also have "\<dots> \<le> 2 powi (exponent_bias f + 1)"
    unfolding powi_le_iff by (cases f) (simp_all add: exponent_bias_def exponent_bits_def)
  finally have lim: "\<bar>?x\<bar> < 2 powi (exponent_bias f + 1)" .
  then have b: "fp_finite f (res_bits res)" "fp_val f (res_bits res) = ?x" "res_raised res = fx_NONE"
    using res(2) rounded by (simp_all add: ieee_result_def correctly_rounded_def fp_flags_def del: powi_add)
  have "round_int r' g (real N) = int N" for g by (rule round_int_of_nat)
  moreover have "real N = (if ?x < 0 then - ?x else ?x)" using N(2) by (cases "?x < 0") simp_all
  ultimately have n: "?n = int_rounded r' (fp_val f (res_bits res))" unfolding b(2) int_rounded_def
    by (simp add: N_def split: if_splits)
  have "real N < real (2 ^ 128)"
    using N(1) by (subst of_nat_less_iff, rule less_le_trans) (cases f; simp)
  then have "fp_abs f (res_bits res) < 2 ^ 128" using N(2) by (simp add: b(2) flip: abs_fp_val)
  then have "to_integer (res_bits res) f i r' = Some (res_raising (mask_to_width w i) fx_NONE)"
    using to_integer_ok [OF b(1) assms(1,3) _ n] int_value_range [OF assms(1), of w] of_int_int_value [OF assms(1), of w]
    by (auto simp: b(2) int_clamped_def int_lowest_def)
  then show ?thesis using res(1) b by (intro exI [of _ "res_bits res"]) (simp add: res_exact_def res_raising_def)
qed

end
