(* ===== verification/Fp_Integral.thy ===== *)
theory Fp_Integral
  imports Fp_Conversions
begin

unbundle bit_operations_syntax

text \<open>
  Rounding to an integral value in the same format: \<open>round_to_integral\<close> of
  \<open>fp/softfloat/convert.rs\<close> returns exactly the integer the mode selects, with the sign of its operand
  and no exception.
\<close>

section \<open>Rounded integers are representable\<close>

lemma round_int_cases: "round_int r n x = \<lfloor>x\<rfloor> \<or> (x \<noteq> real_of_int \<lfloor>x\<rfloor> \<and> round_int r n x = \<lfloor>x\<rfloor> + 1)"
  by (cases r) (auto simp: round_int_def ceiling_altdef)

lemma round_int_le:
  assumes "0 \<le> x" "x \<le> real_of_int N"
  shows "0 \<le> round_int r n x" "round_int r n x \<le> N"
proof -
  have "\<lceil>x\<rceil> \<le> N" "0 \<le> \<lfloor>x\<rfloor>" "\<lfloor>x\<rfloor> \<le> N" using assms by (simp_all add: ceiling_le_iff floor_le_iff)
  then show "0 \<le> round_int r n x" "round_int r n x \<le> N"
    using round_int_cases [of r n x] by (auto simp: ceiling_altdef split: if_splits)
qed

lemma small_integer_exact:
  assumes "N \<le> 2 ^ Suc (mantissa_bits f)"
  shows "fp_rounded f r (with_sign n (real N)) = with_sign n (real N)"
proof (cases "N = 2 ^ Suc (mantissa_bits f)")
  case True
  have "fp_min_exponent f - int (mantissa_bits f) \<le> int (Suc (mantissa_bits f))"
    using exponent_bias_pos(1) [of f] by (simp add: fp_min_exponent_def)
  moreover have "\<bar>with_sign n (real N)\<bar> = real 1 * 2 powi int (Suc (mantissa_bits f))"
    unfolding True power_int_of_nat by (simp add: abs_with_sign)
  moreover have "(1::nat) < 2 ^ Suc (mantissa_bits f)" by (rule one_less_power) simp_all
  ultimately show ?thesis by (intro rounded_representable)
next
  case False
  then show ?thesis
    using assms exponent_bias_pos(1) [of f]
    by (intro rounded_representable [of _ N 0]) (simp_all add: abs_with_sign fp_min_exponent_def)
qed

lemma integral_exact:
  assumes "fp_finite f b" and N: "int N = round_int r n (fp_abs f b)"
  shows "fp_rounded f r' (with_sign n' (real N)) = with_sign n' (real N)" (is ?exact)
    "real N < 2 powi (exponent_bias f + 1)" (is ?range)
proof -
  let ?x = "fp_abs f b" and ?m = "mantissa_bits f"
  have "?exact \<and> ?range"
  proof (cases "0 \<le> fp_unit f b")
    case True
    then have "?x = real (fp_sig f b * 2 ^ nat (fp_unit f b))"
      by (simp add: fp_abs_def power_int_def)
    then have x: "?x = real N" using N by (simp only: round_int_of_nat of_nat_eq_iff)
    have "fp_sig f b < 2 ^ Suc ?m" by (rule fp_sig_less)
    then have ?exact
      using fp_unit_bounds(1) [of f b]
      by (intro rounded_representable [of _ "fp_sig f b" "fp_unit f b"]) (simp_all add: abs_with_sign fp_abs_def flip: x)
    then show ?thesis using finite_abs_less [OF assms(1)] by (simp add: x del: powi_add)
  next
    case False
    have "?x \<le> real (fp_sig f b)"
      using False powi_le_iff [of "fp_unit f b" 0] by (simp add: fp_abs_def mult_left_le)
    also have "\<dots> \<le> real_of_int (2 ^ Suc ?m)"
      using less_imp_le [OF fp_sig_less [of f b]] by (metis of_int_of_nat_eq of_int_power of_nat_le_iff of_nat_numeral of_nat_power of_int_numeral)
    finally have "int N \<le> 2 ^ Suc ?m" unfolding N by (intro round_int_le) (simp_all add: fp_abs_nonneg)
    then have le: "N \<le> 2 ^ Suc ?m" by (metis of_nat_le_iff of_nat_numeral of_nat_power)
    then have "real N \<le> 2 ^ Suc ?m" by (metis of_nat_le_iff of_nat_numeral of_nat_power)
    also have "\<dots> < 2 powi (exponent_bias f + 1)" 
      by (cases f) (simp_all add: exponent_bias_def exponent_bits_def power_int_def)
    finally show ?thesis using small_integer_exact [OF le] by blast
  qed
  then show ?exact ?range by blast+
qed


section \<open>Rounding the significand\<close>

text \<open>The unpacked number the code packs, or none where the integer is zero.\<close>

definition integral_rep :: "FpFormat \<Rightarrow> bool \<Rightarrow> int \<Rightarrow> Unpacked option \<Rightarrow> bool" where
  "integral_rep f n N out \<longleftrightarrow> (case out of None \<Rightarrow> N = 0
     | Some v \<Rightarrow> up_negative v = n \<and> exact_rep f (with_sign n (real_of_int N)) v False)"

lemma integral_tiny:
  assumes u: "up_exponent u - int s = - int k" "64 \<le> k" "unat (up_significand u) < 2 ^ 56"
    and s: "s = mantissa_bits f + 3"
    and x: "x = real (unat (up_significand u)) / 2 ^ k" "0 < x" and r: "r \<noteq> Fp_Odd"
  shows "\<exists>out. round_significand_to_integer u s r = Some out
    \<and> integral_rep f (up_negative u) (round_int r (up_negative u) x) out"
proof -
  let ?n = "up_negative u"
  have half: "x < 1 / 2" by (rule tiny_below_half [OF u(2,3) x(1)])
  have ri: "round_int r ?n x = of_bool (points_away r ?n)" using half x(2) r by (intro round_int_small)
  have "s < 64" using mantissa_bits_bounds [of f] s by simp
  then have "unat (push_bit s 1 :: u64) = 2 ^ s" using unat_pow [where 'a = 64, of s] by simp
  then have "exact_rep f (with_sign ?n 1) (u\<lparr>up_exponent := 0, up_significand := push_bit s 1\<rparr>) False"
    by (intro exact_repI [of _ "2 ^ s" 0]) (simp_all add: s power_int_diff power_int_minus power_add)
  moreover have "nat (int s - up_exponent u) = k" using u(1) by linarith
  ultimately show ?thesis
    using \<open>s < 64\<close> u(2) unfolding ri round_significand_to_integer_def
    by (cases "points_away r ?n") (simp_all add: integral_rep_def Let_def)
qed

lemma integral_straddle:
  assumes k: "up_exponent u - int s = - int k" "0 < k" "k < 64" and S: "unat (up_significand u) < 2 ^ 56"
    and s: "s = mantissa_bits f + 3"
    and x: "x = real (unat (up_significand u)) / 2 ^ k" and r: "r \<noteq> Fp_Odd"
  shows "\<exists>out. round_significand_to_integer u s r = Some out
    \<and> integral_rep f (up_negative u) (round_int r (up_negative u) x) out"
proof -
  let ?w = "up_significand u" and ?n = "up_negative u"
  let ?S = "unat ?w"
  define a where "a \<longleftrightarrow> ?w AND (push_bit k 1 - 1) \<noteq> 0
    \<and> rounds_away (drop_bit k ?w) (?w AND (push_bit k 1 - 1)) k r u"
  define N where "N = ?S div 2 ^ k + of_bool a"
  have ri: "round_int r ?n x = int N"
  proof (cases "?S mod 2 ^ k = 0")
    case True
    then have "x = real (?S div 2 ^ k)" "N = ?S div 2 ^ k"
      using fraction_tests(4) [OF k(2) x] low_bits_eq_0 [of ?w k] by (simp_all add: N_def a_def)
    then show ?thesis by (simp only: round_int_of_nat)
  next
    case False
    then show ?thesis
      unfolding x using rounds_away_ok [OF k(2,3) r False, of u] low_bits_eq_0 [of ?w k] by (simp add: N_def a_def)
  qed
  have "N * 2 ^ k \<le> ?S + 2 ^ k" unfolding N_def by (cases a) (simp_all add: trans_le_add1)
  also have "\<dots> < 2 ^ 56 + 2 ^ k" using S by simp
  also have "\<dots> \<le> 2 ^ 56 + 2 ^ 63" using k(3) by (intro add_left_mono power_increasing) simp_all
  finally have fits: "N * 2 ^ k < 2 ^ 64" by simp
  have "N \<le> N * 2 ^ k" by simp
  then have "N < 2 ^ 64" using fits by (rule le_less_trans)
  then have sum: "checked_add (drop_bit k ?w) (of_bool a) = Some (drop_bit k ?w + of_bool a)"
    "unat (drop_bit k ?w + of_bool a) = N"
    using unat_add_ok [of "drop_bit k ?w" "of_bool a"]
    by (simp_all add: checked_add_ok unat_drop_bit N_def of_bool_def split: if_splits)
  define I where "I = drop_bit k ?w + of_bool a"
  have run: "round_significand_to_integer u s r
      = Some (if I = 0 then None else Some (u\<lparr>up_significand := push_bit k I\<rparr>))"
  proof -
    have "nat (int s - up_exponent u) = k" using k(1) by linarith
    then show ?thesis using k(3) sum(1) unfolding round_significand_to_integer_def Let_def a_def I_def by simp
  qed
  have I: "I = 0 \<longleftrightarrow> N = 0" "unat (push_bit k I) = N * 2 ^ k"
    using sum(2) fits unat_push_bit_small [of I k] by (auto simp: I_def unat_eq_0)
  have "exact_rep f (with_sign ?n (real N)) (u\<lparr>up_significand := push_bit k I\<rparr>) False" if "N \<noteq> 0"
    using that k(1) s I(2)
    by (intro exact_repI [of _ "N * 2 ^ k" 0]) (simp_all add: power_int_minus mult.assoc)
  then show ?thesis unfolding run ri by (auto simp: integral_rep_def I(1))
qed

lemma integral_significand_ok:
  assumes u: "unpacked_ok f u x" and s: "s = mantissa_bits f + 3" and e: "up_exponent u < int s" and r: "r \<noteq> Fp_Odd"
  shows "\<exists>out. round_significand_to_integer u s r = Some out
    \<and> integral_rep f (up_negative u) (round_int r (up_negative u) x) out"
proof -
  let ?S = "unat (up_significand u)"
  obtain k where k: "up_exponent u - int s = - int k" "0 < k"
    using e by (intro that [of "nat (int s - up_exponent u)"]) simp_all
  have S: "?S < 2 ^ (mantissa_bits f + 4)" and "x = real ?S * 2 powi (up_exponent u - int s)"
    using u by (simp_all add: unpacked_ok_def up_mag_def s)
  then have x: "x = real ?S / 2 ^ k" unfolding k(1) by (simp only: power_int_minus power_int_of_nat divide_inverse)
  have small: "?S < 2 ^ 56"
    by (rule less_le_trans [OF S]) (use mantissa_bits_bounds [of f] in \<open>intro power_increasing; simp\<close>)
  show ?thesis
    using integral_tiny [OF k(1) _ small s x unpacked_pos(3) [OF u] r] integral_straddle [OF k _ small s x r]
    by (cases "k < 64") simp_all
qed


section \<open>Round to integral\<close>

lemma pack_integral:
  assumes b: "fp_finite f b" and N: "int N = round_int r' n' (fp_abs f b)"
    and rep: "exact_rep f (with_sign n (real N)) v False" and r: "r \<noteq> Fp_Odd" and c: "\<not> is_flushing f c"
  shows "\<exists>w. round_and_pack v f \<lparr> rc_rounding = r, rc_sticky = False, rc_control = c \<rparr> = Some (res_exact w)
    \<and> fp_finite f w \<and> fp_val f w = with_sign n (real N) \<and> fp_is_negative f w = n"
proof -
  let ?y = "with_sign n (real N)"
  note e = integral_exact [OF b N]
  have "N \<noteq> 0" using exact_rep_nonzero [OF rep] by (intro notI) (simp add: with_sign_def split: if_splits)
  then have neg: "?y < 0 \<longleftrightarrow> n" "?y \<noteq> 0" "\<bar>?y\<bar> = real N" by (simp_all add: with_sign_def)
  have "\<not> subnormal_carry f r ?y" using e(1) by (simp add: subnormal_carry_def)
  with rep r c obtain res
    where res: "round_and_pack v f \<lparr> rc_rounding = r, rc_sticky = False, rc_control = c \<rparr> = Some res" "ieee_result f r ?y res"
    using round_and_pack_rep [of f ?y v "\<lparr> rc_rounding = r, rc_sticky = False, rc_control = c \<rparr>"] by auto
  from res(2) have "fp_finite f (res_bits res)" "fp_val f (res_bits res) = ?y" "fp_is_negative f (res_bits res) = n"
    "res_raised res = fx_NONE"
    using e neg by (simp_all add: ieee_result_def correctly_rounded_def fp_flags_def del: powi_add)
  then show ?thesis using res(1) by (intro exI [of _ "res_bits res"]) (simp add: res_exact_def)
qed

lemma finite_integer:
  assumes u: "unpacked_ok f u x" and e: "int (mantissa_bits f + 3) \<le> up_exponent u"
  shows "real_of_int (round_int r n x) = x"
proof -
  have "x = real (unat (up_significand u)) * 2 powi (up_exponent u - int (mantissa_bits f + 3))"
    using u by (simp add: unpacked_ok_def up_mag_def)
  then have "x = real (unat (up_significand u) * 2 ^ nat (up_exponent u - int (mantissa_bits f + 3)))"
    using e by (simp add: power_int_def)
  then show ?thesis by (simp only: round_int_of_nat of_int_of_nat_eq)
qed

theorem round_to_integral_ok:
  assumes b: "fp_finite f b" and r: "r \<noteq> Fp_Odd" and c: "\<not> is_flushing f c"
  shows "\<exists>w. round_to_integral b f r c = Some (res_exact w) \<and> fp_finite f w
    \<and> fp_val f w = real_of_int (int_rounded r (fp_val f b)) \<and> fp_is_negative f w = fp_is_negative f b"
proof (cases rule: finite_cases [OF b])
  case 1
  then have "int_rounded r (fp_val f b) = 0" by (simp add: int_rounded_def round_int_of_nat [of r False 0, simplified])
  then show ?thesis using 1 b finite_no_nan [of "[b]" f] by (auto simp: round_to_integral_def)
next
  case (2 u)
  let ?x = "fp_abs f b" and ?n = "up_negative u" and ?s = "mantissa_bits f + 3"
  define N where "N = nat (round_int r ?n ?x)"
  have "0 < ?x" by (rule unpacked_pos(3) [OF 2(4)])
  have "0 \<le> \<lceil>?x\<rceil>" "?x \<le> real_of_int \<lceil>?x\<rceil>" using \<open>0 < ?x\<close> by simp_all
  then have N: "int N = round_int r ?n ?x" using round_int_le(1) [of ?x "\<lceil>?x\<rceil>" r ?n] \<open>0 < ?x\<close> by (simp add: N_def)
  have val: "real_of_int (int_rounded r (fp_val f b)) = with_sign ?n (real N)"
    using \<open>0 < ?x\<close> arg_cong [OF N, of real_of_int] by (simp add: int_rounded_def 2(5) with_sign_def)
  have run: "round_to_integral b f r c = (if int ?s \<le> up_exponent u then Some (res_exact b)
      else round_significand_to_integer u ?s r \<bind> (\<lambda>out. case out of None \<Rightarrow> Some (res_exact (fp_zero f ?n))
        | Some v \<Rightarrow> round_and_pack \<lparr> up_negative = ?n, up_exponent = up_exponent v, up_significand = up_significand v \<rparr> f
                      \<lparr> rc_rounding = r, rc_sticky = False, rc_control = c \<rparr>))"
    using 2(1,2) b finite_no_nan [of "[b]" f] unfolding round_to_integral_def Let_def
    by (simp add: fp_finite_def GUARD_BITS_def)
  show ?thesis
  proof (cases "int ?s \<le> up_exponent u")
    case True
    then have "real N = ?x" using finite_integer [OF 2(4) True, of r ?n] unfolding N [symmetric] by simp
    then show ?thesis unfolding run val using True b 2(3,5) by auto
  next
    case False
    then obtain out where out: "round_significand_to_integer u ?s r = Some out" "integral_rep f ?n (int N) out"
      using integral_significand_ok [OF 2(4) refl _ r] unfolding N by auto
    show ?thesis
    proof (cases out)
      case None
      then have "N = 0" using out(2) by (simp add: integral_rep_def)
      then show ?thesis
        unfolding run val using False out(1) None 2(3) fp_zero_fields [of f ?n] by (auto simp: with_sign_def)
    next
      case (Some v)
      then have v: "exact_rep f (with_sign ?n (real N)) v False" "up_negative v = ?n"
        using out(2) by (simp_all add: integral_rep_def)
      then have "\<lparr> up_negative = ?n, up_exponent = up_exponent v, up_significand = up_significand v \<rparr> = v" by simp
      then show ?thesis
        unfolding run val using False out(1) Some pack_integral [OF b N v(1) r c] 2(3) by simp
    qed
  qed
qed

end
