(* ===== verification/Fp_Fused.thy ===== *)
theory Fp_Fused
  imports Fp_Arithmetic
begin

unbundle bit_operations_syntax

text \<open>
  Fused multiply-add: \<open>fp/softfloat/fused.rs\<close>. The exact product is kept at twice the scale of an
  unpacked significand and rounded once.
\<close>

record FusedOperands =
  fo_multiplicand :: u64
  fo_multiplier :: u64
  fo_addend :: u64
  fo_product_negated :: bool
  fo_addend_negated :: bool

record ExactProduct =
  ep_negative :: bool
  ep_exponent :: int
  ep_significand :: u128

definition signed_addend :: "FusedOperands \<Rightarrow> FpFormat \<Rightarrow> u64" where
  "signed_addend ops f =
     (if fo_addend_negated ops then fo_addend ops XOR push_bit (sign_shift f) 1 else fo_addend ops)"

definition zero_product :: "u64 \<Rightarrow> bool \<Rightarrow> Context \<Rightarrow> FpResult" where
  "zero_product addend is_product_negative cx =
     (let f = cx_format cx in
      if \<not> fp_is_zero f addend then res_exact addend
      else
        let is_negative = (if fp_is_negative f addend = is_product_negative then is_product_negative
                           else cx_rounding cx = Fp_Minus)
        in res_exact (fp_zero f is_negative))"

definition special_cases :: "FusedOperands \<Rightarrow> Context \<Rightarrow> FpResult option" where
  "special_cases ops cx =
     (let f = cx_format cx;
          multiplicand = fo_multiplicand ops;
          multiplier = fo_multiplier ops;
          addend = signed_addend ops f;
          is_product_infinite = (is_infinite f multiplicand \<or> is_infinite f multiplier);
          is_product_invalid = ((is_infinite f multiplicand \<and> fp_is_zero f multiplier)
                                \<or> (fp_is_zero f multiplicand \<and> is_infinite f multiplier))
      in if is_product_invalid then Some (invalid_operation f)
         else
           let is_product_negative0 = (fp_is_negative f multiplicand \<noteq> fp_is_negative f multiplier);
               is_product_negative = (if fo_product_negated ops then \<not> is_product_negative0
                                      else is_product_negative0)
           in if is_product_infinite then
                if is_infinite f addend \<and> fp_is_negative f addend \<noteq> is_product_negative
                then Some (invalid_operation f)
                else Some (res_exact (signed_infinity f is_product_negative))
              else if is_infinite f addend then Some (res_exact addend)
              else if fp_is_zero f multiplicand \<or> fp_is_zero f multiplier
              then Some (zero_product addend is_product_negative cx)
              else None)"

definition exact_product :: "FusedOperands \<Rightarrow> Context \<Rightarrow> ExactProduct option" where
  "exact_product ops cx = do {
     left \<leftarrow> unpack (fo_multiplicand ops) (cx_format cx);
     right \<leftarrow> unpack (fo_multiplier ops) (cx_format cx);
     let is_negative0 = (up_negative left \<noteq> up_negative right);
     let is_negative = (if fo_product_negated ops then \<not> is_negative0 else is_negative0);
     product \<leftarrow> checked_mul (ucast (up_significand left) :: u128) (ucast (up_significand right));
     Some \<lparr> ep_negative = is_negative, ep_exponent = up_exponent left + up_exponent right,
            ep_significand = product \<rparr>
   }"

definition shift_right_sticky :: "u128 \<Rightarrow> nat \<Rightarrow> u128 \<times> bool" where
  "shift_right_sticky value shift =
     (if shift \<ge> 128 then (0, value \<noteq> 0)
      else let discarded = value AND (push_bit shift 1 - 1)
           in (drop_bit shift value, discarded \<noteq> 0))"

definition fused_align :: "u128 \<Rightarrow> int \<Rightarrow> u128 \<Rightarrow> int \<Rightarrow> u128 \<times> u128 \<times> int \<times> bool" where
  "fused_align product product_exponent addend addend_exponent =
     (if product_exponent \<ge> addend_exponent then
        let shift = nat (product_exponent - addend_exponent);
            (shifted, is_sticky) = shift_right_sticky addend shift
        in (product, shifted, product_exponent, is_sticky)
      else
        let shift = nat (addend_exponent - product_exponent);
            (shifted, is_sticky) = shift_right_sticky product shift
        in (shifted, addend, addend_exponent, is_sticky))"

definition round_wide :: "ExactProduct \<Rightarrow> bool \<Rightarrow> Context \<Rightarrow> FpResult option" where
  "round_wide v is_sticky0 cx =
     (let f = cx_format cx in
      if ep_significand v = 0 then Some (res_exact (fp_zero f (ep_negative v)))
      else do {
        let scale = mantissa_bits f + GUARD_BITS;
        let target = 2 * scale;
        leading \<leftarrow> count_sub 127 (leading_zeros (ep_significand v));
        (exponent, significand, is_sticky) \<leftarrow>
          (if leading > target then do {
             let shift = leading - target;
             let (shifted, discarded) = shift_right_sticky (ep_significand v) shift;
             Some (ep_exponent v + int shift, shifted, is_sticky0 \<or> discarded)
           } else do {
             let shift = target - leading;
             shifted \<leftarrow> shl_chk (ep_significand v) shift;
             Some (ep_exponent v - int shift, shifted, is_sticky0)
           });
        let (narrowed, discarded) = shift_right_sticky significand scale;
        round_and_pack
          \<lparr> up_negative = ep_negative v, up_exponent = exponent, up_significand = ucast narrowed \<rparr> f
          \<lparr> rc_rounding = cx_rounding cx, rc_sticky = (is_sticky \<or> discarded),
            rc_control = cx_control cx \<rparr>
      })"

definition fused_accumulate :: "ExactProduct \<Rightarrow> u64 \<Rightarrow> Context \<Rightarrow> FpResult option" where
  "fused_accumulate product addend cx =
     (let f = cx_format cx; scale = mantissa_bits f + GUARD_BITS in
      if fp_is_zero f addend then round_wide product False cx
      else do {
        unpacked \<leftarrow> unpack addend f;
        let addend_significand = push_bit scale (ucast (up_significand unpacked) :: u128);
        let (aligned_product, aligned_addend, exponent, is_sticky0) =
          fused_align (ep_significand product) (ep_exponent product)
            addend_significand (up_exponent unpacked);
        (significand, is_negative) \<leftarrow>
          (if ep_negative product = up_negative unpacked then do {
             s \<leftarrow> checked_add aligned_product aligned_addend;
             Some (s, ep_negative product)
           }
           else if aligned_product \<ge> aligned_addend
           then Some (aligned_product - aligned_addend, ep_negative product)
           else Some (aligned_addend - aligned_product, up_negative unpacked));
        (if significand = 0 \<and> \<not> is_sticky0
         then Some (res_exact (fp_zero f (cx_rounding cx = Fp_Minus)))
         else
           let is_sticky = (is_sticky0 \<and> significand \<noteq> 0) in
           round_wide \<lparr> ep_negative = is_negative, ep_exponent = exponent, ep_significand = significand \<rparr>
             is_sticky cx)
      })"

definition multiply_add :: "FusedOperands \<Rightarrow> Context \<Rightarrow> FpResult option" where
  "multiply_add ops cx =
     (let f = cx_format cx;
          inputs = [fo_multiplicand ops, fo_multiplier ops, fo_addend ops]
      in case propagate inputs f (cx_control cx) of
           Some result \<Rightarrow> Some result
         | None \<Rightarrow>
             (case special_cases ops cx of
                Some result \<Rightarrow> Some result
              | None \<Rightarrow> do {
                  product \<leftarrow> exact_product ops cx;
                  fused_accumulate product (signed_addend ops f) cx
                }))"

end
