(* ===== verification/Fp_Fma.thy ===== *)
theory Fp_Fma
  imports Fp_Fused Fp_Mul_Div Fp_Conversions
begin

unbundle bit_operations_syntax

text \<open>
  Fused multiply-add is correctly rounded whenever the alignment of the smaller operand loses nothing
  or the product and the addend have the same sign. In the remaining case the code subtracts the
  truncated operand without a borrow.
\<close>

section \<open>Rounding a double-width significand\<close>

lemma shift_right_sticky_eq:
  "\<exists>w'. shift_right_sticky w k = (w', unat w mod 2 ^ k \<noteq> 0) \<and> unat w' = unat w div 2 ^ k"
proof (cases "128 \<le> k")
  case True
  then have "(2::nat) ^ 128 \<le> 2 ^ k" by (intro power_increasing) simp_all
  moreover have "unat w < 2 ^ 128" using unsigned_less [of w] by simp
  ultimately have "unat w < 2 ^ k" by (rule less_le_trans [rotated])
  then show ?thesis using True by (auto simp: shift_right_sticky_def unat_eq_0 intro: exI [of _ 0])
next
  case False
  then show ?thesis
    using low_bits_eq_0 [of w k] by (auto simp: shift_right_sticky_def unat_drop_bit intro: exI [of _ "drop_bit k w"])
qed

text \<open>A significand of twice the scale, with a tail below its last place, cut down to one.\<close>

lemma narrowed_rep:
  assumes k: "0 < k" and S: "2 ^ (mantissa_bits f + 3) \<le> S div 2 ^ k" "S div 2 ^ k < 2 ^ 64"
    and d: "0 \<le> d" "d < 1" "0 < d \<longleftrightarrow> s" and w: "unat w = S div 2 ^ k"
    and x: "x = with_sign neg ((real S + d) * 2 powi (E - int (mantissa_bits f + 3) - int k))"
  shows "exact_rep f x \<lparr> up_negative = neg, up_exponent = E, up_significand = ucast (w :: u128) \<rparr>
    (s \<or> S mod 2 ^ k \<noteq> 0)"
proof -
  define d' where "d' = (real (S mod 2 ^ k) + d) / 2 ^ k"
  have "tail_ok S d s" using d by (simp add: tail_ok_def)
  note sh = tail_ok_shift [OF this k]
  have d': "0 \<le> d'" "d' < 1" "0 < d' \<longleftrightarrow> s \<or> S mod 2 ^ k \<noteq> 0"
    using sh(1,3) by (simp_all add: d'_def tail_ok_def)
  have "real S + d = (real (S div 2 ^ k) + d') * 2 ^ k" using sh(2) by (simp add: d'_def)
  then have "(real S + d) * 2 powi (E - int (mantissa_bits f + 3) - int k)
      = (real (S div 2 ^ k) + d') * 2 powi (E - int (mantissa_bits f + 3))"
    using powi_nat_diff [of "E - int (mantissa_bits f + 3)" k] by (simp only: mult.assoc mult.commute [of "2 ^ k"])
  moreover have "unat (ucast w :: u64) = S div 2 ^ k" using S(2) w by (simp add: unat_ucast_64)
  moreover have "0 < S div 2 ^ k" using S(1) by (rule less_le_trans [rotated]) simp
  moreover have "2 ^ (mantissa_bits f + 2) \<le> S div 2 ^ k" using S(1) by (rule order_trans [rotated]) (simp add: power_add)
  ultimately show ?thesis
    using d' x by (intro exact_repI [of _ "S div 2 ^ k" d']) simp_all
qed

text \<open>\<open>round_wide\<close> moves the leading bit to twice the scale, then drops one scale. Either way the result
  is a significand \<open>t\<close> of that length cut at \<open>k\<close> places.\<close>

definition wide_cut :: "nat \<Rightarrow> ExactProduct \<Rightarrow> bool \<Rightarrow> Context \<Rightarrow> int \<Rightarrow> u128 \<Rightarrow> nat \<Rightarrow> nat \<Rightarrow> bool" where
  "wide_cut m v s cx E w k t \<longleftrightarrow> round_wide v s cx = round_and_pack
      \<lparr> up_negative = ep_negative v, up_exponent = E, up_significand = ucast w \<rparr> (cx_format cx)
      \<lparr> rc_rounding = cx_rounding cx, rc_sticky = (s \<or> t mod 2 ^ k \<noteq> 0), rc_control = cx_control cx \<rparr>
    \<and> 0 < k \<and> unat w = t div 2 ^ k \<and> 2 ^ m \<le> t div 2 ^ k \<and> t div 2 ^ k < 2 ^ Suc m"

lemma wide_cut_down:
  assumes m: "m = mantissa_bits (cx_format cx) + 3" and S: "unat (ep_significand v) = S" "0 < S"
    and L: "count_sub 127 (leading_zeros (ep_significand v)) = Some L" "2 ^ L \<le> S" "S < 2 ^ Suc L" "2 * m < L"
  shows "\<exists>w. wide_cut m v s cx (ep_exponent v + int (L - 2 * m)) w (L - m) S"
proof -
  let ?W = "ep_significand v"
  define a where "a = L - 2 * m"
  have k: "L - m = a + m" using L(4) by (simp add: a_def)
  obtain w1 where w1: "shift_right_sticky ?W a = (w1, S mod 2 ^ a \<noteq> 0)" "unat w1 = S div 2 ^ a"
    using shift_right_sticky_eq [of ?W a] by (auto simp: S(1))
  obtain w2 where w2: "shift_right_sticky w1 m = (w2, unat w1 mod 2 ^ m \<noteq> 0)" "unat w2 = unat w1 div 2 ^ m"
    using shift_right_sticky_eq [of w1 m] by auto
  have "(S mod 2 ^ a \<noteq> 0 \<or> unat w1 mod 2 ^ m \<noteq> 0) = (S mod 2 ^ (a + m) \<noteq> 0)"
    by (auto simp: w1(2) power_add mod_mult2_eq)
  moreover have "?W \<noteq> 0" using S by auto
  ultimately have "round_wide v s cx = round_and_pack
      \<lparr> up_negative = ep_negative v, up_exponent = ep_exponent v + int a, up_significand = ucast w2 \<rparr> (cx_format cx)
      \<lparr> rc_rounding = cx_rounding cx, rc_sticky = (s \<or> S mod 2 ^ (a + m) \<noteq> 0), rc_control = cx_control cx \<rparr>"
    using L(1,4) w1 w2 unfolding round_wide_def Let_def GUARD_BITS_def m [symmetric]
    by (simp add: a_def [symmetric] disj_assoc)
  moreover have "unat w2 = S div 2 ^ (a + m)" by (simp add: w1(2) w2(2) power_add div_mult2_eq)
  moreover have "m + (a + m) = L" "Suc m + (a + m) = Suc L" using L(4) by (simp_all add: a_def)
  then have "2 ^ m \<le> S div 2 ^ (a + m)" "S div 2 ^ (a + m) < 2 ^ Suc m"
    using L(2,3) by (simp_all only: less_eq_div_iff_mult_less_eq div_less_iff_less_mult zero_less_power
        zero_less_numeral power_add [symmetric] add.commute)
  ultimately show ?thesis unfolding k wide_cut_def a_def [symmetric] using m by auto
qed

lemma wide_cut_up:
  assumes m: "m = mantissa_bits (cx_format cx) + 3" and S: "unat (ep_significand v) = S" "0 < S"
    and L: "count_sub 127 (leading_zeros (ep_significand v)) = Some L" "2 ^ L \<le> S" "S < 2 ^ Suc L" "\<not> 2 * m < L"
    and j: "j = 2 * m - L"
  shows "\<exists>w. wide_cut m v s cx (ep_exponent v - int j) w m (S * 2 ^ j)"
proof -
  let ?W = "ep_significand v"
  have m55: "m \<le> 55" using mantissa_bits_bounds [of "cx_format cx"] by (simp add: m)
  have "S * 2 ^ j < 2 ^ Suc L * 2 ^ j" using L(3) by simp
  also have "\<dots> = 2 ^ Suc (2 * m)" using L(4) by (simp add: j flip: power_add power_Suc)
  finally have hi: "S * 2 ^ j < 2 ^ Suc (2 * m)" .
  also have "(2::nat) ^ Suc (2 * m) < 2 ^ 128" using m55 by (intro power_strict_increasing) simp_all
  finally have T: "unat (push_bit j ?W) = S * 2 ^ j" using unat_push_bit_small [of ?W j] by (simp add: S(1))
  obtain w2 where w2: "shift_right_sticky (push_bit j ?W) m = (w2, S * 2 ^ j mod 2 ^ m \<noteq> 0)"
      "unat w2 = S * 2 ^ j div 2 ^ m"
    using shift_right_sticky_eq [of "push_bit j ?W" m] by (auto simp: T)
  have "j < 128" "?W \<noteq> 0" using m55 S by (auto simp: j)
  then have "round_wide v s cx = round_and_pack
      \<lparr> up_negative = ep_negative v, up_exponent = ep_exponent v - int j, up_significand = ucast w2 \<rparr> (cx_format cx)
      \<lparr> rc_rounding = cx_rounding cx, rc_sticky = (s \<or> S * 2 ^ j mod 2 ^ m \<noteq> 0), rc_control = cx_control cx \<rparr>"
    using L(1,4) w2 unfolding round_wide_def Let_def GUARD_BITS_def m [symmetric] by (simp add: j [symmetric])
  moreover have "2 ^ (2 * m) = (2::nat) ^ L * 2 ^ j" using L(4) by (simp add: j flip: power_add)
  then have "2 ^ (2 * m) \<le> S * 2 ^ j" using L(2) by simp
  then have "2 ^ m \<le> S * 2 ^ j div 2 ^ m" "S * 2 ^ j div 2 ^ m < 2 ^ Suc m"
    using hi by (simp_all add: less_eq_div_iff_mult_less_eq div_less_iff_less_mult mult_2 distrib_right power_add)
  ultimately show ?thesis unfolding wide_cut_def using w2(2) m by auto
qed

lemma round_wide_ok:
  assumes d: "0 \<le> d" "d < 1" "0 < d \<longleftrightarrow> s" and S: "unat (ep_significand v) = S" "0 < S"
    and m: "m = mantissa_bits (cx_format cx) + 3" and big: "s \<Longrightarrow> 2 ^ (2 * m) \<le> S"
    and x: "x = with_sign (ep_negative v) ((real S + d) * 2 powi (ep_exponent v - int (2 * m)))"
    and ctx: "cx_rounding cx \<noteq> Fp_Odd" "\<not> is_flushing (cx_format cx) (cx_control cx)"
  shows "\<exists>res. round_wide v s cx = Some res \<and> packed_result (cx_format cx) (cx_rounding cx) x res"
proof -
  let ?W = "ep_significand v" and ?e = "ep_exponent v"
  have nz: "?W \<noteq> 0" using S by auto
  define L where "L = 127 - leading_zeros ?W"
  have cs: "count_sub 127 (leading_zeros ?W) = Some L" "128 - leading_zeros ?W = Suc L"
    using leading_zeros_bounds(1) [OF nz] by (simp_all add: count_sub_def L_def)
  have L: "2 ^ L \<le> S" "S < 2 ^ Suc L" using leading_zeros_bounds(2,3) [OF nz] cs(2) S(1) by (simp_all add: L_def)
  obtain E w k t where cut: "wide_cut m v s cx E w k t"
    and e: "(real S + d) * 2 powi (?e - int (2 * m)) = (real t + d) * 2 powi (E - int m - int k)"
  proof (cases "2 * m < L")
    case True
    have "?e + int (L - 2 * m) - int m - int (L - m) = ?e - int (2 * m)" using True by simp
    then have "(real S + d) * 2 powi (?e - int (2 * m)) = (real S + d) * 2 powi (?e + int (L - 2 * m) - int m - int (L - m))"
      by (simp only:)
    moreover obtain w where "wide_cut m v s cx (?e + int (L - 2 * m)) w (L - m) S"
      using wide_cut_down [OF m S cs(1) L True] by blast
    ultimately show ?thesis by (rule that [rotated])
  next
    case False
    define j where "j = 2 * m - L"
    have "(real S + d) * 2 powi (?e - int (2 * m)) = (real (S * 2 ^ j) + d) * 2 powi (?e - int j - int m - int m)"
    proof (cases s)
      case True
      then have "(2::nat) ^ (2 * m) < 2 ^ Suc L" using big L(2) by (meson le_less_trans)
      then have "2 * m < Suc L" by (simp only: power_strict_increasing_iff one_less_numeral_iff semiring_norm)
      then show ?thesis by (simp add: j_def del: powi_add)
    next
      case False
      then have "d = 0" using d by simp
      then show ?thesis
        using powi_nat_diff [of "?e - int (2 * m)" j] by (simp add: algebra_simps del: powi_add)
    qed
    moreover obtain w where "wide_cut m v s cx (?e - int j) w m (S * 2 ^ j)"
      using wide_cut_up [OF m S cs(1) L False j_def] by blast
    ultimately show ?thesis by (rule that [rotated])
  qed
  have "(2::nat) ^ Suc m < 2 ^ 64"
    using mantissa_bits_bounds [of "cx_format cx"] by (intro power_strict_increasing) (simp_all add: m)
  then have "t div 2 ^ k < 2 ^ 64" using cut less_trans unfolding wide_cut_def by blast
  then have "exact_rep (cx_format cx) x
      \<lparr> up_negative = ep_negative v, up_exponent = E, up_significand = ucast w \<rparr> (s \<or> t mod 2 ^ k \<noteq> 0)"
    using cut d by (intro narrowed_rep) (simp_all only: wide_cut_def m [symmetric] x e simp_thms)
  from round_and_pack_packed [of "cx_format cx" x _
      "\<lparr> rc_rounding = cx_rounding cx, rc_sticky = (s \<or> t mod 2 ^ k \<noteq> 0), rc_control = cx_control cx \<rparr>"]
    this ctx show ?thesis using cut unfolding wide_cut_def by simp
qed


section \<open>Product and alignment\<close>

lemma unpacked_scale:
  assumes "unpacked_ok f u x" "m = mantissa_bits f + 3"
  shows "2 ^ m \<le> unat (up_significand u)" "unat (up_significand u) < 2 ^ Suc m"
    "x = real (unat (up_significand u)) * 2 powi (up_exponent u - int m)"
proof -
  have "Suc m = mantissa_bits f + 4" using assms(2) by simp
  then have "(2::nat) ^ (mantissa_bits f + 4) = 2 ^ Suc m" by (simp only:)
  then show "2 ^ m \<le> unat (up_significand u)" "unat (up_significand u) < 2 ^ Suc m"
    "x = real (unat (up_significand u)) * 2 powi (up_exponent u - int m)"
    using assms unfolding unpacked_ok_def up_mag_def by (simp_all only: add_0_right)
qed

lemma powi_double_scale: "2 powi (a - int m) * 2 powi (b - int m) = (2::real) powi (a + b - int (2 * m))"
proof -
  have "a - int m + (b - int m) = a + b - int (2 * m)" by simp
  then show ?thesis using power_int_add [of "2 :: real" "a - int m" "b - int m"] by simp
qed

lemma powi_shift_scale: "2 ^ m * 2 powi (a - int (2 * m)) = (2::real) powi (a - int m)"
  using powi_nat_diff [of "a - int m" m] by (simp add: algebra_simps del: powi_add)

lemma wide_product:
  assumes l: "unpacked_ok f l a" and r: "unpacked_ok f r b" and m: "m = mantissa_bits f + 3"
  shows "\<exists>P. checked_mul (ucast (up_significand l) :: u128) (ucast (up_significand r)) = Some P
    \<and> 2 ^ (2 * m) \<le> unat P \<and> unat P < 2 ^ (2 * m + 2)
    \<and> a * b = real (unat P) * 2 powi (up_exponent l + up_exponent r - int (2 * m))"
proof -
  let ?L = "unat (up_significand l)" and ?R = "unat (up_significand r)"
  let ?P = "ucast (up_significand l) * ucast (up_significand r) :: u128"
  note L = unpacked_scale [OF l m] and R = unpacked_scale [OF r m]
  have lt: "?L * ?R < 2 ^ Suc m * 2 ^ Suc m" using L(2) R(2) by (intro mult_strict_mono) simp_all
  also have "\<dots> = 2 ^ (2 * m + 2)" by (simp add: power_add mult_2 [of m])
  finally have hi: "?L * ?R < 2 ^ (2 * m + 2)" .
  also have "(2::nat) ^ (2 * m + 2) < 2 ^ 128"
    using mantissa_bits_bounds [of f] by (intro power_strict_increasing) (simp_all add: m)
  finally have fit: "unat (ucast (up_significand l) :: u128) * unat (ucast (up_significand r) :: u128) < 2 ^ LENGTH(128)"
    by (simp add: unat_ucast_128)
  have P: "unat ?P = ?L * ?R" using fit by (simp add: unat_word_ariths unat_ucast_128)
  have "2 ^ m * 2 ^ m \<le> ?L * ?R" using L(1) R(1) by (rule mult_mono) simp_all
  then have "2 ^ (2 * m) \<le> ?L * ?R" by (simp add: mult_2 flip: power_add)
  moreover have "a * b = real (?L * ?R) * 2 powi (up_exponent l + up_exponent r - int (2 * m))"
    unfolding L(3) R(3) powi_double_scale [symmetric] unfolding of_nat_mult by (simp only: mult_ac)
  moreover have "checked_mul (ucast (up_significand l)) (ucast (up_significand r)) = Some ?P"
    using fit by (simp add: checked_mul_def)
  ultimately show ?thesis using hi by (intro exI [of _ ?P]) (simp only: P simp_thms)
qed

lemma wide_addend:
  assumes u: "unpacked_ok f u c" and m: "m = mantissa_bits f + 3"
  shows "\<exists>A. push_bit m (ucast (up_significand u) :: u128) = A \<and> 2 ^ (2 * m) \<le> unat A \<and> unat A < 2 ^ (2 * m + 1)
    \<and> c = real (unat A) * 2 powi (up_exponent u - int (2 * m))"
proof -
  let ?U = "unat (up_significand u)"
  note U = unpacked_scale [OF u m]
  have "?U * 2 ^ m < 2 ^ Suc m * 2 ^ m" using U(2) by simp
  also have "\<dots> = 2 ^ (2 * m + 1)" by (simp add: power_add mult_2 [of m])
  finally have hi: "?U * 2 ^ m < 2 ^ (2 * m + 1)" .
  also have "(2::nat) ^ (2 * m + 1) < 2 ^ 128"
    using mantissa_bits_bounds [of f] by (intro power_strict_increasing) (simp_all add: m)
  finally have A: "unat (push_bit m (ucast (up_significand u) :: u128)) = ?U * 2 ^ m"
    using unat_push_bit_small [of "ucast (up_significand u) :: u128" m] by (simp add: unat_ucast_128)
  have "2 ^ m * 2 ^ m \<le> ?U * 2 ^ m" using U(1) by simp
  then have "2 ^ (2 * m) \<le> ?U * 2 ^ m" by (simp add: mult_2 flip: power_add)
  moreover have "c = real (?U * 2 ^ m) * 2 powi (up_exponent u - int (2 * m))"
  proof -
    have "real (?U * 2 ^ m) = real ?U * 2 ^ m" by (simp only: of_nat_mult of_nat_power of_nat_numeral)
    then show ?thesis unfolding mult.assoc powi_shift_scale using U(3) by (simp only: mult.assoc powi_shift_scale)
  qed
  ultimately show ?thesis
    using hi by (intro exI [of _ "push_bit m (ucast (up_significand u))"]) (simp only: A simp_thms)
qed

text \<open>Alignment brings both to the larger exponent; each keeps its value as an integer and a tail, and
  the sticky bit says whether one of the tails is not empty.\<close>

lemma shifted_value:
  assumes "int k = e - e'"
  shows "real S * 2 powi (e' - q) = (real (S div 2 ^ k) + real (S mod 2 ^ k) / 2 ^ k) * 2 powi (e - q)"
proof -
  have "real S = (real (S div 2 ^ k) + real (S mod 2 ^ k) / 2 ^ k) * 2 ^ k"
    using div_tail(1) [of "2 ^ k" S] by (simp add: field_simps)
  moreover have "2 ^ k * 2 powi (e' - q) = (2::real) powi (e - q)"
    using powi_nat_diff [of "e - q" k] assms by (simp add: algebra_simps del: powi_add)
  ultimately show ?thesis by (simp only: mult.assoc)
qed

lemma fused_align_ok:
  obtains P' A' e s dp da where "fused_align p ep a ea = (P', A', e, s)"
    "real (unat p) * 2 powi (ep - q) = (real (unat P') + dp) * 2 powi (e - q)"
    "real (unat a) * 2 powi (ea - q) = (real (unat A') + da) * 2 powi (e - q)"
    "0 \<le> dp" "0 \<le> da" "dp + da < 1" "s \<longleftrightarrow> 0 < dp + da"
    "unat P' \<le> unat p" "unat A' \<le> unat a" "P' = p \<or> A' = a"
proof (cases "ea \<le> ep")
  case True
  define k where "k = nat (ep - ea)"
  have k: "int k = ep - ea" using True by (simp add: k_def)
  obtain w where w: "shift_right_sticky a k = (w, unat a mod 2 ^ k \<noteq> 0)" "unat w = unat a div 2 ^ k"
    using shift_right_sticky_eq [of a k] by blast
  have "fused_align p ep a ea = (p, w, ep, unat a mod 2 ^ k \<noteq> 0)"
    using True w by (simp add: fused_align_def k_def Let_def)
  moreover note shifted_value [OF k, of "unat a" q] div_tail(2-4) [of "2 ^ k" "unat a"]
  ultimately show ?thesis
    using w(2) by (intro that [of p w ep _ 0 "real (unat a mod 2 ^ k) / 2 ^ k"]) simp_all
next
  case False
  define k where "k = nat (ea - ep)"
  have k: "int k = ea - ep" using False by (simp add: k_def)
  obtain w where w: "shift_right_sticky p k = (w, unat p mod 2 ^ k \<noteq> 0)" "unat w = unat p div 2 ^ k"
    using shift_right_sticky_eq [of p k] by blast
  have "fused_align p ep a ea = (w, a, ea, unat p mod 2 ^ k \<noteq> 0)"
    using False w by (simp add: fused_align_def k_def Let_def)
  moreover note shifted_value [OF k, of "unat p" q] div_tail(2-4) [of "2 ^ k" "unat p"]
  ultimately show ?thesis
    using w(2) by (intro that [of w a ea _ "real (unat p mod 2 ^ k) / 2 ^ k" 0]) simp_all
qed


section \<open>The accumulated sum\<close>

definition aligned_sticky :: "ExactProduct \<Rightarrow> Unpacked \<Rightarrow> FpFormat \<Rightarrow> bool" where
  "aligned_sticky p u f = snd (snd (snd (fused_align (ep_significand p) (ep_exponent p)
     (push_bit (mantissa_bits f + GUARD_BITS) (ucast (up_significand u))) (up_exponent u))))"

lemma accumulate_eq:
  assumes "f = cx_format cx" "unpack c f = Some u" "\<not> fp_is_zero f c"
    and "fused_align (ep_significand p) (ep_exponent p) (push_bit m (ucast (up_significand u))) (up_exponent u) = (P', A', e, s)"
    and "m = mantissa_bits f + 3"
  shows "fused_accumulate p c cx = do {
      (sig, neg) \<leftarrow> (if ep_negative p = up_negative u then do { t \<leftarrow> checked_add P' A'; Some (t, ep_negative p) }
        else if A' \<le> P' then Some (P' - A', ep_negative p) else Some (A' - P', up_negative u));
      if sig = 0 \<and> \<not> s then Some (res_exact (fp_zero f (cx_rounding cx = Fp_Minus)))
      else round_wide \<lparr> ep_negative = neg, ep_exponent = e, ep_significand = sig \<rparr> (s \<and> sig \<noteq> 0) cx }"
proof -
  have "mantissa_bits f + GUARD_BITS = m" using assms(5) by (simp add: GUARD_BITS_def)
  then show ?thesis
    unfolding fused_accumulate_def Let_def assms(1) [symmetric]
    by (simp only: assms(2,3,4) if_False Option.bind.simps prod.case simp_thms)
qed

lemma with_sign_nonzero: "0 < y \<Longrightarrow> with_sign n y \<noteq> 0"
  by (simp add: with_sign_def)

lemma with_sign_sum_nonzero: "0 < y \<Longrightarrow> 0 < z \<Longrightarrow> with_sign n y + with_sign n z \<noteq> 0"
  by (simp add: with_sign_def)

lemma same_wide:
  assumes lim: "unat P < 2 ^ (2 * m + 2)" "unat A < 2 ^ (2 * m + 1)" and big: "2 ^ (2 * m) \<le> unat P + unat A"
    and d: "0 \<le> d" "d < 1" "0 < d \<longleftrightarrow> s"
    and x: "x = with_sign n ((real (unat P + unat A) + d) * 2 powi (e - int (2 * m)))"
    and f: "f = cx_format cx" and m: "m = mantissa_bits f + 3"
    and ctx: "cx_rounding cx \<noteq> Fp_Odd" "\<not> is_flushing f (cx_control cx)"
  shows "checked_add P A = Some (P + A :: u128) \<and> P + A \<noteq> 0 \<and> x \<noteq> 0 \<and> (\<exists>res.
    round_wide \<lparr> ep_negative = n, ep_exponent = e, ep_significand = P + A \<rparr> s cx = Some res
    \<and> packed_result f (cx_rounding cx) x res)"
proof -
  have "unat P + unat A < 2 ^ (2 * m + 2) + 2 ^ (2 * m + 1)" using lim by linarith
  also have "\<dots> \<le> 2 ^ (2 * m + 3)" by (simp add: power_add)
  also have "(2::nat) ^ (2 * m + 3) < 2 ^ 128"
    using mantissa_bits_bounds [of f] by (intro power_strict_increasing) (simp_all add: m)
  finally have fit: "unat P + unat A < 2 ^ LENGTH(128)" by simp
  have sum: "unat (P + A) = unat P + unat A" by (rule unat_add_ok [OF fit])
  have pos: "0 < unat P + unat A" using big by (rule less_le_trans [rotated]) simp
  then have "P + A \<noteq> 0" using sum by auto
  moreover have "0 < (real (unat P + unat A) + d) * 2 powi (e - int (2 * m))"
    using pos d(1) by (intro mult_pos_pos add_pos_nonneg) (simp_all only: of_nat_0_less_iff, simp_all)
  then have "x \<noteq> 0" unfolding x by (rule with_sign_nonzero)
  moreover have "\<exists>res. round_wide \<lparr> ep_negative = n, ep_exponent = e, ep_significand = P + A \<rparr> s cx = Some res
      \<and> packed_result (cx_format cx) (cx_rounding cx) x res"
    using d x pos big sum ctx m f
    by (intro round_wide_ok [of d s _ "unat P + unat A" m]) (simp_all only: ExactProduct.simps, simp_all)
  ultimately show ?thesis using fit f by (simp add: checked_add_ok)
qed

lemma opposite_wide:
  assumes "np \<noteq> nu" and x: "x = with_sign np (real (unat P) * 2 powi (e - int (2 * m)))
      + with_sign nu (real (unat A) * 2 powi (e - int (2 * m)))"
    and f: "f = cx_format cx" and m: "m = mantissa_bits f + 3"
    and ctx: "cx_rounding cx \<noteq> Fp_Odd" "\<not> is_flushing f (cx_control cx)"
  defines "v \<equiv> (if A \<le> P then (P - A, np) else (A - P, nu))"
  shows "\<exists>res. (if fst v = 0 then Some (res_exact (fp_zero f (cx_rounding cx = Fp_Minus)))
      else round_wide \<lparr> ep_negative = snd v, ep_exponent = e, ep_significand = fst v \<rparr> False cx) = Some res
    \<and> packed_result f (cx_rounding cx) x res
    \<and> (x = 0 \<longrightarrow> fp_is_negative f (res_bits res) = (cx_rounding cx = Fp_Minus))"
proof -
  let ?q = "(2::real) powi (e - int (2 * m))"
  have xv: "x = with_sign (snd v) ((real (unat (fst v)) + 0) * ?q)"
  proof (cases "A \<le> P")
    case True
    then have "real (unat (P - A)) = real (unat P) - real (unat A)"
      by (simp only: unat_sub_ok word_le_nat_alt of_nat_diff)
    then show ?thesis using True assms(1) unfolding x v_def
      by (cases np; cases nu) (simp_all only: if_True fst_conv snd_conv with_sign_def if_False simp_thms, simp_all only: algebra_simps)
  next
    case False
    then have "P \<le> A" by simp
    then have "real (unat (A - P)) = real (unat A) - real (unat P)"
      by (simp only: unat_sub_ok word_le_nat_alt of_nat_diff)
    then show ?thesis using False assms(1) unfolding x v_def
      by (cases np; cases nu) (simp_all only: if_True fst_conv snd_conv with_sign_def if_False simp_thms, simp_all only: algebra_simps)
  qed
  show ?thesis
  proof (cases "fst v = 0")
    case True
    then have "x = 0" unfolding xv by (simp add: with_sign_def)
    then show ?thesis using True zero_packedI [of x f "cx_rounding cx = Fp_Minus"] by simp
  next
    case False
    then have pos: "0 < unat (fst v)" by (simp add: unat_gt_0)
    have "0 < (real (unat (fst v)) + 0) * ?q"
      using pos by (intro mult_pos_pos add_pos_nonneg) (simp_all only: of_nat_0_less_iff, simp_all)
    then have "x \<noteq> 0" unfolding xv by (rule with_sign_nonzero)
    moreover have "\<exists>res. round_wide \<lparr> ep_negative = snd v, ep_exponent = e, ep_significand = fst v \<rparr> False cx = Some res
        \<and> packed_result (cx_format cx) (cx_rounding cx) x res"
      using pos xv ctx m f
      by (intro round_wide_ok [of 0 False _ "unat (fst v)" m]) (simp_all only: ExactProduct.simps, simp_all)
    ultimately show ?thesis using False f by simp
  qed
qed

lemma fused_accumulate_ok:
  assumes f: "f = cx_format cx" and m: "m = mantissa_bits f + 3"
    and p: "2 ^ (2 * m) \<le> unat (ep_significand p)" "unat (ep_significand p) < 2 ^ (2 * m + 2)"
    and u: "unpack c f = Some u" "unpacked_ok f u (fp_abs f c)" "\<not> fp_is_zero f c"
    and x: "x = with_sign (ep_negative p) (real (unat (ep_significand p)) * 2 powi (ep_exponent p - int (2 * m)))
      + with_sign (up_negative u) (fp_abs f c)"
    and exact: "ep_negative p \<noteq> up_negative u \<Longrightarrow> \<not> aligned_sticky p u f"
    and ctx: "cx_rounding cx \<noteq> Fp_Odd" "\<not> is_flushing f (cx_control cx)"
  shows "\<exists>res. fused_accumulate p c cx = Some res \<and> packed_result f (cx_rounding cx) x res
    \<and> (x = 0 \<longrightarrow> fp_is_negative f (res_bits res) = (cx_rounding cx = Fp_Minus))"
proof -
  let ?P = "ep_significand p" and ?np = "ep_negative p" and ?nu = "up_negative u"
  obtain A where A: "push_bit m (ucast (up_significand u) :: u128) = A" "2 ^ (2 * m) \<le> unat A" "unat A < 2 ^ (2 * m + 1)"
    "fp_abs f c = real (unat A) * 2 powi (up_exponent u - int (2 * m))"
    using wide_addend [OF u(2) m] by blast
  obtain P' A' e s dp da where al: "fused_align ?P (ep_exponent p) A (up_exponent u) = (P', A', e, s)"
    and vp: "real (unat ?P) * 2 powi (ep_exponent p - int (2 * m)) = (real (unat P') + dp) * 2 powi (e - int (2 * m))"
    and va: "real (unat A) * 2 powi (up_exponent u - int (2 * m)) = (real (unat A') + da) * 2 powi (e - int (2 * m))"
    and d: "0 \<le> dp" "0 \<le> da" "dp + da < 1" "s \<longleftrightarrow> 0 < dp + da"
    and le: "unat P' \<le> unat ?P" "unat A' \<le> unat A" "P' = ?P \<or> A' = A"
    using fused_align_ok by metis
  have g: "mantissa_bits f + GUARD_BITS = m" by (simp add: m GUARD_BITS_def)
  have st: "aligned_sticky p u f = s" by (simp add: aligned_sticky_def g A(1) al)
  note acc = accumulate_eq [OF f u(1,3) al [folded A(1)] m]
  show ?thesis
  proof (cases "?np = ?nu")
    case True
    have lim: "unat P' < 2 ^ (2 * m + 2)" "unat A' < 2 ^ (2 * m + 1)" using p(2) A(3) le by linarith+
    have big: "2 ^ (2 * m) \<le> unat P' + unat A'" using p(1) A(2) le(3) by auto
    have val: "x = with_sign ?np ((real (unat P' + unat A') + (dp + da)) * 2 powi (e - int (2 * m)))"
      unfolding x A(4) vp va True by (simp add: with_sign_def algebra_simps del: powi_add)
    have "checked_add P' A' = Some (P' + A') \<and> P' + A' \<noteq> 0 \<and> x \<noteq> 0 \<and> (\<exists>res.
        round_wide \<lparr> ep_negative = ?np, ep_exponent = e, ep_significand = P' + A' \<rparr> s cx = Some res
        \<and> packed_result f (cx_rounding cx) x res)"
      using d by (intro same_wide [OF lim big _ _ _ val f m ctx]) simp_all
    then show ?thesis unfolding acc using True by auto
  next
    case False
    then have "\<not> s" using exact st by simp
    then have "dp = 0" "da = 0" using d by linarith+
    then have val: "x = with_sign ?np (real (unat P') * 2 powi (e - int (2 * m)))
        + with_sign ?nu (real (unat A') * 2 powi (e - int (2 * m)))"
      unfolding x A(4) vp va by (simp only: add_0_right)
    show ?thesis
      using opposite_wide [OF False val f m ctx] unfolding acc using False \<open>\<not> s\<close>
      by (cases "A' \<le> P'") (auto split: if_splits)
  qed
qed


section \<open>Fused multiply-add\<close>

text \<open>The operands on which the code is not claimed correct: opposite signs, and an alignment that shifts
  bits out.\<close>

definition borrow_lost :: "FusedOperands \<Rightarrow> Context \<Rightarrow> bool" where
  "borrow_lost ops cx \<longleftrightarrow>
     (case (exact_product ops cx, unpack (signed_addend ops (cx_format cx)) (cx_format cx)) of
        (Some p, Some u) \<Rightarrow> ep_negative p \<noteq> up_negative u \<and> aligned_sticky p u (cx_format cx)
      | _ \<Rightarrow> False)"

lemma signed_addend_ok:
  assumes "fp_finite f (fo_addend ops)"
  shows "fp_finite f (signed_addend ops f)"
    "fp_val f (signed_addend ops f)
      = (if fo_addend_negated ops then - fp_val f (fo_addend ops) else fp_val f (fo_addend ops))"
    "fp_is_negative f (signed_addend ops f) = (fp_is_negative f (fo_addend ops) \<noteq> fo_addend_negated ops)"
  using assms flip_sign [OF assms] by (simp_all add: signed_addend_def)

lemma exact_value_result:
  assumes "fp_finite f c"
  shows "packed_result f r (fp_val f c) (res_exact c)"
proof -
  have "embeds f f" by (simp add: embeds_def)
  note e = embedded_exact [OF this assms, of r]
  have "fp_is_negative f c = (fp_val f c < 0)" if "fp_val f c \<noteq> 0"
    using that fp_abs_nonneg [of f c] by (auto simp: fp_val_def)
  then show ?thesis
    using e assms by (simp add: packed_ieee ieee_result_def correctly_rounded_def res_exact_def del: powi_add)
qed

lemma zero_product_ok:
  assumes "fp_finite (cx_format cx) c" "f = cx_format cx"
  shows "packed_result f (cx_rounding cx) (fp_val f c) (zero_product c n cx)
    \<and> (fp_val f c = 0 \<longrightarrow> fp_is_negative f (res_bits (zero_product c n cx))
        = (if fp_is_negative f c = n then n else cx_rounding cx = Fp_Minus))"
proof (cases "fp_is_zero f c")
  case True
  then have "fp_val f c = 0" using assms by (simp add: fp_val_zero_iff fp_finite_def)
  then show ?thesis
    using True zero_result_ok [of f "cx_rounding cx"] fp_zero_fields(3) [of f] no_carry_zero [of f]
    by (simp add: packed_ieee zero_product_def Let_def res_exact_def assms(2) [symmetric])
next
  case False
  then show ?thesis
    using exact_value_result [of f c] assms fp_val_zero_iff [of f c]
    by (simp add: zero_product_def Let_def fp_finite_def)
qed

lemma fused_sum_ok:
  assumes f: "f = cx_format cx" and m: "m = mantissa_bits f + 3"
    and p: "2 ^ (2 * m) \<le> unat (ep_significand p)" "unat (ep_significand p) < 2 ^ (2 * m + 2)"
    and c: "fp_finite f c"
    and x: "x = with_sign (ep_negative p) (real (unat (ep_significand p)) * 2 powi (ep_exponent p - int (2 * m)))
      + fp_val f c"
    and exact: "\<And>u. unpack c f = Some u \<Longrightarrow> ep_negative p \<noteq> up_negative u \<Longrightarrow> \<not> aligned_sticky p u f"
    and ctx: "cx_rounding cx \<noteq> Fp_Odd" "\<not> is_flushing f (cx_control cx)"
  shows "\<exists>res. fused_accumulate p c cx = Some res \<and> packed_result f (cx_rounding cx) x res
    \<and> (x = 0 \<longrightarrow> fp_is_negative f c \<noteq> ep_negative p
        \<and> fp_is_negative f (res_bits res) = (cx_rounding cx = Fp_Minus))"
proof -
  let ?P = "unat (ep_significand p)"
  have pos: "0 < ?P" using p(1) by (rule less_le_trans [rotated]) simp
  then have val: "0 < (real ?P + 0) * 2 powi (ep_exponent p - int (2 * m))"
    by (intro mult_pos_pos add_pos_nonneg) (simp_all only: of_nat_0_less_iff, simp_all)
  show ?thesis
  proof (cases rule: finite_cases [OF c])
    case 1
    have xp: "x = with_sign (ep_negative p) ((real ?P + 0) * 2 powi (ep_exponent p - int (2 * m)))"
      unfolding x 1(2) by (simp only: add_0_right)
    then have "\<exists>res. round_wide p False cx = Some res \<and> packed_result (cx_format cx) (cx_rounding cx) x res"
      using pos ctx f m by (intro round_wide_ok [of 0 False _ ?P m]) simp_all
    moreover have "x \<noteq> 0" using with_sign_nonzero [OF val] unfolding xp .
    ultimately show ?thesis using 1(1) f by (simp add: fused_accumulate_def Let_def)
  next
    case (2 u)
    note run = fused_accumulate_ok [OF f m p 2(2,4,1) x [unfolded 2(5)] exact [OF 2(2)] ctx]
    have "x \<noteq> 0" if "fp_is_negative f c = ep_negative p"
      using with_sign_sum_nonzero [OF val unpacked_pos(3) [OF 2(4)]] unfolding x 2(5) 2(3) that
      by (simp only: add_0_right simp_thms)
    then show ?thesis using run by auto
  qed
qed

theorem multiply_add_ok:
  assumes fin: "fp_finite f (fo_multiplicand ops)" "fp_finite f (fo_multiplier ops)" "fp_finite f (fo_addend ops)"
    and f: "f = cx_format cx"
    and n: "n = ((fp_is_negative f (fo_multiplicand ops) \<noteq> fp_is_negative f (fo_multiplier ops)) \<noteq> fo_product_negated ops)"
    and x: "x = (if fo_product_negated ops then - 1 else 1) * (fp_val f (fo_multiplicand ops) * fp_val f (fo_multiplier ops))
      + fp_val f (signed_addend ops f)"
    and exact: "\<not> borrow_lost ops cx"
    and ctx: "cx_rounding cx \<noteq> Fp_Odd" "\<not> is_flushing f (cx_control cx)"
  shows "\<exists>res. multiply_add ops cx = Some res \<and> packed_result f (cx_rounding cx) x res
    \<and> (x = 0 \<longrightarrow> fp_is_negative f (res_bits res)
        = (if fp_is_negative f (signed_addend ops f) = n then n else cx_rounding cx = Fp_Minus))"
proof -
  let ?a = "fo_multiplicand ops" and ?b = "fo_multiplier ops" and ?c = "signed_addend ops f"
  note c = signed_addend_ok [OF fin(3)]
  have core: "multiply_add ops cx = (if fp_is_zero f ?a \<or> fp_is_zero f ?b then Some (zero_product ?c n cx)
      else do { p \<leftarrow> exact_product ops cx; fused_accumulate p ?c cx })"
    using finite_no_nan [of "[?a, ?b, fo_addend ops]" f] fin c(1)
    unfolding multiply_add_def special_cases_def Let_def f [symmetric]
    by (auto simp: fp_finite_def n)
  show ?thesis
  proof (cases "fp_is_zero f ?a \<or> fp_is_zero f ?b")
    case True
    then have "x = fp_val f ?c" using fin fp_val_zero_iff [of f] by (auto simp: x fp_finite_def)
    then show ?thesis using zero_product_ok [of cx ?c f n] c(1) True f by (simp add: core)
  next
    case False
    then obtain l r where l: "unpack ?a f = Some l" "up_negative l = fp_is_negative f ?a" "unpacked_ok f l (fp_abs f ?a)"
      and r: "unpack ?b f = Some r" "up_negative r = fp_is_negative f ?b" "unpacked_ok f r (fp_abs f ?b)"
      using unpack_ok [of f ?a] unpack_ok [of f ?b] fin by (auto simp: fp_finite_def)
    obtain P where P: "checked_mul (ucast (up_significand l) :: u128) (ucast (up_significand r)) = Some P"
      "2 ^ (2 * (mantissa_bits f + 3)) \<le> unat P" "unat P < 2 ^ (2 * (mantissa_bits f + 3) + 2)"
      "fp_abs f ?a * fp_abs f ?b = real (unat P) * 2 powi (up_exponent l + up_exponent r - int (2 * (mantissa_bits f + 3)))"
      using wide_product [OF l(3) r(3) refl] by blast
    define p where "p = \<lparr> ep_negative = n, ep_exponent = up_exponent l + up_exponent r, ep_significand = P \<rparr>"
    have ep: "exact_product ops cx = Some p"
      using l r P(1) by (simp add: exact_product_def f [symmetric] p_def n Let_def)
    have prod: "(if fo_product_negated ops then - 1 else 1) * (fp_val f ?a * fp_val f ?b) = with_sign n (fp_abs f ?a * fp_abs f ?b)"
      by (auto simp: fp_val_with_sign with_sign_mult n with_sign_def)
    have run: "multiply_add ops cx = fused_accumulate p ?c cx" using False ep by (simp add: core)
    have ps: "2 ^ (2 * (mantissa_bits f + 3)) \<le> unat (ep_significand p)"
      "unat (ep_significand p) < 2 ^ (2 * (mantissa_bits f + 3) + 2)" using P(2,3) by (simp_all add: p_def)
    have xs: "x = with_sign (ep_negative p) (real (unat (ep_significand p))
        * 2 powi (ep_exponent p - int (2 * (mantissa_bits f + 3)))) + fp_val f ?c"
      unfolding x prod P(4) by (simp only: p_def ExactProduct.simps)
    have "\<not> aligned_sticky p u f" if "unpack ?c f = Some u" "ep_negative p \<noteq> up_negative u" for u
      using that exact ep by (simp add: borrow_lost_def f)
    from fused_sum_ok [OF f refl ps c(1) xs this ctx] show ?thesis unfolding run by (auto simp: p_def)
  qed
qed

end
