(* ===== verification/Fp_Engine.thy ===== *)
theory Fp_Engine
  imports Fp_Fused Fp_Compare Fp_Convert
begin

unbundle bit_operations_syntax

text \<open>
  The two backends and the engine that selects between them: \<open>fp/softfloat/mod.rs\<close>,
  \<open>fp/native.rs\<close> and \<open>fp/engine.rs\<close>.

  Rust leaves the payload of a NaN that a host float operation produces unspecified, so the host's
  operators are not functions of the language alone. They are a record of operations on raw bits, an
  argument of the native backend; what IEEE 754 and the Rust reference fix about them is the locale
  \<open>ieee_host\<close> of the theory on the engine. The build-time feature \<open>fp-precise\<close> is the
  argument \<open>precise\<close>.
\<close>

section \<open>The reference backend\<close>

definition soft_context :: "FpFormat \<Rightarrow> FpRounding \<Rightarrow> FpControl \<Rightarrow> Context" where
  "soft_context f rounding1 control =
     \<lparr> cx_format = f, cx_rounding = rounding1, cx_control = control \<rparr>"

definition soft_binary :: "FpBinaryOp \<Rightarrow> FpOperands \<Rightarrow> FpControl \<Rightarrow> FpResult option" where
  "soft_binary op ops control =
     (let cx = soft_context (op_format ops) (op_rounding ops) control;
          lhs = op_lhs ops; rhs = op_rhs ops
      in case op of
           FpBin_Add \<Rightarrow> fp_add lhs rhs False cx
         | FpBin_Sub \<Rightarrow> fp_add lhs rhs True cx
         | FpBin_Mul \<Rightarrow> fp_multiply lhs rhs cx
         | FpBin_Div \<Rightarrow> fp_divide lhs rhs cx
         | FpBin_Max \<Rightarrow> Some (extremum lhs rhs Ext_Max (op_format ops) control)
         | FpBin_Min \<Rightarrow> Some (extremum lhs rhs Ext_Min (op_format ops) control)
         | FpBin_MaxNum \<Rightarrow> Some (extremum lhs rhs Ext_MaxNum (op_format ops) control)
         | FpBin_MinNum \<Rightarrow> Some (extremum lhs rhs Ext_MinNum (op_format ops) control))"

definition soft_unary :: "FpUnaryOp \<Rightarrow> FpValue \<Rightarrow> FpRounding \<Rightarrow> FpControl \<Rightarrow> FpResult option" where
  "soft_unary op operand rounding1 control = (case op of
       FpUn_Sqrt \<Rightarrow> square_root (val_bits operand) (soft_context (val_format operand) rounding1 control)
     | FpUn_RoundToIntegral \<Rightarrow>
         round_to_integral (val_bits operand) (val_format operand) rounding1 control)"

definition soft_fused_multiply_add :: "FpFmaOperands \<Rightarrow> FpControl \<Rightarrow> FpResult option" where
  "soft_fused_multiply_add ops control =
     multiply_add
       \<lparr> fo_multiplicand = fma_multiplicand ops, fo_multiplier = fma_multiplier ops,
         fo_addend = fma_addend ops, fo_product_negated = fma_product_negated ops,
         fo_addend_negated = fma_addend_negated ops \<rparr>
       (soft_context (fma_format ops) (fma_rounding ops) control)"

definition soft_compare :: "FpOperands \<Rightarrow> bool \<Rightarrow> FpComparison \<times> FpExceptions" where
  "soft_compare ops is_signalling = fp_compare (op_lhs ops) (op_rhs ops) (op_format ops) is_signalling"

definition soft_convert_format :: "FpValue \<Rightarrow> FpFormat \<Rightarrow> FpControl \<Rightarrow> FpResult option" where
  "soft_convert_format v target control =
     convert_format (val_bits v) (val_format v) target control (rounding control)"

definition soft_to_integer :: "FpValue \<Rightarrow> ToIntegerTarget \<Rightarrow> FpControl \<Rightarrow> FpResult option" where
  "soft_to_integer v target control =
     to_integer (val_bits v) (val_format v) (ti_format target) (ti_rounding target)"

definition soft_convert_from_integer :: "u64 \<Rightarrow> FromIntegerSource \<Rightarrow> FpControl \<Rightarrow> FpResult option" where
  "soft_convert_from_integer v source control =
     from_integer v (fi_format source) (fi_target source) (fi_rounding source) control"

definition softfloat :: FpBackend where
  "softfloat =
     \<lparr> be_tracks_exceptions = True, be_binary = soft_binary, be_unary = soft_unary,
       be_fused_multiply_add = soft_fused_multiply_add, be_compare = soft_compare,
       be_convert_format = soft_convert_format, be_to_integer = soft_to_integer,
       be_convert_from_integer = soft_convert_from_integer \<rparr>"


section \<open>The native backend\<close>

text \<open>The float operators of the host on raw bits: \<open>+ - * /\<close>, \<open>< > ==\<close>, and the two \<open>as\<close> casts.\<close>

record host_floats =
  hf_add32 :: "u32 \<Rightarrow> u32 \<Rightarrow> u32"
  hf_sub32 :: "u32 \<Rightarrow> u32 \<Rightarrow> u32"
  hf_mul32 :: "u32 \<Rightarrow> u32 \<Rightarrow> u32"
  hf_div32 :: "u32 \<Rightarrow> u32 \<Rightarrow> u32"
  hf_add64 :: "u64 \<Rightarrow> u64 \<Rightarrow> u64"
  hf_sub64 :: "u64 \<Rightarrow> u64 \<Rightarrow> u64"
  hf_mul64 :: "u64 \<Rightarrow> u64 \<Rightarrow> u64"
  hf_div64 :: "u64 \<Rightarrow> u64 \<Rightarrow> u64"
  hf_lt32 :: "u32 \<Rightarrow> u32 \<Rightarrow> bool"
  hf_gt32 :: "u32 \<Rightarrow> u32 \<Rightarrow> bool"
  hf_eq32 :: "u32 \<Rightarrow> u32 \<Rightarrow> bool"
  hf_lt64 :: "u64 \<Rightarrow> u64 \<Rightarrow> bool"
  hf_gt64 :: "u64 \<Rightarrow> u64 \<Rightarrow> bool"
  hf_eq64 :: "u64 \<Rightarrow> u64 \<Rightarrow> bool"
  hf_widen :: "u32 \<Rightarrow> u64"
  hf_narrow :: "u64 \<Rightarrow> u32"

definition can_serve :: "FpFormat \<Rightarrow> FpRounding \<Rightarrow> bool" where
  "can_serve f rounding1 \<longleftrightarrow> rounding1 = Fp_Nearest \<and> (f = Fp_Single \<or> f = Fp_Double)"

definition dispatch_binary ::
  "FpFormat \<Rightarrow> u64 \<times> u64 \<Rightarrow> (u32 \<Rightarrow> u32 \<Rightarrow> u32) \<Rightarrow> (u64 \<Rightarrow> u64 \<Rightarrow> u64) \<Rightarrow> u64" where
  "dispatch_binary f operands single double = (case f of
       Fp_Single \<Rightarrow> ucast (single (ucast (fst operands)) (ucast (snd operands)))
     | _ \<Rightarrow> double (fst operands) (snd operands))"

definition native_binary :: "host_floats \<Rightarrow> FpBinaryOp \<Rightarrow> FpOperands \<Rightarrow> FpControl \<Rightarrow> FpResult option" where
  "native_binary H op ops control =
     (if \<not> can_serve (op_format ops) (op_rounding ops) then soft_binary op ops control
      else
        let pair = (op_lhs ops, op_rhs ops); f = op_format ops in
        case op of
          FpBin_Add \<Rightarrow> Some (res_exact (dispatch_binary f pair (hf_add32 H) (hf_add64 H)))
        | FpBin_Sub \<Rightarrow> Some (res_exact (dispatch_binary f pair (hf_sub32 H) (hf_sub64 H)))
        | FpBin_Mul \<Rightarrow> Some (res_exact (dispatch_binary f pair (hf_mul32 H) (hf_mul64 H)))
        | FpBin_Div \<Rightarrow> Some (res_exact (dispatch_binary f pair (hf_div32 H) (hf_div64 H)))
        | _ \<Rightarrow> soft_binary op ops control)"

definition native_unary :: "FpUnaryOp \<Rightarrow> FpValue \<Rightarrow> FpRounding \<Rightarrow> FpControl \<Rightarrow> FpResult option" where
  "native_unary op operand rounding1 control = soft_unary op operand rounding1 control"

definition native_fused_multiply_add :: "FpFmaOperands \<Rightarrow> FpControl \<Rightarrow> FpResult option" where
  "native_fused_multiply_add ops control = soft_fused_multiply_add ops control"

definition partial_order :: "bool \<Rightarrow> bool \<Rightarrow> bool \<Rightarrow> FpComparison" where
  "partial_order is_less is_greater is_equal =
     (if is_less then Fp_Less else if is_greater then Fp_Greater
      else if is_equal then Fp_Equal else Fp_Unordered)"

definition native_compare :: "host_floats \<Rightarrow> FpOperands \<Rightarrow> bool \<Rightarrow> FpComparison \<times> FpExceptions" where
  "native_compare H ops is_signalling =
     (if \<not> (op_format ops = Fp_Single \<or> op_format ops = Fp_Double) then soft_compare ops is_signalling
      else
        let lhs = op_lhs ops; rhs = op_rhs ops;
            ordering1 = (case op_format ops of
                Fp_Single \<Rightarrow> partial_order (hf_lt32 H (ucast lhs) (ucast rhs))
                  (hf_gt32 H (ucast lhs) (ucast rhs)) (hf_eq32 H (ucast lhs) (ucast rhs))
              | _ \<Rightarrow> partial_order (hf_lt64 H lhs rhs) (hf_gt64 H lhs rhs) (hf_eq64 H lhs rhs))
        in (ordering1, fx_NONE))"

definition native_convert_format ::
  "host_floats \<Rightarrow> FpValue \<Rightarrow> FpFormat \<Rightarrow> FpControl \<Rightarrow> FpResult option" where
  "native_convert_format H v target control = (case (val_format v, target) of
       (Fp_Single, Fp_Double) \<Rightarrow> Some (res_exact (hf_widen H (ucast (val_bits v))))
     | (Fp_Double, Fp_Single) \<Rightarrow> Some (res_exact (ucast (hf_narrow H (val_bits v))))
     | _ \<Rightarrow> soft_convert_format v target control)"

definition native_to_integer :: "FpValue \<Rightarrow> ToIntegerTarget \<Rightarrow> FpControl \<Rightarrow> FpResult option" where
  "native_to_integer v target control = soft_to_integer v target control"

definition native_convert_from_integer :: "u64 \<Rightarrow> FromIntegerSource \<Rightarrow> FpControl \<Rightarrow> FpResult option" where
  "native_convert_from_integer v source control = soft_convert_from_integer v source control"

definition native :: "host_floats \<Rightarrow> FpBackend" where
  "native H =
     \<lparr> be_tracks_exceptions = False, be_binary = native_binary H, be_unary = native_unary,
       be_fused_multiply_add = native_fused_multiply_add, be_compare = native_compare H,
       be_convert_format = native_convert_format H, be_to_integer = native_to_integer,
       be_convert_from_integer = native_convert_from_integer \<rparr>"


section \<open>The engine\<close>

datatype Selected = Selected_Native | Selected_Reference

record FpEngine =
  en_selected :: Selected
  en_control :: FpControl
  en_exceptions :: u64

definition engine_select :: "bool \<Rightarrow> u64 \<Rightarrow> Selected" where
  "engine_select precise fpcr =
     (if precise \<or> \<not> is_default_mode_bits fpcr then Selected_Reference else Selected_Native)"

definition selects_native_backend :: "bool \<Rightarrow> u64 \<Rightarrow> bool" where
  "selects_native_backend precise fpcr \<longleftrightarrow> engine_select precise fpcr = Selected_Native"

definition engine_with_fpcr :: "bool \<Rightarrow> u64 \<Rightarrow> FpEngine" where
  "engine_with_fpcr precise fpcr =
     \<lparr> en_selected = engine_select precise fpcr, en_control = fpc_from_bits fpcr, en_exceptions = 0 \<rparr>"

definition engine_new :: "bool \<Rightarrow> FpEngine" where
  "engine_new precise = engine_with_fpcr precise 0"

definition engine_set_fpcr :: "bool \<Rightarrow> FpEngine \<Rightarrow> u64 \<Rightarrow> FpEngine" where
  "engine_set_fpcr precise e fpcr =
     e\<lparr>en_selected := engine_select precise fpcr, en_control := fpc_from_bits fpcr\<rparr>"

definition engine_set_exceptions :: "FpEngine \<Rightarrow> u64 \<Rightarrow> FpEngine" where
  "engine_set_exceptions e fpsr = e\<lparr>en_exceptions := fpsr\<rparr>"

definition engine_backend :: "host_floats \<Rightarrow> FpEngine \<Rightarrow> FpBackend" where
  "engine_backend H e = (case en_selected e of
       Selected_Native \<Rightarrow> native H | Selected_Reference \<Rightarrow> softfloat)"

definition engine_tracks_exceptions :: "host_floats \<Rightarrow> FpEngine \<Rightarrow> bool" where
  "engine_tracks_exceptions H e = be_tracks_exceptions (engine_backend H e)"

definition engine_default_rounding :: "FpEngine \<Rightarrow> FpRounding" where
  "engine_default_rounding e = rounding (en_control e)"

definition engine_record :: "FpEngine \<Rightarrow> FpResult \<Rightarrow> u64 \<times> FpEngine" where
  "engine_record e result =
     (res_bits result, e\<lparr>en_exceptions := fpsr_accumulate (en_exceptions e) (res_raised result)\<rparr>)"

definition engine_binary ::
  "host_floats \<Rightarrow> FpEngine \<Rightarrow> FpBinaryOp \<Rightarrow> FpOperands \<Rightarrow> (u64 \<times> FpEngine) option" where
  "engine_binary H e op ops = do {
     result \<leftarrow> be_binary (engine_backend H e) op ops (en_control e);
     Some (engine_record e result)
   }"

definition engine_unary ::
  "host_floats \<Rightarrow> FpEngine \<Rightarrow> FpUnaryOp \<Rightarrow> FpValue \<Rightarrow> FpRounding \<Rightarrow> (u64 \<times> FpEngine) option" where
  "engine_unary H e op operand rounding1 = do {
     result \<leftarrow> be_unary (engine_backend H e) op operand rounding1 (en_control e);
     Some (engine_record e result)
   }"

definition engine_fused_multiply_add ::
  "host_floats \<Rightarrow> FpEngine \<Rightarrow> FpFmaOperands \<Rightarrow> (u64 \<times> FpEngine) option" where
  "engine_fused_multiply_add H e ops = do {
     result \<leftarrow> be_fused_multiply_add (engine_backend H e) ops (en_control e);
     Some (engine_record e result)
   }"

definition engine_copy_sign :: "FpEngine \<Rightarrow> FpValue \<Rightarrow> FpSignOp \<Rightarrow> u64" where
  "engine_copy_sign e v op = be_copy_sign v op"

definition engine_compare :: "host_floats \<Rightarrow> FpEngine \<Rightarrow> FpOperands \<Rightarrow> bool \<Rightarrow> u8 \<times> FpEngine" where
  "engine_compare H e ops is_signalling =
     (let (ordering1, raised) = be_compare (engine_backend H e) ops is_signalling
      in (to_nzcv ordering1, e\<lparr>en_exceptions := fpsr_accumulate (en_exceptions e) raised\<rparr>))"

definition engine_compare_ordering :: "host_floats \<Rightarrow> FpEngine \<Rightarrow> FpOperands \<Rightarrow> FpComparison \<times> FpEngine" where
  "engine_compare_ordering H e ops =
     (let (ordering1, raised) = be_compare (engine_backend H e) ops False
      in (ordering1, e\<lparr>en_exceptions := fpsr_accumulate (en_exceptions e) raised\<rparr>))"

definition engine_convert_format ::
  "host_floats \<Rightarrow> FpEngine \<Rightarrow> FpValue \<Rightarrow> FpFormat \<Rightarrow> (u64 \<times> FpEngine) option" where
  "engine_convert_format H e v target = do {
     result \<leftarrow> be_convert_format (engine_backend H e) v target (en_control e);
     Some (engine_record e result)
   }"

definition engine_to_integer ::
  "host_floats \<Rightarrow> FpEngine \<Rightarrow> FpValue \<Rightarrow> ToIntegerTarget \<Rightarrow> (u64 \<times> FpEngine) option" where
  "engine_to_integer H e v target = do {
     result \<leftarrow> be_to_integer (engine_backend H e) v target (en_control e);
     Some (engine_record e result)
   }"

definition engine_convert_from_integer ::
  "host_floats \<Rightarrow> FpEngine \<Rightarrow> u64 \<Rightarrow> FromIntegerSource \<Rightarrow> (u64 \<times> FpEngine) option" where
  "engine_convert_from_integer H e v source = do {
     result \<leftarrow> be_convert_from_integer (engine_backend H e) v source (en_control e);
     Some (engine_record e result)
   }"

end
