(* ===== verification/Fp_Backends.thy ===== *)
theory Fp_Backends
  imports Fp_Engine Fp_Mul_Div Fp_Order Fp_Conversions
begin

unbundle bit_operations_syntax

text \<open>
  What a backend promises the engine, and that both backends keep it.

  The locale \<open>fp_backend\<close> is the contract of the trait \<open>FpBackend\<close> on finite operands: correctly
  rounded arithmetic and the order of the values. The reference backend is an interpretation of it,
  and so is the native backend on a host whose operators follow IEEE 754 (the locale \<open>ieee_host\<close>);
  the engine's lemmas are proved once from the contract.
\<close>

section \<open>The exact result of an arithmetic operation\<close>

definition is_arithmetic :: "FpBinaryOp \<Rightarrow> bool" where
  "is_arithmetic op \<longleftrightarrow> op = FpBin_Add \<or> op = FpBin_Sub \<or> op = FpBin_Mul \<or> op = FpBin_Div"

definition exact_binary :: "FpBinaryOp \<Rightarrow> real \<Rightarrow> real \<Rightarrow> real" where
  "exact_binary op x y = (case op of
       FpBin_Add \<Rightarrow> x + y | FpBin_Sub \<Rightarrow> x - y | FpBin_Mul \<Rightarrow> x * y | _ \<Rightarrow> x / y)"

text \<open>The sign of an exact zero.\<close>

definition zero_sign :: "FpBinaryOp \<Rightarrow> FpRounding \<Rightarrow> bool \<Rightarrow> bool \<Rightarrow> bool" where
  "zero_sign op r s t = (case op of
       FpBin_Add \<Rightarrow> if s = t then s else r = Fp_Minus
     | FpBin_Sub \<Rightarrow> if s \<noteq> t then s else r = Fp_Minus
     | _ \<Rightarrow> s \<noteq> t)"

definition binary_domain :: "FpBinaryOp \<Rightarrow> FpOperands \<Rightarrow> bool" where
  "binary_domain op ops \<longleftrightarrow> is_arithmetic op
     \<and> fp_finite (op_format ops) (op_lhs ops) \<and> fp_finite (op_format ops) (op_rhs ops)
     \<and> op_rounding ops \<noteq> Fp_Odd \<and> (op = FpBin_Div \<longrightarrow> fp_val (op_format ops) (op_rhs ops) \<noteq> 0)
     \<and> \<not> subnormal_carry (op_format ops) (op_rounding ops)
          (exact_binary op (fp_val (op_format ops) (op_lhs ops)) (fp_val (op_format ops) (op_rhs ops)))"

definition binary_value :: "FpBinaryOp \<Rightarrow> FpOperands \<Rightarrow> real" where
  "binary_value op ops =
     exact_binary op (fp_val (op_format ops) (op_lhs ops)) (fp_val (op_format ops) (op_rhs ops))"

definition binary_spec :: "FpBinaryOp \<Rightarrow> FpOperands \<Rightarrow> u64 \<Rightarrow> bool" where
  "binary_spec op ops b \<longleftrightarrow> correctly_rounded (op_format ops) (op_rounding ops) (binary_value op ops) b
     \<and> (binary_value op ops = 0 \<longrightarrow> fp_is_negative (op_format ops) b
          = zero_sign op (op_rounding ops) (fp_is_negative (op_format ops) (op_lhs ops))
              (fp_is_negative (op_format ops) (op_rhs ops)))"

lemma correctly_rounded_unique:
  assumes "correctly_rounded f r x b" "correctly_rounded f r x c"
    and "x = 0 \<Longrightarrow> fp_is_negative f b = fp_is_negative f c"
  shows "b = c"
proof (cases "\<bar>fp_rounded f r x\<bar> < 2 powi (exponent_bias f + 1)")
  case True
  then have "fp_finite f b" "fp_finite f c" "fp_val f b = fp_val f c"
    "x \<noteq> 0 \<longrightarrow> fp_is_negative f b = fp_is_negative f c"
    using assms(1,2) by (simp_all add: correctly_rounded_def del: powi_add)
  then show ?thesis using assms(3) by (intro same_value_same_bits) auto
next
  case False
  then show ?thesis using assms(1,2) by (simp add: correctly_rounded_def del: powi_add)
qed

lemma binary_spec_unique: "binary_spec op ops b \<Longrightarrow> binary_spec op ops c \<Longrightarrow> b = c"
  using correctly_rounded_unique unfolding binary_spec_def by blast

text \<open>The same for a change of format, rounded to nearest.\<close>

definition conversion_domain :: "FpValue \<Rightarrow> FpFormat \<Rightarrow> bool" where
  "conversion_domain v target \<longleftrightarrow> fp_finite (val_format v) (val_bits v)
     \<and> \<not> subnormal_carry target Fp_Nearest (fp_val (val_format v) (val_bits v))"

definition conversion_spec :: "FpValue \<Rightarrow> FpFormat \<Rightarrow> u64 \<Rightarrow> bool" where
  "conversion_spec v target b \<longleftrightarrow>
     correctly_rounded target Fp_Nearest (fp_val (val_format v) (val_bits v)) b
     \<and> (fp_val (val_format v) (val_bits v) = 0 \<longrightarrow>
          fp_is_negative target b = fp_is_negative (val_format v) (val_bits v))"

lemma conversion_spec_unique: "conversion_spec v t b \<Longrightarrow> conversion_spec v t c \<Longrightarrow> b = c"
  using correctly_rounded_unique unfolding conversion_spec_def by blast


section \<open>The contract of a backend\<close>

locale fp_backend =
  fixes be :: FpBackend
  assumes binary_rounded: "binary_domain op ops \<Longrightarrow> \<not> is_flushing (op_format ops) control \<Longrightarrow>
      \<exists>res. be_binary be op ops control = Some res \<and> binary_spec op ops (res_bits res)"
    and ordering: "fp_wf (op_format ops) (op_lhs ops) \<Longrightarrow> fp_wf (op_format ops) (op_rhs ops) \<Longrightarrow>
      fst (be_compare be ops is_signalling)
        = (if is_nan (op_format ops) (op_lhs ops) \<or> is_nan (op_format ops) (op_rhs ops) then Fp_Unordered
           else compare_values (fp_val (op_format ops) (op_lhs ops)) (fp_val (op_format ops) (op_rhs ops)))"
    and converted: "is_default_mode control \<Longrightarrow> conversion_domain v target \<Longrightarrow>
      \<exists>res. be_convert_format be v target control = Some res \<and> conversion_spec v target (res_bits res)"
begin

text \<open>Two backends that keep the contract give the same bits.\<close>

lemma agrees:
  assumes "fp_backend other" "binary_domain op ops" "\<not> is_flushing (op_format ops) control"
  shows "map_option res_bits (be_binary be op ops control) = map_option res_bits (be_binary other op ops control)"
  using binary_rounded [OF assms(2,3)] fp_backend.binary_rounded [OF assms] binary_spec_unique by fastforce

lemma agrees_ordering:
  assumes "fp_backend other" "fp_wf (op_format ops) (op_lhs ops)" "fp_wf (op_format ops) (op_rhs ops)"
  shows "fst (be_compare be ops s) = fst (be_compare other ops s)"
  using ordering [OF assms(2,3)] fp_backend.ordering [OF assms] by simp

lemma agrees_conversion:
  assumes "fp_backend other" "is_default_mode control" "conversion_domain v t"
  shows "map_option res_bits (be_convert_format be v t control)
    = map_option res_bits (be_convert_format other v t control)"
  using converted [OF assms(2,3)] fp_backend.converted [OF assms] conversion_spec_unique by fastforce

lemma less_iff:
  assumes "fp_wf (op_format ops) (op_lhs ops)" "fp_wf (op_format ops) (op_rhs ops)"
  shows "fst (be_compare be ops s) = Fp_Less \<longleftrightarrow>
    \<not> is_nan (op_format ops) (op_lhs ops) \<and> \<not> is_nan (op_format ops) (op_rhs ops)
    \<and> fp_val (op_format ops) (op_lhs ops) < fp_val (op_format ops) (op_rhs ops)"
  using ordering [OF assms] by (auto simp: compare_values_def)

end

lemma soft_binary_ok:
  assumes "binary_domain op ops" "\<not> is_flushing (op_format ops) control"
  shows "\<exists>res. soft_binary op ops control = Some res \<and> binary_spec op ops (res_bits res)
    \<and> res_raised res = fp_flags (op_format ops) (op_rounding ops) (binary_value op ops)"
proof -
  let ?cx = "soft_context (op_format ops) (op_rounding ops) control"
  have cx: "cx_format ?cx = op_format ops" "cx_rounding ?cx = op_rounding ops" "cx_control ?cx = control"
    by (simp_all add: soft_context_def)
  have d: "fp_finite (cx_format ?cx) (op_lhs ops)" "fp_finite (cx_format ?cx) (op_rhs ops)"
    "cx_rounding ?cx \<noteq> Fp_Odd" "\<not> is_flushing (cx_format ?cx) (cx_control ?cx)"
    using assms unfolding cx by (simp_all add: binary_domain_def)
  note spec = binary_spec_def binary_value_def exact_binary_def zero_sign_def ieee_result_def soft_binary_def packed_ieee
  from assms(1) consider "op = FpBin_Add" | "op = FpBin_Sub" | "op = FpBin_Mul" | "op = FpBin_Div"
    by (auto simp: binary_domain_def is_arithmetic_def)
  then show ?thesis
  proof cases
    case 1
    then show ?thesis using fp_add_ok [OF d, of False] unfolding cx by (auto simp: spec Let_def)
  next
    case 2
    then show ?thesis using fp_add_ok [OF d, of True] unfolding cx by (auto simp: spec Let_def)
  next
    case 3
    then show ?thesis using fp_multiply_ok [OF d] assms(1) unfolding cx
      by (auto simp: spec Let_def binary_domain_def)
  next
    case 4
    then show ?thesis using fp_divide_ok [OF d] assms(1) unfolding cx
      by (auto simp: spec Let_def binary_domain_def)
  qed
qed

lemma default_mode_off: "is_default_mode control \<Longrightarrow> \<not> is_flushing f control"
  by (auto simp: is_default_mode_def is_flushing_def split: FpFormat.splits)

lemma soft_convert_ok:
  assumes "is_default_mode control" "conversion_domain v t"
  shows "\<exists>res. soft_convert_format v t control = Some res \<and> conversion_spec v t (res_bits res)"
  using convert_format_ok [of "val_format v" "val_bits v" Fp_Nearest t control] assms default_mode_off [OF assms(1), of t]
  by (auto simp: soft_convert_format_def is_default_mode_def conversion_domain_def conversion_spec_def ieee_result_def
      packed_ieee)

interpretation soft: fp_backend softfloat
proof unfold_locales
  show "\<exists>res. be_binary softfloat op ops control = Some res \<and> binary_spec op ops (res_bits res)"
    if "binary_domain op ops" "\<not> is_flushing (op_format ops) control" for op ops control
    using soft_binary_ok [OF that] by (auto simp: softfloat_def)
  show "fst (be_compare softfloat ops s) = (if is_nan (op_format ops) (op_lhs ops) \<or> is_nan (op_format ops) (op_rhs ops)
      then Fp_Unordered
      else compare_values (fp_val (op_format ops) (op_lhs ops)) (fp_val (op_format ops) (op_rhs ops)))"
    if "fp_wf (op_format ops) (op_lhs ops)" "fp_wf (op_format ops) (op_rhs ops)" for ops s
    by (simp add: softfloat_def soft_compare_def fp_compare_ok [OF that])
  show "\<exists>res. be_convert_format softfloat v t control = Some res \<and> conversion_spec v t (res_bits res)"
    if "is_default_mode control" "conversion_domain v t" for control v t
    using soft_convert_ok [OF that] by (simp add: softfloat_def)
qed


section \<open>The host\<close>

definition host_binary :: "host_floats \<Rightarrow> FpBinaryOp \<Rightarrow> FpOperands \<Rightarrow> u64" where
  "host_binary H op ops = (let pair = (op_lhs ops, op_rhs ops); f = op_format ops in case op of
       FpBin_Add \<Rightarrow> dispatch_binary f pair (hf_add32 H) (hf_add64 H)
     | FpBin_Sub \<Rightarrow> dispatch_binary f pair (hf_sub32 H) (hf_sub64 H)
     | FpBin_Mul \<Rightarrow> dispatch_binary f pair (hf_mul32 H) (hf_mul64 H)
     | _ \<Rightarrow> dispatch_binary f pair (hf_div32 H) (hf_div64 H))"

definition host_order :: "host_floats \<Rightarrow> FpOperands \<Rightarrow> FpComparison" where
  "host_order H ops = (case op_format ops of
       Fp_Single \<Rightarrow> partial_order (hf_lt32 H (ucast (op_lhs ops)) (ucast (op_rhs ops)))
         (hf_gt32 H (ucast (op_lhs ops)) (ucast (op_rhs ops))) (hf_eq32 H (ucast (op_lhs ops)) (ucast (op_rhs ops)))
     | _ \<Rightarrow> partial_order (hf_lt64 H (op_lhs ops) (op_rhs ops))
         (hf_gt64 H (op_lhs ops) (op_rhs ops)) (hf_eq64 H (op_lhs ops) (op_rhs ops)))"

text \<open>What IEEE 754 fixes of the host: the four operators and the two casts round to nearest, the order
  operators order the values and fail on a NaN. Only the operands are constrained on which the
  reference backend is correctly rounded; the payload of a NaN is left open.\<close>

locale ieee_host =
  fixes H :: host_floats
  assumes host_rounded: "can_serve (op_format ops) (op_rounding ops) \<Longrightarrow> binary_domain op ops \<Longrightarrow>
      binary_spec op ops (host_binary H op ops)"
    and host_ordered: "op_format ops \<noteq> Fp_Half \<Longrightarrow>
      fp_wf (op_format ops) (op_lhs ops) \<Longrightarrow> fp_wf (op_format ops) (op_rhs ops) \<Longrightarrow>
      host_order H ops
        = (if is_nan (op_format ops) (op_lhs ops) \<or> is_nan (op_format ops) (op_rhs ops) then Fp_Unordered
           else compare_values (fp_val (op_format ops) (op_lhs ops)) (fp_val (op_format ops) (op_rhs ops)))"
    and host_widened: "val_format v = Fp_Single \<Longrightarrow> conversion_domain v Fp_Double \<Longrightarrow>
      conversion_spec v Fp_Double (hf_widen H (ucast (val_bits v)))"
    and host_narrowed: "val_format v = Fp_Double \<Longrightarrow> conversion_domain v Fp_Single \<Longrightarrow>
      conversion_spec v Fp_Single (ucast (hf_narrow H (val_bits v)))"
begin

lemma native_binary_ok:
  assumes "binary_domain op ops" "\<not> is_flushing (op_format ops) control"
  shows "\<exists>res. native_binary H op ops control = Some res \<and> binary_spec op ops (res_bits res)"
proof (cases "can_serve (op_format ops) (op_rounding ops)")
  case True
  then have "native_binary H op ops control = Some (res_exact (host_binary H op ops))"
    using assms(1) by (auto simp: native_binary_def host_binary_def binary_domain_def is_arithmetic_def)
  then show ?thesis using host_rounded [OF True assms(1)] by (simp add: res_exact_def)
next
  case False
  then show ?thesis using soft_binary_ok [OF assms] by (auto simp: native_binary_def)
qed

lemma native_convert_ok:
  assumes "is_default_mode control" "conversion_domain v t"
  shows "\<exists>res. native_convert_format H v t control = Some res \<and> conversion_spec v t (res_bits res)"
  using soft_convert_ok [OF assms] host_widened [of v] host_narrowed [of v] assms(2)
  by (cases "val_format v"; cases t; simp add: native_convert_format_def res_exact_def)

lemma native_order_ok:
  assumes "fp_wf (op_format ops) (op_lhs ops)" "fp_wf (op_format ops) (op_rhs ops)"
  shows "fst (native_compare H ops s)
    = (if is_nan (op_format ops) (op_lhs ops) \<or> is_nan (op_format ops) (op_rhs ops) then Fp_Unordered
       else compare_values (fp_val (op_format ops) (op_lhs ops)) (fp_val (op_format ops) (op_rhs ops)))"
proof (cases "op_format ops = Fp_Half")
  case True
  then show ?thesis using fp_compare_ok [OF assms, of s] by (simp add: native_compare_def soft_compare_def)
next
  case False
  then have "fst (native_compare H ops s) = host_order H ops"
    by (cases "op_format ops") (simp_all add: native_compare_def host_order_def Let_def)
  then show ?thesis using host_ordered [OF False assms] by simp
qed

end

sublocale ieee_host \<subseteq> host: fp_backend "native H"
  by unfold_locales (simp_all add: native_def native_binary_ok native_convert_ok native_order_ok)

context ieee_host
begin

lemma native_backend: "fp_backend (native H)"
  by (rule host.fp_backend_axioms)

end

text \<open>A host that meets these laws: the operators of the reference backend at single and double
  precision, in default mode.\<close>

definition reference_bits :: "FpBinaryOp \<Rightarrow> FpFormat \<Rightarrow> u64 \<Rightarrow> u64 \<Rightarrow> u64" where
  "reference_bits op f a b =
     (case soft_binary op (operands_new a b f Fp_Nearest) fpc_DEFAULT of Some res \<Rightarrow> res_bits res | None \<Rightarrow> 0)"

definition reference_convert :: "FpFormat \<Rightarrow> FpFormat \<Rightarrow> u64 \<Rightarrow> u64" where
  "reference_convert s t b =
     (case convert_format b s t fpc_DEFAULT Fp_Nearest of Some res \<Rightarrow> res_bits res | None \<Rightarrow> 0)"

definition reference_host :: host_floats where
  "reference_host =
     (let single = (\<lambda>op a b. ucast (reference_bits op Fp_Single (ucast (a :: u32)) (ucast (b :: u32))) :: u32);
          double = (\<lambda>op. reference_bits op Fp_Double);
          order32 = (\<lambda>c a b. fst (fp_compare (ucast (a :: u32)) (ucast (b :: u32)) Fp_Single False) = c);
          order64 = (\<lambda>c a b. fst (fp_compare a b Fp_Double False) = c)
      in \<lparr> hf_add32 = single FpBin_Add, hf_sub32 = single FpBin_Sub, hf_mul32 = single FpBin_Mul,
           hf_div32 = single FpBin_Div, hf_add64 = double FpBin_Add, hf_sub64 = double FpBin_Sub,
           hf_mul64 = double FpBin_Mul, hf_div64 = double FpBin_Div,
           hf_lt32 = order32 Fp_Less, hf_gt32 = order32 Fp_Greater, hf_eq32 = order32 Fp_Equal,
           hf_lt64 = order64 Fp_Less, hf_gt64 = order64 Fp_Greater, hf_eq64 = order64 Fp_Equal,
           hf_widen = (\<lambda>a. reference_convert Fp_Single Fp_Double (ucast a)),
           hf_narrow = (\<lambda>a. ucast (reference_convert Fp_Double Fp_Single a)) \<rparr>)"

lemma ucast_single: "fp_wf Fp_Single b \<Longrightarrow> ucast (ucast b :: u32) = (b :: u64)"
proof -
  assume "fp_wf Fp_Single b"
  then have "unat (ucast (ucast b :: u32) :: u64) = unat b"
    by (simp add: fp_wf_def unsigned_ucast_eq unsigned_take_bit_eq take_bit_nat_eq_self_iff)
  then show ?thesis by (simp only: unat_inj)
qed

lemma correctly_rounded_wf: "correctly_rounded f r x b \<Longrightarrow> fp_wf f b"
proof -
  have "fp_wf f (fp_overflow_value f r n)" for n
    by (cases f; cases n) (simp_all add: fp_overflow_value_def fp_wf_def max_finite_def signed_infinity_def
        fp_infinity_def fp_zero_def mantissa_mask_def max_exponent_def sign_shift_def exponent_bits_def)
  then show "correctly_rounded f r x b \<Longrightarrow> fp_wf f b"
    by (auto simp: correctly_rounded_def fp_finite_def split: if_splits)
qed

lemma operands_eq: "op_format ops = f \<Longrightarrow> op_rounding ops = r \<Longrightarrow> operands_new (op_lhs ops) (op_rhs ops) f r = ops"
  by (cases ops) (auto simp: operands_new_def)

lemma default_mode_DEFAULT: "is_default_mode fpc_DEFAULT"
  by (simp add: is_default_mode_def fpc_DEFAULT_def)

lemma reference_bits_ok:
  assumes "binary_domain op ops" "op_rounding ops = Fp_Nearest"
  shows "binary_spec op ops (reference_bits op (op_format ops) (op_lhs ops) (op_rhs ops))"
  using soft_binary_ok [OF assms(1) default_mode_off [OF default_mode_DEFAULT]] operands_eq [OF refl assms(2)]
  by (auto simp: reference_bits_def)

lemma reference_convert_ok:
  assumes "conversion_domain v t"
  shows "conversion_spec v t (reference_convert (val_format v) t (val_bits v))"
  using soft_convert_ok [OF default_mode_DEFAULT assms]
  by (auto simp: reference_convert_def soft_convert_format_def fpc_DEFAULT_def)

lemma partial_order_ordering: "partial_order (c = Fp_Less) (c = Fp_Greater) (c = Fp_Equal) = c"
  by (cases c) (simp_all add: partial_order_def)

interpretation reference: ieee_host reference_host
proof unfold_locales
  show "binary_spec op ops (host_binary reference_host op ops)"
    if "can_serve (op_format ops) (op_rounding ops)" and d: "binary_domain op ops" for ops op
  proof -
    have r: "op_rounding ops = Fp_Nearest" "op_format ops = Fp_Single \<or> op_format ops = Fp_Double"
      using that(1) by (auto simp: can_serve_def)
    note ok = reference_bits_ok [OF d r(1)]
    have wf: "fp_wf (op_format ops) (op_lhs ops)" "fp_wf (op_format ops) (op_rhs ops)"
      using d by (simp_all add: binary_domain_def fp_finite_def)
    have "fp_wf (op_format ops) (reference_bits op (op_format ops) (op_lhs ops) (op_rhs ops))"
      using ok correctly_rounded_wf by (auto simp: binary_spec_def)
    then have "host_binary reference_host op ops = reference_bits op (op_format ops) (op_lhs ops) (op_rhs ops)"
      using d r(2) wf by (auto simp: host_binary_def reference_host_def dispatch_binary_def Let_def
          ucast_single binary_domain_def is_arithmetic_def)
    then show ?thesis using ok by simp
  qed
  show "host_order reference_host ops = (if is_nan (op_format ops) (op_lhs ops) \<or> is_nan (op_format ops) (op_rhs ops)
      then Fp_Unordered
      else compare_values (fp_val (op_format ops) (op_lhs ops)) (fp_val (op_format ops) (op_rhs ops)))"
    if "op_format ops \<noteq> Fp_Half" and wf: "fp_wf (op_format ops) (op_lhs ops)" "fp_wf (op_format ops) (op_rhs ops)" for ops
    using that fp_compare_ok [OF wf, of False]
    by (cases "op_format ops") (auto simp: host_order_def reference_host_def Let_def ucast_single partial_order_ordering)
  show "conversion_spec v Fp_Double (hf_widen reference_host (ucast (val_bits v)))"
    if "val_format v = Fp_Single" "conversion_domain v Fp_Double" for v
    using reference_convert_ok [OF that(2)] that
    by (simp add: reference_host_def Let_def ucast_single conversion_domain_def fp_finite_def)
  show "conversion_spec v Fp_Single (ucast (hf_narrow reference_host (val_bits v)))"
    if "val_format v = Fp_Double" "conversion_domain v Fp_Single" for v
  proof -
    note ok = reference_convert_ok [OF that(2)]
    then have "fp_wf Fp_Single (reference_convert (val_format v) Fp_Single (val_bits v))"
      using correctly_rounded_wf by (auto simp: conversion_spec_def)
    then show ?thesis using ok that(1) by (simp add: reference_host_def Let_def ucast_single)
  qed
qed



section \<open>The engine\<close>

text \<open>The mask test the engine makes on an FPCR write decides the interpreted mode.\<close>

lemma and_push_bit_eq_0: "(w :: u64) AND push_bit k 1 = 0 \<longleftrightarrow> \<not> bit w k"
  by (simp add: bit_iff_and_push_bit_not_eq_0)

lemma from_rmode_nearest: "from_rmode (ucast (w AND 3 :: u64)) = Fp_Nearest \<longleftrightarrow> w AND 3 = 0"
proof -
  have "unat (w AND 3) < 4" using unat_low_bits [of w 2] by simp
  then have "unat (w AND 3) \<in> {0, 1, 2, 3}" by auto
  then consider "w AND 3 = 0" | "w AND 3 = 1" | "w AND 3 = 2" | "w AND 3 = 3"
    by (auto simp: word_unat_eq_iff)
  then show ?thesis by cases (simp_all add: from_rmode_def)
qed

lemma push_bit_drop_and: "push_bit n (drop_bit n w AND v) = w AND push_bit n (v :: u64)"
  by (rule bit_word_eqI) (auto simp: bit_simps)

lemma default_mode_bits: "is_default_mode_bits fpcr \<longleftrightarrow> is_default_mode (fpc_from_bits fpcr)"
proof -
  have r: "drop_bit 22 fpcr AND 3 = 0 \<longleftrightarrow> fpcr AND push_bit 22 3 = 0"
  proof
    note mask = push_bit_drop_and [of 22 fpcr 3]
    then show "drop_bit 22 fpcr AND 3 = 0 \<Longrightarrow> fpcr AND push_bit 22 3 = 0" by simp
    have "drop_bit 22 (fpcr AND push_bit 22 3) = drop_bit 22 fpcr AND 3" by simp
    then show "fpcr AND push_bit 22 3 = 0 \<Longrightarrow> drop_bit 22 fpcr AND 3 = 0" by (simp only: drop_bit_of_0)
  qed
  have "fpcr AND MEANINGFUL_BITS = 0 \<longleftrightarrow> fpcr AND push_bit 22 3 = 0 \<and> fpcr AND push_bit 24 1 = 0
      \<and> fpcr AND push_bit 25 1 = 0 \<and> fpcr AND push_bit 26 1 = 0 \<and> fpcr AND push_bit 19 1 = 0"
    unfolding MEANINGFUL_BITS_def fpcr_defs bit.conj_disj_distrib by (simp only: or_eq_0_iff conj_assoc)
  then show ?thesis
    unfolding is_default_mode_bits_def is_default_mode_def fpc_from_bits_def fpcr_defs FpControl.select_convs
      from_rmode_nearest r by auto
qed

text \<open>The state of an engine: the backend fits the mode.\<close>

definition engine_ok :: "bool \<Rightarrow> FpEngine \<Rightarrow> bool" where
  "engine_ok precise e \<longleftrightarrow>
     en_selected e = (if precise \<or> \<not> is_default_mode (en_control e) then Selected_Reference else Selected_Native)"

lemma engine_select_mode:
  "engine_select precise fpcr
    = (if precise \<or> \<not> is_default_mode (fpc_from_bits fpcr) then Selected_Reference else Selected_Native)"
  by (simp add: engine_select_def default_mode_bits)

lemma engine_ok_init [simp]: "engine_ok precise (engine_with_fpcr precise fpcr)" "engine_ok precise (engine_new precise)"
  by (simp_all add: engine_ok_def engine_with_fpcr_def engine_new_def engine_select_mode)

lemma engine_ok_set [simp]:
  "engine_ok precise (engine_set_fpcr precise e fpcr)" "engine_ok precise (engine_set_exceptions e w) = engine_ok precise e"
  by (simp_all add: engine_ok_def engine_set_fpcr_def engine_set_exceptions_def engine_select_mode)

text \<open>One operation changes nothing but the flags, and only adds to them.\<close>

definition flags_added :: "FpEngine \<Rightarrow> FpEngine \<Rightarrow> bool" where
  "flags_added e e' \<longleftrightarrow> (\<exists>raised. e' = e\<lparr>en_exceptions := fpsr_accumulate (en_exceptions e) raised\<rparr>)"

lemma flags_addedI [intro, simp]:
  "flags_added e (e\<lparr>en_exceptions := fpsr_accumulate (en_exceptions e) raised\<rparr>)"
  by (auto simp: flags_added_def)

lemma record_flags_added: "engine_record e res = (w, e') \<Longrightarrow> flags_added e e'"
  by (auto simp: engine_record_def)

text \<open>An operation of the interpreter on the engine. \<open>engine_step\<close> runs it; \<open>None\<close> is a panic.\<close>

datatype engine_call =
    Call_Set_Fpcr u64
  | Call_Binary FpBinaryOp FpOperands
  | Call_Unary FpUnaryOp FpValue FpRounding
  | Call_Fma FpFmaOperands
  | Call_Compare FpOperands bool
  | Call_Convert_Format FpValue FpFormat
  | Call_To_Integer FpValue ToIntegerTarget
  | Call_From_Integer u64 FromIntegerSource

fun engine_step :: "host_floats \<Rightarrow> bool \<Rightarrow> engine_call \<Rightarrow> FpEngine \<Rightarrow> FpEngine option" where
  "engine_step H precise (Call_Set_Fpcr w) e = Some (engine_set_fpcr precise e w)"
| "engine_step H precise (Call_Binary op ops) e = map_option snd (engine_binary H e op ops)"
| "engine_step H precise (Call_Unary op v r) e = map_option snd (engine_unary H e op v r)"
| "engine_step H precise (Call_Fma ops) e = map_option snd (engine_fused_multiply_add H e ops)"
| "engine_step H precise (Call_Compare ops s) e = Some (snd (engine_compare H e ops s))"
| "engine_step H precise (Call_Convert_Format v t) e = map_option snd (engine_convert_format H e v t)"
| "engine_step H precise (Call_To_Integer v t) e = map_option snd (engine_to_integer H e v t)"
| "engine_step H precise (Call_From_Integer v src) e = map_option snd (engine_convert_from_integer H e v src)"

inductive engine_run :: "host_floats \<Rightarrow> bool \<Rightarrow> FpEngine \<Rightarrow> engine_call list \<Rightarrow> FpEngine \<Rightarrow> bool"
  for H precise where
  run_nil: "engine_run H precise e [] e"
| run_call: "engine_step H precise c e = Some e' \<Longrightarrow> engine_run H precise e' cs e'' \<Longrightarrow>
    engine_run H precise e (c # cs) e''"

inductive_cases run_nilE: "engine_run H precise e [] e'"
inductive_cases run_callE: "engine_run H precise e (c # cs) e'"

lemmas engine_ops = engine_binary_def engine_unary_def engine_fused_multiply_add_def engine_compare_def
  engine_convert_format_def engine_to_integer_def engine_convert_from_integer_def

lemma accumulate_contains: "fpsr AND fpsr_accumulate fpsr raised = fpsr"
  by (auto simp: fpsr_accumulate_def bit_eq_iff bit_simps)

lemma flags_added_ok:
  "flags_added e e' \<Longrightarrow> en_exceptions e AND en_exceptions e' = en_exceptions e
    \<and> engine_ok precise e' = engine_ok precise e"
  by (auto simp: flags_added_def engine_ok_def accumulate_contains)

lemma engine_step_cases:
  assumes "engine_step H precise c e = Some e'"
  shows "flags_added e e' \<or> (\<exists>fpcr. e' = engine_set_fpcr precise e fpcr)"
  using assms
  by (cases c) (auto simp: engine_ops dest: record_flags_added split: bind_splits prod.splits)

lemma engine_step_ok:
  assumes "engine_step H precise c e = Some e'" "engine_ok precise e"
  shows "engine_ok precise e' \<and> en_exceptions e AND en_exceptions e' = en_exceptions e"
  using engine_step_cases [OF assms(1)]
proof
  assume "flags_added e e'"
  from flags_added_ok [OF this] assms(2) show ?thesis by simp
qed (auto simp: engine_set_fpcr_def engine_ok_def engine_select_mode)

lemma engine_run_ok:
  assumes "engine_run H precise e cs e'" "engine_ok precise e"
  shows "engine_ok precise e' \<and> en_exceptions e AND en_exceptions e' = en_exceptions e"
  using assms
proof (induction rule: engine_run.induct)
  case (run_call c e e' cs e'')
  note step = engine_step_ok [OF run_call.hyps(1) run_call.prems]
  with run_call.IH have "engine_ok precise e''" and le: "en_exceptions e' AND en_exceptions e'' = en_exceptions e'" by auto
  have "en_exceptions e AND en_exceptions e'' = en_exceptions e AND (en_exceptions e' AND en_exceptions e'')"
    using step by (metis and.assoc)
  then show ?case using \<open>engine_ok precise e''\<close> step le by simp
qed simp

text \<open>Whichever backend is selected, an arithmetic instruction gets the correctly rounded bits.\<close>

lemma engine_backend_ok: "ieee_host H \<Longrightarrow> fp_backend (engine_backend H e)"
  using ieee_host.native_backend soft.fp_backend_axioms by (cases "en_selected e") (simp_all add: engine_backend_def)

lemma engine_binary_ok:
  assumes "ieee_host H" "binary_domain op ops" "\<not> is_flushing (op_format ops) (en_control e)"
  shows "\<exists>w e'. engine_binary H e op ops = Some (w, e') \<and> binary_spec op ops w \<and> flags_added e e'"
  using fp_backend.binary_rounded [OF engine_backend_ok [OF assms(1), of e] assms(2,3)]
  by (auto simp: engine_binary_def engine_record_def)

text \<open>In a precise build, and in every other mode, the host has no part in the result.\<close>

lemma reference_selected:
  "engine_ok precise e \<Longrightarrow> precise \<or> \<not> is_default_mode (en_control e) \<Longrightarrow> engine_backend H e = softfloat"
  by (auto simp: engine_ok_def engine_backend_def)

lemma precise_step_host_independent:
  "engine_ok True e \<Longrightarrow> engine_step H True c e = engine_step H' True c e"
  by (cases c) (simp_all add: engine_ops reference_selected)

lemma precise_run_host_independent:
  assumes "engine_run H True e cs e'" "engine_ok True e"
  shows "engine_run H' True e cs e'"
  using assms
proof (induction rule: engine_run.induct)
  case (run_call c e e' cs e'')
  then show ?case
    using engine_step_ok [OF run_call.hyps(1) run_call.prems] precise_step_host_independent [of e H c H']
    by (auto intro: engine_run.run_call)
qed (rule run_nil)

end
