(* ===== verification/Fp_Total.thy ===== *)
theory Fp_Total
  imports Fp_Integral Fp_Fma Fp_Backends
begin

unbundle bit_operations_syntax

text \<open>
  Totality and type safety of the floating-point unit: on operands of the width of their format, NaNs,
  infinities and subnormals included, no operation panics in any rounding mode and any setting of
  FPCR, and every result is a bit pattern of the destination format.
\<close>

section \<open>Bit patterns of a format\<close>

lemma fp_wf_take_bit: "fp_wf f b \<longleftrightarrow> take_bit (fp_bits f) b = b"
proof -
  have "take_bit (fp_bits f) b = b \<longleftrightarrow> unat (take_bit (fp_bits f) b) = unat b" by (simp only: word_unat_eq_iff)
  then show ?thesis by (simp add: fp_wf_def unsigned_take_bit_eq take_bit_nat_eq_self_iff)
qed

named_theorems wf_bits

lemma fp_wf_or [wf_bits]: "fp_wf f a \<Longrightarrow> fp_wf f b \<Longrightarrow> fp_wf f (a OR b)"
  by (simp add: fp_wf_take_bit)

lemma fp_wf_consts [wf_bits]:
  "fp_wf f (fp_zero f n)" "fp_wf f (signed_infinity f n)" "fp_wf f (max_finite f)" "fp_wf f (default_nan f)"
  "fp_wf f (quiet_bit f)" "fp_wf f (fp_infinity f)" "fp_wf f (of_bool n)" "fp_wf f (push_bit (sign_shift f) (of_bool n))"
  by (cases f; cases n; simp add: fp_wf_def signed_infinity_def fp_infinity_def fp_zero_def max_finite_def
      default_nan_def quiet_bit_def max_exponent_def exponent_bits_def sign_shift_def)+

lemma fp_wf_quieten [wf_bits]: "fp_wf f b \<Longrightarrow> fp_wf f (quieten f b)"
  by (simp add: quieten_def wf_bits)

lemma fp_wf_flip [wf_bits]: "fp_wf f b \<Longrightarrow> fp_wf f (b XOR 2 ^ sign_shift f)"
  using fp_wf_consts(8) [of f True] by (simp add: fp_wf_take_bit)

lemma is_infinite_flip: "is_infinite f (b XOR 2 ^ sign_shift f) \<longleftrightarrow> is_infinite f b"
  using flip_fields [of f b] by (simp add: is_infinite_iff)

lemma wf_not_special: "fp_wf f b \<Longrightarrow> \<not> is_nan f b \<Longrightarrow> \<not> is_infinite f b \<Longrightarrow> fp_finite f b"
  by (simp add: fp_finite_def)


section \<open>Rounding and packing never panics\<close>

lemma normalise_down_bound:
  "unat (up_significand (fst (normalise_down f v s))) < 2 ^ (mantissa_bits f + 4)"
  "up_significand v \<noteq> 0 \<Longrightarrow> up_significand (fst (normalise_down f v s)) \<noteq> 0"
proof -
  obtain d where "tail_ok (unat (up_significand v)) d s" "d < 1"
    by (intro that [of "if s then 1 / 2 else 0"]) (simp_all add: tail_ok_def)
  from normalise_down_ok [OF this, of f] obtain v' s' where "normalise_down f v s = (v', s')"
    "unat (up_significand v') < 2 ^ (mantissa_bits f + 4)" "2 ^ (mantissa_bits f + 3) \<le> unat (up_significand v') \<or> v' = v"
    by (cases "normalise_down f v s") auto
  moreover have "unat (up_significand v') \<noteq> 0 \<Longrightarrow> up_significand v' \<noteq> 0" by auto
  ultimately
  show "unat (up_significand (fst (normalise_down f v s))) < 2 ^ (mantissa_bits f + 4)"
    "up_significand v \<noteq> 0 \<Longrightarrow> up_significand (fst (normalise_down f v s)) \<noteq> 0"
    by auto
qed

lemma normalise_bound:
  assumes "up_significand v \<noteq> 0"
  obtains v' s' where "normalise v s f = (v', s')" "2 ^ (mantissa_bits f + 3) \<le> unat (up_significand v')"
    "unat (up_significand v') < 2 ^ (mantissa_bits f + 4)"
proof -
  obtain v1 s1 where v1: "normalise_down f v s = (v1, s1)" by (cases "normalise_down f v s")
  then have "unat (up_significand v1) < 2 ^ (mantissa_bits f + 4)" "up_significand v1 \<noteq> 0"
    using normalise_down_bound [where f = f and v = v and s = s] assms by simp_all
  then show ?thesis
    using normalise_up_ok [where v = v1 and f = f] by (intro that [of "normalise_up f v1" s1]) (auto simp: normalise_def v1)
qed

text \<open>The mode \<open>Odd\<close> packs as rounding towards zero does.\<close>

lemma round_odd:
  "round_significand w e s Fp_Odd n = round_significand w e s Fp_Zero n" "fp_overflow n f Fp_Odd = fp_overflow n f Fp_Zero"
  "round_to_zero_or_minimum n f Fp_Odd = round_to_zero_or_minimum n f Fp_Zero"
  by (simp_all add: round_significand_def should_round_up_def fp_overflow_def round_to_zero_or_minimum_def Let_def)

lemma pack_odd: "pack_normalised vs f (ctx\<lparr>rc_rounding := Fp_Odd\<rparr>) = pack_normalised vs f (ctx\<lparr>rc_rounding := Fp_Zero\<rparr>)"
proof (cases ctx)
  case (fields r s c)
  show ?thesis
    unfolding fields pack_normalised_def pack_subnormal_def RoundingContext.simps round_odd ..
qed

lemma pack_normal_total:
  assumes S: "2 ^ (mantissa_bits f + 3) \<le> unat (up_significand v)" "unat (up_significand v) < 2 ^ (mantissa_bits f + 4)"
    and e: "fp_min_exponent f \<le> up_exponent v"
  shows "\<exists>res. pack_normalised (v, s) f ctx = Some res \<and> fp_wf f (res_bits res)"
proof -
  define ctx' where "ctx' = (if rc_rounding ctx = Fp_Odd then ctx\<lparr>rc_rounding := Fp_Zero\<rparr> else ctx)"
  have "tail_ok (unat (up_significand v)) (if s then 1 / 2 else 0) s" by (simp add: tail_ok_def)
  moreover have "rc_rounding ctx' \<noteq> Fp_Odd" by (simp add: ctx'_def)
  ultimately obtain res where "pack_normalised (v, s) f ctx' = Some res" "fp_wf f (res_bits res)"
    using pack_normal_ok [OF _ _ S e, of _ s ctx'] correctly_rounded_wf by (meson ieee_result_def)
  moreover have "pack_normalised (v, s) f ctx' = pack_normalised (v, s) f ctx"
    using pack_odd [of "(v, s)" f ctx] by (cases ctx) (simp add: ctx'_def)
  ultimately show ?thesis by auto
qed

lemma pack_subnormal_total:
  assumes S: "2 ^ (mantissa_bits f + 3) \<le> unat (up_significand v)" "unat (up_significand v) < 2 ^ (mantissa_bits f + 4)"
    and e: "up_exponent v < fp_min_exponent f"
  shows "\<exists>res. pack_normalised (v, s) f ctx = Some res \<and> fp_wf f (res_bits res)"
proof -
  let ?m = "mantissa_bits f" and ?S = "unat (up_significand v)" and ?r = "rc_rounding ctx" and ?n = "up_negative v"
  define k where "k = nat (fp_min_exponent f - up_exponent v)"
  have k: "0 < k" and shift: "nat (1 - exponent_bias f - up_exponent v) = k" using e by (simp_all add: k_def fp_min_exponent_def)
  have sub: "pack_normalised (v, s) f ctx = pack_subnormal v s f ctx"
    using e by (simp add: pack_normalised_def fp_min_exponent_def)
  show ?thesis
  proof (cases "?m + 4 \<le> k")
    case True
    then show ?thesis
      using sub shift by (simp add: pack_subnormal_def Let_def GUARD_BITS_def res_raising_def zero_or_minimum_eq wf_bits)
  next
    case False
    define h where "h = ?m + 3 - k"
    have hk: "?m + 3 = h + k" "?m + 4 = Suc h + k" using False by (simp_all add: h_def)
    let ?w = "drop_bit k (up_significand v)"
    define s1 where "s1 = (s \<or> up_significand v AND (push_bit k 1 - 1) \<noteq> 0)"
    have w: "2 ^ h \<le> unat ?w" "unat ?w < 2 ^ Suc h"
      using S unfolding hk unat_drop_bit
      by (simp_all add: less_eq_div_iff_mult_less_eq div_less_iff_less_mult power_add)
    define n where "n = unat ?w div 8 + of_bool (rounds_up ?r (unat ?w) s1 ?n)"
    have "h < 62" using hk mantissa_bits_bounds [of f] by simp
    from round_significand_ok [OF w this n_def, of "1 - exponent_bias f"]
    obtain w' e' fl where rs: "round_significand ?w (1 - exponent_bias f) s1 ?r ?n = Some (w', e', fl)"
      and w': "unat w' = (if 8 * n < 2 ^ Suc h then 8 * n else 4 * n)"
      by auto
    have "(2::nat) ^ Suc h \<le> 2 ^ (?m + 3)" using hk k by (intro power_increasing) simp_all
    then have "unat ?w div 8 < 2 ^ ?m" "8 * n < 2 ^ Suc h \<Longrightarrow> n < 2 ^ ?m" using w(2) by (simp_all add: power_add)
    then have "unat w' div 8 < 2 ^ ?m" unfolding w' by (auto simp: n_def of_bool_def)
    then have Y: "unat (drop_bit GUARD_BITS w') < 2 ^ ?m" using unat_drop_bit [of 3 w'] by (simp add: GUARD_BITS_def)
    have "fp_wf f (push_bit (sign_shift f) (of_bool ?n) OR drop_bit GUARD_BITS w')"
      using encode_subnormal(1) [OF Y refl refl] by (simp add: fp_finite_def)
    moreover have "k < 64" "\<not> ?m + 1 + GUARD_BITS \<le> k"
      using False mantissa_bits_bounds [of f] by (simp_all add: GUARD_BITS_def)
    ultimately show ?thesis
      using rs unfolding sub pack_subnormal_def Let_def shift s1_def by (auto simp: res_raising_def)
  qed
qed

lemma round_and_pack_total:
  "\<exists>res. round_and_pack v f ctx = Some res \<and> fp_wf f (res_bits res)"
proof (cases "up_significand v = 0")
  case True
  then show ?thesis by (simp add: round_and_pack_def unpacked_is_zero_def res_exact_def wf_bits)
next
  case False
  obtain v' s' where n: "normalise v (rc_sticky ctx) f = (v', s')" and "2 ^ (mantissa_bits f + 3) \<le> unat (up_significand v')"
    "unat (up_significand v') < 2 ^ (mantissa_bits f + 4)"
    by (rule normalise_bound [OF False])
  then obtain res where "pack_normalised (v', s') f ctx = Some res" "fp_wf f (res_bits res)"
    using pack_normal_total [of f v' s' ctx] pack_subnormal_total [of f v' s' ctx]
    by (cases "fp_min_exponent f \<le> up_exponent v'") auto
  then show ?thesis
    using False by (simp add: round_and_pack_def unpacked_is_zero_def n apply_flush_to_zero_def res_raising_def wf_bits)
qed


section \<open>Every operation returns\<close>

text \<open>\<open>returns n r\<close>: the operation did not panic and its result has at most \<open>n\<close> bits.\<close>

definition returns :: "nat \<Rightarrow> FpResult option \<Rightarrow> bool" where
  "returns n r \<longleftrightarrow> (\<exists>res. r = Some res \<and> unat (res_bits res) < 2 ^ n)"

lemma returns_simps [simp]:
  "returns n (Some res) \<longleftrightarrow> unat (res_bits res) < 2 ^ n"
  "returns n (do { res \<leftarrow> r; Some (fp_with_flags res d) }) \<longleftrightarrow> returns n r"
  by (simp_all add: returns_def) (cases r; simp add: fp_with_flags_def res_raising_def)

lemma res_bits_simps [simp]:
  "res_bits (res_exact w) = w" "res_bits (res_raising w fl) = w" "res_bits (fp_with_flags res d) = res_bits res"
  by (simp_all add: res_exact_def res_raising_def fp_with_flags_def)

lemma returns_fp: "returns (fp_bits f) (Some res) \<longleftrightarrow> fp_wf f (res_bits res)"
  by (simp add: fp_wf_def)

lemma returns_pack [simp]: "returns (fp_bits f) (round_and_pack v f ctx)"
  using round_and_pack_total [of v f ctx] by (auto simp: returns_def fp_wf_def)

lemma returns_cx_pack [simp]: "returns (fp_bits (cx_format cx)) (cx_pack cx v s)"
  by (simp add: cx_pack_def)

lemma propagate_wf:
  assumes "\<forall>b\<in>set bs. fp_wf f b"
  shows "propagate bs f c = Some res \<Longrightarrow> fp_wf f (res_bits res)"
    "propagate bs f c = None \<Longrightarrow> b \<in> set bs \<Longrightarrow> \<not> is_nan f b"
proof -
  have "hd (filter (is_nan f) bs) \<in> set bs" if "\<exists>b\<in>set bs. is_nan f b"
    using that hd_in_set [of "filter (is_nan f) bs"] by (auto simp: filter_empty_conv)
  then show "propagate bs f c = Some res \<Longrightarrow> fp_wf f (res_bits res)"
    using assms by (auto simp: propagate_ok wf_bits split: if_splits)
  show "propagate bs f c = None \<Longrightarrow> b \<in> set bs \<Longrightarrow> \<not> is_nan f b"
    by (auto simp: propagate_ok split: if_splits)
qed

lemma flush_input_wf: "fp_wf (cx_format cx) b \<Longrightarrow> fp_wf (cx_format cx) (fst (flush_input b cx))"
  by (simp add: flush_input_def wf_bits)

lemma flush_pair_wf:
  assumes "fp_wf (cx_format cx) a" "fp_wf (cx_format cx) b"
  obtains l r d where "flush_pair a b cx = (l, r, d)" "fp_wf (cx_format cx) l" "fp_wf (cx_format cx) r"
  using flush_input_wf [OF assms(1)] flush_input_wf [OF assms(2)]
  by (cases "flush_input a cx"; cases "flush_input b cx") (simp add: flush_pair_def)

lemma finite_unpack:
  assumes "fp_finite f b"
  obtains "unpack b f = Some (unpacked_zero (fp_is_negative f b))" "fp_is_zero f b"
  | u where "unpack b f = Some u" "unpacked_ok f u (fp_abs f b)" "\<not> fp_is_zero f b"
  by (cases rule: finite_cases [OF assms]) auto

lemma add_finite_total:
  assumes "fp_finite f a" "fp_finite f b"
  obtains l r v s where "unpack a f = Some l" "unpack b f = Some r" "add_finite l r cx = Some (v, s)"
proof (cases rule: finite_unpack [OF assms(1)])
  case zero: 1
  show ?thesis
  proof (cases rule: finite_unpack [OF assms(2)])
    case 1
    show ?thesis by (rule that [OF zero(1) 1(1) add_finite_zero(1)])
  next
    case (2 r)
    show ?thesis by (rule that [OF zero(1) 2(1) add_finite_zero(2) [OF unpacked_pos(2) [OF 2(2)]]])
  qed
next
  case (2 l)
  show ?thesis
  proof (cases rule: finite_unpack [OF assms(2)])
    case 1
    show ?thesis by (rule that [OF 2(1) 1(1) add_finite_zero(3) [OF unpacked_pos(2) [OF 2(2)]]])
  next
    case (2 r)
    from add_finite_ok [OF \<open>unpacked_ok f l _\<close> 2(2), of cx] show ?thesis
      using \<open>unpack a f = Some l\<close> 2(1) that by auto
  qed
qed

text \<open>The shape of a binary operation: NaNs, then the special cases, then the finite core.\<close>

lemma special_returns:
  assumes wf: "\<forall>x\<in>set bs. fp_wf f x" and special: "\<And>res. special = Some res \<Longrightarrow> fp_wf f (res_bits res)"
    and core: "special = None \<Longrightarrow> (\<And>x. x \<in> set bs \<Longrightarrow> \<not> is_nan f x) \<Longrightarrow> returns (fp_bits f) core"
  shows "returns (fp_bits f) (case propagate bs f c of Some res \<Rightarrow> Some (fp_with_flags res d)
    | None \<Rightarrow> (case special of Some res \<Rightarrow> Some (fp_with_flags res d) | None \<Rightarrow> core))"
proof (cases "propagate bs f c")
  case None
  then show ?thesis
    using special core propagate_wf(2) [OF wf None] by (auto simp: fp_wf_def split: option.splits)
qed (use propagate_wf(1) [OF wf] in \<open>auto simp: fp_wf_def\<close>)

lemma fp_add_returns:
  assumes "fp_wf (cx_format cx) a" "fp_wf (cx_format cx) b"
  shows "returns (fp_bits (cx_format cx)) (fp_add a b sub cx)"
proof -
  let ?f = "cx_format cx"
  obtain l r1 d where fl: "flush_pair a b cx = (l, r1, d)" "fp_wf ?f l" "fp_wf ?f r1" by (rule flush_pair_wf [OF assms])
  define r where "r = (if sub then r1 XOR push_bit (sign_shift ?f) 1 else r1)"
  have wf: "\<forall>x\<in>set [l, r]. fp_wf ?f x" using fl by (simp add: r_def wf_bits)
  show ?thesis
    unfolding fp_add_def fl(1) Let_def prod.case r_def [symmetric]
  proof (rule special_returns [OF wf])
    show "fp_wf ?f (res_bits res)" if "add_infinities l r cx = Some res" for res
      using that wf by (auto simp: add_infinities_def Let_def invalid_operation_def wf_bits split: if_splits)
    assume "add_infinities l r cx = None" and nan: "\<And>x. x \<in> set [l, r] \<Longrightarrow> \<not> is_nan ?f x"
    then have "fp_finite ?f l" "fp_finite ?f r"
      using wf by (auto simp: add_infinities_def fp_finite_def Let_def split: if_splits)
    then show "returns (fp_bits ?f) (do { left \<leftarrow> unpack l ?f; right \<leftarrow> unpack r ?f; (v, s) \<leftarrow> add_finite left right cx;
        res \<leftarrow> cx_pack cx v s; Some (fp_with_flags res d) })"
      by (rule add_finite_total [where cx = cx]) simp
  qed
qed

lemma fp_multiply_returns:
  assumes "fp_wf (cx_format cx) a" "fp_wf (cx_format cx) b"
  shows "returns (fp_bits (cx_format cx)) (fp_multiply a b cx)"
proof -
  let ?f = "cx_format cx"
  obtain l r d where fl: "flush_pair a b cx = (l, r, d)" "fp_wf ?f l" "fp_wf ?f r" by (rule flush_pair_wf [OF assms])
  have wf: "\<forall>x\<in>set [l, r]. fp_wf ?f x" using fl by simp
  let ?n = "fp_is_negative ?f l \<noteq> fp_is_negative ?f r"
  show ?thesis
    unfolding fp_multiply_def fl(1) Let_def prod.case
  proof (rule special_returns [OF wf])
    show "fp_wf ?f (res_bits res)" if "multiply_specials l r ?n cx = Some res" for res
      using that by (auto simp: multiply_specials_def Let_def invalid_operation_def wf_bits split: if_splits)
    assume "multiply_specials l r ?n cx = None"
    then have "\<not> fp_is_zero ?f l" "\<not> fp_is_zero ?f r" by (auto simp: multiply_specials_def Let_def split: if_splits)
    then obtain u v where "unpack l ?f = Some u" "unpacked_ok ?f u (fp_abs ?f l)"
      and "unpack r ?f = Some v" "unpacked_ok ?f v (fp_abs ?f r)"
      using unpack_ok [OF fl(2)] unpack_ok [OF fl(3)] by auto
    then show "returns (fp_bits ?f) (do { left \<leftarrow> unpack l ?f; right \<leftarrow> unpack r ?f;
        product \<leftarrow> checked_mul (ucast (up_significand left) :: u128) (ucast (up_significand right));
        case narrow product (significand_scale ?f) of (significand, is_sticky) \<Rightarrow> do {
          result \<leftarrow> cx_pack cx \<lparr> up_negative = ?n, up_exponent = up_exponent left + up_exponent right,
            up_significand = significand \<rparr> is_sticky;
          Some (fp_with_flags result d) } })"
      using product_ok [of ?f u "fp_abs ?f l" v "fp_abs ?f r" True] by auto
  qed
qed

lemma fp_divide_returns:
  assumes "fp_wf (cx_format cx) a" "fp_wf (cx_format cx) b"
  shows "returns (fp_bits (cx_format cx)) (fp_divide a b cx)"
proof -
  let ?f = "cx_format cx"
  obtain l r d where fl: "flush_pair a b cx = (l, r, d)" "fp_wf ?f l" "fp_wf ?f r" by (rule flush_pair_wf [OF assms])
  have wf: "\<forall>x\<in>set [l, r]. fp_wf ?f x" using fl by simp
  let ?n = "fp_is_negative ?f l \<noteq> fp_is_negative ?f r"
  show ?thesis
    unfolding fp_divide_def fl(1) Let_def prod.case
  proof (rule special_returns [OF wf])
    show "fp_wf ?f (res_bits res)" if "divide_specials l r ?n cx = Some res" for res
      using that by (auto simp: divide_specials_def Let_def invalid_operation_def wf_bits split: if_splits)
    assume "divide_specials l r ?n cx = None"
    then have "\<not> fp_is_zero ?f l" "\<not> fp_is_zero ?f r" by (auto simp: divide_specials_def Let_def split: if_splits)
    then obtain u v where u: "unpack l ?f = Some u" "unpacked_ok ?f u (fp_abs ?f l)"
      and v: "unpack r ?f = Some v" "unpacked_ok ?f v (fp_abs ?f r)"
      using unpack_ok [OF fl(2)] unpack_ok [OF fl(3)] by auto
    from quotient_ok [OF u(2) v(2), of True] u(1) v(1)
    show "returns (fp_bits ?f) (unpack l ?f \<bind> (\<lambda>left. unpack r ?f \<bind> (\<lambda>right.
        checked_div (push_bit (significand_scale ?f) (ucast (up_significand left) :: u128)) (ucast (up_significand right)) \<bind>
        (\<lambda>quotient. cx_pack cx \<lparr> up_negative = ?n, up_exponent = up_exponent left - up_exponent right,
             up_significand = ucast quotient \<rparr>
             (push_bit (significand_scale ?f) (ucast (up_significand left) :: u128) mod ucast (up_significand right) \<noteq> 0)
          \<bind> (\<lambda>result. Some (fp_with_flags result d))))))"
      by auto
  qed
qed

lemma square_root_returns:
  assumes "fp_wf (cx_format cx) a"
  shows "returns (fp_bits (cx_format cx)) (square_root a cx)"
proof -
  let ?f = "cx_format cx"
  obtain b d where fl: "flush_input a cx = (b, d)" "fp_wf ?f b"
    using flush_input_wf [OF assms] by (cases "flush_input a cx") auto
  have wf: "\<forall>x\<in>set [b]. fp_wf ?f x" using fl by simp
  have "returns (fp_bits ?f) (do { u \<leftarrow> unpack b ?f; (w, s) \<leftarrow> integer_square_root u ?f;
      result \<leftarrow> cx_pack cx \<lparr> up_negative = False, up_exponent = up_exponent u div 2, up_significand = w \<rparr> s;
      Some (fp_with_flags result d) })" if nz: "\<not> fp_is_zero ?f b"
  proof -
    obtain u where u: "unpack b ?f = Some u" "unpacked_ok ?f u (fp_abs ?f b)" using unpack_ok [OF fl(2) nz] by auto
    from integer_square_root_ok [OF u(2)] u(1) show ?thesis by auto
  qed
  then show ?thesis
    using propagate_wf(1) [OF wf, of "cx_control cx"] fl(2) unfolding square_root_def fl(1) Let_def prod.case
    by (auto simp: fp_wf_def invalid_operation_def fp_wf_consts(4) [unfolded fp_wf_def] split: option.splits)
qed

lemma extremum_returns:
  assumes "fp_wf f a" "fp_wf f b"
  shows "fp_wf f (res_bits (extremum a b which f c))"
proof -
  have "\<forall>x\<in>set [a, b]. fp_wf f x" using assms by simp
  note nan = propagate_wf(1) [OF this, of c]
  have "fp_wf f (res_bits res)" if "numeric_nan_case a b which f = Some res" for res
    using that assms by (auto simp: numeric_nan_case_def split: if_splits bool.splits)
  then show ?thesis
    using nan assms by (auto simp: extremum_def Let_def wf_bits split: option.splits)
qed


section \<open>Fused multiply-add\<close>

lemma round_wide_returns: "returns (fp_bits (cx_format cx)) (round_wide v s cx)"
proof (cases "ep_significand v = 0")
  case True
  then show ?thesis using fp_wf_consts(1) [of "cx_format cx"] by (simp add: round_wide_def fp_wf_def)
next
  case False
  then have "leading_zeros (ep_significand v) \<le> 127" using leading_zeros_bounds(1) [of "ep_significand v"] by simp
  moreover have "2 * mantissa_bits (cx_format cx) + 2 * GUARD_BITS \<le> 110"
    using mantissa_bits_bounds [of "cx_format cx"] by (simp add: GUARD_BITS_def)
  ultimately show ?thesis
    using False unfolding round_wide_def Let_def by (auto simp: count_sub_def split: prod.splits)
qed

lemma fused_accumulate_returns:
  assumes c: "fp_finite (cx_format cx) c" and P: "unat (ep_significand p) < 2 ^ 112"
  shows "returns (fp_bits (cx_format cx)) (fused_accumulate p c cx)"
proof (cases rule: finite_unpack [OF c])
  case 1
  then show ?thesis by (simp add: fused_accumulate_def round_wide_returns)
next
  case (2 u)
  let ?f = "cx_format cx"
  define m where "m = mantissa_bits ?f + 3"
  obtain P' A' e s where al: "fused_align (ep_significand p) (ep_exponent p) (push_bit m (ucast (up_significand u))) (up_exponent u)
      = (P', A', e, s)" "unat P' \<le> unat (ep_significand p)" "unat A' \<le> unat (push_bit m (ucast (up_significand u) :: u128))"
    by (rule fused_align_ok)
  have "(2::nat) ^ (2 * m + 1) \<le> 2 ^ 111" using mantissa_bits_bounds [of ?f] by (intro power_increasing) (simp_all add: m_def)
  then have "unat A' < 2 ^ 111" using wide_addend [OF 2(2) m_def] al(3) by auto
  then have "checked_add P' A' = Some (P' + A')" using P al(2) by (intro checked_add_ok) simp
  then show ?thesis
    unfolding accumulate_eq [OF refl 2(1,3) al(1) m_def]
    using fp_wf_consts(1) [of ?f] by (auto simp: round_wide_returns fp_wf_def)
qed

lemma multiply_add_returns:
  assumes "fp_wf (cx_format cx) (fo_multiplicand ops)" "fp_wf (cx_format cx) (fo_multiplier ops)" "fp_wf (cx_format cx) (fo_addend ops)"
  shows "returns (fp_bits (cx_format cx)) (multiply_add ops cx)"
proof -
  let ?f = "cx_format cx" and ?bs = "[fo_multiplicand ops, fo_multiplier ops, fo_addend ops]" and ?c = "signed_addend ops (cx_format cx)"
  have wf: "\<forall>x\<in>set ?bs. fp_wf ?f x" and c: "fp_wf ?f ?c" using assms by (simp_all add: signed_addend_def wf_bits)
  show ?thesis
  proof (cases "propagate ?bs ?f (cx_control cx)")
    case None
    note nan = propagate_wf(2) [OF wf None]
    show ?thesis
    proof (cases "special_cases ops cx")
      case special: None
      then have nz: "\<not> fp_is_zero ?f (fo_multiplicand ops)" "\<not> fp_is_zero ?f (fo_multiplier ops)" "\<not> is_infinite ?f ?c"
        by (auto simp: special_cases_def Let_def split: if_splits)
      moreover have "\<not> is_infinite ?f (fo_addend ops)"
        using nz(3) assms(3) nan by (auto simp: signed_addend_def is_infinite_flip split: if_splits)
      ultimately have "fp_finite ?f (fo_addend ops)" using assms(3) nan by (simp add: fp_finite_def)
      then have fin: "fp_finite ?f ?c" by (rule signed_addend_ok)
      obtain u v where u: "unpack (fo_multiplicand ops) ?f = Some u" "unpacked_ok ?f u (fp_abs ?f (fo_multiplicand ops))"
        and v: "unpack (fo_multiplier ops) ?f = Some v" "unpacked_ok ?f v (fp_abs ?f (fo_multiplier ops))"
        using unpack_ok [OF assms(1) nz(1)] unpack_ok [OF assms(2) nz(2)] by auto
      have "(2::nat) ^ (2 * (mantissa_bits ?f + 3) + 2) \<le> 2 ^ 112"
        using mantissa_bits_bounds [of ?f] by (intro power_increasing) simp_all
      then obtain p where "exact_product ops cx = Some p" "unat (ep_significand p) < 2 ^ 112"
        using wide_product [OF u(2) v(2) refl] u(1) v(1) by (auto simp: exact_product_def Let_def)
      then show ?thesis
        using fused_accumulate_returns [OF fin] by (simp add: multiply_add_def Let_def None special)
    next
      case (Some res)
      then have "fp_wf ?f (res_bits res)"
        using c by (auto simp: special_cases_def zero_product_def Let_def invalid_operation_def wf_bits split: if_splits)
      then show ?thesis by (simp add: multiply_add_def Let_def None Some fp_wf_def)
    qed
  qed (use propagate_wf(1) [OF wf] in \<open>auto simp: multiply_add_def Let_def fp_wf_def\<close>)
qed


section \<open>Conversions\<close>

lemma convert_format_returns:
  assumes "fp_wf source b"
  shows "returns (fp_bits target) (convert_format b source target c r)"
proof -
  have low: "unat (moved AND (quiet_bit target - 1)) < 2 ^ mantissa_bits target" for moved
  proof -
    have "unat (moved AND (quiet_bit target - 1)) < 2 ^ (mantissa_bits target - 1)"
      unfolding quiet_bit_def unat_low_bits by (rule mod_less_divisor) simp
    also have "\<dots> \<le> (2::nat) ^ mantissa_bits target" by (intro power_increasing) simp_all
    finally show ?thesis .
  qed
  have "fp_wf target (moved AND (quiet_bit target - 1))" for moved
    using encode_subnormal(1) [OF low refl refl, of False moved] by (simp add: fp_finite_def)
  then have "fp_wf target (res_bits (convert_nan b source target c))"
    by (simp add: convert_nan_def Let_def wf_bits del: push_bit_of_1)
  then show ?thesis
    using unpack_ok [OF assms]
    by (auto simp: convert_format_def Let_def wf_bits fp_wf_consts [unfolded fp_wf_def] fp_wf_def)
qed

lemma drop_bit_room: "0 < k \<Longrightarrow> unat (drop_bit k (w :: u64)) + unat (of_bool a :: u64) < 2 ^ LENGTH(64)"
proof -
  assume "0 < k"
  then have "unat w div 2 ^ k \<le> unat w div 2 ^ 1" by (intro div_le_mono2 power_increasing) simp_all
  then show ?thesis using unat_u64_less [of w] by (cases a) (simp_all add: unat_drop_bit)
qed

lemma round_to_integral_returns:
  assumes "fp_wf f b"
  shows "returns (fp_bits f) (round_to_integral b f r c)"
proof -
  have wf: "\<forall>x\<in>set [b]. fp_wf f x" using assms by simp
  have rs: "\<exists>out. round_significand_to_integer u (mantissa_bits f + GUARD_BITS) r = Some out"
    if "\<not> int (mantissa_bits f + GUARD_BITS) \<le> up_exponent u" for u
  proof -
    have "0 < nat (int (mantissa_bits f + GUARD_BITS) - up_exponent u)" using that by simp
    then have "unat (drop_bit (nat (int (mantissa_bits f + GUARD_BITS) - up_exponent u)) (up_significand u)) + unat (of_bool a :: u64) < 2 ^ LENGTH(64)" for a
      by (rule drop_bit_room)
    then show ?thesis
      using mantissa_bits_bounds [of f]
      unfolding round_significand_to_integer_def Let_def by (simp add: checked_add_ok GUARD_BITS_def)
  qed
  have "returns (fp_bits f) (round_significand_to_integer u (mantissa_bits f + GUARD_BITS) r \<bind>
      (\<lambda>out. case out of None \<Rightarrow> Some (res_exact (fp_zero f n)) | Some v \<Rightarrow> round_and_pack
        \<lparr> up_negative = n, up_exponent = up_exponent v, up_significand = up_significand v \<rparr> f
        \<lparr> rc_rounding = r, rc_sticky = False, rc_control = c \<rparr>))"
    if "\<not> int (mantissa_bits f + GUARD_BITS) \<le> up_exponent u" for u n
    using rs [OF that] fp_wf_consts(1) [of f n] by (auto simp: fp_wf_def split: option.split)
  then show ?thesis
    using propagate_wf(1) [OF wf, of c] unpack_ok [OF assms] assms
    by (auto simp: round_to_integral_def Let_def fp_wf_def fp_wf_consts [unfolded fp_wf_def] split: option.splits)
qed

lemma mask_to_width_less: "int_wf i \<Longrightarrow> unat (mask_to_width w i) < 2 ^ int_bits i"
  by (simp add: unat_mask_to_width)

lemma to_integer_returns:
  assumes "fp_wf f b" "int_wf i"
  shows "returns (int_bits i) (to_integer b f i r)"
proof -
  have im: "\<exists>M x. integral_magnitude u s r = Some (M, x)" for u s
  proof -
    have "unat (drop_bit (nat (- (up_exponent u - int s))) (up_significand u)) + unat (of_bool a :: u64) < 2 ^ LENGTH(64)"
      if "\<not> 0 \<le> up_exponent u - int s" for a
      using that by (intro drop_bit_room) simp
    then show ?thesis unfolding integral_magnitude_def Let_def by (auto simp: checked_add_ok)
  qed
  have "returns (int_bits i) (encode_integer M n x i)" for M n x
    unfolding encode_integer_ok [OF assms(2) refl] using mask_to_width_less [OF assms(2)] by simp
  then have "returns (int_bits i) (do { (M, x) \<leftarrow> integral_magnitude u s r; encode_integer M n x i })" for u s n
    using im [of u s] by auto
  moreover have "returns (int_bits i) (do { s \<leftarrow> saturate n i; Some (res_raising s fl) })" for n fl
    using mask_to_width_less [OF assms(2)] by (simp add: saturate_ok [OF assms(2)])
  ultimately show ?thesis
    using unpack_ok [OF assms(1)] by (auto simp: to_integer_def Let_def)
qed

lemma from_integer_returns:
  assumes "int_wf i"
  shows "returns (fp_bits f) (from_integer w i f r c)"
proof -
  obtain M n where M: "magnitude_of w i = Some (M, n)" using magnitude_of_ok [OF assms, of w] by blast
  show ?thesis
  proof (cases "M = 0")
    case True
    then show ?thesis using fp_wf_consts(1) [of f] by (simp add: from_integer_def M fp_wf_def)
  next
    case False
    then show ?thesis by (simp add: from_integer_eq [OF M])
  qed
qed


section \<open>The contract of totality\<close>

definition operands_wf :: "FpOperands \<Rightarrow> bool" where
  "operands_wf ops \<longleftrightarrow> fp_wf (op_format ops) (op_lhs ops) \<and> fp_wf (op_format ops) (op_rhs ops)"

definition value_wf :: "FpValue \<Rightarrow> bool" where
  "value_wf v \<longleftrightarrow> fp_wf (val_format v) (val_bits v)"

definition fma_wf :: "FpFmaOperands \<Rightarrow> bool" where
  "fma_wf ops \<longleftrightarrow> fp_wf (fma_format ops) (fma_multiplicand ops) \<and> fp_wf (fma_format ops) (fma_multiplier ops)
     \<and> fp_wf (fma_format ops) (fma_addend ops)"

locale total_backend =
  fixes be :: FpBackend
  assumes binary_total: "operands_wf ops \<Longrightarrow> returns (fp_bits (op_format ops)) (be_binary be op ops control)"
    and unary_total: "value_wf v \<Longrightarrow> returns (fp_bits (val_format v)) (be_unary be un v r control)"
    and fma_total: "fma_wf fops \<Longrightarrow> returns (fp_bits (fma_format fops)) (be_fused_multiply_add be fops control)"
    and convert_total: "value_wf v \<Longrightarrow> returns (fp_bits target) (be_convert_format be v target control)"
    and to_integer_total: "value_wf v \<Longrightarrow> int_wf (ti_format it) \<Longrightarrow>
      returns (int_bits (ti_format it)) (be_to_integer be v it control)"
    and from_integer_total: "int_wf (fi_format src) \<Longrightarrow>
      returns (fp_bits (fi_target src)) (be_convert_from_integer be w src control)"

lemma soft_binary_returns: "operands_wf ops \<Longrightarrow> returns (fp_bits (op_format ops)) (soft_binary op ops control)"
  using fp_add_returns [of "soft_context (op_format ops) (op_rounding ops) control"]
    fp_multiply_returns [of "soft_context (op_format ops) (op_rounding ops) control"]
    fp_divide_returns [of "soft_context (op_format ops) (op_rounding ops) control"]
    extremum_returns [of "op_format ops" "op_lhs ops" "op_rhs ops"]
  by (cases op) (simp_all add: soft_binary_def soft_context_def operands_wf_def Let_def, simp_all add: fp_wf_def)

interpretation soft_total: total_backend softfloat
proof unfold_locales
  fix v :: FpValue and un r control and fops :: FpFmaOperands
  show "value_wf v \<Longrightarrow> returns (fp_bits (val_format v)) (be_unary softfloat un v r control)"
    using square_root_returns [of "soft_context (val_format v) r control"] round_to_integral_returns
    by (cases un) (simp_all add: softfloat_def soft_unary_def soft_context_def value_wf_def)
  show "fma_wf fops \<Longrightarrow> returns (fp_bits (fma_format fops)) (be_fused_multiply_add softfloat fops control)"
    using multiply_add_returns [of "soft_context (fma_format fops) (fma_rounding fops) control"]
    by (simp add: softfloat_def soft_fused_multiply_add_def soft_context_def fma_wf_def)
qed (simp_all add: softfloat_def soft_binary_returns soft_convert_format_def soft_to_integer_def
    soft_convert_from_integer_def value_wf_def convert_format_returns to_integer_returns from_integer_returns)

text \<open>The native backend is total on any host: an operator of the host returns bits of its width, and
  everything else is the reference.\<close>

lemma host_bits: "unat (w :: u64) < 2 ^ fp_bits Fp_Double" "unat (ucast (u :: u32) :: u64) < 2 ^ fp_bits Fp_Single"
proof -
  have "unat u < 2 ^ LENGTH(32)" by (rule unsigned_less)
  then have "unat (ucast u :: u64) = unat u" by (simp add: unsigned_ucast_eq take_bit_nat_eq_self_iff)
  then show "unat (ucast u :: u64) < 2 ^ fp_bits Fp_Single" using \<open>unat u < 2 ^ LENGTH(32)\<close> by simp
qed (use unat_u64_less [of w] in simp)

lemma native_binary_returns: "operands_wf ops \<Longrightarrow> returns (fp_bits (op_format ops)) (native_binary H op ops control)"
  using soft_binary_returns [of ops op control] host_bits
  by (cases op; cases "op_format ops") (auto simp: native_binary_def can_serve_def dispatch_binary_def Let_def)

lemma native_convert_returns: "value_wf v \<Longrightarrow> returns (fp_bits target) (native_convert_format H v target control)"
  using convert_format_returns [of "val_format v" "val_bits v" target control] host_bits
  by (cases "val_format v"; cases target) (auto simp: native_convert_format_def soft_convert_format_def value_wf_def)

lemmas soft_totals = soft_total.unary_total soft_total.fma_total soft_total.to_integer_total soft_total.from_integer_total

interpretation native_total: total_backend "native H" for H
  by unfold_locales (simp_all add: native_def native_binary_returns native_convert_returns native_unary_def
      native_fused_multiply_add_def native_to_integer_def native_convert_from_integer_def
      soft_totals [unfolded softfloat_def FpBackend.simps])


section \<open>The engine never panics\<close>

lemma engine_backend_total: "total_backend (engine_backend H e)"
  using soft_total.total_backend_axioms native_total.total_backend_axioms
  by (cases "en_selected e") (simp_all add: engine_backend_def)

fun call_wf :: "engine_call \<Rightarrow> bool" where
  "call_wf (Call_Set_Fpcr w) = True"
| "call_wf (Call_Binary op ops) = operands_wf ops"
| "call_wf (Call_Unary op v r) = value_wf v"
| "call_wf (Call_Fma ops) = fma_wf ops"
| "call_wf (Call_Compare ops s) = True"
| "call_wf (Call_Convert_Format v t) = value_wf v"
| "call_wf (Call_To_Integer v t) = (value_wf v \<and> int_wf (ti_format t))"
| "call_wf (Call_From_Integer w src) = int_wf (fi_format src)"

lemma recorded: "returns n r \<Longrightarrow> \<exists>e'. map_option snd (do { res \<leftarrow> r; Some (engine_record e res) }) = Some e'"
  by (auto simp: returns_def engine_record_def)

lemmas engine_totals = total_backend.binary_total [OF engine_backend_total] total_backend.unary_total [OF engine_backend_total]
  total_backend.fma_total [OF engine_backend_total] total_backend.convert_total [OF engine_backend_total]
  total_backend.to_integer_total [OF engine_backend_total] total_backend.from_integer_total [OF engine_backend_total]

lemma engine_step_total:
  assumes "call_wf c"
  shows "\<exists>e'. engine_step H precise c e = Some e'"
proof (cases c)
  case (Call_Binary op ops)
  then show ?thesis using assms recorded [OF engine_totals(1)] by (simp only: engine_step.simps engine_ops call_wf.simps)
next
  case (Call_Unary op v r)
  then show ?thesis using assms recorded [OF engine_totals(2)] by (simp only: engine_step.simps engine_ops call_wf.simps)
next
  case (Call_Fma ops)
  then show ?thesis using assms recorded [OF engine_totals(3)] by (simp only: engine_step.simps engine_ops call_wf.simps)
next
  case (Call_Convert_Format v t)
  then show ?thesis using assms recorded [OF engine_totals(4)] by (simp only: engine_step.simps engine_ops call_wf.simps)
next
  case (Call_To_Integer v t)
  then show ?thesis using assms recorded [OF engine_totals(5)] by (simp only: engine_step.simps engine_ops call_wf.simps)
next
  case (Call_From_Integer w src)
  then show ?thesis using assms recorded [OF engine_totals(6)] by (simp only: engine_step.simps engine_ops call_wf.simps)
qed simp_all

lemma engine_run_total:
  assumes "\<forall>c\<in>set calls. call_wf c"
  shows "\<exists>e'. engine_run H precise e calls e'"
  using assms
proof (induction calls arbitrary: e)
  case (Cons c calls)
  then obtain e1 where "engine_step H precise c e = Some e1" using engine_step_total [of c H precise e] by auto
  then show ?case using Cons run_call by (meson list.set_intros(2))
qed (auto intro: run_nil)

lemma engine_binary_total:
  assumes "operands_wf ops"
  shows "\<exists>w e'. engine_binary H e op ops = Some (w, e') \<and> fp_wf (op_format ops) w \<and> flags_added e e'"
  using total_backend.binary_total [OF engine_backend_total assms, of H e op "en_control e"]
  by (auto simp: returns_def engine_binary_def engine_record_def fp_wf_def)

end
