(* ===== verification/Fp_Adequacy.thy ===== *)
theory Fp_Adequacy
  imports Fp_Conversions
begin

text \<open>
  The specification of rounding in elementary terms: rounding to nearest leaves no finite value of the
  format closer to the exact one, and the directed modes stay on their side of it.
\<close>

lemma round_int_nearest:
  assumes "r = Fp_Nearest \<or> r = Fp_NearestAway"
  shows "\<bar>real_of_int (round_int r n y) - y\<bar> \<le> \<bar>real_of_int k - y\<bar>"
proof -
  define t where "t = y - \<lfloor>y\<rfloor>"
  have t: "0 \<le> t" "t < 1" by (simp_all add: t_def) linarith
  have half: "\<bar>real_of_int (round_int r n y) - y\<bar> \<le> min t (1 - t)"
    using assms t by (auto simp: round_int_def t_def [symmetric] min_def) (simp_all add: t_def)
  have "k \<le> \<lfloor>y\<rfloor> \<or> \<lfloor>y\<rfloor> + 1 \<le> k" by linarith
  then have "t \<le> \<bar>real_of_int k - y\<bar> \<or> 1 - t \<le> \<bar>real_of_int k - y\<bar>" unfolding t_def by linarith
  with half show ?thesis by linarith
qed

text \<open>Every value is a multiple of its unit, hence of the quantum of its binade.\<close>

lemma unit_multiple:
  assumes "q \<le> fp_unit f c"
  shows "\<exists>k :: int. fp_val f c = real_of_int k * 2 powi q"
proof -
  obtain j where j: "fp_unit f c = q + int j" using assms zle_iff_zadd by blast
  have "fp_val f c = real_of_int ((if fp_is_negative f c then - 1 else 1) * int (fp_sig f c) * 2 ^ j) * 2 powi q"
    unfolding fp_val_def fp_abs_def j by (simp add: power_int_add power_int_of_nat)
  then show ?thesis by blast
qed

lemma binade_unit:
  assumes "2 powi E \<le> fp_abs f c"
  shows "E - int (mantissa_bits f) \<le> fp_unit f c"
proof -
  let ?m = "mantissa_bits f"
  have "real (fp_sig f c) < real (2 ^ Suc ?m)" using fp_sig_less [of f c] by (simp only: of_nat_less_iff)
  then have "real (fp_sig f c) < 2 powi int (Suc ?m)" by (simp only: power_int_of_nat of_nat_power of_nat_numeral)
  then have "fp_abs f c < 2 powi int (Suc ?m) * 2 powi fp_unit f c"
    unfolding fp_abs_def by (intro mult_strict_right_mono) simp_all
  then have "2 powi E < (2::real) powi (int (Suc ?m) + fp_unit f c)"
    using assms by (simp only: powi_add) 
  then show ?thesis unfolding powi_less_iff by simp
qed

lemma floor_log_le: "0 < x \<Longrightarrow> 2 powi \<lfloor>log 2 x\<rfloor> \<le> x"
  using le_log_iff [of 2 x "real_of_int \<lfloor>log 2 x\<rfloor>"] by (simp add: powr_real_of_int')

lemma rounded_nearest_multiple:
  assumes "r = Fp_Nearest \<or> r = Fp_NearestAway" "x \<noteq> 0"
  shows "\<bar>fp_rounded f r x - x\<bar> \<le> \<bar>real_of_int k * fp_quantum f x - x\<bar>"
proof -
  let ?Q = "fp_quantum f x" and ?s = "if x < 0 then - 1 else 1 :: int"
  define n where "n = round_int r (x < 0) (\<bar>x\<bar> / ?Q)"
  have Q: "0 < ?Q" by (simp add: fp_quantum_def)
  have scale: "\<bar>real_of_int i * ?Q - x\<bar> = \<bar>real_of_int (?s * i) - \<bar>x\<bar> / ?Q\<bar> * ?Q" for i
  proof -
    have "real_of_int i * ?Q - x = real_of_int ?s * (real_of_int (?s * i) - \<bar>x\<bar> / ?Q) * ?Q"
      using Q by (simp add: field_simps)
    then show ?thesis using Q by (simp add: abs_mult)
  qed
  have "fp_rounded f r x = real_of_int (?s * n) * ?Q" using assms(2) by (simp add: fp_rounded_def n_def sgn_if)
  then have "\<bar>fp_rounded f r x - x\<bar> = \<bar>real_of_int n - \<bar>x\<bar> / ?Q\<bar> * ?Q"
    using scale [of "?s * n"] by (simp split: if_splits)
  also have "\<dots> \<le> \<bar>real_of_int (?s * k) - \<bar>x\<bar> / ?Q\<bar> * ?Q"
    unfolding n_def using Q by (intro mult_right_mono round_int_nearest [OF assms(1)]) simp
  finally show ?thesis unfolding scale .
qed

theorem rounded_nearest:
  assumes r: "r = Fp_Nearest \<or> r = Fp_NearestAway"
  shows "\<bar>fp_rounded f r x - x\<bar> \<le> \<bar>fp_val f c - x\<bar>"
proof (cases "x = 0")
  case False
  define E where "E = max \<lfloor>log 2 \<bar>x\<bar>\<rfloor> (fp_min_exponent f)"
  have Q: "fp_quantum f x = 2 powi (E - int (mantissa_bits f))" by (simp only: fp_quantum_def E_def)
  note nearest = rounded_nearest_multiple [OF r False, of f]
  show ?thesis
  proof (cases "2 powi E \<le> fp_abs f c \<or> E = fp_min_exponent f")
    case True
    then have "E - int (mantissa_bits f) \<le> fp_unit f c" using binade_unit fp_unit_bounds(1) by auto
    from unit_multiple [OF this] show ?thesis using nearest by (auto simp: Q)
  next
    case small: False
    then have "2 powi E \<le> \<bar>x\<bar>" using floor_log_le [of "\<bar>x\<bar>"] False by (auto simp: E_def max_def split: if_splits)
    have "real_of_int (2 ^ mantissa_bits f) * fp_quantum f x = 2 powi E"
      unfolding Q using powi_nat_diff [of E "mantissa_bits f"] by (simp add: mult.commute)
    then have "\<bar>fp_rounded f r x - x\<bar> \<le> \<bar>sgn x * 2 powi E - x\<bar>"
      using nearest [of "(if x < 0 then - 1 else 1) * 2 ^ mantissa_bits f"] False by (simp add: sgn_if split: if_splits)
    also have "\<dots> = \<bar>x\<bar> - 2 powi E" using \<open>2 powi E \<le> \<bar>x\<bar>\<close> False by (cases "x < 0") (simp_all add: sgn_if)
    also have "\<dots> \<le> \<bar>x\<bar> - \<bar>fp_val f c\<bar>" using small by (simp add: abs_fp_val)
    also have "\<dots> \<le> \<bar>fp_val f c - x\<bar>" by linarith
    finally show ?thesis .
  qed
qed (simp add: rounded_zero)

lemma signed_infinity_infinite: "is_infinite f (signed_infinity f n)"
  by (cases f; cases n) (simp_all add: is_infinite_def signed_infinity_def max_exponent_def exponent_bits_def
      mantissa_mask_def sign_shift_def fp_zero_def fp_infinity_def)

lemma overflow_not_finite:
  "r = Fp_Nearest \<or> r = Fp_NearestAway \<Longrightarrow> \<not> fp_finite f (fp_overflow_value f r n)"
  using signed_infinity_infinite [of f n] by (auto simp: fp_overflow_value_def fp_finite_def)

corollary nearest_result:
  assumes r: "r = Fp_Nearest \<or> r = Fp_NearestAway"
    and res: "ieee_result f r x res" and fin: "fp_finite f (res_bits res)"
  shows "\<bar>fp_val f (res_bits res) - x\<bar> \<le> \<bar>fp_val f c - x\<bar>"
  using res fin overflow_not_finite [OF r] rounded_nearest [OF r, of f x c]
  by (auto simp: ieee_result_def correctly_rounded_def split: if_splits)

end
