(* ===== verification/Fp_Flush.thy ===== *)
theory Fp_Flush
  imports Fp_Total Fp_Adequacy
begin

unbundle bit_operations_syntax

text \<open>
  Flush-to-zero. An arithmetic operation under FPCR.FZ (or FZ16 for half precision) is the same operation
  without it on operands whose subnormals have become zeros, followed by the replacement of a subnormal
  result: the flag changes the operands and the result of the reference backend and nothing in between.
  The second section says what is replaced by what over the real values of the patterns, and the
  operations are then stated on finite operands in either setting of the flag.
\<close>

definition no_flush :: "Context \<Rightarrow> Context" where
  "no_flush cx = cx\<lparr>cx_control := (cx_control cx)\<lparr>is_flush_to_zero := False, is_flush_to_zero_fp16 := False\<rparr>\<rparr>"

definition flush_result :: "Context \<Rightarrow> FpExceptions \<Rightarrow> FpResult \<Rightarrow> FpResult" where
  "flush_result cx denormal res =
     fp_with_flags (apply_flush_to_zero res (cx_format cx) (cx_control cx)) denormal"

lemma no_flush_simps [simp]:
  "cx_format (no_flush cx) = cx_format cx" "cx_rounding (no_flush cx) = cx_rounding cx"
  "\<not> is_flushing f (cx_control (no_flush cx))" "is_default_nan (cx_control (no_flush cx)) = is_default_nan (cx_control cx)"
  by (cases f; simp add: no_flush_def is_flushing_def)+

lemma quiet_no_flush [simp]: "quiet_result b f (cx_control (no_flush cx)) = quiet_result b f (cx_control cx)"
  by (simp add: quiet_result_def)

lemma subtract_no_flush [simp]: "subtract_aligned u a s (no_flush cx) = subtract_aligned u a s cx"
  by (simp only: subtract_aligned_def no_flush_simps)

lemma no_flush_operations [simp]:
  "flush_input a (no_flush cx) = (a, fx_NONE)" "flush_pair a b (no_flush cx) = (a, b, fx_NONE)"
  "propagate ops f (cx_control (no_flush cx)) = propagate ops f (cx_control cx)"
  "add_infinities a b (no_flush cx) = add_infinities a b cx" "add_finite u v (no_flush cx) = add_finite u v cx"
  "multiply_specials a b n (no_flush cx) = multiply_specials a b n cx"
  "divide_specials a b n (no_flush cx) = divide_specials a b n cx"
  by (simp_all only: propagate_def add_infinities_def add_finite_def multiply_specials_def divide_specials_def
      no_flush_simps quiet_no_flush subtract_no_flush)
    (simp_all add: flush_input_def flush_pair_def fx_NONE_def fx_union_def)

lemma with_no_flags [simp]: "fp_with_flags res fx_NONE = res"
  by (simp add: fp_with_flags_def fx_union_def fx_NONE_def res_raising_def)

text \<open>The results of the special cases are never subnormal.\<close>

lemma special_not_subnormal:
  "\<not> is_subnormal f (fp_zero f n)" "\<not> is_subnormal f (signed_infinity f n)"
  "is_nan f b \<Longrightarrow> \<not> is_subnormal f b" "is_infinite f b \<Longrightarrow> \<not> is_subnormal f b" "fp_is_zero f b \<Longrightarrow> \<not> is_subnormal f b"
proof -
  have infinite: "is_infinite f b \<Longrightarrow> \<not> is_subnormal f b" for b by (simp add: is_infinite_def is_subnormal_def Let_def)
  have m: "NOT (push_bit (sign_shift f) 1) AND mantissa_mask f = mantissa_mask f"
    by (cases f) (simp_all add: mantissa_mask_def sign_shift_def)
  have zero: "\<not> is_subnormal f b" if "fp_is_zero f b" for b
  proof -
    have "b AND mantissa_mask f = (b AND NOT (push_bit (sign_shift f) 1)) AND mantissa_mask f"
      by (simp only: and.assoc m)
    also have "\<dots> = 0" using that by (simp only: fp_is_zero_def) simp
    finally show ?thesis by (simp add: is_subnormal_def)
  qed
  have "fp_is_zero f (fp_zero f n)" by (cases f; cases n) (simp_all add: fp_is_zero_def fp_zero_def sign_shift_def)
  with zero show "\<not> is_subnormal f (fp_zero f n)" by blast
  show "\<not> is_subnormal f (signed_infinity f n)" using infinite signed_infinity_infinite by blast
  have "(ucast (max_exponent f) :: u64) \<noteq> 0" by (cases f) (simp_all add: max_exponent_def exponent_bits_def)
  then show "is_nan f b \<Longrightarrow> \<not> is_subnormal f b" by (auto simp: is_nan_def is_subnormal_def Let_def)
  show "is_infinite f b \<Longrightarrow> \<not> is_subnormal f b" by (rule infinite)
  show "fp_is_zero f b \<Longrightarrow> \<not> is_subnormal f b" by (rule zero)
qed

lemma default_nan_not_subnormal: "\<not> is_subnormal f (default_nan f)"
  by (simp add: special_not_subnormal(3) default_nan_quiet)

lemma flush_special: "\<not> is_subnormal (cx_format cx) (res_bits res) \<Longrightarrow> flush_result cx d res = fp_with_flags res d"
  by (simp add: flush_result_def apply_flush_to_zero_def)

lemma propagate_not_subnormal: "propagate ops f control = Some res \<Longrightarrow> \<not> is_subnormal f (res_bits res)"
  by (auto simp: propagate_def quiet_result_def res_raising_def find_Some_iff quieten_quiet default_nan_quiet
      intro!: special_not_subnormal(3) split: option.splits if_splits)

lemma specials_not_subnormal:
  "add_infinities a b cx = Some res \<Longrightarrow> \<not> is_subnormal (cx_format cx) (res_bits res)"
  "multiply_specials a b n cx = Some res \<Longrightarrow> \<not> is_subnormal (cx_format cx) (res_bits res)"
  "divide_specials a b n cx = Some res \<Longrightarrow> \<not> is_subnormal (cx_format cx) (res_bits res)"
  by (auto simp: add_infinities_def multiply_specials_def divide_specials_def invalid_operation_def res_exact_def
      res_raising_def special_not_subnormal default_nan_not_subnormal Let_def split: if_splits)

lemma cx_pack_flush:
  "cx_pack cx v s = map_option (\<lambda>res. apply_flush_to_zero res (cx_format cx) (cx_control cx)) (cx_pack (no_flush cx) v s)"
proof -
  let ?c = "rounding_context cx s" and ?n = "rounding_context (no_flush cx) s" and ?f = "cx_format cx"
  have same: "pack_normalised vs ?f ?c = pack_normalised vs ?f ?n" "rc_sticky ?n = rc_sticky ?c" for vs
    by (simp_all only: pack_normalised_def pack_subnormal_def rounding_context_def RoundingContext.simps no_flush_simps)
  have id: "apply_flush_to_zero res ?f (rc_control ?n) = res" for res
    by (simp add: apply_flush_to_zero_def rounding_context_def)
  have zero: "apply_flush_to_zero (res_exact (fp_zero ?f n)) ?f c = res_exact (fp_zero ?f n)" for n c
    by (simp add: apply_flush_to_zero_def res_exact_def special_not_subnormal)
  have control: "rc_control ?c = cx_control cx" by (simp add: rounding_context_def)
  show ?thesis
    unfolding cx_pack_def round_and_pack_def no_flush_simps same id control Let_def
    by (cases "pack_normalised (normalise v (rc_sticky ?c) ?f) ?f ?n") (simp_all add: zero)
qed

lemma no_flush_twice [simp]: "no_flush (no_flush cx) = no_flush cx" "flush_result (no_flush cx) fx_NONE = id"
  by (simp_all add: no_flush_def [of "no_flush cx"] fun_eq_iff flush_result_def apply_flush_to_zero_def)
    (simp add: no_flush_def)

text \<open>A packed result under the flag.\<close>

lemma pack_with_flags:
  "cx_pack cx v s \<bind> (\<lambda>res. Some (fp_with_flags res d)) = map_option (flush_result cx d) (cx_pack (no_flush cx) v s)"
  by (subst cx_pack_flush) (cases "cx_pack (no_flush cx) v s"; simp add: flush_result_def)

lemma map_option_binds: "map_option g (m \<bind> k) = m \<bind> (\<lambda>x. map_option g (k x))"
  by (cases m) simp_all

lemmas flush_unfold = no_flush_operations prod.case Let_def no_flush_simps with_no_flags Option.bind_runit
  pack_with_flags

lemmas flush_cases = flush_special propagate_not_subnormal specials_not_subnormal map_option_binds

lemma fp_add_flush:
  assumes "flush_pair a b cx = (a', b', d)"
  shows "fp_add a b is_subtracting cx = map_option (flush_result cx d) (fp_add a' b' is_subtracting (no_flush cx))"
proof -
  define c where "c = (if is_subtracting then b' XOR push_bit (sign_shift (cx_format cx)) 1 else b')"
  show ?thesis
    unfolding fp_add_def assms flush_unfold c_def [symmetric]
    by (cases "propagate [a', c] (cx_format cx) (cx_control cx)"; cases "add_infinities a' c cx")
      (simp_all add: flush_cases case_prod_unfold option.map_id0)
qed

lemma fp_multiply_flush:
  assumes "flush_pair a b cx = (a', b', d)"
  shows "fp_multiply a b cx = map_option (flush_result cx d) (fp_multiply a' b' (no_flush cx))"
  unfolding fp_multiply_def assms flush_unfold
  by (cases "propagate [a', b'] (cx_format cx) (cx_control cx)";
      cases "multiply_specials a' b' (fp_is_negative (cx_format cx) a' \<noteq> fp_is_negative (cx_format cx) b') cx")
    (simp_all add: flush_cases case_prod_unfold option.map_id0)

lemma fp_divide_flush:
  assumes "flush_pair a b cx = (a', b', d)"
  shows "fp_divide a b cx = map_option (flush_result cx d) (fp_divide a' b' (no_flush cx))"
  unfolding fp_divide_def assms flush_unfold
  by (cases "propagate [a', b'] (cx_format cx) (cx_control cx)";
      cases "divide_specials a' b' (fp_is_negative (cx_format cx) a' \<noteq> fp_is_negative (cx_format cx) b') cx")
    (simp_all add: flush_cases case_prod_unfold option.map_id0)

lemma square_root_flush:
  assumes "flush_input a cx = (a', d)"
  shows "square_root a cx = map_option (flush_result cx d) (square_root a' (no_flush cx))"
  unfolding square_root_def assms flush_unfold
  by (cases "propagate [a'] (cx_format cx) (cx_control cx)")
    (simp_all add: flush_cases case_prod_unfold option.map_id0 special_not_subnormal default_nan_not_subnormal invalid_operation_def
      res_exact_def res_raising_def)



section \<open>What flushing means\<close>

text \<open>Flushing over the values, without the code's functions: a non-zero value below the normal range is
  tiny, and with the flag set it counts as zero; a tiny operand raises input denormal (bit 7 of FPSR); a
  tiny result becomes the zero of its sign and raises underflow and inexact (bits 3 and 4).\<close>

definition flag_set :: "FpFormat \<Rightarrow> FpControl \<Rightarrow> bool" where
  "flag_set f c = (if f = Fp_Half then is_flush_to_zero_fp16 c else is_flush_to_zero c)"

definition tiny :: "FpFormat \<Rightarrow> real \<Rightarrow> bool" where
  "tiny f y \<longleftrightarrow> y \<noteq> 0 \<and> \<bar>y\<bar> < 2 powi fp_min_exponent f"

definition ftz :: "bool \<Rightarrow> FpFormat \<Rightarrow> real \<Rightarrow> real" where
  "ftz fz f y = (if fz \<and> tiny f y then 0 else y)"

definition input_denormal :: "bool \<Rightarrow> FpFormat \<Rightarrow> real list \<Rightarrow> FpExceptions" where
  "input_denormal fz f ys = (if fz \<and> (\<exists>y\<in>set ys. tiny f y) then 2 ^ 7 else 0)"

definition ftz_result :: "bool \<Rightarrow> FpFormat \<Rightarrow> FpExceptions \<Rightarrow> FpResult \<Rightarrow> FpResult" where
  "ftz_result fz f denormal res =
     (if fz \<and> tiny f (fp_val f (res_bits res))
      then \<lparr> res_bits = (if fp_val f (res_bits res) < 0 then 2 ^ (fp_bits f - 1) else 0),
             res_raised = res_raised res OR (2 ^ 3 OR 2 ^ 4) OR denormal \<rparr>
      else \<lparr> res_bits = res_bits res, res_raised = res_raised res OR denormal \<rparr>)"

lemma flag_set_eq: "is_flushing f c = flag_set f c"
  by (cases f) (simp_all add: is_flushing_def flag_set_def)

lemma subnormal_tiny: "is_subnormal f b \<longleftrightarrow> tiny f (fp_val f b)"
proof -
  let ?m = "mantissa_bits f" and ?q = "fp_min_exponent f - int (mantissa_bits f)"
  have unit: "2 ^ ?m * 2 powi ?q = (2::real) powi fp_min_exponent f" by (simp add: power_int_diff)
  have abs: "tiny f (fp_val f b) \<longleftrightarrow> \<not> (fp_exp f b = 0 \<and> fp_man f b = 0) \<and> fp_abs f b < 2 powi fp_min_exponent f"
    unfolding tiny_def abs_fp_val fp_abs_eq_0_iff [symmetric] by (simp add: fp_val_def)
  show ?thesis
  proof (cases "fp_exp f b = 0")
    case True
    have "real (fp_man f b) < 2 ^ ?m" using fp_man_less [of f b] by (metis of_nat_less_iff of_nat_numeral of_nat_power)
    then have "real (fp_man f b) * 2 powi ?q < 2 ^ ?m * 2 powi ?q" by (intro mult_strict_right_mono) simp_all
    then have "fp_abs f b < 2 powi fp_min_exponent f" unfolding unit abs_subnormal [OF True refl] .
    then show ?thesis unfolding abs is_subnormal_iff using True by simp
  next
    case False
    have "2 ^ ?m * 2 powi ?q \<le> real (fp_sig f b) * 2 powi fp_unit f b"
    proof (rule mult_mono)
      show "2 ^ ?m \<le> real (fp_sig f b)" using False by (simp add: fp_sig_def)
      show "(2::real) powi ?q \<le> 2 powi fp_unit f b"
        by (rule power_int_increasing) (simp_all add: fp_unit_def fp_min_exponent_def)
    qed simp_all
    then have "\<not> fp_abs f b < 2 powi fp_min_exponent f" unfolding unit fp_abs_def [symmetric] by simp
    then show ?thesis unfolding abs is_subnormal_iff using False by simp
  qed
qed

lemma fp_zero_bits: "fp_zero f n = (if n then 2 ^ (fp_bits f - 1) else 0)"
  by (simp add: fp_zero_def sign_shift_def)

lemma negative_value: "fp_val f b \<noteq> 0 \<Longrightarrow> fp_is_negative f b \<longleftrightarrow> fp_val f b < 0"
  using fp_abs_nonneg [of f b] by (auto simp: fp_val_def)

lemma flush_result_eq:
  "flush_result cx d res = ftz_result (flag_set (cx_format cx) (cx_control cx)) (cx_format cx) d res"
proof -
  let ?f = "cx_format cx" and ?b = "res_bits res"
  have "fp_zero ?f (fp_is_negative ?f ?b) = (if fp_val ?f ?b < 0 then 2 ^ (fp_bits ?f - 1) else 0)" if "tiny ?f (fp_val ?f ?b)"
    using that negative_value [of ?f ?b] by (simp add: fp_zero_bits tiny_def)
  then show ?thesis
    by (simp add: flush_result_def apply_flush_to_zero_def ftz_result_def flag_set_eq subnormal_tiny fp_with_flags_def
        res_raising_def fx_union_def fx_defs or.assoc)
qed

lemma flush_input_eq:
  assumes "fp_finite f b" "f = cx_format cx" "fz = flag_set f (cx_control cx)" "flush_input b cx = (b', d)"
  shows "fp_finite f b'" "fp_val f b' = ftz fz f (fp_val f b)" "fp_is_negative f b' = fp_is_negative f b"
    "d = input_denormal fz f [fp_val f b]"
  using assms fp_zero_fields [of f]
  by (auto simp: flush_input_def flag_set_eq subnormal_tiny ftz_def input_denormal_def fx_defs split: if_splits)

lemma flush_pair_eq:
  assumes "flush_pair a b cx = (a', b', d)"
  shows "\<exists>da db. flush_input a cx = (a', da) \<and> flush_input b cx = (b', db) \<and> d = fx_union da db"
  using assms by (auto simp: flush_pair_def split: prod.splits)

lemma input_denormal_union: "fx_union (input_denormal fz f [y]) (input_denormal fz f [z]) = input_denormal fz f [y, z]"
  by (simp add: input_denormal_def fx_union_def)

text \<open>The operands of a binary operation after flushing.\<close>

lemma flushed_operands:
  assumes "fp_finite f a" "fp_finite f b" "f = cx_format cx" "fz = flag_set f (cx_control cx)"
  obtains a' b' where "flush_pair a b cx = (a', b', input_denormal fz f [fp_val f a, fp_val f b])"
    and "fp_finite f a'" "fp_val f a' = ftz fz f (fp_val f a)" "fp_is_negative f a' = fp_is_negative f a"
    and "fp_finite f b'" "fp_val f b' = ftz fz f (fp_val f b)" "fp_is_negative f b' = fp_is_negative f b"
proof -
  obtain a' b' d where p: "flush_pair a b cx = (a', b', d)" by (cases "flush_pair a b cx") auto
  from flush_pair_eq [OF p] obtain da db where i: "flush_input a cx = (a', da)" "flush_input b cx = (b', db)"
    and d: "d = fx_union da db" by blast
  note A = flush_input_eq [OF assms(1,3,4) i(1)] and B = flush_input_eq [OF assms(2,3,4) i(2)]
  show thesis using that [of a' b'] p A B unfolding d A(4) B(4) input_denormal_union by blast
qed

lemma fp_add_ftz:
  assumes "fp_finite f a" "fp_finite f b" "cx_rounding cx \<noteq> Fp_Odd" and f: "f = cx_format cx"
    and fz: "fz = flag_set f (cx_control cx)"
    and x: "x = ftz fz f (fp_val f a) + (if is_subtracting then - ftz fz f (fp_val f b) else ftz fz f (fp_val f b))"
  shows "\<exists>res. fp_add a b is_subtracting cx = Some (ftz_result fz f (input_denormal fz f [fp_val f a, fp_val f b]) res)
    \<and> ieee_result f (cx_rounding cx) x res
    \<and> (x = 0 \<longrightarrow> fp_is_negative f (res_bits res)
          = (if fp_is_negative f a = (fp_is_negative f b \<noteq> is_subtracting) then fp_is_negative f a
             else cx_rounding cx = Fp_Minus))"
proof -
  obtain a' b' where p: "flush_pair a b cx = (a', b', input_denormal fz f [fp_val f a, fp_val f b])"
    and v: "fp_finite f a'" "fp_val f a' = ftz fz f (fp_val f a)" "fp_is_negative f a' = fp_is_negative f a"
      "fp_finite f b'" "fp_val f b' = ftz fz f (fp_val f b)" "fp_is_negative f b' = fp_is_negative f b"
    by (rule flushed_operands [OF assms(1,2) f fz])
  show ?thesis
    using fp_add_ok [of "no_flush cx" a' b' is_subtracting, unfolded no_flush_simps, folded f, OF v(1,4) assms(3) no_flush_simps(3)]
    unfolding fp_add_flush [OF p] v x by (auto simp: flush_result_eq f fz)
qed

lemma fp_multiply_ftz:
  assumes "fp_finite f a" "fp_finite f b" "cx_rounding cx \<noteq> Fp_Odd" and f: "f = cx_format cx"
    and fz: "fz = flag_set f (cx_control cx)" and x: "x = ftz fz f (fp_val f a) * ftz fz f (fp_val f b)"
  shows "\<exists>res. fp_multiply a b cx = Some (ftz_result fz f (input_denormal fz f [fp_val f a, fp_val f b]) res)
    \<and> packed_result f (cx_rounding cx) x res
    \<and> (x = 0 \<longrightarrow> fp_is_negative f (res_bits res) = (fp_is_negative f a \<noteq> fp_is_negative f b))"
proof -
  obtain a' b' where p: "flush_pair a b cx = (a', b', input_denormal fz f [fp_val f a, fp_val f b])"
    and v: "fp_finite f a'" "fp_val f a' = ftz fz f (fp_val f a)" "fp_is_negative f a' = fp_is_negative f a"
      "fp_finite f b'" "fp_val f b' = ftz fz f (fp_val f b)" "fp_is_negative f b' = fp_is_negative f b"
    by (rule flushed_operands [OF assms(1,2) f fz])
  show ?thesis
    using fp_multiply_ok [of "no_flush cx" a' b', unfolded no_flush_simps, folded f, OF v(1,4) assms(3) no_flush_simps(3)]
    unfolding fp_multiply_flush [OF p] v x by (auto simp: flush_result_eq f fz)
qed

lemma fp_divide_ftz:
  assumes "fp_finite f a" "fp_finite f b" "cx_rounding cx \<noteq> Fp_Odd" and f: "f = cx_format cx"
    and fz: "fz = flag_set f (cx_control cx)" and x: "x = ftz fz f (fp_val f a) / ftz fz f (fp_val f b)"
    and "ftz fz f (fp_val f b) \<noteq> 0"
  shows "\<exists>res. fp_divide a b cx = Some (ftz_result fz f (input_denormal fz f [fp_val f a, fp_val f b]) res)
    \<and> packed_result f (cx_rounding cx) x res
    \<and> (x = 0 \<longrightarrow> fp_is_negative f (res_bits res) = (fp_is_negative f a \<noteq> fp_is_negative f b))"
proof -
  obtain a' b' where p: "flush_pair a b cx = (a', b', input_denormal fz f [fp_val f a, fp_val f b])"
    and v: "fp_finite f a'" "fp_val f a' = ftz fz f (fp_val f a)" "fp_is_negative f a' = fp_is_negative f a"
      "fp_finite f b'" "fp_val f b' = ftz fz f (fp_val f b)" "fp_is_negative f b' = fp_is_negative f b"
    by (rule flushed_operands [OF assms(1,2) f fz])
  show ?thesis
    using fp_divide_ok [of "no_flush cx" a' b', unfolded no_flush_simps, folded f, OF v(1,4) assms(3) no_flush_simps(3)] assms(7)
    unfolding fp_divide_flush [OF p] v x by (auto simp: flush_result_eq f fz)
qed

lemma square_root_ftz:
  assumes "fp_finite f a" "cx_rounding cx \<noteq> Fp_Odd" and f: "f = cx_format cx"
    and fz: "fz = flag_set f (cx_control cx)" and x: "x = ftz fz f (fp_val f a)"
  shows "0 < x \<Longrightarrow> \<exists>res. square_root a cx = Some (ftz_result fz f (input_denormal fz f [fp_val f a]) res)
      \<and> ieee_result f (cx_rounding cx) (sqrt x) res"
    and "x = 0 \<Longrightarrow> \<exists>b. square_root a cx = Some \<lparr> res_bits = b, res_raised = input_denormal fz f [fp_val f a] \<rparr>
      \<and> fp_finite f b \<and> fp_val f b = 0 \<and> fp_is_negative f b = fp_is_negative f a"
proof -
  obtain a' d where i: "flush_input a cx = (a', d)" by (cases "flush_input a cx")
  note v = flush_input_eq [OF assms(1) f fz i]
  note sq = square_root_flush [OF i, unfolded v(4)]
  show "\<exists>res. square_root a cx = Some (ftz_result fz f (input_denormal fz f [fp_val f a]) res)
      \<and> ieee_result f (cx_rounding cx) (sqrt x) res" if "0 < x"
    using square_root_ok [of "no_flush cx" a', unfolded no_flush_simps, folded f, OF v(1) assms(2) no_flush_simps(3)] that
    unfolding sq v x by (auto simp: flush_result_eq f fz)
  show "\<exists>b. square_root a cx = Some \<lparr> res_bits = b, res_raised = input_denormal fz f [fp_val f a] \<rparr>
      \<and> fp_finite f b \<and> fp_val f b = 0 \<and> fp_is_negative f b = fp_is_negative f a" if "x = 0"
  proof -
    have z: "fp_val f a' = 0" using that x v(2) by simp
    then have "fp_is_zero f a'" using v(1) fp_val_zero_iff [of f a'] by (simp add: fp_finite_def)
    moreover have "propagate [a'] f (cx_control cx) = None" using finite_no_nan [of "[a']" f] v(1) by simp
    ultimately have "square_root a' (no_flush cx) = Some (res_exact a')"
      unfolding square_root_def flush_unfold by (simp add: f)
    then show ?thesis
      unfolding sq using z v(1,3) by (simp add: flush_result_eq ftz_result_def res_exact_def fx_NONE_def f [symmetric] tiny_def)
  qed
qed

end
