(* ===== verification/Fp_Properties.thy ===== *)
theory Fp_Properties
  imports Fp_Flush
begin

unbundle bit_operations_syntax

text \<open>
  The properties of the floating-point unit: correct rounding of the reference backend, comparison,
  conversions and their round trips, NaN propagation, the agreement of the two backends, the engine's
  cumulative flags and its totality; and the inputs on which the code departs from IEEE 754.
\<close>

lemmas fp_eval = fp_finite_def fp_wf_def is_nan_iff is_infinite_iff fp_exp_eq fp_man_eq fp_is_negative_def
  exponent_bits_def sign_shift_def fp_val_def fp_abs_def fp_sig_def fp_unit_def exponent_bias_def
  fp_min_exponent_def

lemmas default_eval = is_flushing_def fpc_DEFAULT_def

definition double_context :: Context where
  "double_context = \<lparr> cx_format = Fp_Double, cx_rounding = Fp_Nearest, cx_control = fpc_DEFAULT \<rparr>"

lemma double_context_simps [simp]:
  "cx_format double_context = Fp_Double" "cx_rounding double_context = Fp_Nearest"
  "cx_control double_context = fpc_DEFAULT" "\<not> is_flushing Fp_Double fpc_DEFAULT"
  by (simp_all add: double_context_def default_eval)

lemma double_literals:
  "fp_finite Fp_Double 0x3ff0000000000000" "fp_val Fp_Double 0x3ff0000000000000 = 1"
  "fp_finite Fp_Double 0x4008000000000000" "fp_val Fp_Double 0x4008000000000000 = 3"
  "fp_finite Fp_Double 0x8000000000000000" "fp_val Fp_Double 0x8000000000000000 = 0"
  "fp_finite Fp_Double 1" "fp_is_negative Fp_Double 0x8000000000000000"
  by (simp_all add: fp_eval)

lemma at_least_one_no_carry: "1 \<le> \<bar>x\<bar> \<Longrightarrow> \<not> subnormal_carry f r x"
  using powi_le_iff [of "fp_min_exponent f" 0] exponent_bias_pos(1) [of f]
  by (intro no_subnormal_carry(1)) (simp add: fp_min_exponent_def)

lemmas run_defs = fpc_DEFAULT_def flush_pair_def flush_input_def is_flushing_def propagate_def is_nan_def
  is_infinite_def fp_is_zero_def fp_is_negative_def max_exponent_def exponent_bits_def mantissa_mask_def
  sign_shift_def unpack_def shl_chk_def shr_chk_def count_sub_def GUARD_BITS_def significand_mask_def
  exponent_bias_def checked_mul_def cx_pack_def rounding_context_def round_and_pack_def unpacked_is_zero_def
  normalise_def normalise_down.simps normalise_up.simps implicit_bit_def pack_normalised_def
  pack_subnormal_def round_significand_def should_round_up_def checked_add_def apply_flush_to_zero_def
  fp_with_flags_def fx_defs fx_is_empty_def fx_union_def res_raising_def res_exact_def

lemma leading_zeros_examples:
  "leading_zeros (1 :: u64) = 63" "leading_zeros (3 :: u64) = 62" "leading_zeros (12 :: u64) = 60"
  "leading_zeros (16 :: u64) = 59" "leading_zeros (0xfffffffffffffc :: u64) = 8"
  "leading_zeros (0x100000000000000 :: u64) = 7"
  "leading_zeros (2596148429267413670150060088754176 :: u128) = 17"
  using leading_zeros_eqI [of 0 "1 :: u64"] leading_zeros_eqI [of 1 "3 :: u64"] leading_zeros_eqI [of 3 "12 :: u64"]
    leading_zeros_eqI [of 4 "16 :: u64"] leading_zeros_eqI [of 55 "0xfffffffffffffc :: u64"]
    leading_zeros_eqI [of 56 "0x100000000000000 :: u64"]
    leading_zeros_eqI [of 110 "2596148429267413670150060088754176 :: u128"]
  by simp_all


section \<open>Arithmetic\<close>

text \<open>C8: Addition and subtraction are correctly rounded. For finite operands, any format, every
  rounding mode of FPCR and flush-to-zero off, fp_add does not panic and returns the exact sum rounded once, overflow
  included, with exactly the IEEE exception flags; an exact zero has the sign the mode asks for.\<close>

theorem fp_add_correct:
  fixes is_subtracting :: bool
  assumes "fp_finite (cx_format cx) a" "fp_finite (cx_format cx) b" "cx_rounding cx \<noteq> Fp_Odd"
    and "\<not> is_flushing (cx_format cx) (cx_control cx)"
    and f: "f = cx_format cx"
    and x: "x = fp_val f a + (if is_subtracting then - fp_val f b else fp_val f b)"
  shows "\<exists>res. fp_add a b is_subtracting cx = Some res \<and> ieee_result f (cx_rounding cx) x res
    \<and> (x = 0 \<longrightarrow> fp_is_negative f (res_bits res)
          = (if fp_is_negative f a = (fp_is_negative f b \<noteq> is_subtracting) then fp_is_negative f a
             else cx_rounding cx = Fp_Minus))"
  unfolding f x by (rule fp_add_ok [OF assms(1-4)])

theorem fp_add_correct_witness:
  "\<exists>res. fp_add 0x3ff0000000000000 1 False double_context = Some res
    \<and> ieee_result Fp_Double Fp_Nearest (fp_val Fp_Double 0x3ff0000000000000 + fp_val Fp_Double 1) res"
  using fp_add_correct [of double_context "0x3ff0000000000000" 1 Fp_Double _ False] double_literals by auto

text \<open>C24: Multiplication is correctly rounded. For all finite operands, every rounding mode
  of FPCR and flush-to-zero off, fp_multiply returns the exact product
  rounded once, with the IEEE exception flags and the sign rule for zeros, with one exception, which the
  theorem describes as well: a product below the normal range, and at least an eighth of the smallest
  subnormal, that rounds up to a power of two comes out as half of its units.\<close>

theorem fp_multiply_correct:
  assumes "fp_finite (cx_format cx) a" "fp_finite (cx_format cx) b" "cx_rounding cx \<noteq> Fp_Odd"
    and "\<not> is_flushing (cx_format cx) (cx_control cx)"
    and f: "f = cx_format cx" and x: "x = fp_val f a * fp_val f b"
  shows "\<exists>res. fp_multiply a b cx = Some res \<and> packed_result f (cx_rounding cx) x res
    \<and> (x = 0 \<longrightarrow> fp_is_negative f (res_bits res) = (fp_is_negative f a \<noteq> fp_is_negative f b))"
  unfolding f x by (rule fp_multiply_ok [OF assms(1-4)])

theorem fp_multiply_correct_witness:
  "\<exists>res. fp_multiply 0x4008000000000000 0x3ff0000000000000 double_context = Some res
    \<and> ieee_result Fp_Double Fp_Nearest 3 res"
  using fp_multiply_correct [of double_context "0x4008000000000000" "0x3ff0000000000000" Fp_Double 3]
    double_literals at_least_one_no_carry [of 3] by (auto simp: packed_ieee)

text \<open>C25: Division is correctly rounded. For all finite operands and a non-zero divisor, every
  rounding mode of FPCR and flush-to-zero off, fp_divide returns the
  exact quotient rounded once, with the IEEE exception flags and the sign rule for zeros, with one exception, which the
  theorem describes as well: a quotient below the normal range, and at least an eighth of the smallest
  subnormal, that rounds up to a power of two comes out as half of its units.\<close>

theorem fp_divide_correct:
  assumes "fp_finite (cx_format cx) a" "fp_finite (cx_format cx) b" "cx_rounding cx \<noteq> Fp_Odd"
    and "\<not> is_flushing (cx_format cx) (cx_control cx)"
    and f: "f = cx_format cx" and x: "x = fp_val f a / fp_val f b"
    and "fp_val f b \<noteq> 0"
  shows "\<exists>res. fp_divide a b cx = Some res \<and> packed_result f (cx_rounding cx) x res
    \<and> (x = 0 \<longrightarrow> fp_is_negative f (res_bits res) = (fp_is_negative f a \<noteq> fp_is_negative f b))"
  using fp_divide_ok [OF assms(1-4)] assms(7) unfolding f x by blast

theorem fp_divide_correct_witness:
  "\<exists>res. fp_divide 0x4008000000000000 0x3ff0000000000000 double_context = Some res
    \<and> ieee_result Fp_Double Fp_Nearest 3 res"
  using fp_divide_correct [of double_context "0x4008000000000000" "0x3ff0000000000000" Fp_Double 3]
    double_literals at_least_one_no_carry [of 3] by (auto simp: packed_ieee)

text \<open>C22: The square root of a positive finite value is correctly rounded in every format and rounding
  mode of FPCR with flush-to-zero off, subnormal operands included, with the IEEE exception flags; the integer square root underneath
  always ends.\<close>

theorem square_root_correct:
  assumes "fp_finite (cx_format cx) a" "cx_rounding cx \<noteq> Fp_Odd"
    and "\<not> is_flushing (cx_format cx) (cx_control cx)" "0 < fp_val (cx_format cx) a"
  shows "\<exists>res. square_root a cx = Some res
    \<and> ieee_result (cx_format cx) (cx_rounding cx) (sqrt (fp_val (cx_format cx) a)) res"
  by (rule square_root_ok [OF assms])

theorem square_root_correct_witness:
  "\<exists>res. square_root 0x4008000000000000 double_context = Some res
    \<and> ieee_result Fp_Double Fp_Nearest (sqrt 3) res"
  using square_root_correct [of double_context "0x4008000000000000"] double_literals by simp

text \<open>C21: Fused multiply-add is correctly rounded. For finite operands, every rounding mode of FPCR
  and flush-to-zero off, multiply_add does not panic and returns
  the exact product plus addend, with the two negations of the instruction applied, rounded once with
  the IEEE exception flags, an exact zero having the sign the mode asks for, unless operands of opposite
  signs are aligned with a loss of bits; with one exception, which the
  theorem describes as well: a result below the normal range, and at least an eighth of the smallest
  subnormal, that rounds up to a power of two comes out as half of its units.\<close>

theorem fused_multiply_add_correct:
  assumes "fp_finite f (fo_multiplicand ops)" "fp_finite f (fo_multiplier ops)" "fp_finite f (fo_addend ops)"
    and f: "f = cx_format cx"
    and n: "n = ((fp_is_negative f (fo_multiplicand ops) \<noteq> fp_is_negative f (fo_multiplier ops)) \<noteq> fo_product_negated ops)"
    and n': "n' = (fp_is_negative f (fo_addend ops) \<noteq> fo_addend_negated ops)"
    and x: "x = (if fo_product_negated ops then - 1 else 1) * (fp_val f (fo_multiplicand ops) * fp_val f (fo_multiplier ops))
      + (if fo_addend_negated ops then - 1 else 1) * fp_val f (fo_addend ops)"
    and "\<not> borrow_lost ops cx"
    and "cx_rounding cx \<noteq> Fp_Odd" "\<not> is_flushing f (cx_control cx)"
  shows "\<exists>res. multiply_add ops cx = Some res \<and> packed_result f (cx_rounding cx) x res
    \<and> (x = 0 \<longrightarrow> fp_is_negative f (res_bits res) = (if n = n' then n else cx_rounding cx = Fp_Minus))"
proof -
  note addend = signed_addend_ok [OF assms(3)]
  have "x = (if fo_product_negated ops then - 1 else 1) * (fp_val f (fo_multiplicand ops) * fp_val f (fo_multiplier ops))
      + fp_val f (signed_addend ops f)"
    by (simp add: x addend)
  from multiply_add_ok [OF assms(1-5) this assms(8-10)] show ?thesis by (auto simp: n' addend)
qed

definition three_plus_one :: FusedOperands where
  "three_plus_one = \<lparr> fo_multiplicand = 0x4008000000000000, fo_multiplier = 0x3ff0000000000000,
     fo_addend = 0x3ff0000000000000, fo_product_negated = False, fo_addend_negated = False \<rparr>"

theorem fused_multiply_add_correct_witness:
  "\<exists>res. multiply_add three_plus_one double_context = Some res \<and> ieee_result Fp_Double Fp_Nearest 4 res"
proof -
  have "\<not> borrow_lost three_plus_one double_context"
    by (simp add: borrow_lost_def three_plus_one_def exact_product_def unpack_def signed_addend_def run_defs
        leading_zeros_examples)
  then show ?thesis
    using fused_multiply_add_correct [of Fp_Double three_plus_one double_context False False 4]
      double_literals at_least_one_no_carry [of 4]
    by (auto simp: packed_ieee three_plus_one_def fp_is_negative_def sign_shift_def exponent_bits_def)
qed

text \<open>C23: Rounding to nearest means nearest. In the two nearest modes, with flush-to-zero off, no floating-point number of the format
  is closer to the exact sum or difference than the result of fp_add, unless that overflows.\<close>

theorem fp_add_nearest:
  fixes is_subtracting :: bool
  assumes "fp_finite (cx_format cx) a" "fp_finite (cx_format cx) b"
    and r: "cx_rounding cx = Fp_Nearest \<or> cx_rounding cx = Fp_NearestAway"
    and "\<not> is_flushing (cx_format cx) (cx_control cx)"
    and f: "f = cx_format cx"
    and x: "x = fp_val f a + (if is_subtracting then - fp_val f b else fp_val f b)"
  shows "\<exists>res. fp_add a b is_subtracting cx = Some res
    \<and> (fp_finite f (res_bits res) \<longrightarrow> (\<forall>c. \<bar>fp_val f (res_bits res) - x\<bar> \<le> \<bar>fp_val f c - x\<bar>))"
proof -
  have "cx_rounding cx \<noteq> Fp_Odd" using r by auto
  from fp_add_ok [OF assms(1,2) this assms(4)] obtain res
    where "fp_add a b is_subtracting cx = Some res" "ieee_result f (cx_rounding cx) x res"
    unfolding f x by blast
  then show ?thesis using nearest_result [OF r] by blast
qed

theorem fp_add_nearest_witness:
  "\<exists>res. fp_add 0x3ff0000000000000 1 False double_context = Some res
    \<and> (fp_finite Fp_Double (res_bits res) \<longrightarrow>
        (\<forall>c. \<bar>fp_val Fp_Double (res_bits res) - (1 + fp_val Fp_Double 1)\<bar> \<le> \<bar>fp_val Fp_Double c - (1 + fp_val Fp_Double 1)\<bar>))"
  using fp_add_nearest [of double_context "0x3ff0000000000000" 1 Fp_Double _ False] double_literals by auto

text \<open>C26: Flush-to-zero acts on operands and result only. In either setting of FPCR.FZ, or FZ16 in half
  precision, and every rounding mode of FPCR: with the flag set an operand that is not zero and below the
  normal range counts as a zero of its sign and raises input denormal; addition, subtraction,
  multiplication, division and square root then return the value computed from these operands, rounded
  once; and a result that is not zero and below the normal range becomes a zero of its sign that raises
  underflow and inexact. Stated for finite operands over their real values.\<close>

theorem flush_to_zero_arithmetic:
  assumes "fp_finite f a" "fp_finite f b" "cx_rounding cx \<noteq> Fp_Odd" and f: "f = cx_format cx"
    and fz: "fz = flag_set f (cx_control cx)"
    and y: "y = ftz fz f (fp_val f a)" and z: "z = ftz fz f (fp_val f b)"
    and d: "d = input_denormal fz f [fp_val f a, fp_val f b]"
    and s: "s = (if is_subtracting then y - z else y + z)"
  shows "(\<exists>res. fp_add a b is_subtracting cx = Some (ftz_result fz f d res) \<and> ieee_result f (cx_rounding cx) s res
      \<and> (s = 0 \<longrightarrow> fp_is_negative f (res_bits res)
          = (if fp_is_negative f a = (fp_is_negative f b \<noteq> is_subtracting) then fp_is_negative f a
             else cx_rounding cx = Fp_Minus)))
    \<and> (\<exists>res. fp_multiply a b cx = Some (ftz_result fz f d res) \<and> packed_result f (cx_rounding cx) (y * z) res
      \<and> (y * z = 0 \<longrightarrow> fp_is_negative f (res_bits res) = (fp_is_negative f a \<noteq> fp_is_negative f b)))
    \<and> (z \<noteq> 0 \<longrightarrow> (\<exists>res. fp_divide a b cx = Some (ftz_result fz f d res) \<and> packed_result f (cx_rounding cx) (y / z) res
      \<and> (y = 0 \<longrightarrow> fp_is_negative f (res_bits res) = (fp_is_negative f a \<noteq> fp_is_negative f b))))
    \<and> (0 < y \<longrightarrow> (\<exists>res. square_root a cx = Some (ftz_result fz f (input_denormal fz f [fp_val f a]) res)
      \<and> ieee_result f (cx_rounding cx) (sqrt y) res))
    \<and> (y = 0 \<longrightarrow> (\<exists>w. square_root a cx = Some \<lparr> res_bits = w, res_raised = input_denormal fz f [fp_val f a] \<rparr>
      \<and> fp_finite f w \<and> fp_val f w = 0 \<and> fp_is_negative f w = fp_is_negative f a))"
proof (intro conjI impI)
  note ctx = assms(1-3) f fz
  have s': "s = y + (if is_subtracting then - z else z)" by (simp add: s)
  show "\<exists>res. fp_add a b is_subtracting cx = Some (ftz_result fz f d res) \<and> ieee_result f (cx_rounding cx) s res
      \<and> (s = 0 \<longrightarrow> fp_is_negative f (res_bits res)
          = (if fp_is_negative f a = (fp_is_negative f b \<noteq> is_subtracting) then fp_is_negative f a
             else cx_rounding cx = Fp_Minus))"
    unfolding d by (rule fp_add_ftz [OF ctx s' [unfolded y z]])
  show "\<exists>res. fp_multiply a b cx = Some (ftz_result fz f d res) \<and> packed_result f (cx_rounding cx) (y * z) res
      \<and> (y * z = 0 \<longrightarrow> fp_is_negative f (res_bits res) = (fp_is_negative f a \<noteq> fp_is_negative f b))"
    unfolding d y z by (rule fp_multiply_ftz [OF ctx refl])
  show "\<exists>res. fp_divide a b cx = Some (ftz_result fz f d res) \<and> packed_result f (cx_rounding cx) (y / z) res
      \<and> (y = 0 \<longrightarrow> fp_is_negative f (res_bits res) = (fp_is_negative f a \<noteq> fp_is_negative f b))" if "z \<noteq> 0"
    using fp_divide_ftz [OF ctx refl] that unfolding d y z by auto
  show "\<exists>res. square_root a cx = Some (ftz_result fz f (input_denormal fz f [fp_val f a]) res)
      \<and> ieee_result f (cx_rounding cx) (sqrt y) res" if "0 < y"
    by (rule square_root_ftz(1) [OF assms(1,3) f fz y that])
  show "\<exists>w. square_root a cx = Some \<lparr> res_bits = w, res_raised = input_denormal fz f [fp_val f a] \<rparr>
      \<and> fp_finite f w \<and> fp_val f w = 0 \<and> fp_is_negative f w = fp_is_negative f a" if "y = 0"
    by (rule square_root_ftz(2) [OF assms(1,3) f fz y that])
qed

definition flushing_context :: Context where
  "flushing_context = double_context\<lparr>cx_control := fpc_DEFAULT\<lparr>is_flush_to_zero := True\<rparr>\<rparr>"

theorem flush_to_zero_arithmetic_witness:
  "\<exists>res. fp_add 0x3ff0000000000000 0x8000000000000001 False flushing_context = Some (ftz_result True Fp_Double (2 ^ 7) res)
     \<and> ieee_result Fp_Double Fp_Nearest 1 res"
proof -
  have ctx: "cx_format flushing_context = Fp_Double" "cx_rounding flushing_context = Fp_Nearest"
    "flag_set Fp_Double (cx_control flushing_context)"
    by (simp_all add: flushing_context_def flag_set_def)
  have val: "fp_finite Fp_Double 0x8000000000000001" "fp_val Fp_Double 0x8000000000000001 = - (2 powi (- 1074))"
    by (simp_all add: fp_eval)
  have "(2::real) powi (- 1074) < 2 powi (- 1022)" by (rule power_int_strict_increasing) simp_all
  then have t: "tiny Fp_Double (- (2 powi (- 1074)))" "\<not> tiny Fp_Double 1"
    by (simp_all add: tiny_def fp_min_exponent_def exponent_bias_def exponent_bits_def power_int_minus)
  show ?thesis
    using flush_to_zero_arithmetic [OF double_literals(1) val(1), of flushing_context True 1 0 "2 ^ 7" 1 False]
    unfolding ctx double_literals val using t ctx(3) by (auto simp: ftz_def input_denormal_def)
qed

text \<open>C30: Comparison orders the values. For well-formed patterns of any format, infinities, subnormals and
  both zeros included, fp_compare answers the order of the real values and raises nothing; with a NaN
  it answers unordered and raises invalid exactly for a signalling comparison or a signalling NaN.\<close>

theorem fp_compare_correct:
  assumes "fp_wf f a" "fp_wf f b"
  shows "fp_compare a b f is_signalling =
    (if is_nan f a \<or> is_nan f b
     then (Fp_Unordered,
           if is_signalling \<or> is_signalling_nan f a \<or> is_signalling_nan f b then fx_INVALID else fx_NONE)
     else (if fp_val f a < fp_val f b then Fp_Less else if fp_val f a = fp_val f b then Fp_Equal else Fp_Greater,
           fx_NONE))"
  using fp_compare_ok [OF assms, of is_signalling] by (simp add: compare_values_def)

theorem fp_compare_correct_witness:
  "fp_compare 0x8000000000000000 0x4008000000000000 Fp_Double False = (Fp_Less, fx_NONE)"
  using fp_compare_correct [of Fp_Double "0x8000000000000000" "0x4008000000000000" False] double_literals
  by (simp add: fp_finite_def)

text \<open>C39: NaNs propagate. When no operand is a NaN nothing is decided. Otherwise the result is, under
  FPCR.DN, the pattern of ones from the top bit of the mantissa up to the sign, and without DN the first
  NaN operand with the top bit of its mantissa set and every other bit kept, payload and sign; invalid is
  raised exactly when an operand is a signalling NaN, and no other flag. NaNs are told by their bits.\<close>

theorem nan_propagates:
  "case propagate operands f control of
     None \<Rightarrow> \<forall>b\<in>set operands. \<not> nan_pattern f b
   | Some res \<Rightarrow> \<exists>i < length operands. nan_pattern f (operands ! i) \<and> (\<forall>j < i. \<not> nan_pattern f (operands ! j))
       \<and> (\<forall>k. bit (res_bits res) k \<longleftrightarrow>
           (if is_default_nan control then mantissa_bits f - 1 \<le> k \<and> k < fp_bits f - 1
            else k = mantissa_bits f - 1 \<or> bit (operands ! i) k))
       \<and> (\<forall>k. bit (res_raised res) k \<longleftrightarrow> k = 0 \<and> (\<exists>b\<in>set operands. signalling_pattern f b))"
proof (cases "find (is_nan f) operands")
  case None
  then have "propagate operands f control = None" by (simp add: propagate_def Let_def)
  with None show ?thesis by (auto simp: nan_pattern_iff find_None_iff)
next
  case (Some b)
  then obtain i where "i < length operands" "is_nan f (operands ! i)" "b = operands ! i"
    "\<forall>j < i. \<not> is_nan f (operands ! j)"
    by (auto simp: find_Some_iff)
  moreover from this have "propagate operands f control = Some (res_raising
      (if is_default_nan control then default_nan f else quieten f (operands ! i))
      (if \<exists>b\<in>set operands. is_signalling_nan f b then fx_INVALID else fx_NONE))"
    using Some by (simp add: propagate_def Let_def quiet_result_def list_ex_iff)
  moreover have "bit (if c then fx_INVALID else fx_NONE) k \<longleftrightarrow> k = 0 \<and> c" for c k
    by (simp add: fx_defs bit_1_iff)
  ultimately show ?thesis
    using default_nan_bits [of f] quieten_bits [of f "operands ! i"]
    by (simp add: res_raising_def nan_pattern_iff signalling_pattern_iff) blast
qed

theorem nan_propagates_witness:
  "\<exists>res. propagate [0x3ff0000000000000, 0x7ff0000000000001] Fp_Double fpc_DEFAULT = Some res
     \<and> bit (res_bits res) 0 \<and> bit (res_bits res) 51 \<and> bit (res_raised res) 0"
proof -
  let ?ops = "[0x3ff0000000000000, 0x7ff0000000000001] :: u64 list"
  have n: "\<not> nan_pattern Fp_Double 0x3ff0000000000000" "nan_pattern Fp_Double 0x7ff0000000000001"
    "signalling_pattern Fp_Double 0x7ff0000000000001"
    by code_simp+
  from nan_propagates [of ?ops Fp_Double fpc_DEFAULT] show ?thesis
    using n by (cases "propagate ?ops Fp_Double fpc_DEFAULT")
      (auto simp: fpc_DEFAULT_def less_Suc_eq_0_disj numeral_2_eq_2 nth_Cons')
qed


section \<open>Conversions\<close>

text \<open>C37: A change of format is correctly rounded, with the IEEE exception flags and the sign of a zero
  kept, for every finite operand, pair of formats and rounding mode of FPCR with flush-to-zero off, with one exception, which the
  theorem describes as well: a value below the normal range of the target, and at least an eighth of the smallest
  subnormal, that rounds up to a power of two comes out as half of its units.\<close>

theorem convert_format_correct:
  assumes "fp_finite s b" "r \<noteq> Fp_Odd" "\<not> is_flushing t control"
  shows "\<exists>res. convert_format b s t control r = Some res \<and> packed_result t r (fp_val s b) res
    \<and> (fp_val s b = 0 \<longrightarrow> fp_is_negative t (res_bits res) = fp_is_negative s b)"
  by (rule convert_format_ok [OF assms])

theorem convert_format_correct_witness:
  "\<exists>res. convert_format 0x4008000000000000 Fp_Double Fp_Half fpc_DEFAULT Fp_Nearest = Some res
    \<and> ieee_result Fp_Half Fp_Nearest 3 res"
  using convert_format_correct [of Fp_Double "0x4008000000000000" Fp_Nearest Fp_Half fpc_DEFAULT]
    double_literals at_least_one_no_carry [of 3] by (auto simp: default_eval packed_ieee)

text \<open>C28: Widening loses nothing. A finite value converted to a format at least as wide is exact and
  raises nothing, and converting back, under any rounding modes of FPCR with flush-to-zero off, gives the
  original bits, the sign of zero included.\<close>

theorem widen_narrow_roundtrip:
  assumes "fp_bits s \<le> fp_bits t" "fp_finite s b" "r \<noteq> Fp_Odd" "r' \<noteq> Fp_Odd"
    and "\<not> is_flushing t c" "\<not> is_flushing s c'"
  shows "\<exists>w. convert_format b s t c r = Some (res_exact w) \<and> fp_val t w = fp_val s b
    \<and> convert_format w t s c' r' = Some (res_exact b)"
  using widen_narrow [OF _ assms(2-6)] assms(1) by (simp add: embeds_def)

theorem widen_narrow_roundtrip_witness:
  "\<exists>w. convert_format 1 Fp_Single Fp_Double fpc_DEFAULT Fp_Nearest = Some (res_exact w)
    \<and> fp_val Fp_Double w = fp_val Fp_Single 1
    \<and> convert_format w Fp_Double Fp_Single fpc_DEFAULT Fp_Plus = Some (res_exact 1)"
  by (rule widen_narrow_roundtrip) (simp_all add: fp_eval default_eval)

text \<open>C38: An integer becomes the nearest value. In every rounding mode of FPCR with flush-to-zero off,
  from_integer reads 32 or 64 bits at their signedness and returns that integer correctly rounded to the format, with the IEEE exception flags; zero is positive.\<close>

theorem from_integer_correct:
  assumes "int_bits i = 32 \<or> int_bits i = 64" "r \<noteq> Fp_Odd" "\<not> is_flushing f control"
  shows "\<exists>res. from_integer w i f r control = Some res \<and> ieee_result f r (real_of_int (int_value i w)) res
    \<and> (int_value i w = 0 \<longrightarrow> res_bits res = 0)"
  using from_integer_ok [OF _ assms(2,3)] assms(1) by (simp add: int_wf_def)

theorem from_integer_correct_witness:
  "\<exists>res. from_integer (- 5) int_S64 Fp_Half Fp_Minus fpc_DEFAULT = Some res \<and> ieee_result Fp_Half Fp_Minus (- 5) res"
  using from_integer_correct [of int_S64 Fp_Minus Fp_Half fpc_DEFAULT "- 5"]
  by (auto simp: int_S64_def int_value_def default_eval)

text \<open>C27: A value becomes the rounded integer, saturated. For every finite value below 2^128 to_integer
  rounds to an integer in the given mode, clamps it to the range of the register and returns it at the
  register's width; it raises invalid when the integer is out of range, or a negative value meets an
  unsigned register, and otherwise inexact exactly when a fraction was lost.\<close>

theorem to_integer_correct:
  assumes "fp_finite f b" "int_bits i = 32 \<or> int_bits i = 64" "r \<noteq> Fp_Odd" "\<bar>fp_val f b\<bar> < 2 ^ 128"
    and n: "n = int_rounded r (fp_val f b)"
  shows "to_integer b f i r = Some (res_raising
    (mask_to_width (of_int (max (int_lowest i) (min (int_highest i) n))) i)
    (if n < int_lowest i \<or> int_highest i < n \<or> (\<not> int_signed i \<and> fp_val f b < 0) then fx_INVALID
     else if real_of_int n \<noteq> fp_val f b then fx_INEXACT else fx_NONE))"
  using to_integer_ok [OF assms(1) _ assms(3) _ n] assms(2,4) by (simp add: int_wf_def int_clamped_def abs_fp_val)

theorem to_integer_correct_witness:
  "to_integer 0x4008000000000000 Fp_Double int_S32 Fp_Nearest = Some (res_raising 3 fx_NONE)"
proof -
  have "int_rounded Fp_Nearest 3 = 3" using round_int_of_nat [of Fp_Nearest False 3] by (simp add: int_rounded_def)
  then show ?thesis
    using to_integer_correct [of Fp_Double "0x4008000000000000" int_S32 Fp_Nearest 3] double_literals
    by (simp add: int_S32_def int_lowest_def int_highest_def mask_to_width_def)
qed

text \<open>C29: Rounding to an integral value is exact. For a finite operand, any format and every rounding mode of
  FPCR with flush-to-zero off, round_to_integral returns the integer the mode selects as a number of the format, with the
  operand's sign also where that integer is zero, and raises no exception.\<close>

theorem round_to_integral_correct:
  assumes "fp_finite f b" "r \<noteq> Fp_Odd" "\<not> is_flushing f control"
  shows "\<exists>w. round_to_integral b f r control = Some (res_exact w) \<and> fp_finite f w
    \<and> fp_val f w = real_of_int (int_rounded r (fp_val f b)) \<and> fp_is_negative f w = fp_is_negative f b"
  using assms by (rule round_to_integral_ok)

theorem round_to_integral_correct_witness:
  "\<exists>w. round_to_integral 0x3fe0000000000000 Fp_Double Fp_Plus fpc_DEFAULT = Some (res_exact w)
    \<and> fp_val Fp_Double w = 1"
proof -
  have half: "fp_finite Fp_Double 0x3fe0000000000000" "fp_val Fp_Double 0x3fe0000000000000 = 1 / 2"
    by (simp_all add: fp_eval)
  have "int_rounded Fp_Plus (1 / 2) = 1" by (simp add: int_rounded_def round_int_def ceiling_eq_iff)
  then show ?thesis
    using round_to_integral_correct [of Fp_Double "0x3fe0000000000000" Fp_Plus fpc_DEFAULT] half by auto
qed


section \<open>The engine\<close>

text \<open>C9: The backends agree. On a host that follows IEEE 754, in default mode, the native backend gives
  the bits of the reference for every arithmetic operation on finite operands in its domain, the same
  order for every comparison, and the same bits for every change of format in its domain.\<close>

theorem backends_agree:
  assumes "ieee_host H" "is_default_mode control"
  shows "(binary_domain op ops \<longrightarrow> map_option res_bits (native_binary H op ops control)
        = map_option res_bits (soft_binary op ops control))
    \<and> (fp_wf (op_format ops) (op_lhs ops) \<and> fp_wf (op_format ops) (op_rhs ops) \<longrightarrow>
        fst (native_compare H ops s) = fst (soft_compare ops s))
    \<and> (conversion_domain v t \<longrightarrow> map_option res_bits (native_convert_format H v t control)
        = map_option res_bits (soft_convert_format v t control))"
proof -
  note native = ieee_host.native_backend [OF assms(1)]
  show ?thesis
    using soft.agrees [OF native _ default_mode_off [OF assms(2)], of op ops]
      soft.agrees_ordering [OF native, of ops s] soft.agrees_conversion [OF native assms(2), of v t]
    by (simp add: native_def softfloat_def)
qed

definition three_over_one :: FpOperands where
  "three_over_one = operands_new 0x4008000000000000 0x3ff0000000000000 Fp_Double Fp_Nearest"

theorem backends_agree_witness:
  "map_option res_bits (native_binary reference_host FpBin_Div three_over_one fpc_DEFAULT)
     = map_option res_bits (soft_binary FpBin_Div three_over_one fpc_DEFAULT)"
proof -
  have "binary_domain FpBin_Div three_over_one"
    using double_literals at_least_one_no_carry [of 3]
    by (simp add: binary_domain_def is_arithmetic_def exact_binary_def three_over_one_def operands_new_def)
  then show ?thesis
    using backends_agree [OF reference.ieee_host_axioms default_mode_DEFAULT, of FpBin_Div three_over_one] by blast
qed

text \<open>C31: The engine keeps its backend in step with FPCR and never loses a flag. Along any sequence of
  FPCR writes and operations, the native backend is selected exactly in default mode of a build that is
  not precise, and every FPSR bit that was set stays set; in a precise build the run does not depend
  on the host.\<close>

theorem engine_runs:
  assumes "engine_run H precise (engine_set_exceptions (engine_with_fpcr precise fpcr) fpsr) calls e"
  shows "(en_selected e = Selected_Native \<longleftrightarrow> \<not> precise \<and> is_default_mode (en_control e))
    \<and> fpsr AND en_exceptions e = fpsr
    \<and> (precise \<longrightarrow> engine_run H' precise (engine_set_exceptions (engine_with_fpcr precise fpcr) fpsr) calls e)"
proof -
  let ?e = "engine_set_exceptions (engine_with_fpcr precise fpcr) fpsr"
  have ok: "engine_ok precise ?e" by simp
  have "en_exceptions ?e = fpsr" by (simp add: engine_set_exceptions_def)
  with engine_run_ok [OF assms ok] precise_run_host_independent [of H ?e calls e H'] assms ok
  show ?thesis by (auto simp: engine_ok_def)
qed

theorem engine_runs_witness:
  "\<exists>e. engine_run reference_host False (engine_set_exceptions (engine_with_fpcr False 0) 16)
         [Call_Set_Fpcr (push_bit 24 1)] e
     \<and> en_selected e = Selected_Reference \<and> 16 AND en_exceptions e = 16"
proof -
  let ?e = "engine_set_exceptions (engine_with_fpcr False 0) 16"
  let ?e' = "engine_set_fpcr False ?e (push_bit 24 1)"
  have run: "engine_run reference_host False ?e [Call_Set_Fpcr (push_bit 24 1)] ?e'"
    by (rule run_call [OF _ run_nil]) simp
  have "\<not> is_default_mode (en_control ?e')"
    by (simp add: engine_set_fpcr_def is_default_mode_def fpc_from_bits_def fpcr_defs)
  then show ?thesis
    using run engine_runs [OF run] by (intro exI [of _ ?e']) (cases "en_selected ?e'"; simp)
qed

text \<open>C10: The floating-point unit never panics. From any state of the engine, whatever the host's operators
  return and whatever FPCR is set to on the way, every sequence of operations on operands of the width
  of their formats, NaNs, infinities and subnormals included, runs to the end.\<close>

theorem engine_never_panics:
  assumes "\<forall>c\<in>set calls. call_wf c"
  shows "\<exists>e'. engine_run H precise e calls e'"
  using assms by (rule engine_run_total)

theorem engine_never_panics_witness:
  "\<exists>e'. engine_run reference_host False (engine_new False)
     [Call_Set_Fpcr (- 1), Call_Binary FpBin_Div (operands_new 0x7ff0000000000001 0 Fp_Double Fp_Odd),
      Call_To_Integer (value_new 0x7c00 Fp_Half) \<lparr> ti_format = int_U64, ti_rounding = Fp_Minus, ti_fractional_bits = 0 \<rparr>] e'"
  by (rule engine_never_panics)
    (simp add: operands_wf_def value_wf_def operands_new_def value_new_def int_wf_def int_U64_def fp_wf_def)

text \<open>C11: Results have the width of their destination. Both backends return, for operands of the width of
  their formats, a bit pattern of the destination format, and conversions to integers a value of the
  width of the register; so the result of every operation is an operand of the next.\<close>

theorem results_well_formed:
  assumes "be = softfloat \<or> be = native H"
    and "operands_wf ops" "value_wf v" "fma_wf fops" "int_wf (ti_format it)" "int_wf (fi_format src)"
  shows "(\<exists>res. be_binary be op ops control = Some res \<and> fp_wf (op_format ops) (res_bits res))
    \<and> (\<exists>res. be_unary be un v r control = Some res \<and> fp_wf (val_format v) (res_bits res))
    \<and> (\<exists>res. be_fused_multiply_add be fops control = Some res \<and> fp_wf (fma_format fops) (res_bits res))
    \<and> (\<exists>res. be_convert_format be v target control = Some res \<and> fp_wf target (res_bits res))
    \<and> (\<exists>res. be_to_integer be v it control = Some res \<and> unat (res_bits res) < 2 ^ int_bits (ti_format it))
    \<and> (\<exists>res. be_convert_from_integer be w src control = Some res \<and> fp_wf (fi_target src) (res_bits res))"
proof -
  have t: "total_backend be"
    using assms(1) soft_total.total_backend_axioms native_total.total_backend_axioms by blast
  show ?thesis
    using total_backend.binary_total [OF t assms(2)] total_backend.unary_total [OF t assms(3)]
      total_backend.fma_total [OF t assms(4)] total_backend.convert_total [OF t assms(3)]
      total_backend.to_integer_total [OF t assms(3,5)] total_backend.from_integer_total [OF t assms(6)]
    unfolding returns_def fp_wf_def by blast
qed

definition three_times_one :: FpFmaOperands where
  "three_times_one = \<lparr> fma_multiplicand = 0x4008000000000000, fma_multiplier = 0x3ff0000000000000, fma_addend = 0,
     fma_format = Fp_Double, fma_rounding = Fp_Zero, fma_product_negated = True, fma_addend_negated = False \<rparr>"

theorem results_well_formed_witness:
  "(\<exists>res. be_binary softfloat FpBin_Sub three_over_one fpc_DEFAULT = Some res \<and> fp_wf Fp_Double (res_bits res))
   \<and> (\<exists>res. be_convert_format softfloat (value_new 0x7e01 Fp_Half) Fp_Single fpc_DEFAULT = Some res
       \<and> fp_wf Fp_Single (res_bits res))"
proof -
  have wf: "operands_wf three_over_one" "value_wf (value_new 0x7e01 Fp_Half)" "fma_wf three_times_one"
    by (simp_all add: operands_wf_def value_wf_def fma_wf_def value_new_def three_over_one_def three_times_one_def
        operands_new_def fp_wf_def)
  have "op_format three_over_one = Fp_Double" by (simp add: three_over_one_def operands_new_def)
  with results_well_formed [where be = softfloat, OF disjI1 [OF refl] wf,
      of "\<lparr> ti_format = int_S32, ti_rounding = Fp_Zero, ti_fractional_bits = 0 \<rparr>"
         "\<lparr> fi_format = int_S64, fi_target = Fp_Half, fi_rounding = Fp_Zero, fi_fractional_bits = 0 \<rparr>" FpBin_Sub fpc_DEFAULT]
  show ?thesis by (simp add: int_wf_def int_S32_def int_S64_def)
qed


section \<open>Departures from IEEE 754\<close>

definition half_context :: Context where
  "half_context = \<lparr> cx_format = Fp_Half, cx_rounding = Fp_Nearest, cx_control = fpc_DEFAULT \<rparr>"

text \<open>A carry out of a subnormal significand is lost. Three times the smallest half-precision number
  times one half lies halfway between one and two units and rounds to two; the code returns one. When
  the increment carries into a new leading bit round_significand halves the significand and raises the
  exponent, and pack_subnormal discards the exponent.\<close>

theorem subnormal_carry_halves:
  "fp_multiply 3 0x3800 half_context = Some (res_raising 1 (fx_union fx_INEXACT fx_UNDERFLOW))
   \<and> fp_val Fp_Half 3 * fp_val Fp_Half 0x3800 = 3 / 2 * fp_val Fp_Half 1
   \<and> fp_rounded Fp_Half Fp_Nearest (fp_val Fp_Half 3 * fp_val Fp_Half 0x3800) = fp_val Fp_Half 2"
proof -
  have run: "fp_multiply 3 0x3800 half_context = Some (res_raising 1 (fx_union fx_INEXACT fx_UNDERFLOW))"
    by (simp add: fp_multiply_def multiply_specials_def half_context_def run_defs narrow_def
        significand_scale_def leading_zeros_examples)
  have x: "fp_val Fp_Half 3 * fp_val Fp_Half 0x3800 = 3 / 2 * 2 powi (- 24)"
    and u: "fp_val Fp_Half 1 = 2 powi (- 24)" "fp_val Fp_Half 2 = 2 * 2 powi (- 24)"
    by (simp_all add: fp_eval)
  let ?x = "3 / 2 * 2 powi (- 24) :: real"
  have "?x < 2 powi fp_min_exponent Fp_Half" by (simp add: fp_eval)
  moreover have "0 < ?x" by simp
  ultimately have "max \<lfloor>log 2 \<bar>?x\<bar>\<rfloor> (fp_min_exponent Fp_Half) - int (mantissa_bits Fp_Half) = - 24"
    using subnormal_quantum [of ?x Fp_Half] by (simp add: fp_eval)
  then have q: "fp_quantum Fp_Half ?x = 2 powi (- 24)" by (simp only: fp_quantum_def)
  have "fp_rounded Fp_Half Fp_Nearest ?x = 2 * 2 powi (- 24)"
    unfolding fp_rounded_def q by (simp add: round_int_def)
  then show ?thesis using run unfolding x u by blast
qed

text \<open>A value of 2^130 converts to the integer zero and raises nothing: the 128-bit shift in
  \<open>integral_magnitude\<close> drops the significand for exponents from 128 up to 127 places above the scale.\<close>

theorem to_integer_wraps:
  "to_integer 0x4810000000000000 Fp_Double int_S64 Fp_Zero = Some (res_exact 0)
   \<and> fp_val Fp_Double 0x4810000000000000 = 2 ^ 130"
  by (simp add: to_integer_def run_defs integral_magnitude_def encode_integer_def magnitude_limit_def
      mask_to_width_def int_S64_def) (simp add: fp_eval)

definition below_half_way :: FusedOperands where
  "below_half_way = \<lparr> fo_multiplicand = 0x3ff0000002000000, fo_multiplier = 0x3feffffffc000000,
     fo_addend = 0x8000000000000001, fo_product_negated = False, fo_addend_negated = False \<rparr>"

text \<open>A fused multiply-add loses a borrow. The product (1 + 2^-27) * (1 - 2^-27) lies halfway between
  1 - 2^-53 and 1, and subtracting the smallest subnormal puts the exact result below the middle; the
  alignment reduces the addend to a sticky bit, which \<open>fused_accumulate\<close> adds to the difference
  instead of borrowing for it, and the code returns 1.\<close>

theorem fused_borrow_lost:
  "map_option res_bits (multiply_add below_half_way double_context) = Some 0x3ff0000000000000
   \<and> fp_rounded Fp_Double Fp_Nearest (fp_val Fp_Double (fo_multiplicand below_half_way)
       * fp_val Fp_Double (fo_multiplier below_half_way) + fp_val Fp_Double (fo_addend below_half_way))
     = fp_val Fp_Double 0x3fefffffffffffff"
proof -
  have run: "map_option res_bits (multiply_add below_half_way double_context) = Some 0x3ff0000000000000"
    by (simp add: below_half_way_def double_context_def multiply_add_def run_defs special_cases_def
        signed_addend_def exact_product_def fused_accumulate_def fused_align_def shift_right_sticky_def
        round_wide_def leading_zeros_examples)
  define t :: real where "t = 2 powi (- 1074)"
  have val: "fp_val Fp_Double 0x3ff0000002000000 = 1 + 1 / 2 ^ 27" "fp_val Fp_Double 0x3feffffffc000000 = 1 - 1 / 2 ^ 27"
      "fp_val Fp_Double 0x3fefffffffffffff = 1 - 1 / 2 ^ 53"
    by (simp_all add: fp_eval power_int_minus)
  have val_t: "fp_val Fp_Double 0x8000000000000001 = - t" by (simp add: fp_eval t_def)
  have t: "0 < t" "t < 1 / 2 ^ 54"
  proof -
    have "t < 2 powi (- 54)" unfolding t_def by (rule power_int_strict_increasing) simp_all
    then show "t < 1 / 2 ^ 54" by (simp add: power_int_minus field_simps)
  qed (simp add: t_def)
  define x where "x = 1 - 1 / 2 ^ 54 - t"
  from t have x: "1 / 2 < x" "x < 1" by (simp_all add: x_def)
  have "\<lfloor>log 2 x\<rfloor> = - 1" using x by (intro floor_log_eq) (simp_all add: power_int_minus)
  then have q: "fp_quantum Fp_Double x = 1 / 2 ^ 53"
    using x by (simp add: fp_quantum_def fp_min_exponent_def exponent_bias_def exponent_bits_def power_int_minus)
  have scaled: "x * 2 ^ 53 = 2 ^ 53 - 1 / 2 - t * 2 ^ 53" by (simp add: x_def field_simps)
  have small: "0 < t * 2 ^ 53" "t * 2 ^ 53 < 1 / 2" using t by (simp_all add: field_simps)
  then have "\<lfloor>x * 2 ^ 53\<rfloor> = 2 ^ 53 - 1" unfolding scaled by (intro floor_unique) simp_all
  then have "round_int Fp_Nearest False (x * 2 ^ 53) = 2 ^ 53 - 1"
    using small unfolding round_int_def scaled by simp
  then have "fp_rounded Fp_Double Fp_Nearest x = 1 - 1 / 2 ^ 53"
    unfolding fp_rounded_def q using x by (simp add: field_simps)
  moreover have "fp_val Fp_Double (fo_multiplicand below_half_way) * fp_val Fp_Double (fo_multiplier below_half_way)
      + fp_val Fp_Double (fo_addend below_half_way) = x"
    unfolding below_half_way_def FusedOperands.simps val val_t x_def by simp
  ultimately show ?thesis unfolding val by (intro conjI run) (simp only:)
qed

end
