(* ===== verification/Spec2Isabelle.thy ===== *)
theory Spec2Isabelle
  imports Decode_Properties Machine_Properties Interp_Properties Trace_Properties Shim_Properties
    Fp_Properties
begin

text \<open>
  CORACLE is an ARM64 emulator written in Rust for WebAssembly. This library models the emulator's
  crates (\<open>src/crates/core\<close>, \<open>machine\<close>, \<open>devices\<close>, \<open>wasm\<close>) and the differential
  comparison of its trace files (\<open>src/tests/differ\<close>), and proves the properties that make each part correct.

  \<^bold>\<open>The program.\<close> A 32-bit instruction word is decoded (\<open>decode/\<close>) to an \<open>Instruction\<close>. The interpreter
  (\<open>interp/\<close>) fetches a word from guest memory, looks it up in a decode cache, dispatches on the opcode
  over the register file, and either advances, branches or traps; a trap is recorded in a bounded log.
  With a trace sink attached every retired instruction becomes a block of register deltas in the CDT
  byte stream (\<open>trace/\<close>), which a differential test reads back and compares with QEMU. The Linux shim
  (\<open>shim/\<close>) runs a user-mode guest: it catches supervisor calls, services them against a host interface
  and an \<open>mmap\<close> arena, and resumes. The floating-point unit (\<open>fp/\<close>) computes on raw bits: an engine
  selects between a bit-exact software implementation and the host's own float operators according to
  FPCR, and accumulates exception flags in FPSR. No dispatch arm calls the engine yet; it is a component
  of its own.

  \<^bold>\<open>Conventions\<close> (theory \<open>Prelude\<close>). A Rust integer is a word of its width. A function that can panic
  (overflow, index, shift amount, unwrap) returns an option, and \<open>None\<close> is the panic: a statement
  \<open>f x = Some y\<close> says that it does not. A mutable receiver is a record that is returned updated. A trait
  is a record of its methods and a locale of the laws its clients rely on.

  \<^bold>\<open>Decoder.\<close> \<open>Opcodes\<close> and \<open>Instruction\<close> hold the data (\<open>op.rs\<close>, \<open>operand.rs\<close>, \<open>address.rs\<close>,
  \<open>instruction.rs\<close>); \<open>Decode_Fields\<close> the field extraction; \<open>Decode_Immediate\<close>, \<open>Decode_Register\<close>,
  \<open>Decode_Branch\<close>, \<open>Decode_Memory\<close>, \<open>Decode_Vec_Memory\<close>, \<open>Decode_Scalar_Fp\<close> and \<open>Decode_Neon\<close> one
  encoding group each; \<open>Decode\<close> the entry point. Every group is an interpretation of the locale
  \<open>group_decoder\<close> (no panic, a well-formed instruction that keeps its encoding), from which
  \<open>Decode_Properties\<close> gets totality, beside the meaning of the logical-immediate expansion.

  \<^bold>\<open>Registers, datapath, memory.\<close> \<open>Regs\<close> models \<open>reg.rs\<close>, \<open>pstate.rs\<close> and \<open>regfile.rs\<close> with the locale
  \<open>register_bank\<close>; \<open>Flags\<close> and \<open>Fetch\<close> the adders, conditions, shifted and extended operands and
  effective addresses of \<open>interp/\<close>; \<open>Guest_Memory\<close> the layout arithmetic of guest RAM; \<open>Memory\<close> the trait
  \<open>Memory\<close> (locale \<open>guest_storage\<close>) and \<open>FlatMemory\<close>. \<open>Machine_Properties\<close> states what a sum, a shift, a
  comparison and an access mean over the integers.

  \<^bold>\<open>Interpreter.\<close> \<open>Cache\<close>, \<open>Bounded_Log\<close> and \<open>Trap_Log\<close> are the decode cache and the trap log; \<open>Interp\<close>
  the CPU, every dispatch arm, \<open>step\<close> and \<open>run\<close> in the locale \<open>machine\<close>, which joins a memory and a
  sink. \<open>Isa\<close> is an abstract instruction-set specification with no cache, trace or log, and the proof
  that \<open>step\<close> refines it. \<open>Interp_Properties\<close> holds refinement, precise traps, budget exactness, resumption
  and that tracing is invisible to the guest. The loop of \<open>run\<close> recurses on the remaining budget, so it
  needs no further bound.

  \<^bold>\<open>Trace.\<close> \<open>Trace_Sink\<close> has the register deltas and the sink trait, \<open>Cdt_Writer\<close> the writer, \<open>Cdt_Reader\<close>
  the JavaScript reader, \<open>Traced_Machine\<close> and \<open>Run_Trace\<close> the interpreter with a writer attached.
  \<open>Trace_Compare\<close> has the comparison tool: the state replayed from a trace and the lockstep comparison
  (\<open>compare.mjs\<close>), the floating-point policies (\<open>fp_policy.mjs\<close>) and the exit code of the command
  (\<open>diff.mjs\<close>, on parsed options and file contents). \<open>Trace_Properties\<close> shows that the stream round-trips,
  that deltas are sufficient and canonical, that the file of a run replays the run, that the comparison
  finds the first divergence, and end to end that it matches the precise traces of two runs exactly when
  the registers agree at every instruction.

  \<^bold>\<open>Shim.\<close> \<open>Memory_Map\<close> is the break and the arena, \<open>Host\<close> the host trait (locale \<open>host_io\<close>) and the
  capturing host with the text of its output (\<open>Utf8\<close>, whose validity check accepts exactly the encodings of
  scalar values), \<open>Kernel_Structs\<close> the structures written to the guest, \<open>Shim\<close> every system-call handler,
  \<open>Shim_Run\<close> the run loop over any machine and host (locale \<open>linux_shim\<close>). The loop is a
  partial function into option; \<open>Shim_Properties\<close> proves that it returns for every guest, that servicing a call is safe, and that granted blocks are disjoint.

  \<^bold>\<open>Floating point.\<close> \<open>Fp_Operand\<close> models \<open>operand.rs\<close>, \<open>control.rs\<close> and \<open>nan.rs\<close>; \<open>Fp_Decompose\<close>,
  \<open>Fp_Arithmetic\<close>, \<open>Fp_Fused\<close>, \<open>Fp_Compare\<close> and \<open>Fp_Convert\<close> the files of \<open>softfloat/\<close> by those names;
  \<open>Fp_Backend\<close> the trait and \<open>Fp_Engine\<close> both backends and the engine. \<open>Fp_Value\<close> is the specification:
  the real value of a bit pattern, rounding of a real number once in a mode, overflow, and the exception
  flags. \<open>Fp_Rounding\<close> and \<open>Fp_Pack\<close> relate unpacking, normalisation and packing to it with one invariant,
  a significand with a tail below its last place that the sticky bit stands for; \<open>Fp_Add\<close>, \<open>Fp_Mul_Div\<close>,
  \<open>Fp_Order\<close>, \<open>Fp_Conversions\<close>, \<open>Fp_Integral\<close> and \<open>Fp_Fma\<close> the operations. \<open>Fp_Adequacy\<close> shows that rounding by the
  quantum, in the nearest modes, picks a closest number of the format. \<open>Fp_Backends\<close> states the contract of a backend
  (locale \<open>fp_backend\<close>), interprets it on the software backend, and derives it for the native backend from
  the laws of an IEEE host (locale \<open>ieee_host\<close>, with the software operators as an instance); the engine's
  state machine is there too. \<open>Fp_Total\<close> states that a backend never panics and returns bits of the
  destination's width on every operand, special ones included and in every mode (locale
  \<open>total_backend\<close>), interprets it on both backends, and concludes that every run of the engine ends. The loops \<open>normalise\<close> and \<open>isqrt_u128\<close> are functions with termination proofs.

  Correct rounding is stated for finite operands without flush-to-zero and without the internal mode
  \<open>Odd\<close>, which FPCR cannot select. \<open>Fp_Flush\<close> reduces the arithmetic under flush-to-zero to the arithmetic
  without it and states what the flag does over real values: which operands count as zero, which results
  become a zero of their sign, and the flags this raises. \<open>Fp_Order\<close> states NaN results bit by bit. Modelling showed where the code departs from it: a subnormal result
  that rounds up to a power of two is halved (\<open>subnormal_carry\<close>; the predicate \<open>packed_result\<close> of the
  conclusions says when and how, so that multiplication, division and conversions are determined on all
  finite operands, and \<open>subnormal_carry_halves\<close> exhibits it); a fused multiply-add of opposite signs loses the borrow of the bits it
  shifts out; a double of 2^128 or more wraps on its way to an integer.

  \<^bold>\<open>Not modelled.\<close> The host's float operators and the build-time feature \<open>fp-precise\<close> are arguments.
  The unit tests, benches and integration tests drive the modelled code; of \<open>tests/differ\<close> the parsing of
  the command line, the text of reports and the scripts that perturb and print traces are left out; the
  history depth of the command is an integer, where JavaScript would also take a fraction; the QEMU plugin is C
  against an interface that is not part of the repository; \<open>js/\<close>, \<open>kernel/\<close> and \<open>spike/\<close> are loaders,
  configuration and shell scripts.
\<close>

end
